(* ===== verification/Esp_Prelude.thy ===== *)
theory Esp_Prelude
  imports Main "HOL-Library.Word"
begin

text \<open>
  Shared vocabulary of the development. Machine integers are words of their C width, memory is a
  flat byte store indexed by addresses (pointers are addresses, \<open>NULL\<close> is \<open>0\<close>), and the lemmas
  below describe block reads and writes (\<open>memcpy\<close>, \<open>memset\<close>) and circular reads, on which the
  two ring buffers, the framing protocol and the MQTT message encoder rest.
\<close>

unbundle bit_operations_syntax

type_synonym u8 = "8 word"
type_synonym u16 = "16 word"
type_synonym u32 = "32 word"
type_synonym addr = nat
type_synonym mem = "addr \<Rightarrow> u8"

named_theorems mem_simps \<open>reading back what was written to the flat store\<close>
named_theorems ring_simps \<open>arithmetic of circular positions\<close>

section \<open>Block reads and writes\<close>

definition mem_read :: "mem \<Rightarrow> addr \<Rightarrow> nat \<Rightarrow> u8 list" where
  "mem_read m a n = map m [a..<a + n]"

definition mem_write :: "mem \<Rightarrow> addr \<Rightarrow> u8 list \<Rightarrow> mem" where
  "mem_write m a bs = (\<lambda>x. if a \<le> x \<and> x < a + length bs then bs ! (x - a) else m x)"

definition disjnt_blk :: "addr \<Rightarrow> nat \<Rightarrow> addr \<Rightarrow> nat \<Rightarrow> bool" where
  "disjnt_blk a n b k \<longleftrightarrow> a + n \<le> b \<or> b + k \<le> a"

definition same_outside :: "mem \<Rightarrow> mem \<Rightarrow> addr \<Rightarrow> nat \<Rightarrow> bool" where
  "same_outside m m' a n \<longleftrightarrow> (\<forall>x. x < a \<or> a + n \<le> x \<longrightarrow> m' x = m x)"

section \<open>Circular reads\<close>

definition ring_read :: "mem \<Rightarrow> addr \<Rightarrow> nat \<Rightarrow> nat \<Rightarrow> nat \<Rightarrow> u8 list" where
  "ring_read m base n off k = map (\<lambda>i. m (base + (off + i) mod n)) [0..<k]"

section \<open>Lemmas\<close>

lemma length_mem_read [simp]: "length (mem_read m a n) = n"
  by (simp add: mem_read_def)

lemma mem_read_0 [simp]: "mem_read m a 0 = []"
  by (simp add: mem_read_def)

lemma nth_mem_read [simp]: "i < n \<Longrightarrow> mem_read m a n ! i = m (a + i)"
  by (simp add: mem_read_def)

lemma mem_read_Suc: "mem_read m a (Suc n) = m a # mem_read m (Suc a) n"
  by (rule nth_equalityI) (auto simp: nth_Cons split: nat.splits)

lemma mem_read_add: "mem_read m a (i + j) = mem_read m a i @ mem_read m (a + i) j"
  by (rule nth_equalityI) (auto simp: nth_append)

lemma mem_read_cong:
  assumes "\<And>x. a \<le> x \<Longrightarrow> x < a + n \<Longrightarrow> m x = m' x"
  shows "mem_read m a n = mem_read m' a n"
  by (rule nth_equalityI) (auto simp: assms)

lemma mem_write_Nil [simp]: "mem_write m a [] = m"
  by (auto simp: mem_write_def fun_eq_iff)

lemma mem_write_apply_out [mem_simps]:
  "x < a \<or> a + length bs \<le> x \<Longrightarrow> mem_write m a bs x = m x"
  by (auto simp: mem_write_def)

lemma mem_write_apply_in [mem_simps]:
  "i < length bs \<Longrightarrow> mem_write m a bs (a + i) = bs ! i"
  by (auto simp: mem_write_def)

lemma mem_read_write_same [simp]: "mem_read (mem_write m a bs) a (length bs) = bs"
  by (rule nth_equalityI) (auto simp: mem_write_def)

lemma mem_read_write_eq [mem_simps]:
  "n = length bs \<Longrightarrow> mem_read (mem_write m a bs) a n = bs"
  by simp

lemma mem_read_write_disjnt [mem_simps]:
  "disjnt_blk a n b (length bs) \<Longrightarrow> mem_read (mem_write m b bs) a n = mem_read m a n"
  by (rule mem_read_cong) (auto simp: mem_write_def disjnt_blk_def)

lemma mem_read_upd_out [mem_simps]:
  "x < a \<or> a + n \<le> x \<Longrightarrow> mem_read (m(x := v)) a n = mem_read m a n"
  by (rule mem_read_cong) auto

lemma mem_write_Cons: "mem_write m a (b # bs) = mem_write (m(a := b)) (Suc a) bs"
proof
  fix x
  show "mem_write m a (b # bs) x = mem_write (m(a := b)) (Suc a) bs x"
    by (cases "x \<le> a") (auto simp: mem_write_def nth_Cons' Suc_diff_Suc)
qed

lemma mem_write_append:
  "mem_write m a (xs @ ys) = mem_write (mem_write m a xs) (a + length xs) ys"
  by (rule ext) (auto simp: mem_write_def nth_append)

lemma same_outside_refl [simp]: "same_outside m m a n"
  by (simp add: same_outside_def)

lemma same_outside_trans:
  "same_outside m m' a n \<Longrightarrow> same_outside m' m'' a n \<Longrightarrow> same_outside m m'' a n"
  by (auto simp: same_outside_def)

lemma same_outside_read:
  "same_outside m m' a n \<Longrightarrow> disjnt_blk b k a n \<Longrightarrow> mem_read m' b k = mem_read m b k"
  by (rule mem_read_cong) (auto simp: same_outside_def disjnt_blk_def)

lemma same_outside_write:
  "a \<le> b \<Longrightarrow> b + length bs \<le> a + n \<Longrightarrow> same_outside m (mem_write m b bs) a n"
  by (auto simp: same_outside_def mem_write_def)

lemma disjnt_blk_sym: "disjnt_blk a n b k \<longleftrightarrow> disjnt_blk b k a n"
  by (auto simp: disjnt_blk_def)

lemma unat_succ_less:
  fixes x y :: "'a::len word"
  assumes "x < y"
  shows "unat (x + 1) = Suc (unat x)"
proof -
  have "unat y < 2 ^ LENGTH('a)" by (rule unsigned_less)
  then have "unat x + 1 < 2 ^ LENGTH('a)"
    using assms unfolding word_less_nat_alt by linarith
  then show ?thesis by (simp add: unat_word_ariths)
qed

lemma unat_u8_less: "unat (x :: u8) < 256"
  by (rule order_less_le_trans [OF unsigned_less]) simp

lemma unat_u16_less: "unat (x :: u16) < 65536"
  by (rule order_less_le_trans [OF unsigned_less]) simp

lemma unat_of_nat_small: "n < 2 ^ LENGTH('a) \<Longrightarrow> unat (of_nat n :: 'a::len word) = n"
  by (simp add: unsigned_of_nat take_bit_nat_eq_self)

lemma ucast_of_unat: "unat (w :: 'a::len word) = n \<Longrightarrow> (ucast w :: 'b::len word) = of_nat n"
  by auto

lemma xor_cancel [simp]:
  fixes a b c :: "'a::len word"
  shows "a XOR c = b XOR c \<longleftrightarrow> a = b" "c XOR a = c XOR b \<longleftrightarrow> a = b"
  by (metis xor.assoc xor_self_eq xor.right_neutral) (metis xor.assoc xor_self_eq xor.left_neutral)

lemma word_exp_nz:
  assumes "n < LENGTH('a::len)"
  shows "(2 :: 'a word) ^ n \<noteq> 0"
proof
  assume z: "(2 :: 'a word) ^ n = 0"
  have "bit ((2 :: 'a word) ^ n) n" using assms by (simp add: bit_simps)
  then show False unfolding z by simp
qed

lemma push_or_take:
  fixes a b :: "'a::semiring_bit_operations"
  shows "push_bit n a OR take_bit n b = push_bit n a + take_bit n b"
  by (rule disjunctive_add [symmetric]) (auto simp: bit_push_bit_iff bit_take_bit_iff)

lemma unat_be_pair:
  fixes x y :: "8 word"
  assumes "16 \<le> LENGTH('a::len)"
  shows "unat (push_bit 8 (ucast x :: 'a word) OR ucast y) = 256 * unat x + unat y"
proof -
  have ux: "unat x < 256" "unat y < 256" using unsigned_less [of x] unsigned_less [of y] by simp_all
  have "(2::nat) ^ 16 \<le> 2 ^ LENGTH('a)" using assms by (rule power_increasing) simp
  then have big: "65536 \<le> (2::nat) ^ LENGTH('a)" by simp
  have u: "unat (ucast x :: 'a word) = unat x" "unat (ucast y :: 'a word) = unat y"
    using ux big by (simp_all add: unsigned_ucast_eq take_bit_nat_eq_self)
  have "unat (push_bit 8 (ucast x :: 'a word)) = push_bit 8 (unat x)"
  proof -
    have "push_bit 8 (unat x) < 2 ^ LENGTH('a)" using ux big by (simp add: push_bit_eq_mult)
    then show ?thesis by (simp only: unsigned_push_bit_eq u take_bit_nat_eq_self)
  qed
  then have "unat (push_bit 8 (ucast x :: 'a word) OR ucast y) = push_bit 8 (unat x) OR unat y"
    using u by (simp add: unsigned_or_eq)
  also have "unat y = take_bit 8 (unat y)" using ux by (simp add: take_bit_nat_eq_self)
  also have "push_bit 8 (unat x) OR take_bit 8 (unat y) = 256 * unat x + unat y"
    using push_or_take [of 8 "unat x" "unat y"] ux
    by (simp add: take_bit_nat_eq_self push_bit_eq_mult)
  finally show ?thesis .
qed

lemma length_ring_read [simp]: "length (ring_read m b n off k) = k"
  by (simp add: ring_read_def)

lemma ring_read_0 [simp]: "ring_read m b n off 0 = []"
  by (simp add: ring_read_def)

lemma ring_read_cong_mod:
  "off mod n = off' mod n \<Longrightarrow> ring_read m b n off k = ring_read m b n off' k"
  unfolding ring_read_def by (intro map_cong refl arg_cong [of _ _ "\<lambda>x. m (b + x)"] mod_add_cong)

lemma ring_read_Cons:
  "ring_read m b n off (Suc k) = m (b + off mod n) # ring_read m b n (Suc off) k"
  by (rule nth_equalityI) (auto simp: ring_read_def nth_Cons simp del: upt_Suc split: nat.splits)

lemma ring_read_snoc:
  "ring_read m b n off (Suc k) = ring_read m b n off k @ [m (b + (off + k) mod n)]"
  by (simp add: ring_read_def)

lemma ring_slot_free:
  fixes n :: nat
  assumes "i < k" "k < n"
  shows "(off + i) mod n \<noteq> (off + k) mod n"
proof
  assume "(off + i) mod n = (off + k) mod n"
  then have "(off + k - (off + i)) mod n = 0"
    by (metis mod_eq_dvd_iff_nat add_left_mono assms(1) dvd_imp_mod_0 less_imp_le)
  then have "(k - i) mod n = 0" by simp
  with assms show False by simp
qed

lemma ring_read_upd_free [ring_simps]:
  assumes "k < n"
  shows "ring_read (m(b + (off + k) mod n := v)) b n off k = ring_read m b n off k"
  using assms by (auto simp: ring_read_def ring_slot_free)

lemma ring_succ [ring_simps]:
  fixes p :: nat
  assumes "p < n"
  shows "(if n \<le> Suc p then 0 else Suc p) = Suc p mod n"
  using assms by (cases "Suc p = n") auto

end
