(* ===== verification/Fifo_Spec.thy ===== *)
theory Fifo_Spec
  imports Esp_Prelude
begin

text \<open>
  The contract of a bounded byte queue, the interface between a ring buffer and its clients. The
  abstract queue is a list with a capacity (\<open>bq_step\<close>, \<open>bq_run\<close>); the locale \<open>byte_fifo\<close> states
  what an implementation promises, and its lemmas, proved once, give every client what it needs:
  bulk insertion (\<open>fifo_puts\<close>) and refinement of any command sequence (\<open>fifo_run\<close>). Both ring
  buffers of the repository, \<^verbatim>\<open>RINGBUF\<close> and \<^verbatim>\<open>CBUFF\<close>, are interpretations.
\<close>

section \<open>The abstract bounded queue\<close>

datatype fifo_cmd = Put_cmd u8 | Get_cmd

datatype fifo_out = Put_res bool | Get_res "u8 option"

fun bq_step :: "nat \<Rightarrow> u8 list \<Rightarrow> fifo_cmd \<Rightarrow> u8 list \<times> fifo_out" where
  "bq_step n xs (Put_cmd c) =
     (if length xs < n then (xs @ [c], Put_res True) else (xs, Put_res False))"
| "bq_step n xs Get_cmd = (case xs of [] \<Rightarrow> ([], Get_res None) | y # ys \<Rightarrow> (ys, Get_res (Some y)))"

fun bq_run :: "nat \<Rightarrow> u8 list \<Rightarrow> fifo_cmd list \<Rightarrow> u8 list \<times> fifo_out list" where
  "bq_run n xs [] = (xs, [])"
| "bq_run n xs (c # cs) =
     (let (xs', o1) = bq_step n xs c; (xs'', os) = bq_run n xs' cs in (xs'', o1 # os))"

section \<open>Running an implementation\<close>

fun fifo_step ::
  "('q \<Rightarrow> u8 \<Rightarrow> 'q \<times> bool) \<Rightarrow> ('q \<Rightarrow> 'q \<times> u8 option) \<Rightarrow> 'q \<Rightarrow> fifo_cmd \<Rightarrow> 'q \<times> fifo_out"
where
  "fifo_step put get q (Put_cmd c) = (let (q', ok) = put q c in (q', Put_res ok))"
| "fifo_step put get q Get_cmd = (let (q', r) = get q in (q', Get_res r))"

fun fifo_run ::
  "('q \<Rightarrow> u8 \<Rightarrow> 'q \<times> bool) \<Rightarrow> ('q \<Rightarrow> 'q \<times> u8 option) \<Rightarrow> 'q \<Rightarrow> fifo_cmd list \<Rightarrow>
     'q \<times> fifo_out list"
where
  "fifo_run put get q [] = (q, [])"
| "fifo_run put get q (c # cs) =
     (let (q', o1) = fifo_step put get q c; (q'', os) = fifo_run put get q' cs
      in (q'', o1 # os))"

text \<open>Inserting bytes one after the other, stopping at the first refusal.\<close>

fun fifo_puts :: "('q \<Rightarrow> u8 \<Rightarrow> 'q \<times> bool) \<Rightarrow> 'q \<Rightarrow> u8 list \<Rightarrow> 'q \<times> bool" where
  "fifo_puts put q [] = (q, True)"
| "fifo_puts put q (b # bs) =
     (case put q b of (q', ok) \<Rightarrow> if ok then fifo_puts put q' bs else (q', False))"

section \<open>The contract\<close>

locale byte_fifo =
  fixes put :: "'q \<Rightarrow> u8 \<Rightarrow> 'q \<times> bool"
    and get :: "'q \<Rightarrow> 'q \<times> u8 option"
    and contents :: "'q \<Rightarrow> u8 list"
    and cap :: "'q \<Rightarrow> nat"
    and invar :: "'q \<Rightarrow> bool"
  assumes put_room: "invar q \<Longrightarrow> length (contents q) < cap q \<Longrightarrow>
      \<exists>q'. put q c = (q', True) \<and> contents q' = contents q @ [c] \<and> invar q' \<and> cap q' = cap q"
    and put_full: "invar q \<Longrightarrow> cap q \<le> length (contents q) \<Longrightarrow> put q c = (q, False)"
    and get_empty: "invar q \<Longrightarrow> contents q = [] \<Longrightarrow> get q = (q, None)"
    and get_head: "invar q \<Longrightarrow> contents q = x # xs \<Longrightarrow>
      \<exists>q'. get q = (q', Some x) \<and> contents q' = xs \<and> invar q' \<and> cap q' = cap q"
    and fits: "invar q \<Longrightarrow> length (contents q) \<le> cap q"
begin

lemma step_refines:
  assumes "invar q"
  shows "\<exists>q'. fifo_step put get q c = (q', snd (bq_step (cap q) (contents q) c)) \<and>
           contents q' = fst (bq_step (cap q) (contents q) c) \<and> invar q' \<and> cap q' = cap q"
proof (cases c)
  case (Put_cmd b)
  show ?thesis
  proof (cases "length (contents q) < cap q")
    case True
    then show ?thesis using put_room [OF assms True, of b] Put_cmd by auto
  next
    case False
    then show ?thesis using put_full [OF assms, of b] assms Put_cmd by auto
  qed
next
  case Get_cmd
  show ?thesis
  proof (cases "contents q")
    case Nil
    then show ?thesis using get_empty [OF assms] assms Get_cmd by simp
  next
    case (Cons x xs)
    then show ?thesis using get_head [OF assms Cons] Get_cmd by auto
  qed
qed

lemma run_refines:
  assumes "invar q"
  shows "\<exists>q'. fifo_run put get q cs = (q', snd (bq_run (cap q) (contents q) cs)) \<and>
           contents q' = fst (bq_run (cap q) (contents q) cs) \<and> invar q' \<and> cap q' = cap q"
  using assms
proof (induction cs arbitrary: q)
  case Nil
  then show ?case by simp
next
  case (Cons c cs)
  obtain q1 where s1: "fifo_step put get q c = (q1, snd (bq_step (cap q) (contents q) c))"
    and c1: "contents q1 = fst (bq_step (cap q) (contents q) c)" "invar q1" "cap q1 = cap q"
    using step_refines [OF Cons.prems, of c] by blast
  from Cons.IH [OF c1(2)] obtain q2 where
    "fifo_run put get q1 cs = (q2, snd (bq_run (cap q1) (contents q1) cs))"
    "contents q2 = fst (bq_run (cap q1) (contents q1) cs)" "invar q2" "cap q2 = cap q1"
    by blast
  then show ?case using s1 c1 by (auto simp: split_def Let_def)
qed

lemma puts_spec:
  assumes "invar q"
  shows "\<exists>q'. fifo_puts put q bs = (q', length (contents q) + length bs \<le> cap q) \<and>
           contents q' = contents q @ take (cap q - length (contents q)) bs \<and>
           invar q' \<and> cap q' = cap q"
  using assms
proof (induction bs arbitrary: q)
  case Nil
  then show ?case using fits by simp
next
  case (Cons b bs)
  show ?case
  proof (cases "length (contents q) < cap q")
    case True
    then obtain q1 where q1: "put q b = (q1, True)" "contents q1 = contents q @ [b]"
      "invar q1" "cap q1 = cap q"
      using put_room [OF Cons.prems] by blast
    have "cap q - length (contents q) = Suc (cap q - Suc (length (contents q)))"
      using True by simp
    then show ?thesis using Cons.IH [OF q1(3)] q1 by auto
  next
    case False
    then show ?thesis using put_full [OF Cons.prems] Cons.prems by simp
  qed
qed

end

end
