(* ===== verification/Ringbuf.thy ===== *)
theory Ringbuf
  imports Fifo_Spec
begin

text \<open>
  The byte ring buffer of \<^verbatim>\<open>app_common/mqtt/ringbuf.c\<close>. The struct keeps three pointers into the
  caller's array and a fill count; the array itself is in the flat store. \<open>I32\<close> fields are \<open>int\<close>:
  the guards keep \<open>fill_cnt\<close> between \<open>0\<close> and \<open>size\<close>, so the machine type never wraps
  (\<open>ring_inv\<close> is the invariant that says so).
\<close>

section \<open>Model\<close>

record RINGBUF =
  p_o :: addr
  p_r :: addr
  p_w :: addr
  fill_cnt :: int
  rb_size :: int

definition RINGBUF_Init :: "RINGBUF option \<Rightarrow> addr \<Rightarrow> int \<Rightarrow> RINGBUF option \<times> int" where
  "RINGBUF_Init r buf sz =
     (case r of
        None \<Rightarrow> (None, -1)
      | Some r0 \<Rightarrow>
          if buf = 0 \<or> sz < 2 then (Some r0, -1)
          else (Some (r0\<lparr>p_o := buf, p_r := buf, p_w := buf, fill_cnt := 0, rb_size := sz\<rparr>), 0))"

definition RINGBUF_Put :: "RINGBUF \<Rightarrow> mem \<Rightarrow> u8 \<Rightarrow> RINGBUF \<times> mem \<times> int" where
  "RINGBUF_Put r m c =
     (if fill_cnt r \<ge> rb_size r then (r, m, -1)
      else
        let r1 = r\<lparr>fill_cnt := fill_cnt r + 1\<rparr>;
            m1 = m(p_w r1 := c);
            r2 = r1\<lparr>p_w := p_w r1 + 1\<rparr>;
            r3 = (if int (p_w r2) \<ge> int (p_o r2) + rb_size r2 then r2\<lparr>p_w := p_o r2\<rparr> else r2)
        in (r3, m1, 0))"

definition RINGBUF_Get :: "RINGBUF \<Rightarrow> mem \<Rightarrow> u8 \<Rightarrow> RINGBUF \<times> u8 \<times> int" where
  "RINGBUF_Get r m c =
     (if fill_cnt r \<le> 0 then (r, c, -1)
      else
        let r1 = r\<lparr>fill_cnt := fill_cnt r - 1\<rparr>;
            c1 = m (p_r r1);
            r2 = r1\<lparr>p_r := p_r r1 + 1\<rparr>;
            r3 = (if int (p_r r2) \<ge> int (p_o r2) + rb_size r2 then r2\<lparr>p_r := p_o r2\<rparr> else r2)
        in (r3, c1, 0))"

section \<open>Invariant and abstraction\<close>

definition ring_inv :: "RINGBUF \<Rightarrow> bool" where
  "ring_inv r \<longleftrightarrow>
     2 \<le> rb_size r \<and> 0 \<le> fill_cnt r \<and> fill_cnt r \<le> rb_size r \<and>
     p_o r \<le> p_r r \<and> p_r r < p_o r + nat (rb_size r) \<and>
     p_w r = p_o r + (p_r r - p_o r + nat (fill_cnt r)) mod nat (rb_size r)"

definition ring_contents :: "RINGBUF \<Rightarrow> mem \<Rightarrow> u8 list" where
  "ring_contents r m =
     ring_read m (p_o r) (nat (rb_size r)) (p_r r - p_o r) (nat (fill_cnt r))"

text \<open>The operations in the shape of the queue contract.\<close>

definition rb_put :: "RINGBUF \<times> mem \<Rightarrow> u8 \<Rightarrow> (RINGBUF \<times> mem) \<times> bool" where
  "rb_put q c = (case RINGBUF_Put (fst q) (snd q) c of (r, m, ret) \<Rightarrow> ((r, m), ret = 0))"

definition rb_get :: "RINGBUF \<times> mem \<Rightarrow> (RINGBUF \<times> mem) \<times> u8 option" where
  "rb_get q = (case RINGBUF_Get (fst q) (snd q) 0 of
     (r, c, ret) \<Rightarrow> ((r, snd q), if ret = 0 then Some c else None))"

section \<open>Lemmas\<close>

lemma ring_contents_length [simp]: "length (ring_contents r m) = nat (fill_cnt r)"
  by (simp add: ring_contents_def)

lemma RINGBUF_Init_ok:
  assumes "buf \<noteq> 0" "2 \<le> sz"
  shows "RINGBUF_Init (Some r0) buf sz =
    (Some (r0\<lparr>p_o := buf, p_r := buf, p_w := buf, fill_cnt := 0, rb_size := sz\<rparr>), 0)"
  using assms by (simp add: RINGBUF_Init_def)

lemma RINGBUF_Init_inv:
  assumes "RINGBUF_Init r0 buf sz = (Some r, 0)"
  shows "ring_inv r \<and> ring_contents r m = [] \<and> rb_size r = sz \<and> p_o r = buf"
  using assms
  by (auto simp: RINGBUF_Init_def ring_inv_def ring_contents_def split: option.splits if_splits)

lemma RINGBUF_Put_full:
  "rb_size r \<le> fill_cnt r \<Longrightarrow> RINGBUF_Put r m c = (r, m, -1)"
  by (simp add: RINGBUF_Put_def)

lemma RINGBUF_Put_room:
  assumes inv: "ring_inv r" and room: "fill_cnt r < rb_size r"
  defines "n \<equiv> nat (rb_size r)" and "k \<equiv> nat (fill_cnt r)" and "o1 \<equiv> p_r r - p_o r"
  shows "RINGBUF_Put r m c =
    (r\<lparr>fill_cnt := fill_cnt r + 1, p_w := p_o r + (o1 + Suc k) mod n\<rparr>,
     m(p_o r + (o1 + k) mod n := c), 0)"
proof -
  have n: "0 < n" "int n = rb_size r" using inv by (auto simp: ring_inv_def n_def)
  have pw: "p_w r = p_o r + (o1 + k) mod n"
    using inv by (simp add: ring_inv_def n_def k_def o1_def)
  have lt: "(o1 + k) mod n < n" using n by simp
  have "(if int (p_w r + 1) \<ge> int (p_o r) + rb_size r then p_o r else p_w r + 1)
      = p_o r + (if n \<le> Suc ((o1 + k) mod n) then 0 else Suc ((o1 + k) mod n))"
    using pw n by auto
  also have "\<dots> = p_o r + (o1 + Suc k) mod n"
    using ring_succ [OF lt] by (simp add: mod_Suc_eq)
  finally show ?thesis
    using room pw by (auto simp: RINGBUF_Put_def Let_def)
qed

lemma RINGBUF_Put_inv:
  assumes inv: "ring_inv r" and put: "RINGBUF_Put r m c = (r', m', ret)"
  shows "ring_inv r' \<and> rb_size r' = rb_size r \<and> p_o r' = p_o r \<and>
         same_outside m m' (p_o r) (nat (rb_size r))"
proof (cases "fill_cnt r < rb_size r")
  case False
  then show ?thesis using inv put by (simp add: RINGBUF_Put_full)
next
  case True
  define w where "w = (p_r r - p_o r + nat (fill_cnt r)) mod nat (rb_size r)"
  have "w < nat (rb_size r)" using inv by (simp add: ring_inv_def w_def)
  then have out: "same_outside m (m(p_o r + w := c)) (p_o r) (nat (rb_size r))"
    by (auto simp: same_outside_def)
  have k: "nat (fill_cnt r + 1) = Suc (nat (fill_cnt r))"
    using inv by (simp add: ring_inv_def nat_add_distrib)
  from put RINGBUF_Put_room [OF inv True, of m c, folded w_def]
  have "m' = m(p_o r + w := c)" and "r' = r\<lparr>fill_cnt := fill_cnt r + 1,
    p_w := p_o r + (p_r r - p_o r + Suc (nat (fill_cnt r))) mod nat (rb_size r)\<rparr>"
    by simp_all
  then show ?thesis using inv True k out by (simp add: ring_inv_def)
qed

lemma RINGBUF_Put_contents:
  assumes inv: "ring_inv r" and room: "fill_cnt r < rb_size r"
    and put: "RINGBUF_Put r m c = (r', m', ret)"
  shows "ret = 0 \<and> fill_cnt r' = fill_cnt r + 1 \<and> ring_contents r' m' = ring_contents r m @ [c]"
proof -
  have k: "nat (fill_cnt r) < nat (rb_size r)" "nat (fill_cnt r + 1) = Suc (nat (fill_cnt r))"
    using inv room by (auto simp: ring_inv_def nat_add_distrib)
  then show ?thesis
    using put RINGBUF_Put_room [OF inv room, of m c]
    by (auto simp: ring_contents_def ring_read_snoc ring_read_upd_free)
qed

lemma RINGBUF_Get_empty: "fill_cnt r \<le> 0 \<Longrightarrow> RINGBUF_Get r m c = (r, c, -1)"
  by (simp add: RINGBUF_Get_def)

lemma RINGBUF_Get_nonempty:
  assumes inv: "ring_inv r" and ne: "0 < fill_cnt r"
    and get: "RINGBUF_Get r m c = (r', c', ret)"
  shows "ret = 0 \<and> ring_inv r' \<and> ring_contents r m = c' # ring_contents r' m \<and>
         fill_cnt r' = fill_cnt r - 1 \<and> rb_size r' = rb_size r \<and> p_o r' = p_o r"
proof -
  define n k o1 where "n = nat (rb_size r)" and "k = nat (fill_cnt r - 1)" and "o1 = p_r r - p_o r"
  have n: "0 < n" "int n = rb_size r" "o1 < n" "p_r r = p_o r + o1" "nat (fill_cnt r) = Suc k"
    using inv ne by (auto simp: ring_inv_def n_def o1_def k_def)
  have c': "c' = m (p_r r)" and ret: "ret = 0"
    using get ne by (auto simp: RINGBUF_Get_def Let_def)
  have "(if int (p_r r + 1) \<ge> int (p_o r) + rb_size r then p_o r else p_r r + 1)
      = p_o r + (if n \<le> Suc o1 then 0 else Suc o1)"
    using n by auto
  also have "\<dots> = p_o r + Suc o1 mod n" using ring_succ [OF n(3)] by simp
  finally have r': "r' = r\<lparr>fill_cnt := fill_cnt r - 1, p_r := p_o r + Suc o1 mod n\<rparr>"
    using get ne by (auto simp: RINGBUF_Get_def Let_def)
  have "(Suc o1 mod n + k) mod n = (o1 + Suc k) mod n" by (simp add: mod_add_left_eq)
  then have "ring_inv r'"
    using inv r' n ne by (auto simp: ring_inv_def n_def k_def [symmetric] o1_def [symmetric])
  moreover have "ring_contents r m = c' # ring_contents r' m"
    using n r' c' ring_read_cong_mod [of "Suc o1 mod n" n "Suc o1"]
    by (simp add: ring_contents_def ring_read_Cons n_def [symmetric] k_def [symmetric]
        o1_def [symmetric])
  ultimately show ?thesis using ret r' by simp
qed

lemma ring_contents_nonempty:
  "ring_contents r m = x # xs \<Longrightarrow> 0 < fill_cnt r"
  by (metis length_Cons nat_0_iff not_le_imp_less old.nat.distinct(2) ring_contents_length)

lemma ring_contents_cong:
  assumes "ring_inv r" "\<And>x. p_o r \<le> x \<Longrightarrow> x < p_o r + nat (rb_size r) \<Longrightarrow> m' x = m x"
  shows "ring_contents r m' = ring_contents r m"
  using assms by (auto simp: ring_contents_def ring_read_def ring_inv_def intro!: assms(2))

interpretation rb: byte_fifo rb_put rb_get "\<lambda>q. ring_contents (fst q) (snd q)"
  "\<lambda>q. nat (rb_size (fst q))" "\<lambda>q. ring_inv (fst q)"
proof (unfold_locales, goal_cases)
  case (1 q c)
  then have room: "fill_cnt (fst q) < rb_size (fst q)" by (simp add: ring_inv_def)
  obtain r' m' ret where put: "RINGBUF_Put (fst q) (snd q) c = (r', m', ret)"
    by (metis prod_cases3)
  then show ?case
    using RINGBUF_Put_contents [OF 1(1) room put] RINGBUF_Put_inv [OF 1(1) put]
    by (auto simp: rb_put_def)
next
  case (2 q c)
  then show ?case by (auto simp: rb_put_def RINGBUF_Put_full ring_inv_def)
next
  case (3 q)
  then have "fill_cnt (fst q) \<le> 0" by (metis length_0_conv nat_0_iff ring_contents_length)
  then show ?case by (simp add: rb_get_def RINGBUF_Get_empty)
next
  case (4 q x xs)
  obtain r' c' ret where get: "RINGBUF_Get (fst q) (snd q) 0 = (r', c', ret)"
    by (metis prod_cases3)
  then show ?case
    using RINGBUF_Get_nonempty [OF 4(1) ring_contents_nonempty [OF 4(2)] get] 4(2)
    by (auto simp: rb_get_def)
next
  case (5 q)
  then show ?case by (simp add: ring_inv_def nat_mono)
qed

lemma rb_put_frame:
  assumes "ring_inv r" "rb_put (r, m) c = ((r', m'), ok)"
  shows "ring_inv r'" "p_o r' = p_o r" "rb_size r' = rb_size r"
    "same_outside m m' (p_o r) (nat (rb_size r))"
  using assms RINGBUF_Put_inv [OF assms(1), of m c]
  by (auto simp: rb_put_def split: prod.splits)

lemma rb_get_frame:
  assumes "ring_inv r" "rb_get (r, m) = ((r', m'), c)"
  shows "ring_inv r' \<and> p_o r' = p_o r \<and> rb_size r' = rb_size r \<and> m' = m"
proof (cases "0 < fill_cnt r")
  case True
  then show ?thesis
    using assms RINGBUF_Get_nonempty [OF assms(1) True, of m 0]
    by (auto simp: rb_get_def split: prod.splits)
next
  case False
  then show ?thesis using assms by (auto simp: rb_get_def RINGBUF_Get_empty)
qed

lemma rb_run_frame:
  assumes "ring_inv r" "fifo_run rb_put rb_get (r, m) cs = ((r', m'), os)"
  shows "p_o r' = p_o r \<and> same_outside m m' (p_o r) (nat (rb_size r))"
  using assms
proof (induction cs arbitrary: r m os)
  case (Cons c cs)
  obtain r1 m1 o1 where st: "fifo_step rb_put rb_get (r, m) c = ((r1, m1), o1)"
    by (metis prod.collapse)
  obtain r2 m2 os2 where run: "fifo_run rb_put rb_get (r1, m1) cs = ((r2, m2), os2)"
    by (metis prod.collapse)
  have one: "ring_inv r1 \<and> p_o r1 = p_o r \<and> rb_size r1 = rb_size r \<and>
      same_outside m m1 (p_o r) (nat (rb_size r))"
    using st rb_put_frame [OF Cons.prems(1)] rb_get_frame [OF Cons.prems(1), of m r1 m1]
    by (cases c) (auto split: prod.splits)
  then show ?case
    using Cons.prems(2) st run Cons.IH [of r1 m1 os2] by (auto intro: same_outside_trans)
qed simp

section \<open>Properties\<close>

text \<open>
  C1. After a successful \<open>RINGBUF_Init\<close> on a block of \<open>sz\<close> bytes, every sequence of \<open>RINGBUF_Put\<close>
  and \<open>RINGBUF_Get\<close> calls answers exactly as a first-in first-out queue of capacity \<open>sz\<close> does (the
  full ring refuses, the empty ring refuses, bytes come out in order), keeps the pointer invariant,
  and writes no byte outside the block it was given.
\<close>

theorem RINGBUF_refines_bounded_queue:
  assumes "RINGBUF_Init (Some r0) buf sz = (Some r, 0)"
  shows "\<exists>r' m'. fifo_run rb_put rb_get (r, m) cs = ((r', m'), snd (bq_run (nat sz) [] cs)) \<and>
           ring_contents r' m' = fst (bq_run (nat sz) [] cs) \<and> ring_inv r' \<and>
           same_outside m m' buf (nat sz)"
proof -
  from RINGBUF_Init_inv [OF assms]
  have init: "ring_inv r" "ring_contents r m = []" "rb_size r = sz" "p_o r = buf" by auto
  obtain r' m' where
    "fifo_run rb_put rb_get (r, m) cs = ((r', m'), snd (bq_run (nat sz) [] cs))"
    "ring_contents r' m' = fst (bq_run (nat sz) [] cs)" "ring_inv r'"
    using rb.run_refines [of "(r, m)" cs] init by auto
  then show ?thesis using rb_run_frame [OF init(1)] init by blast
qed

theorem RINGBUF_refines_bounded_queue_witness:
  "\<exists>r' m'. fifo_run rb_put rb_get
     (\<lparr>p_o = 16, p_r = 16, p_w = 16, fill_cnt = 0, rb_size = 2\<rparr>, \<lambda>_. 0)
     [Put_cmd 5, Put_cmd 6, Put_cmd 7, Get_cmd, Put_cmd 8, Get_cmd, Get_cmd, Get_cmd] =
     ((r', m'), [Put_res True, Put_res True, Put_res False, Get_res (Some 5), Put_res True,
       Get_res (Some 6), Get_res (Some 8), Get_res None]) \<and>
     same_outside (\<lambda>_. 0) m' 16 2"
proof -
  have "RINGBUF_Init (Some \<lparr>p_o = 0, p_r = 0, p_w = 0, fill_cnt = 0, rb_size = 0\<rparr>) 16 2 =
      (Some \<lparr>p_o = 16, p_r = 16, p_w = 16, fill_cnt = 0, rb_size = 2\<rparr>, 0)"
    by (simp add: RINGBUF_Init_def)
  from RINGBUF_refines_bounded_queue [OF this, of "\<lambda>_. 0" "[Put_cmd 5, Put_cmd 6, Put_cmd 7,
      Get_cmd, Put_cmd 8, Get_cmd, Get_cmd, Get_cmd]"]
  show ?thesis by auto
qed

end
