(* ===== verification/Proto.thy ===== *)
theory Proto
  imports Ringbuf
begin

text \<open>
  The byte-stuffing protocol of \<^verbatim>\<open>app_common/mqtt/proto.c\<close>: a packet is sent as \<open>0x7E\<close>, the
  bytes with \<open>0x7D\<close>/\<open>0x7E\<close>/\<open>0x7F\<close> escaped, and \<open>0x7F\<close>. The C functions work on pointers into
  the flat store and on the ring buffer; \<open>frame\<close> and \<open>unframe\<close> are what they mean on byte lists.
  \<open>PROTO_Init\<close> leaves \<open>isBegin\<close> as it was, so \<open>PROTO_ParseRb\<close>, whose parser is a fresh stack
  object, takes the initial value of that object as an argument.
\<close>

section \<open>Model\<close>

record PROTO_PARSER =
  pp_buf :: addr
  bufSize :: u16
  dataLen :: u16
  isEsc :: u8
  isBegin :: u8
  pp_callback :: "(mem \<Rightarrow> mem) option"

definition PROTO_Init ::
  "PROTO_PARSER \<Rightarrow> (mem \<Rightarrow> mem) option \<Rightarrow> addr \<Rightarrow> u16 \<Rightarrow> PROTO_PARSER \<times> int" where
  "PROTO_Init p completeCallback buf bsize =
     (p\<lparr>pp_buf := buf, bufSize := bsize, dataLen := 0, pp_callback := completeCallback,
        isEsc := 0\<rparr>, 0)"

definition PROTO_ParseByte :: "PROTO_PARSER \<Rightarrow> mem \<Rightarrow> u8 \<Rightarrow> PROTO_PARSER \<times> mem \<times> int" where
  "PROTO_ParseByte p m v =
     (if v = 0x7D then (p\<lparr>isEsc := 1\<rparr>, m, -1)
      else if v = 0x7E then (p\<lparr>dataLen := 0, isEsc := 0, isBegin := 1\<rparr>, m, -1)
      else if v = 0x7F then
        (p\<lparr>isBegin := 0\<rparr>, (case pp_callback p of None \<Rightarrow> m | Some f \<Rightarrow> f m), 0)
      else if isBegin p = 0 then (p, m, -1)
      else
        let v1 = (if isEsc p \<noteq> 0 then v XOR 0x20 else v);
            p1 = (if isEsc p \<noteq> 0 then p\<lparr>isEsc := 0\<rparr> else p)
        in if dataLen p1 < bufSize p1
           then (p1\<lparr>dataLen := dataLen p1 + 1\<rparr>, m(pp_buf p1 + unat (dataLen p1) := v1), -1)
           else (p1, m, -1))"

fun PROTO_Parse_loop :: "PROTO_PARSER \<Rightarrow> mem \<Rightarrow> addr \<Rightarrow> nat \<Rightarrow> PROTO_PARSER \<times> mem" where
  "PROTO_Parse_loop p m buf 0 = (p, m)"
| "PROTO_Parse_loop p m buf (Suc n) =
     (case PROTO_ParseByte p m (m buf) of (p', m', r) \<Rightarrow> PROTO_Parse_loop p' m' (buf + 1) n)"

definition PROTO_Parse :: "PROTO_PARSER \<Rightarrow> mem \<Rightarrow> addr \<Rightarrow> u16 \<Rightarrow> PROTO_PARSER \<times> mem \<times> int" where
  "PROTO_Parse p m buf len = (case PROTO_Parse_loop p m buf (unat len) of (p', m') \<Rightarrow> (p', m', 0))"

lemma RINGBUF_Get_decreases:
  "(r', c', 0) = RINGBUF_Get r m c \<Longrightarrow> 0 < fill_cnt r \<and> fill_cnt r' < fill_cnt r"
  by (auto simp: RINGBUF_Get_def Let_def split: if_splits)

function PROTO_ParseRb_loop ::
  "RINGBUF \<Rightarrow> mem \<Rightarrow> PROTO_PARSER \<Rightarrow> u16 \<Rightarrow> u8 \<Rightarrow> RINGBUF \<times> mem \<times> u16 \<times> int" where
  "PROTO_ParseRb_loop r m p len c =
     (case RINGBUF_Get r m c of (r1, c1, got) \<Rightarrow>
        if got = 0 then
          (case PROTO_ParseByte p m c1 of (p1, m1, ret) \<Rightarrow>
             if ret = 0 then (r1, m1, dataLen p1, 0)
             else PROTO_ParseRb_loop r1 m1 p1 len c1)
        else (r1, m, len, -1))"
  by pat_completeness auto
termination
  by (relation "measure (\<lambda>(r, m, p, len, c). nat (fill_cnt r))")
     (auto dest: RINGBUF_Get_decreases)

definition PROTO_ParseRb ::
  "RINGBUF \<Rightarrow> mem \<Rightarrow> PROTO_PARSER \<Rightarrow> addr \<Rightarrow> u16 \<Rightarrow> u16 \<Rightarrow> RINGBUF \<times> mem \<times> u16 \<times> int" where
  "PROTO_ParseRb r m proto bufOut len maxBufLen =
     PROTO_ParseRb_loop r m (fst (PROTO_Init proto None bufOut maxBufLen)) len 0"

text \<open>
  \<open>PROTO_Add\<close> takes the length from the first two bytes of the packet (a little-endian load) and
  then copies from the packet's start; \<open>buf\<close> and \<open>bufSize\<close> advance as the code advances them.
\<close>

definition load_u16 :: "mem \<Rightarrow> addr \<Rightarrow> u16" where
  "load_u16 m a = ucast (m a) OR push_bit 8 (ucast (m (a + 1)))"

fun PROTO_Add_loop ::
  "nat \<Rightarrow> mem \<Rightarrow> addr \<Rightarrow> addr \<Rightarrow> int \<Rightarrow> u16 \<Rightarrow> mem \<times> addr \<times> int \<times> u16 \<times> bool" where
  "PROTO_Add_loop 0 m buf packet sz i = (m, buf, sz, i, True)"
| "PROTO_Add_loop (Suc n) m buf packet sz i =
     (if m packet = 0x7D \<or> m packet = 0x7E \<or> m packet = 0x7F then
        (if sz < 2 then (m, buf, sz, i, False)
         else
           let m1 = m(buf := 0x7D); m2 = m1(buf + 1 := m1 packet XOR 0x20)
           in PROTO_Add_loop n m2 (buf + 2) (packet + 1) (sz - 2) (i + 2))
      else
        (if sz < 1 then (m, buf, sz, i, False)
         else PROTO_Add_loop n (m(buf := m packet)) (buf + 1) (packet + 1) (sz - 1) (i + 1)))"

definition PROTO_Add :: "mem \<Rightarrow> addr \<Rightarrow> addr \<Rightarrow> int \<Rightarrow> mem \<times> int" where
  "PROTO_Add m buf packet sz =
     (let len = load_u16 m packet in
      if sz < 1 then (m, -1)
      else
        case PROTO_Add_loop (unat len) (m(buf := 0x7E)) (buf + 1) packet (sz - 1) 2 of
          (m1, buf1, sz1, i, ok) \<Rightarrow>
            if \<not> ok then (m1, -1)
            else if sz1 < 1 then (m1, -1)
            else (m1(buf1 := 0x7F), sint i))"

text \<open>
  \<open>I16 len\<close> counts down through the whole 16-bit range before \<open>while (len--)\<close> stops, so the loop
  runs \<open>unat len\<close> times; \<open>U16 i\<close> is returned as an \<open>I16\<close>.
\<close>

fun PROTO_AddRb_loop :: "nat \<Rightarrow> RINGBUF \<Rightarrow> mem \<Rightarrow> addr \<Rightarrow> u16 \<Rightarrow> RINGBUF \<times> mem \<times> int" where
  "PROTO_AddRb_loop 0 r m packet i =
     (case RINGBUF_Put r m 0x7F of (r1, m1, ret) \<Rightarrow>
        if ret = -1 then (r1, m1, -1) else (r1, m1, sint i))"
| "PROTO_AddRb_loop (Suc n) r m packet i =
     (if m packet = 0x7D \<or> m packet = 0x7E \<or> m packet = 0x7F then
        (case RINGBUF_Put r m 0x7D of (r1, m1, ret) \<Rightarrow>
           if ret = -1 then (r1, m1, -1)
           else
             (case RINGBUF_Put r1 m1 (m1 packet XOR 0x20) of (r2, m2, ret2) \<Rightarrow>
                if ret2 = -1 then (r2, m2, -1)
                else PROTO_AddRb_loop n r2 m2 (packet + 1) (i + 2)))
      else
        (case RINGBUF_Put r m (m packet) of (r1, m1, ret) \<Rightarrow>
           if ret = -1 then (r1, m1, -1)
           else PROTO_AddRb_loop n r1 m1 (packet + 1) (i + 1)))"

definition PROTO_AddRb :: "RINGBUF \<Rightarrow> mem \<Rightarrow> addr \<Rightarrow> u16 \<Rightarrow> RINGBUF \<times> mem \<times> int" where
  "PROTO_AddRb r m packet len =
     (case RINGBUF_Put r m 0x7E of (r1, m1, ret) \<Rightarrow>
        if ret = -1 then (r1, m1, -1) else PROTO_AddRb_loop (unat len) r1 m1 packet 2)"

declare PROTO_ParseRb_loop.simps [simp del]

section \<open>The protocol on byte lists\<close>

definition is_ctl :: "u8 \<Rightarrow> bool" where
  "is_ctl b \<longleftrightarrow> b = 0x7D \<or> b = 0x7E \<or> b = 0x7F"

definition esc :: "u8 \<Rightarrow> u8 list" where
  "esc b = (if is_ctl b then [0x7D, b XOR 0x20] else [b])"

definition stuff :: "u8 list \<Rightarrow> u8 list" where
  "stuff bs = concat (map esc bs)"

definition frame :: "u8 list \<Rightarrow> u8 list" where
  "frame bs = 0x7E # stuff bs @ [0x7F]"

text \<open>
  \<open>unframe (began, escaped, acc) xs\<close> reads up to the first \<open>0x7F\<close>: the message collected so far
  and what follows it, or \<open>None\<close> when \<open>xs\<close> holds no terminator.
\<close>

fun unframe :: "bool \<times> bool \<times> u8 list \<Rightarrow> u8 list \<Rightarrow> (u8 list \<times> u8 list) option" where
  "unframe st [] = None"
| "unframe (b, e, acc) (x # xs) =
     (if x = 0x7D then unframe (b, True, acc) xs
      else if x = 0x7E then unframe (True, False, []) xs
      else if x = 0x7F then Some (acc, xs)
      else if \<not> b then unframe (b, e, acc) xs
      else unframe (b, False, acc @ [if e then x XOR 0x20 else x]) xs)"

lemma unframe_shorter: "unframe st xs = Some (a, ys) \<Longrightarrow> length ys < length xs"
  by (induction st xs rule: unframe.induct) (fastforce split: if_splits)+

function msgs :: "u8 list \<Rightarrow> u8 list list" where
  "msgs xs = (case unframe (False, False, []) xs of None \<Rightarrow> [] | Some (a, ys) \<Rightarrow> a # msgs ys)"
  by pat_completeness auto
termination
  by (relation "measure length") (auto dest: unframe_shorter)

declare msgs.simps [simp del]

text \<open>The reader's state after one byte that is not a terminator.\<close>

fun pstep :: "bool \<times> bool \<times> u8 list \<Rightarrow> u8 \<Rightarrow> bool \<times> bool \<times> u8 list" where
  "pstep (b, e, acc) x =
     (if x = 0x7D then (b, True, acc)
      else if x = 0x7E then (True, False, [])
      else if \<not> b then (b, e, acc)
      else (b, False, acc @ [if e then x XOR 0x20 else x]))"

text \<open>What a C parser object and its output buffer represent of the reader's state.\<close>

fun parser_rel :: "PROTO_PARSER \<Rightarrow> mem \<Rightarrow> bool \<times> bool \<times> u8 list \<Rightarrow> bool" where
  "parser_rel p m (b, e, acc) \<longleftrightarrow>
     (isBegin p \<noteq> 0) = b \<and> (isEsc p \<noteq> 0) = e \<and>
     unat (dataLen p) = min (length acc) (unat (bufSize p)) \<and>
     mem_read m (pp_buf p) (unat (dataLen p)) = take (unat (bufSize p)) acc"

text \<open>
  What a reader that stores into \<open>n\<close> bytes at \<open>buf\<close> must have done when the list-level reader
  returns \<open>u\<close>: the queue holds the rest and the buffer the message, cut to \<open>n\<close> bytes.
\<close>

definition parse_result ::
  "(u8 list \<times> u8 list) option \<Rightarrow> addr \<Rightarrow> nat \<Rightarrow> u16 \<Rightarrow> RINGBUF \<Rightarrow> mem \<Rightarrow> u16 \<Rightarrow> int \<Rightarrow> bool"
where
  "parse_result u buf n len0 r m len ret \<longleftrightarrow>
     (case u of
        None \<Rightarrow> ret = -1 \<and> ring_contents r m = [] \<and> len = len0
      | Some (a, rest) \<Rightarrow>
          ret = 0 \<and> ring_contents r m = rest \<and> unat len = min (length a) n \<and>
          mem_read m buf (unat len) = take n a)"

section \<open>Lemmas on byte lists\<close>

lemma is_ctl_xor: "is_ctl b \<Longrightarrow> \<not> is_ctl (b XOR 0x20) \<and> (b XOR 0x20) XOR 0x20 = b"
  by (auto simp: is_ctl_def)

lemma stuff_simps [simp]:
  "stuff [] = []" "stuff (b # bs) = esc b @ stuff bs" "stuff (xs @ ys) = stuff xs @ stuff ys"
  by (simp_all add: stuff_def)

lemma no_terminator_stuff: "0x7F \<notin> set (stuff bs)" "0x7E \<notin> set (stuff bs)"
  by (induction bs) (use is_ctl_xor in \<open>auto simp: esc_def is_ctl_def\<close>)

lemma length_frame: "length (frame bs) = Suc (Suc (length (stuff bs)))"
  by (simp add: frame_def)

lemma length_stuff_ge: "length bs \<le> length (stuff bs)"
  by (induction bs) (auto simp: esc_def)

lemma length_stuff_le: "length (stuff bs) \<le> 2 * length bs"
  by (induction bs) (auto simp: esc_def)

lemma unframe_stuff:
  "unframe (True, False, acc) (stuff bs @ ys) = unframe (True, False, acc @ bs) ys"
proof (induction bs arbitrary: acc)
  case (Cons b bs)
  show ?case
  proof (cases "is_ctl b")
    case True
    then show ?thesis using is_ctl_xor [OF True] Cons.IH [of "acc @ [b]"]
      by (auto simp: esc_def is_ctl_def)
  next
    case False
    then show ?thesis using Cons.IH [of "acc @ [b]"] by (simp add: esc_def is_ctl_def)
  qed
qed simp

lemma unframe_frame: "unframe st (frame bs @ ys) = Some (bs, ys)"
proof -
  obtain b e acc where st: "st = (b, e, acc)" by (metis prod_cases3)
  then show ?thesis using unframe_stuff [of "[]" bs "0x7F # ys"] by (simp add: frame_def)
qed

lemma unframe_append:
  "unframe st xs = Some (a, ys) \<Longrightarrow> unframe st (xs @ zs) = Some (a, ys @ zs)"
  by (induction st xs rule: unframe.induct) (auto split: if_splits)

lemma unframe_None_iff: "unframe st xs = None \<longleftrightarrow> 0x7F \<notin> set xs"
  by (induction st xs rule: unframe.induct) (auto split: if_splits)

text \<open>A frame is read back whatever unfinished bytes stand before it: \<open>0x7E\<close> resynchronises.\<close>

lemma unframe_resync:
  "0x7F \<notin> set xs \<Longrightarrow> unframe st (xs @ frame bs @ ys) = Some (bs, ys)"
proof (induction st xs rule: unframe.induct)
  case (1 st)
  then show ?case using unframe_frame [of st bs ys] by simp
next
  case (2 b e acc x xs)
  then show ?case by auto
qed

lemma unframe_drop_terminator:
  assumes "unframe st xs = Some (a, ys)"
  shows "\<exists>zs. xs = zs @ [0x7F] @ ys \<and> 0x7F \<notin> set zs"
  using assms
proof (induction st xs rule: unframe.induct)
  case (2 b e acc x xs)
  show ?case
  proof (cases "x = 0x7F")
    case True
    with "2.prems" have "x # xs = [] @ [0x7F] @ ys" by simp
    then show ?thesis by (metis empty_iff list.set(1))
  next
    case False
    then obtain zs where "xs = zs @ [0x7F] @ ys" "0x7F \<notin> set zs"
      using 2 by (auto split: if_splits)
    with False have "x # xs = (x # zs) @ [0x7F] @ ys \<and> 0x7F \<notin> set (x # zs)" by auto
    then show ?thesis by blast
  qed
qed simp

lemma msgs_Nil [simp]: "msgs [] = []"
  by (simp add: msgs.simps)

lemma msgs_no_terminator: "0x7F \<notin> set xs \<Longrightarrow> msgs xs = []"
  by (simp add: msgs.simps unframe_None_iff [THEN iffD2])

lemma msgs_eq_Nil_iff: "msgs xs = [] \<longleftrightarrow> unframe (False, False, []) xs = None"
  by (subst msgs.simps) (auto split: option.splits)

lemma msgs_eq_Cons_iff:
  "msgs xs = a # as \<longleftrightarrow> (\<exists>rest. unframe (False, False, []) xs = Some (a, rest) \<and> msgs rest = as)"
  by (subst msgs.simps) (auto split: option.splits)

lemma msgs_snoc_frame: "msgs (xs @ frame bs) = msgs xs @ [bs]"
proof (induction "length xs" arbitrary: xs rule: less_induct)
  case less
  show ?case
  proof (cases "unframe (False, False, []) xs")
    case None
    then show ?thesis
      using unframe_resync [of xs "(False, False, [])" bs "[]"]
      by (simp add: unframe_None_iff msgs.simps [of "xs @ frame bs"] msgs_no_terminator)
  next
    case (Some p)
    obtain a ys where p: "p = (a, ys)" by fastforce
    then have "msgs (ys @ frame bs) = msgs ys @ [bs]"
      using less unframe_shorter Some by blast
    then show ?thesis
      using Some p unframe_append [of "(False, False, [])" xs a ys "frame bs"]
      by (simp add: msgs.simps [of xs] msgs.simps [of "xs @ frame bs"])
  qed
qed

lemma msgs_snoc_junk: "0x7F \<notin> set zs \<Longrightarrow> msgs (xs @ zs) = msgs xs"
proof (induction "length xs" arbitrary: xs rule: less_induct)
  case less
  show ?case
  proof (cases "unframe (False, False, []) xs")
    case None
    then show ?thesis using less.prems by (simp add: unframe_None_iff msgs_no_terminator)
  next
    case (Some p)
    obtain a ys where p: "p = (a, ys)" by fastforce
    then have "msgs (ys @ zs) = msgs ys" using less unframe_shorter Some by blast
    then show ?thesis
      using Some p unframe_append [of "(False, False, [])" xs a ys zs]
      by (simp add: msgs.simps [of xs] msgs.simps [of "xs @ zs"])
  qed
qed

lemma length_msgs: "length (msgs xs) = count_list xs 0x7F"
proof (induction "length xs" arbitrary: xs rule: less_induct)
  case less
  show ?case
  proof (cases "unframe (False, False, []) xs")
    case None
    then show ?thesis by (simp add: unframe_None_iff msgs_no_terminator count_list_0_iff)
  next
    case (Some p)
    obtain a ys where p: "p = (a, ys)" by fastforce
    then obtain zs where "xs = zs @ [0x7F] @ ys" "0x7F \<notin> set zs"
      using unframe_drop_terminator Some by blast
    moreover have "msgs xs = a # msgs ys" using Some p by (simp add: msgs.simps [of xs])
    ultimately show ?thesis using less [of ys] by (simp add: count_list_0_iff)
  qed
qed

section \<open>The C functions read and write these lists\<close>

lemma unframe_step: "x \<noteq> 0x7F \<Longrightarrow> unframe st (x # xs) = unframe (pstep st x) xs"
  by (cases st) auto

lemma PROTO_ParseByte_end:
  "PROTO_ParseByte p m 0x7F = (p\<lparr>isBegin := 0\<rparr>, (case pp_callback p of None \<Rightarrow> m | Some f \<Rightarrow> f m), 0)"
  by (simp add: PROTO_ParseByte_def)

lemma PROTO_ParseByte_step:
  assumes "parser_rel p m st" "v \<noteq> 0x7F" "PROTO_ParseByte p m v = (p', m', ret)"
  shows "ret = -1 \<and> parser_rel p' m' (pstep st v) \<and> bufSize p' = bufSize p \<and>
         pp_buf p' = pp_buf p \<and> pp_callback p' = pp_callback p \<and>
         same_outside m m' (pp_buf p) (unat (bufSize p))"
proof -
  obtain b e acc where st: "st = (b, e, acc)" by (metis prod_cases3)
  have upd: "mem_read (m(pp_buf p + n := w)) (pp_buf p) (Suc n) = mem_read m (pp_buf p) n @ [w]"
    for n w
    using mem_read_add [of "m(pp_buf p + n := w)" "pp_buf p" n 1]
    by (simp add: mem_read_upd_out mem_read_Suc)
  have so: "dataLen p < bufSize p \<Longrightarrow>
      same_outside m (m(pp_buf p + unat (dataLen p) := w)) (pp_buf p) (unat (bufSize p))" for w
    by (auto simp: same_outside_def word_less_nat_alt)
  have idem: "isEsc p = 0 \<Longrightarrow> p\<lparr>isEsc := 0\<rparr> = p" by (cases p) simp
  consider "v = 0x7D" | "v = 0x7E" | "v \<noteq> 0x7D" "v \<noteq> 0x7E" "isBegin p = 0"
    | (data) "v \<noteq> 0x7D" "v \<noteq> 0x7E" "isBegin p \<noteq> 0"
    by blast
  then show ?thesis
  proof cases
    case 1
    then show ?thesis using assms(1,3) st by (simp add: PROTO_ParseByte_def) force
  next
    case 2
    then show ?thesis using assms(1,3) st by (simp add: PROTO_ParseByte_def) force
  next
    case 3
    then show ?thesis using assms st by (simp add: PROTO_ParseByte_def) force
  next
    case data
    define w where "w = (if isEsc p \<noteq> 0 then v XOR 0x20 else v)"
    show ?thesis
    proof (cases "dataLen p < bufSize p")
      case True
      have eq: "(p', m', ret) =
        (p\<lparr>isEsc := 0, dataLen := dataLen p + 1\<rparr>, m(pp_buf p + unat (dataLen p) := w), -1)"
        unfolding assms(3) [symmetric] using data True assms(2) idem
        by (cases "isEsc p = 0") (simp_all add: PROTO_ParseByte_def w_def)
      have "length acc < unat (bufSize p)" "unat (dataLen p) = length acc"
        using True assms(1) st by (auto simp: word_less_nat_alt)
      then show ?thesis
        using eq data True assms(1,2) st upd so unat_succ_less [OF True] by (simp add: w_def)
    next
      case False
      have eq: "(p', m', ret) = (p\<lparr>isEsc := 0\<rparr>, m, -1)"
        unfolding assms(3) [symmetric] using data False assms(2) idem
        by (cases "isEsc p = 0") (simp_all add: PROTO_ParseByte_def)
      have "unat (bufSize p) \<le> length acc"
        using False assms(1) st by (auto simp: word_less_nat_alt)
      then show ?thesis using eq data assms(1,2) st by clarsimp
    qed
  qed
qed

text \<open>
  \<open>PROTO_ParseRb\<close> on any queue contents: it consumes up to the first terminator and stores the
  unstuffed message, cut to the output buffer; without a terminator it drains the queue and fails.
\<close>

lemma PROTO_ParseRb_loop_spec:
  assumes "ring_inv r" "parser_rel p m st" "pp_callback p = None"
    and "disjnt_blk (pp_buf p) (unat (bufSize p)) (p_o r) (nat (rb_size r))"
    and "PROTO_ParseRb_loop r m p len c = (r', m', len', ret)"
  shows "ring_inv r' \<and> rb_size r' = rb_size r \<and> p_o r' = p_o r \<and>
     same_outside m m' (pp_buf p) (unat (bufSize p)) \<and>
     parse_result (unframe st (ring_contents r m)) (pp_buf p) (unat (bufSize p)) len
       r' m' len' ret"
  using assms
proof (induction "nat (fill_cnt r)" arbitrary: r m p st c)
  case 0
  then have "fill_cnt r \<le> 0" by simp
  moreover from this have "ring_contents r m = []"
    using 0 by (metis length_0_conv ring_contents_length)
  ultimately show ?case
    using "0.prems"(1,5)
    by (simp add: PROTO_ParseRb_loop.simps [of r] RINGBUF_Get_empty parse_result_def)
next
  case (Suc k)
  obtain r1 c1 got where get: "RINGBUF_Get r m c = (r1, c1, got)" by (metis prod_cases3)
  from Suc.hyps(2) have "0 < fill_cnt r" by simp
  note g = RINGBUF_Get_nonempty [OF Suc.prems(1) this get]
  obtain p1 m1 pret where byte: "PROTO_ParseByte p m c1 = (p1, m1, pret)" by (metis prod_cases3)
  obtain b e acc where st: "st = (b, e, acc)" by (metis prod_cases3)
  show ?case
  proof (cases "c1 = 0x7F")
    case True
    with byte Suc.prems(3) have "p1 = p\<lparr>isBegin := 0\<rparr>" "m1 = m" "pret = 0"
      by (simp_all add: PROTO_ParseByte_end)
    then show ?thesis
      using Suc.prems(2,5) True g get byte st
      by (auto simp: PROTO_ParseRb_loop.simps [of r] parse_result_def)
  next
    case False
    note s = PROTO_ParseByte_step [OF Suc.prems(2) False byte]
    have rec: "PROTO_ParseRb_loop r1 m1 p1 len c1 = (r', m', len', ret)"
      using Suc.prems(5) g get byte s by (simp add: PROTO_ParseRb_loop.simps [of r])
    have cont: "ring_contents r1 m1 = ring_contents r1 m"
      using s g Suc.prems(4)
      by (intro ring_contents_cong) (auto simp: same_outside_def disjnt_blk_def)
    have "k = nat (fill_cnt r1)" using Suc.hyps(2) g by simp
    from Suc.hyps(1) [OF this _ _ _ _ rec, of "pstep st c1"]
    show ?thesis
      using s g Suc.prems(3,4) cont unframe_step [OF False, of st "ring_contents r1 m"]
      by (auto intro: same_outside_trans)
  qed
qed

lemma PROTO_ParseRb_spec:
  assumes "ring_inv r" "disjnt_blk bufOut (unat maxLen) (p_o r) (nat (rb_size r))"
    and "PROTO_ParseRb r m proto bufOut len maxLen = (r', m', len', ret)"
  shows "ring_inv r' \<and> rb_size r' = rb_size r \<and> p_o r' = p_o r \<and>
     same_outside m m' bufOut (unat maxLen) \<and>
     parse_result (unframe (isBegin proto \<noteq> 0, False, []) (ring_contents r m)) bufOut
       (unat maxLen) len r' m' len' ret"
proof -
  define p0 where "p0 = fst (PROTO_Init proto None bufOut maxLen)"
  have f: "pp_buf p0 = bufOut" "bufSize p0 = maxLen" "pp_callback p0 = None"
    "parser_rel p0 m (isBegin proto \<noteq> 0, False, [])"
    by (simp_all add: p0_def PROTO_Init_def)
  show ?thesis
    using PROTO_ParseRb_loop_spec [OF assms(1) f(4,3), of len 0 r' m' len' ret] assms(2,3) f(1,2)
    by (simp add: PROTO_ParseRb_def p0_def)
qed

text \<open>\<open>PROTO_AddRb\<close> is the bulk insertion of the frame, one byte at a time.\<close>

lemma fifo_puts_append:
  "fifo_puts put q (xs @ ys) =
     (case fifo_puts put q xs of (q', ok) \<Rightarrow> if ok then fifo_puts put q' ys else (q', False))"
  by (induction xs arbitrary: q) (auto split: prod.splits)

lemma RINGBUF_Put_ret: "RINGBUF_Put r m c = (r', m', ret) \<Longrightarrow> ret = 0 \<or> ret = -1"
  by (auto simp: RINGBUF_Put_def Let_def split: if_splits)

lemma rb_put_eq:
  "RINGBUF_Put r m c = (r', m', ret) \<Longrightarrow> rb_put (r, m) c = ((r', m'), ret \<noteq> -1)"
  using RINGBUF_Put_ret [of r m c r' m' ret] by (auto simp: rb_put_def)

lemma PROTO_AddRb_loop_puts:
  assumes "ring_inv r" "disjnt_blk packet n (p_o r) (nat (rb_size r))"
    and "fifo_puts rb_put (r, m) (stuff (mem_read m packet n) @ [0x7F]) = ((r', m'), ok)"
  shows "PROTO_AddRb_loop n r m packet i =
    (r', m', if ok then sint (i + of_nat (length (stuff (mem_read m packet n)))) else -1)"
  using assms
proof (induction n arbitrary: r m packet i)
  case 0
  obtain r1 m1 ret where put: "RINGBUF_Put r m 0x7F = (r1, m1, ret)" by (metis prod_cases3)
  then show ?case using "0.prems"(3) by (auto simp: rb_put_eq)
next
  case (Suc n)
  let ?rest = "stuff (mem_read m (packet + 1) n) @ [0x7F]"
  have tail: "disjnt_blk (packet + 1) n (p_o r) (nat (rb_size r))"
    "disjnt_blk packet 1 (p_o r) (nat (rb_size r))"
    using Suc.prems(2) by (auto simp: disjnt_blk_def)
  have keep: "mem_read m1 (packet + 1) n = mem_read m (packet + 1) n \<and> m1 packet = m packet"
    if "same_outside m m1 (p_o r) (nat (rb_size r))" for m1
    using that tail same_outside_read [OF that tail(1)]
    by (auto simp: disjnt_blk_def same_outside_def)
  show ?case
  proof (cases "is_ctl (m packet)")
    case True
    obtain r1 m1 ret where p1: "RINGBUF_Put r m 0x7D = (r1, m1, ret)" by (metis prod_cases3)
    note f1 = rb_put_frame [OF Suc.prems(1) rb_put_eq [OF p1]]
    obtain r2 m2 ret2 where p2: "RINGBUF_Put r1 m1 (m1 packet XOR 0x20) = (r2, m2, ret2)"
      by (metis prod_cases3)
    note f2 = rb_put_frame [OF f1(1) rb_put_eq [OF p2]]
    have so: "same_outside m m2 (p_o r) (nat (rb_size r))"
      using f1 f2 same_outside_trans by metis
    show ?thesis
      using Suc.prems(3) True p1 p2 rb_put_eq [OF p1] rb_put_eq [OF p2] keep [OF f1(4)] keep [OF so]
        Suc.IH [OF f2(1), of "packet + 1" m2 "i + 2"] f1 f2 tail
      by (auto simp: mem_read_Suc esc_def is_ctl_def algebra_simps split: if_splits)
  next
    case False
    obtain r1 m1 ret where p1: "RINGBUF_Put r m (m packet) = (r1, m1, ret)" by (metis prod_cases3)
    note f1 = rb_put_frame [OF Suc.prems(1) rb_put_eq [OF p1]]
    show ?thesis
      using Suc.prems(3) False p1 rb_put_eq [OF p1] keep [OF f1(4)]
        Suc.IH [OF f1(1), of "packet + 1" m1 "i + 1"] f1 tail
      by (auto simp: mem_read_Suc esc_def is_ctl_def algebra_simps split: if_splits)
  qed
qed

lemma fifo_puts_rb_frame:
  assumes "ring_inv r" "fifo_puts rb_put (r, m) bs = ((r', m'), ok)"
  shows "p_o r' = p_o r \<and> rb_size r' = rb_size r \<and> same_outside m m' (p_o r) (nat (rb_size r))"
  using assms
proof (induction bs arbitrary: r m)
  case (Cons b bs)
  obtain r1 m1 ok1 where put: "rb_put (r, m) b = ((r1, m1), ok1)" by (metis prod.collapse)
  note f = rb_put_frame [OF Cons.prems(1) put]
  show ?case
    using Cons.prems(2) put f Cons.IH [OF f(1), of m1]
    by (auto split: if_splits intro: same_outside_trans)
qed simp

lemma PROTO_AddRb_spec:
  assumes inv: "ring_inv r" and dis: "disjnt_blk packet (unat len) (p_o r) (nat (rb_size r))"
    and add: "PROTO_AddRb r m packet len = (r', m', ret)"
  defines "fr \<equiv> frame (mem_read m packet (unat len))"
    and "room \<equiv> nat (rb_size r) - length (ring_contents r m)"
  shows "ring_inv r'" "rb_size r' = rb_size r" "p_o r' = p_o r"
    and "same_outside m m' (p_o r) (nat (rb_size r))"
    and "ring_contents r' m' = ring_contents r m @ take room fr"
    and "ret = (if length fr \<le> room then sint (of_nat (length fr) :: u16) else -1)"
proof -
  obtain r1 m1 put where p1: "RINGBUF_Put r m 0x7E = (r1, m1, put)" by (metis prod_cases3)
  note f1 = rb_put_frame [OF inv rb_put_eq [OF p1]]
  have bs: "mem_read m1 packet (unat len) = mem_read m packet (unat len)"
    using same_outside_read [OF f1(4) dis] .
  obtain r2 m2 ok where puts: "fifo_puts rb_put (r, m) fr = ((r2, m2), ok)"
    by (metis prod.collapse)
  obtain q where q: "fifo_puts rb_put (r, m) fr =
      (q, length (ring_contents r m) + length fr \<le> nat (rb_size r))"
    "ring_contents (fst q) (snd q) = ring_contents r m @ take room fr"
    "ring_inv (fst q)" "nat (rb_size (fst q)) = nat (rb_size r)"
    using rb.puts_spec [of "(r, m)" fr] inv by (auto simp: room_def)
  have r2: "r2 = fst q" "m2 = snd q" "ok = (length fr \<le> room)"
    using puts q(1) inv by (auto simp: room_def ring_inv_def)
  have "(r', m', ret) = (r2, m2, if ok then sint (of_nat (length fr) :: u16) else -1)"
  proof (cases "put = -1")
    case True
    then show ?thesis
      using add p1 puts rb_put_eq [OF p1] by (auto simp: PROTO_AddRb_def fr_def frame_def)
  next
    case False
    then have "fifo_puts rb_put (r1, m1) (stuff (mem_read m1 packet (unat len)) @ [0x7F]) =
        ((r2, m2), ok)"
      using puts rb_put_eq [OF p1] bs by (simp add: fr_def frame_def)
    from PROTO_AddRb_loop_puts [OF f1(1) _ this, of 2] show ?thesis
      using False add p1 f1 dis bs by (auto simp: PROTO_AddRb_def fr_def length_frame)
  qed
  then show "ring_inv r'" "rb_size r' = rb_size r" "p_o r' = p_o r"
    "same_outside m m' (p_o r) (nat (rb_size r))"
    "ring_contents r' m' = ring_contents r m @ take room fr"
    "ret = (if length fr \<le> room then sint (of_nat (length fr) :: u16) else -1)"
    using q r2 fifo_puts_rb_frame [OF inv puts] by simp_all
qed

lemma PROTO_AddRb_ret:
  assumes "ring_inv r" "disjnt_blk packet (unat len) (p_o r) (nat (rb_size r))"
    and "PROTO_AddRb r m packet len = (r', m', ret)" "rb_size r < 2 ^ 15"
  shows "ret = -1 \<longleftrightarrow>
    rb_size r < fill_cnt r + int (length (frame (mem_read m packet (unat len))))"
proof -
  let ?n = "length (frame (mem_read m packet (unat len)))"
  have sz: "0 \<le> fill_cnt r" "fill_cnt r \<le> rb_size r" using assms(1) by (simp_all add: ring_inv_def)
  have "sint (of_nat ?n :: u16) = int ?n" if "?n < 2 ^ 15"
    using that by (simp add: signed_of_nat signed_take_bit_int_eq_self)
  then show ?thesis using PROTO_AddRb_spec(6) [OF assms(1-3)] assms(4) sz by auto
qed

section \<open>Framing into a flat buffer\<close>

lemma PROTO_Add_loop_spec:
  assumes "0 \<le> sz" "disjnt_blk packet n buf (nat sz)"
    and "PROTO_Add_loop n m buf packet sz i = (m', buf', sz', i', ok)"
    and "st = stuff (mem_read m packet n)"
  shows "same_outside m m' buf (nat sz) \<and> ok = (int (length st) \<le> sz) \<and>
     (ok \<longrightarrow> m' = mem_write m buf st \<and> buf' = buf + length st \<and> sz' = sz - int (length st) \<and>
            i' = i + of_nat (length st))"
  using assms
proof (induction n arbitrary: m buf packet sz i st)
  case 0
  then show ?case by auto
next
  case (Suc n)
  define st1 where "st1 = stuff (mem_read m (packet + 1) n)"
  have st: "st = esc (m packet) @ st1" using Suc.prems(4) by (simp add: mem_read_Suc st1_def)
  have keep: "mem_read m1 (packet + 1) n = mem_read m (packet + 1) n" "m1 packet = m packet"
    if "same_outside m m1 buf (nat sz)" for m1
    using that Suc.prems(2)
    by (auto simp: same_outside_def disjnt_blk_def intro!: mem_read_cong)
  show ?case
  proof (cases "is_ctl (m packet)")
    case ctl: True
    define m2 where "m2 = m(buf := 0x7D, buf + 1 := m packet XOR 0x20)"
    show ?thesis
    proof (cases "sz < 2")
      case True
      then show ?thesis using ctl Suc.prems(3) st by (auto simp: is_ctl_def esc_def)
    next
      case False
      have so: "same_outside m m2 buf (nat sz)" "same_outside m (m(buf := 0x7D)) buf (nat sz)"
        using False by (auto simp: same_outside_def m2_def)
      have d: "disjnt_blk (packet + 1) n (buf + 2) (nat (sz - 2))"
        using Suc.prems(2) False by (auto simp: disjnt_blk_def)
      have rec: "PROTO_Add_loop n m2 (buf + 2) (packet + 1) (sz - 2) (i + 2) =
          (m', buf', sz', i', ok)"
        using Suc.prems(3) ctl False keep(2) [OF so(2)] by (auto simp: is_ctl_def m2_def)
      have st1: "st1 = stuff (mem_read m2 (packet + 1) n)"
        using keep(1) [OF so(1)] by (simp add: st1_def)
      have nn: "0 \<le> sz - 2" using False by simp
      note ih = Suc.IH [OF nn d rec st1]
      have len: "length st = 2 + length st1" using st ctl by (simp add: esc_def)
      have "mem_write m buf st = mem_write m2 (buf + 2) st1"
        using st ctl by (simp add: esc_def mem_write_Cons m2_def)
      moreover have "same_outside m m' buf (nat sz)"
        using ih so(1) False by (auto simp: same_outside_def)
      ultimately show ?thesis using ih len by (simp add: algebra_simps)
    qed
  next
    case nctl: False
    define m1 where "m1 = m(buf := m packet)"
    show ?thesis
    proof (cases "sz < 1")
      case True
      then show ?thesis using nctl Suc.prems(3) st by (auto simp: is_ctl_def esc_def)
    next
      case False
      have so: "same_outside m m1 buf (nat sz)"
        using False by (auto simp: same_outside_def m1_def)
      have d: "disjnt_blk (packet + 1) n (buf + 1) (nat (sz - 1))"
        using Suc.prems(2) False by (auto simp: disjnt_blk_def)
      have rec: "PROTO_Add_loop n m1 (buf + 1) (packet + 1) (sz - 1) (i + 1) =
          (m', buf', sz', i', ok)"
        using Suc.prems(3) nctl False by (auto simp: is_ctl_def m1_def)
      have st1: "st1 = stuff (mem_read m1 (packet + 1) n)"
        using keep(1) [OF so] by (simp add: st1_def)
      have nn: "0 \<le> sz - 1" using False by simp
      note ih = Suc.IH [OF nn d rec st1]
      have len: "length st = 1 + length st1" using st nctl by (simp add: esc_def)
      have "mem_write m buf st = mem_write m1 (buf + 1) st1"
        using st nctl by (simp add: esc_def mem_write_Cons m1_def)
      moreover have "same_outside m m' buf (nat sz)"
        using ih so False by (auto simp: same_outside_def)
      ultimately show ?thesis using ih len by (simp add: algebra_simps)
    qed
  qed
qed

lemma PROTO_Add_spec:
  assumes dis: "disjnt_blk packet (unat (load_u16 m packet)) buf (nat sz)"
    and add: "PROTO_Add m buf packet sz = (m', ret)"
    and fr: "fr = frame (mem_read m packet (unat (load_u16 m packet)))"
  shows "same_outside m m' buf (nat sz) \<and>
    (if int (length fr) \<le> sz
     then m' = mem_write m buf fr \<and> ret = sint (of_nat (length fr) :: u16) else ret = -1)"
proof (cases "sz < 1")
  case True
  then show ?thesis using add fr by (auto simp: PROTO_Add_def length_frame)
next
  case False
  let ?n = "unat (load_u16 m packet)" and ?m1 = "m(buf := 0x7E)"
  obtain m1 b1 s1 i1 ok where loop:
    "PROTO_Add_loop ?n ?m1 (buf + 1) packet (sz - 1) 2 = (m1, b1, s1, i1, ok)"
    by (metis prod_cases5)
  have eq: "mem_read ?m1 packet ?n = mem_read m packet ?n"
    using dis False by (intro mem_read_cong) (auto simp: disjnt_blk_def)
  have "disjnt_blk packet ?n (buf + 1) (nat (sz - 1))"
    using dis False by (auto simp: disjnt_blk_def)
  note l = PROTO_Add_loop_spec [OF _ this loop refl]
  have so: "same_outside m m1 buf (nat sz)"
    using l False by (auto simp: same_outside_def)
  show ?thesis
  proof (cases "int (length fr) \<le> sz")
    case True
    then show ?thesis
      using add l loop eq False fr so
      by (auto simp: PROTO_Add_def length_frame frame_def mem_write_append mem_write_Cons
          same_outside_def)
  next
    case False': False
    then show ?thesis
      using add l loop eq False fr so by (auto simp: PROTO_Add_def length_frame split: if_splits)
  qed
qed

section \<open>Properties\<close>

text \<open>
  C2. \<open>PROTO_AddRb\<close> followed by \<open>PROTO_ParseRb\<close> gives back the packet: for a packet whose frame
  fits and an output buffer that can hold it, whatever garbage the uninitialised parser object
  starts with and whatever unterminated bytes the ring already held, the same bytes and the same
  length are returned, the ring ends empty, and only the ring and the output buffer are written.
\<close>

theorem PROTO_AddRb_ParseRb_roundtrip:
  assumes "ring_inv r" "rb_size r < 2 ^ 15" "0x7F \<notin> set (ring_contents r m)"
    and "disjnt_blk packet (unat len) (p_o r) (nat (rb_size r))"
    and "disjnt_blk bufOut (unat maxLen) (p_o r) (nat (rb_size r))"
    and "fill_cnt r + int (length (frame (mem_read m packet (unat len)))) \<le> rb_size r"
    and "len \<le> maxLen"
  shows "\<exists>r1 m1 ret r2 m2.
    PROTO_AddRb r m packet len = (r1, m1, ret) \<and> ret \<noteq> -1 \<and>
    PROTO_ParseRb r1 m1 proto bufOut len0 maxLen = (r2, m2, len, 0) \<and>
    mem_read m2 bufOut (unat len) = mem_read m packet (unat len) \<and> ring_contents r2 m2 = [] \<and>
    same_outside m m1 (p_o r) (nat (rb_size r)) \<and> same_outside m1 m2 bufOut (unat maxLen)"
proof -
  let ?bs = "mem_read m packet (unat len)"
  obtain r1 m1 ret where add: "PROTO_AddRb r m packet len = (r1, m1, ret)" by (metis prod_cases3)
  obtain r2 m2 len2 ret2 where
    parse: "PROTO_ParseRb r1 m1 proto bufOut len0 maxLen = (r2, m2, len2, ret2)"
    by (metis prod_cases4)
  note a = PROTO_AddRb_spec [OF assms(1,4) add]
  have "length (frame ?bs) \<le> nat (rb_size r) - length (ring_contents r m)"
    using assms(1,6) by (auto simp: ring_inv_def)
  then have "ring_contents r1 m1 = ring_contents r m @ frame ?bs" using a(5) by simp
  then have "unframe st (ring_contents r1 m1) = Some (?bs, [])" for st
    using unframe_resync [OF assms(3), of st ?bs "[]"] by simp
  moreover have "disjnt_blk bufOut (unat maxLen) (p_o r1) (nat (rb_size r1))"
    using assms(5) a by simp
  note p = PROTO_ParseRb_spec [OF a(1) this parse]
  ultimately have "ret2 = 0" "ring_contents r2 m2 = []" "unat len2 = min (unat len) (unat maxLen)"
    "mem_read m2 bufOut (unat len2) = take (unat maxLen) ?bs"
    by (auto simp: parse_result_def)
  moreover from this(3) assms(7) have "len2 = len"
    by (intro word_unat_eq_iff [THEN iffD2]) (simp add: word_le_nat_alt)
  moreover have "take (unat maxLen) ?bs = ?bs" using assms(7) by (simp add: word_le_nat_alt)
  moreover have "ret \<noteq> -1" using PROTO_AddRb_ret [OF assms(1,4) add assms(2)] assms(6) by simp
  ultimately show ?thesis using add parse a(4) p by auto
qed

theorem PROTO_AddRb_ParseRb_roundtrip_witness:
  "\<exists>r1 m1 ret r2 m2.
    PROTO_AddRb \<lparr>p_o = 16, p_r = 18, p_w = 18, fill_cnt = 0, rb_size = 8\<rparr>
      ((\<lambda>_. 0)(100 := 0x41, 101 := 0x7E)) 100 2 = (r1, m1, ret) \<and> ret \<noteq> -1 \<and>
    PROTO_ParseRb r1 m1 \<lparr>pp_buf = 3, bufSize = 9, dataLen = 1, isEsc = 1, isBegin = 77,
      pp_callback = None\<rparr> 200 0 4 = (r2, m2, 2, 0) \<and>
    mem_read m2 200 2 = [0x41, 0x7E]"
proof -
  have "fill_cnt \<lparr>p_o = 16, p_r = 18, p_w = 18, fill_cnt = 0, rb_size = 8\<rparr> +
      int (length (frame (mem_read ((\<lambda>_. 0)(100 := 0x41, 101 := 0x7E)) 100 (unat (2 :: u16))))) \<le> 8"
    by (simp add: mem_read_def frame_def stuff_def esc_def is_ctl_def upt_rec)
  then show ?thesis
    using PROTO_AddRb_ParseRb_roundtrip
      [of "\<lparr>p_o = 16, p_r = 18, p_w = 18, fill_cnt = 0, rb_size = 8\<rparr>"
        "(\<lambda>_. 0)(100 := 0x41, 101 := 0x7E)" 100 2 200 4
        "\<lparr>pp_buf = 3, bufSize = 9, dataLen = 1, isEsc = 1, isBegin = 77, pp_callback = None\<rparr>" 0]
    by (simp add: ring_inv_def ring_contents_def disjnt_blk_def mem_read_def upt_rec) blast
qed

text \<open>
  \<open>PROTO_Add\<close> never writes past the \<open>bufSize\<close> bytes it was given; it succeeds exactly when the
  frame of the \<open>*(U16*)packet\<close> bytes at the packet fits, and then the buffer holds that frame and
  the result is its length (as a 16-bit signed value).
\<close>

theorem PROTO_Add_writes_frame:
  assumes "disjnt_blk packet (unat (load_u16 m packet)) buf (nat sz)"
  shows "case PROTO_Add m buf packet sz of (m', ret) \<Rightarrow>
    same_outside m m' buf (nat sz) \<and>
    (let fr = frame (mem_read m packet (unat (load_u16 m packet))) in
     if int (length fr) \<le> sz
     then mem_read m' buf (length fr) = fr \<and> ret = sint (of_nat (length fr) :: u16)
     else ret = -1)"
  using PROTO_Add_spec [OF assms, of "fst (PROTO_Add m buf packet sz)"
      "snd (PROTO_Add m buf packet sz)" "frame (mem_read m packet (unat (load_u16 m packet)))"]
  by (auto simp: Let_def split: prod.splits)

theorem PROTO_Add_writes_frame_witness:
  "case PROTO_Add ((\<lambda>_. 0)(100 := 2)) 200 100 8 of (m', ret) \<Rightarrow>
     mem_read m' 200 4 = [0x7E, 2, 0, 0x7F] \<and> ret = 4 \<and> same_outside ((\<lambda>_. 0)(100 := 2)) m' 200 8"
  using PROTO_Add_writes_frame [of 100 "(\<lambda>_. 0)(100 := 2)" 200 8]
  by (simp add: load_u16_def disjnt_blk_def mem_read_def frame_def stuff_def esc_def is_ctl_def
      upt_rec split: prod.splits)

end
