(* ===== verification/Mqtt_Queue.thy ===== *)
theory Mqtt_Queue
  imports Proto
begin

text \<open>
  The outbound message queue of \<^verbatim>\<open>app_common/mqtt/mqtt_queue.c\<close>: a ring buffer that holds framed
  messages. \<open>queue_msgs\<close> is the list of messages it represents; the lemmas say that \<open>QUEUE_Puts\<close>
  and \<open>QUEUE_Gets\<close> are insertion at the end and removal at the front of that list, also after an
  insertion that ran out of room half way. The last part is the contract between the queue and the
  MQTT client (locale \<open>msg_queue\<close>) and the client's loop that drops the oldest messages until a new
  one fits.
\<close>

section \<open>Model\<close>

record QUEUE =
  q_buf :: addr
  q_rb :: RINGBUF

text \<open>\<open>os_zalloc\<close> belongs to the SDK: it maps a size to an address and the store it leaves.\<close>

definition QUEUE_Init :: "(mem \<Rightarrow> int \<Rightarrow> addr \<times> mem) \<Rightarrow> QUEUE \<Rightarrow> mem \<Rightarrow> int \<Rightarrow> QUEUE \<times> mem" where
  "QUEUE_Init os_zalloc q m bufferSize =
     (case os_zalloc m bufferSize of (a, m1) \<Rightarrow>
        (let q1 = q\<lparr>q_buf := a\<rparr> in
         case RINGBUF_Init (Some (q_rb q1)) (q_buf q1) bufferSize of
           (Some rb', ret) \<Rightarrow> (q1\<lparr>q_rb := rb'\<rparr>, m1)
         | (None, ret) \<Rightarrow> (q1, m1)))"

definition QUEUE_Puts :: "QUEUE \<Rightarrow> mem \<Rightarrow> addr \<Rightarrow> u16 \<Rightarrow> QUEUE \<times> mem \<times> int" where
  "QUEUE_Puts q m buffer len =
     (case PROTO_AddRb (q_rb q) m buffer len of (r, m1, ret) \<Rightarrow> (q\<lparr>q_rb := r\<rparr>, m1, ret))"

definition QUEUE_Gets ::
  "QUEUE \<Rightarrow> mem \<Rightarrow> PROTO_PARSER \<Rightarrow> addr \<Rightarrow> u16 \<Rightarrow> u16 \<Rightarrow> QUEUE \<times> mem \<times> u16 \<times> int" where
  "QUEUE_Gets q m proto buffer len maxLen =
     (case PROTO_ParseRb (q_rb q) m proto buffer len maxLen of
        (r, m1, len1, ret) \<Rightarrow> (q\<lparr>q_rb := r\<rparr>, m1, len1, ret))"

definition QUEUE_IsEmpty :: "QUEUE \<Rightarrow> bool" where
  "QUEUE_IsEmpty q = (if fill_cnt (q_rb q) \<le> 0 then True else False)"

text \<open>
  The client's loop \<^verbatim>\<open>while (QUEUE_Puts(..) == -1) { if (QUEUE_Gets(..) == -1) return FALSE; }\<close>
  over an insertion and a removal that each report success.
\<close>

partial_function (option) enqueue_loop ::
  "('s \<Rightarrow> 's \<times> bool) \<Rightarrow> ('s \<Rightarrow> 's \<times> bool) \<Rightarrow> 's \<Rightarrow> ('s \<times> bool) option" where
  "enqueue_loop put get s =
     (case put s of (s1, ok) \<Rightarrow>
        if ok then Some (s1, True)
        else (case get s1 of (s2, ok2) \<Rightarrow>
                if ok2 then enqueue_loop put get s2 else Some (s2, False)))"

section \<open>Invariant and abstraction\<close>

text \<open>Every message starts with \<open>0x7E\<close>: at the front of the queue and after each terminator.\<close>

fun aligned :: "bool \<Rightarrow> u8 list \<Rightarrow> bool" where
  "aligned b [] = True"
| "aligned b (x # xs) = ((b \<longrightarrow> x = 0x7E) \<and> aligned (x = 0x7F) xs)"

definition queue_inv :: "QUEUE \<Rightarrow> mem \<Rightarrow> bool" where
  "queue_inv q m \<longleftrightarrow>
     ring_inv (q_rb q) \<and> rb_size (q_rb q) < 2 ^ 15 \<and> aligned True (ring_contents (q_rb q) m)"

definition queue_msgs :: "QUEUE \<Rightarrow> mem \<Rightarrow> u8 list list" where
  "queue_msgs q m = msgs (ring_contents (q_rb q) m)"

definition queue_disj :: "QUEUE \<Rightarrow> addr \<Rightarrow> nat \<Rightarrow> bool" where
  "queue_disj q a n \<longleftrightarrow> disjnt_blk a n (p_o (q_rb q)) (nat (rb_size (q_rb q)))"

section \<open>Lemmas\<close>

lemma aligned_append:
  "aligned b (xs @ ys) \<longleftrightarrow>
     aligned b xs \<and> aligned (if xs = [] then b else last xs = 0x7F) ys"
  by (induction xs arbitrary: b) auto

lemma aligned_False: "0x7F \<notin> set ys \<Longrightarrow> aligned False ys"
  by (induction ys) auto

lemma no_terminator_take_frame: "k < length (frame bs) \<Longrightarrow> 0x7F \<notin> set (take k (frame bs))"
  using no_terminator_stuff [of bs] in_set_takeD [of "0x7F" k "0x7E # stuff bs"]
  by (auto simp: frame_def length_frame take_Cons' dest: in_set_takeD)

lemma aligned_take_end:
  assumes "0x7F \<notin> set ys"
  shows "aligned False (take n (ys @ [0x7F]))"
proof (cases "n \<le> length ys")
  case True
  then show ?thesis using assms by (auto intro!: aligned_False dest: in_set_takeD)
next
  case False
  have "aligned False (ys @ [0x7F])" using assms by (induction ys) auto
  then show ?thesis using False by simp
qed

lemma aligned_take_frame: "aligned b (take k (frame bs))"
proof (cases k)
  case (Suc n)
  have "aligned False (take n (stuff bs @ [0x7F]))"
    using aligned_take_end no_terminator_stuff(1) .
  then show ?thesis using Suc by (simp add: frame_def)
qed simp

lemma unframe_aligned:
  "aligned b xs \<Longrightarrow> unframe st xs = Some (a, ys) \<Longrightarrow> aligned True ys"
proof (induction st xs arbitrary: b rule: unframe.induct)
  case (2 b e acc x xs)
  then show ?case by (auto split: if_splits)
qed simp

lemma unframe_start_irrelevant:
  "aligned True xs \<Longrightarrow> unframe st xs = unframe st' xs"
  by (cases xs; cases st; cases st') auto

lemma queue_msgs_empty:
  "queue_inv q m \<Longrightarrow> QUEUE_IsEmpty q \<Longrightarrow> queue_msgs q m = []"
  by (simp add: queue_msgs_def QUEUE_IsEmpty_def msgs_no_terminator ring_contents_def
      split: if_splits)

lemma queue_msgs_frame:
  assumes "queue_inv q m" "same_outside m m' a n" "queue_disj q a n"
  shows "queue_inv q m' \<and> queue_msgs q m' = queue_msgs q m \<and>
         ring_contents (q_rb q) m' = ring_contents (q_rb q) m"
proof -
  have "ring_contents (q_rb q) m' = ring_contents (q_rb q) m"
    using assms
    by (intro ring_contents_cong)
       (auto simp: queue_inv_def same_outside_def queue_disj_def disjnt_blk_def)
  then show ?thesis using assms(1) by (simp add: queue_inv_def queue_msgs_def)
qed

lemma QUEUE_Init_inv:
  assumes "os_zalloc m n = (a, m1)" "a \<noteq> 0" "2 \<le> n" "n < 2 ^ 15"
  shows "\<exists>q'. QUEUE_Init os_zalloc q m n = (q', m1) \<and> queue_inv q' m1 \<and> queue_msgs q' m1 = [] \<and>
           q_buf q' = a \<and> p_o (q_rb q') = a \<and> rb_size (q_rb q') = n"
  using assms
  by (simp add: QUEUE_Init_def RINGBUF_Init_def queue_inv_def queue_msgs_def ring_inv_def
      ring_contents_def)

lemma QUEUE_Puts_spec:
  assumes inv: "queue_inv q m" and dis: "queue_disj q buffer (unat len)"
    and put: "QUEUE_Puts q m buffer len = (q', m', ret)"
  shows "queue_inv q' m' \<and> p_o (q_rb q') = p_o (q_rb q) \<and> rb_size (q_rb q') = rb_size (q_rb q) \<and>
    same_outside m m' (p_o (q_rb q)) (nat (rb_size (q_rb q))) \<and>
    queue_msgs q' m' = (if ret = -1 then queue_msgs q m
                        else queue_msgs q m @ [mem_read m buffer (unat len)])"
    and "ret = -1 \<longleftrightarrow> rb_size (q_rb q) <
           fill_cnt (q_rb q) + int (length (frame (mem_read m buffer (unat len))))"
proof -
  define bs where "bs = mem_read m buffer (unat len)"
  obtain r1 where add: "PROTO_AddRb (q_rb q) m buffer len = (r1, m', ret)" and q': "q' = q\<lparr>q_rb := r1\<rparr>"
    using put by (auto simp: QUEUE_Puts_def split: prod.splits)
  have rinv: "ring_inv (q_rb q)" "rb_size (q_rb q) < 2 ^ 15" using inv by (simp_all add: queue_inv_def)
  note sp = PROTO_AddRb_spec [OF rinv(1) dis [unfolded queue_disj_def] add, folded bs_def]
  note rt = PROTO_AddRb_ret [OF rinv(1) dis [unfolded queue_disj_def] add rinv(2), folded bs_def]
  define room where "room = nat (rb_size (q_rb q)) - length (ring_contents (q_rb q) m)"
  have fill: "0 \<le> fill_cnt (q_rb q)" "fill_cnt (q_rb q) \<le> rb_size (q_rb q)"
    using rinv(1) by (simp_all add: ring_inv_def)
  then have room: "ret = -1 \<longleftrightarrow> room < length (frame bs)"
    using rt by (auto simp: room_def)
  have "msgs (ring_contents (q_rb q) m @ take room (frame bs)) =
      (if ret = -1 then msgs (ring_contents (q_rb q) m) else msgs (ring_contents (q_rb q) m) @ [bs])"
    using room msgs_snoc_junk [OF no_terminator_take_frame] msgs_snoc_frame by simp
  moreover have "aligned True (ring_contents (q_rb q) m @ take room (frame bs))"
    using inv by (simp add: aligned_append aligned_take_frame queue_inv_def)
  ultimately show "queue_inv q' m' \<and> p_o (q_rb q') = p_o (q_rb q) \<and>
    rb_size (q_rb q') = rb_size (q_rb q) \<and>
    same_outside m m' (p_o (q_rb q)) (nat (rb_size (q_rb q))) \<and>
    queue_msgs q' m' = (if ret = -1 then queue_msgs q m
                        else queue_msgs q m @ [mem_read m buffer (unat len)])"
    using sp rinv by (simp add: q' queue_inv_def queue_msgs_def room_def bs_def)
  show "ret = -1 \<longleftrightarrow> rb_size (q_rb q) <
      fill_cnt (q_rb q) + int (length (frame (mem_read m buffer (unat len))))"
    using rt by (simp add: bs_def)
qed

lemma QUEUE_Gets_spec:
  assumes inv: "queue_inv q m" and dis: "queue_disj q buffer (unat maxLen)"
    and get: "QUEUE_Gets q m proto buffer len maxLen = (q', m', len', ret)"
  shows "queue_inv q' m' \<and> p_o (q_rb q') = p_o (q_rb q) \<and> rb_size (q_rb q') = rb_size (q_rb q) \<and>
     same_outside m m' buffer (unat maxLen)"
    and "queue_msgs q m = [] \<Longrightarrow> ret = -1 \<and> queue_msgs q' m' = [] \<and> QUEUE_IsEmpty q' \<and> len' = len"
    and "queue_msgs q m = a # as \<Longrightarrow> ret = 0 \<and> queue_msgs q' m' = as \<and>
           unat len' = min (length a) (unat maxLen) \<and>
           mem_read m' buffer (unat len') = take (unat maxLen) a"
proof -
  let ?xs = "ring_contents (q_rb q) m" and ?st = "(isBegin proto \<noteq> 0, False, [])"
  obtain r1 where parse: "PROTO_ParseRb (q_rb q) m proto buffer len maxLen = (r1, m', len', ret)"
    and q': "q' = q\<lparr>q_rb := r1\<rparr>"
    using get by (auto simp: QUEUE_Gets_def split: prod.splits)
  have rinv: "ring_inv (q_rb q)" "rb_size (q_rb q) < 2 ^ 15" "aligned True ?xs"
    using inv by (simp_all add: queue_inv_def)
  note sp = PROTO_ParseRb_spec [OF rinv(1) dis [unfolded queue_disj_def] parse]
  have un: "unframe ?st ?xs = unframe (False, False, []) ?xs"
    using rinv(3) by (rule unframe_start_irrelevant)
  have "aligned True (ring_contents r1 m')"
    using sp unframe_aligned [OF rinv(3)]
    by (auto simp: parse_result_def split: option.splits)
  then show "queue_inv q' m' \<and> p_o (q_rb q') = p_o (q_rb q) \<and>
     rb_size (q_rb q') = rb_size (q_rb q) \<and> same_outside m m' buffer (unat maxLen)"
    using sp rinv by (simp add: q' queue_inv_def)
  show "ret = -1 \<and> queue_msgs q' m' = [] \<and> QUEUE_IsEmpty q' \<and> len' = len" if "queue_msgs q m = []"
  proof -
    have "unframe ?st ?xs = None"
      using that un by (simp add: queue_msgs_def msgs_eq_Nil_iff)
    then have "ring_contents r1 m' = []" "ret = -1" "len' = len"
      using sp by (simp_all add: parse_result_def)
    moreover from this(1) have "fill_cnt r1 \<le> 0"
      by (metis length_0_conv nat_0_iff ring_contents_length)
    ultimately show ?thesis by (simp add: q' queue_msgs_def QUEUE_IsEmpty_def)
  qed
  show "ret = 0 \<and> queue_msgs q' m' = as \<and> unat len' = min (length a) (unat maxLen) \<and>
      mem_read m' buffer (unat len') = take (unat maxLen) a" if h: "queue_msgs q m = a # as"
  proof -
    obtain rest where "unframe ?st ?xs = Some (a, rest)" "msgs rest = as"
      using h un by (auto simp: queue_msgs_def msgs_eq_Cons_iff)
    then show ?thesis using sp by (auto simp: parse_result_def q' queue_msgs_def)
  qed
qed

section \<open>The queue contract and the client's enqueue loop\<close>

text \<open>
  What the client relies on: \<open>put\<close> appends the message or leaves the queue as it was, \<open>get\<close> removes
  the oldest message or reports an empty queue.
\<close>

locale msg_queue =
  fixes put :: "'s \<Rightarrow> 's \<times> bool" and get :: "'s \<Rightarrow> 's \<times> bool"
    and queued :: "'s \<Rightarrow> 'a list" and invar :: "'s \<Rightarrow> bool" and msg :: 'a
  assumes put_inv: "invar s \<Longrightarrow> invar (fst (put s))"
    and put_ok: "invar s \<Longrightarrow> snd (put s) \<Longrightarrow> queued (fst (put s)) = queued s @ [msg]"
    and put_no: "invar s \<Longrightarrow> \<not> snd (put s) \<Longrightarrow> queued (fst (put s)) = queued s"
    and get_inv: "invar s \<Longrightarrow> invar (fst (get s))"
    and get_none: "invar s \<Longrightarrow> queued s = [] \<Longrightarrow> \<not> snd (get s) \<and> queued (fst (get s)) = []"
    and get_some: "invar s \<Longrightarrow> queued s = a # as \<Longrightarrow> snd (get s) \<and> queued (fst (get s)) = as"
begin

lemma enqueue_loop_returns:
  assumes "invar s"
  shows "\<exists>s' ok. enqueue_loop put get s = Some (s', ok) \<and> invar s' \<and>
    (if ok then \<exists>k \<le> length (queued s). queued s' = drop k (queued s) @ [msg] else queued s' = [])"
  using assms
proof (induction "length (queued s)" arbitrary: s)
  case 0
  obtain s1 ok where p: "put s = (s1, ok)" by fastforce
  obtain s2 ok2 where g: "get s1 = (s2, ok2)" by fastforce
  show ?case
    using 0 p g put_inv [of s] put_ok [of s] put_no [of s] get_inv [of s1] get_none [of s1]
    by (cases ok) (auto simp: enqueue_loop.simps [of put get s])
next
  case (Suc n)
  obtain s1 ok where p: "put s = (s1, ok)" by fastforce
  show ?case
  proof (cases ok)
    case True
    then have "queued s1 = drop 0 (queued s) @ [msg]" using p put_ok [of s] Suc.prems by simp
    moreover have "enqueue_loop put get s = Some (s1, True)" "invar s1"
      using True p put_inv [of s] Suc.prems by (simp_all add: enqueue_loop.simps [of put get s])
    ultimately show ?thesis by (metis le0)
  next
    case False
    obtain s2 ok2 where g: "get s1 = (s2, ok2)" by fastforce
    obtain a as where q: "queued s = a # as" using Suc.hyps(2) by (metis length_Suc_conv)
    have s1: "invar s1" "queued s1 = a # as"
      using p False put_inv [of s] put_no [of s] Suc.prems q by auto
    have s2: "ok2" "queued s2 = as" "invar s2"
      using g get_some [OF s1] get_inv [OF s1(1)] by auto
    from Suc.hyps(1) [of s2] s2 q Suc.hyps(2) obtain s' ok' where
      r: "enqueue_loop put get s2 = Some (s', ok')" "invar s'"
        "if ok' then \<exists>k \<le> length as. queued s' = drop k as @ [msg] else queued s' = []"
      by auto
    have "\<exists>k \<le> length (queued s). queued s' = drop k (queued s) @ [msg]"
      if "\<exists>k \<le> length as. queued s' = drop k as @ [msg]"
      using that q by (metis Suc_le_mono drop_Suc_Cons length_Cons)
    moreover have "enqueue_loop put get s = Some (s', ok')"
      using p False g s2 r by (simp add: enqueue_loop.simps [of put get s])
    ultimately show ?thesis using r by (metis (full_types))
  qed
qed

end

text \<open>The two operations as the client's loop uses them on one message.\<close>

definition q_put :: "addr \<Rightarrow> u16 \<Rightarrow> QUEUE \<times> mem \<Rightarrow> (QUEUE \<times> mem) \<times> bool" where
  "q_put data len s =
     (case QUEUE_Puts (fst s) (snd s) data len of (q, m, ret) \<Rightarrow> ((q, m), ret \<noteq> -1))"

definition q_get :: "PROTO_PARSER \<Rightarrow> addr \<Rightarrow> u16 \<Rightarrow> QUEUE \<times> mem \<Rightarrow> (QUEUE \<times> mem) \<times> bool" where
  "q_get proto dataBuffer maxLen s =
     (case QUEUE_Gets (fst s) (snd s) proto dataBuffer 0 maxLen of
        (q, m, len, ret) \<Rightarrow> ((q, m), ret \<noteq> -1))"

text \<open>
  Invariant of the loop: the ring stays the block \<open>(base, n)\<close>, the message \<open>bs\<close> stays in place, and
  only the ring and the scratch buffer differ from the store \<open>m0\<close> at the start.
\<close>

definition send_inv ::
  "addr \<Rightarrow> u16 \<Rightarrow> addr \<Rightarrow> u16 \<Rightarrow> addr \<Rightarrow> int \<Rightarrow> mem \<Rightarrow> QUEUE \<times> mem \<Rightarrow> bool" where
  "send_inv data len dataBuffer maxLen base n m0 s \<longleftrightarrow>
     queue_inv (fst s) (snd s) \<and> p_o (q_rb (fst s)) = base \<and> rb_size (q_rb (fst s)) = n \<and>
     disjnt_blk data (unat len) base (nat n) \<and> disjnt_blk dataBuffer (unat maxLen) base (nat n) \<and>
     disjnt_blk data (unat len) dataBuffer (unat maxLen) \<and>
     (\<forall>x. (x < base \<or> base + nat n \<le> x) \<and> (x < dataBuffer \<or> dataBuffer + unat maxLen \<le> x) \<longrightarrow>
       snd s x = m0 x)"

lemma send_inv_msg:
  assumes "send_inv data len db ml base n m0 s"
  shows "mem_read (snd s) data (unat len) = mem_read m0 data (unat len)"
  using assms by (intro mem_read_cong) (auto simp: send_inv_def disjnt_blk_def)

lemma q_put_inv:
  assumes "send_inv data len db ml base n m0 s"
  shows "send_inv data len db ml base n m0 (fst (q_put data len s)) \<and>
    queue_msgs (fst (fst (q_put data len s))) (snd (fst (q_put data len s))) =
      queue_msgs (fst s) (snd s) @
        (if snd (q_put data len s) then [mem_read m0 data (unat len)] else [])"
proof -
  obtain q m where s: "s = (q, m)" by fastforce
  obtain q' m' ret where put: "QUEUE_Puts q m data len = (q', m', ret)" by (metis prod_cases3)
  have a: "queue_inv q m" "queue_disj q data (unat len)"
    using assms s by (simp_all add: send_inv_def queue_disj_def)
  show ?thesis
    using assms QUEUE_Puts_spec(1) [OF a put] put s send_inv_msg [OF assms]
    by (auto simp: q_put_def send_inv_def same_outside_def)
qed

lemma q_get_inv:
  assumes "send_inv data len db ml base n m0 s" and "q_get proto db ml s = ((q', m'), ok)"
  shows "send_inv data len db ml base n m0 (q', m')"
    and "queue_msgs (fst s) (snd s) = [] \<Longrightarrow> \<not> ok \<and> queue_msgs q' m' = []"
    and "queue_msgs (fst s) (snd s) = a # as \<Longrightarrow> ok \<and> queue_msgs q' m' = as"
proof -
  obtain q m where s: "s = (q, m)" by fastforce
  obtain len' ret where get: "QUEUE_Gets q m proto db 0 ml = (q', m', len', ret)"
    and ok: "ok = (ret \<noteq> -1)"
    using assms(2) s by (auto simp: q_get_def split: prod.splits)
  have a: "queue_inv q m" "queue_disj q db (unat ml)"
    using assms(1) s by (simp_all add: send_inv_def queue_disj_def)
  note sp = QUEUE_Gets_spec [OF a get]
  show "send_inv data len db ml base n m0 (q', m')"
    using assms(1) sp(1) s by (auto simp: send_inv_def same_outside_def)
  show "queue_msgs (fst s) (snd s) = [] \<Longrightarrow> \<not> ok \<and> queue_msgs q' m' = []"
    using sp(2) s ok by simp
  show "queue_msgs (fst s) (snd s) = a # as \<Longrightarrow> ok \<and> queue_msgs q' m' = as"
    using sp(3) s ok by simp
qed

interpretation mq: msg_queue "q_put data len" "q_get proto db ml"
  "\<lambda>s. queue_msgs (fst s) (snd s)" "send_inv data len db ml base n m0" "mem_read m0 data (unat len)"
  for data len proto db ml base n m0
proof (unfold_locales, goal_cases)
  case (4 s)
  then show ?case using q_get_inv(1) [of data len db ml base n m0 s] by (metis prod.collapse)
next
  case (5 s)
  then show ?case using q_get_inv(2) [of data len db ml base n m0 s] by (metis prod.collapse)
next
  case (6 s a as)
  then show ?case using q_get_inv(3) [of data len db ml base n m0 s] by (metis prod.collapse)
qed (simp_all add: q_put_inv)

section \<open>Properties\<close>

text \<open>
  \<open>QUEUE_Puts\<close> is insertion at the end of the message list: it succeeds exactly when the frame
  of the message fits in the free space, the queued messages are then the old ones followed by the
  new one, and when it fails (-1) the queued messages are exactly the old ones, although a cut-off
  frame stays in the ring. Nothing outside the ring's block is written.
\<close>

theorem QUEUE_Puts_appends:
  assumes "queue_inv q m" "queue_disj q buffer (unat len)"
  shows "case QUEUE_Puts q m buffer len of (q', m', ret) \<Rightarrow>
    queue_inv q' m' \<and>
    same_outside m m' (p_o (q_rb q)) (nat (rb_size (q_rb q))) \<and>
    (ret = -1 \<longleftrightarrow> rb_size (q_rb q) <
       fill_cnt (q_rb q) + int (length (frame (mem_read m buffer (unat len))))) \<and>
    queue_msgs q' m' = (if ret = -1 then queue_msgs q m
                        else queue_msgs q m @ [mem_read m buffer (unat len)])"
  using QUEUE_Puts_spec [OF assms] by (auto split: prod.splits)

theorem QUEUE_Puts_appends_witness:
  "case QUEUE_Puts \<lparr>q_buf = 16, q_rb = \<lparr>p_o = 16, p_r = 18, p_w = 18, fill_cnt = 0, rb_size = 8\<rparr>\<rparr>
      ((\<lambda>_. 0)(100 := 0x41, 101 := 0x7E)) 100 2 of (q', m', ret) \<Rightarrow>
    queue_inv q' m' \<and> ret \<noteq> -1 \<and> queue_msgs q' m' = [[0x41, 0x7E]]"
  using QUEUE_Puts_appends
    [of "\<lparr>q_buf = 16, q_rb = \<lparr>p_o = 16, p_r = 18, p_w = 18, fill_cnt = 0, rb_size = 8\<rparr>\<rparr>"
      "(\<lambda>_. 0)(100 := 0x41, 101 := 0x7E)" 100 2]
  by (auto simp: queue_inv_def queue_disj_def ring_inv_def ring_contents_def disjnt_blk_def
      queue_msgs_def mem_read_def frame_def stuff_def esc_def is_ctl_def upt_rec split: prod.splits)

text \<open>
  C3. \<open>QUEUE_Gets\<close> is removal at the front: with no complete message it returns -1 and leaves the
  ring empty; otherwise it returns 0, stores the oldest message cut to \<open>maxLen\<close> bytes with its
  length, and the queue keeps the others in order, whatever the stack garbage in the parser object.
\<close>

theorem QUEUE_Gets_removes_oldest:
  assumes "queue_inv q m" "queue_disj q buffer (unat maxLen)"
  shows "case QUEUE_Gets q m proto buffer len maxLen of (q', m', len', ret) \<Rightarrow>
    queue_inv q' m' \<and> same_outside m m' buffer (unat maxLen) \<and>
    (case queue_msgs q m of
       [] \<Rightarrow> ret = -1 \<and> QUEUE_IsEmpty q' \<and> queue_msgs q' m' = []
     | a # as \<Rightarrow> ret = 0 \<and> queue_msgs q' m' = as \<and>
                unat len' = min (length a) (unat maxLen) \<and>
                mem_read m' buffer (unat len') = take (unat maxLen) a)"
proof -
  obtain q' m' len' ret where get: "QUEUE_Gets q m proto buffer len maxLen = (q', m', len', ret)"
    by (metis prod_cases4)
  note sp = QUEUE_Gets_spec [OF assms get]
  show ?thesis
  proof (cases "queue_msgs q m")
    case Nil
    then show ?thesis using get sp(1,2) by simp
  next
    case (Cons a as)
    from sp(1) sp(3) [OF this] show ?thesis unfolding Cons get by auto
  qed
qed

theorem QUEUE_Gets_removes_oldest_witness:
  "case QUEUE_Gets \<lparr>q_buf = 16, q_rb = \<lparr>p_o = 16, p_r = 22, p_w = 17, fill_cnt = 3, rb_size = 8\<rparr>\<rparr>
      ((\<lambda>_. 0)(22 := 0x7E, 23 := 0x55, 16 := 0x7F))
      \<lparr>pp_buf = 3, bufSize = 9, dataLen = 1, isEsc = 1, isBegin = 77, pp_callback = None\<rparr>
      200 0 4 of (q', m', len', ret) \<Rightarrow>
    ret = 0 \<and> unat len' = 1 \<and> m' 200 = 0x55 \<and> queue_msgs q' m' = []"
proof -
  let ?q = "\<lparr>q_buf = 16, q_rb = \<lparr>p_o = 16, p_r = 22, p_w = 17, fill_cnt = 3, rb_size = 8\<rparr>\<rparr>"
  let ?m = "(\<lambda>_. 0)(22 := 0x7E, 23 := 0x55, 16 := 0x7F) :: mem"
  have c: "ring_contents (q_rb ?q) ?m = frame [0x55]"
    by (simp add: ring_contents_def ring_read_def frame_def stuff_def esc_def is_ctl_def upt_rec)
  have inv: "queue_inv ?q ?m"
    using c aligned_take_frame [of True "length (frame [0x55])" "[0x55]"]
    by (simp add: queue_inv_def ring_inv_def)
  have "queue_msgs ?q ?m = [[0x55]]"
    using c msgs_snoc_frame [of "[]" "[0x55]"] by (simp add: queue_msgs_def)
  with QUEUE_Gets_removes_oldest [OF inv, of 200 4 "\<lparr>pp_buf = 3, bufSize = 9, dataLen = 1,
      isEsc = 1, isBegin = 77, pp_callback = None\<rparr>" 0]
  show ?thesis
    by (auto simp: queue_disj_def disjnt_blk_def mem_read_def upt_rec split: prod.splits)
qed

end
