(* ===== verification/Printing.thy ===== *)
theory Printing
  imports Esp_Prelude
begin

text \<open>
  The conversions \<^verbatim>\<open>%02x\<close> and \<^verbatim>\<open>%08x\<close> of \<^verbatim>\<open>printf\<close> with their inverse, shared by the image builder and the setup
  application, and string literals as bytes.
\<close>

definition ascii :: "string \<Rightarrow> u8 list" where
  "ascii s = map of_char s"

definition hexdig :: "nat \<Rightarrow> u8" where
  "hexdig n = (if n < 10 then of_nat (48 + n) else of_nat (87 + n))"

fun hex_fixed :: "nat \<Rightarrow> nat \<Rightarrow> u8 list" where
  "hex_fixed 0 v = []"
| "hex_fixed (Suc k) v = hex_fixed k (v div 16) @ [hexdig (v mod 16)]"

definition hexval :: "u8 \<Rightarrow> nat" where
  "hexval c = (if unat c < 58 then unat c - 48 else unat c - 87)"

lemma hexval_hexdig:
  assumes "n < 16"
  shows "hexval (hexdig n) = n"
proof -
  have "unat (of_nat (48 + n) :: u8) = 48 + n" "unat (of_nat (87 + n) :: u8) = 87 + n"
    using assms by (intro unat_of_nat_small; simp)+
  then show ?thesis using assms by (simp add: hexval_def hexdig_def del: of_nat_add)
qed

lemma hexdig_nonzero [simp]: "n < 16 \<Longrightarrow> hexdig n \<noteq> 0"
  using unat_of_nat_small [where 'a = 8, of "48 + n"] unat_of_nat_small [where 'a = 8, of "87 + n"]
  by (auto simp: hexdig_def unat_eq_0 [symmetric] simp del: of_nat_add unat_eq_0)

lemma length_hex_fixed [simp]: "length (hex_fixed k v) = k"
  by (induction k arbitrary: v) simp_all

lemma hex_fixed_nonzero: "0 \<notin> set (hex_fixed k v)"
  by (induction k arbitrary: v) (use hexdig_nonzero in \<open>auto simp: eq_commute [of 0]\<close>)

definition hex_read :: "u8 list \<Rightarrow> nat" where
  "hex_read cs = foldl (\<lambda>n c. 16 * n + hexval c) 0 cs"

lemma hex_read_fixed: "v < 16 ^ k \<Longrightarrow> hex_read (hex_fixed k v) = v"
proof (induction k arbitrary: v)
  case (Suc k)
  then have "hex_read (hex_fixed k (v div 16)) = v div 16" by (simp add: div_less_iff_less_mult mult.commute)
  then show ?case by (simp add: hex_read_def hexval_hexdig)
qed (simp add: hex_read_def)

end
