(* ===== verification/Mqtt_Msg.thy ===== *)
theory Mqtt_Msg
  imports Printing
begin

text \<open>
  The MQTT packet encoder and decoder of \<^verbatim>\<open>app_common/mqtt/mqtt_msg.c\<close>. A connection keeps one
  output buffer in the flat store; encoders build the packet from offset 3 and
  \<open>fini_message\<close> puts the fixed header in front of it. A C string argument is given by the bytes
  before its terminating NUL, \<open>None\<close> for a null pointer; a \<open>(data, data_length)\<close> pair by its bytes.
  The embedded \<open>mqtt_message_t\<close> is inlined as the fields \<open>mc_data\<close> and \<open>mc_length\<close>, and an encoder
  returns the connection, whose message is the result.
\<close>

section \<open>Data\<close>

record mqtt_connection =
  mc_data :: addr
  mc_length :: u16
  mc_message_id :: u16
  mc_buffer :: addr
  mc_buffer_length :: u16

record mqtt_connect_info =
  ci_client_id :: "u8 list option"
  ci_username :: "u8 list option"
  ci_password :: "u8 list option"
  ci_will_topic :: "u8 list option"
  ci_will_message :: "u8 list option"
  ci_keepalive :: u32
  ci_will_qos :: int
  ci_will_retain :: int
  ci_clean_session :: int

datatype mqtt_protocol_ver = PROTOCOL_NAMEv31 | PROTOCOL_NAMEv311

abbreviation (input) "MQTT_MAX_FIXED_HEADER_SIZE \<equiv> (3 :: nat)"

abbreviation (input) "MQTT_MSG_TYPE_CONNECT \<equiv> (1 :: int)"
abbreviation (input) "MQTT_MSG_TYPE_CONNACK \<equiv> (2 :: int)"
abbreviation (input) "MQTT_MSG_TYPE_PUBLISH \<equiv> (3 :: int)"
abbreviation (input) "MQTT_MSG_TYPE_PUBACK \<equiv> (4 :: int)"
abbreviation (input) "MQTT_MSG_TYPE_PUBREC \<equiv> (5 :: int)"
abbreviation (input) "MQTT_MSG_TYPE_PUBREL \<equiv> (6 :: int)"
abbreviation (input) "MQTT_MSG_TYPE_PUBCOMP \<equiv> (7 :: int)"
abbreviation (input) "MQTT_MSG_TYPE_SUBSCRIBE \<equiv> (8 :: int)"
abbreviation (input) "MQTT_MSG_TYPE_SUBACK \<equiv> (9 :: int)"
abbreviation (input) "MQTT_MSG_TYPE_UNSUBSCRIBE \<equiv> (10 :: int)"
abbreviation (input) "MQTT_MSG_TYPE_UNSUBACK \<equiv> (11 :: int)"
abbreviation (input) "MQTT_MSG_TYPE_PINGREQ \<equiv> (12 :: int)"
abbreviation (input) "MQTT_MSG_TYPE_PINGRESP \<equiv> (13 :: int)"
abbreviation (input) "MQTT_MSG_TYPE_DISCONNECT \<equiv> (14 :: int)"

section \<open>Building blocks of the encoder\<close>

definition append_string ::
  "mqtt_connection \<Rightarrow> mem \<Rightarrow> u8 list \<Rightarrow> mqtt_connection \<times> mem \<times> int" where
  "append_string c m s =
     (let len = length s in
      if unat (mc_length c) + len + 2 > unat (mc_buffer_length c) then (c, m, -1)
      else
        let m1 = m(mc_buffer c + unat (mc_length c) := of_nat (drop_bit 8 len));
            c1 = c\<lparr>mc_length := mc_length c + 1\<rparr>;
            m2 = m1(mc_buffer c1 + unat (mc_length c1) := of_nat (len AND 0xff));
            c2 = c1\<lparr>mc_length := mc_length c1 + 1\<rparr>;
            m3 = mem_write m2 (mc_buffer c2 + unat (mc_length c2)) s
        in (c2\<lparr>mc_length := mc_length c2 + of_nat len\<rparr>, m3, int len + 2))"

text \<open>\<^verbatim>\<open>while (message_id == 0) message_id = ++connection->message_id;\<close>\<close>

function next_message_id :: "mqtt_connection \<Rightarrow> u16 \<Rightarrow> mqtt_connection \<times> u16" where
  "next_message_id c i =
     (if i = 0 then
        let c1 = c\<lparr>mc_message_id := mc_message_id c + 1\<rparr> in next_message_id c1 (mc_message_id c1)
      else (c, i))"
  by pat_completeness auto
termination
  by (relation "measure (\<lambda>(c, i). if i \<noteq> 0 then 0 else if mc_message_id c = -1 then 2 else 1)")
     (auto simp: eq_neg_iff_add_eq_0)

declare next_message_id.simps [simp del]

definition append_message_id ::
  "mqtt_connection \<Rightarrow> mem \<Rightarrow> u16 \<Rightarrow> mqtt_connection \<times> mem \<times> u16" where
  "append_message_id c m message_id =
     (case next_message_id c message_id of (c1, i) \<Rightarrow>
        if unat (mc_length c1) + 2 > unat (mc_buffer_length c1) then (c1, m, 0)
        else
          let m1 = m(mc_buffer c1 + unat (mc_length c1) := ucast (drop_bit 8 i));
              c2 = c1\<lparr>mc_length := mc_length c1 + 1\<rparr>;
              m2 = m1(mc_buffer c2 + unat (mc_length c2) := ucast (i AND 0xff));
              c3 = c2\<lparr>mc_length := mc_length c2 + 1\<rparr>
          in (c3, m2, i))"

definition init_message :: "mqtt_connection \<Rightarrow> mqtt_connection" where
  "init_message c = c\<lparr>mc_length := of_nat MQTT_MAX_FIXED_HEADER_SIZE\<rparr>"

definition fail_message :: "mqtt_connection \<Rightarrow> mqtt_connection" where
  "fail_message c = c\<lparr>mc_data := mc_buffer c, mc_length := 0\<rparr>"

definition fixed_header_byte :: "int \<Rightarrow> int \<Rightarrow> int \<Rightarrow> int \<Rightarrow> u8" where
  "fixed_header_byte type dup qos retain =
     word_of_int (push_bit 4 (type AND 0x0f) OR push_bit 3 (dup AND 1) OR push_bit 1 (qos AND 3) OR
       (retain AND 1))"

definition fini_message ::
  "mqtt_connection \<Rightarrow> mem \<Rightarrow> int \<Rightarrow> int \<Rightarrow> int \<Rightarrow> int \<Rightarrow> mqtt_connection \<times> mem" where
  "fini_message c m type dup qos retain =
     (let remaining_length = int (unat (mc_length c)) - int MQTT_MAX_FIXED_HEADER_SIZE in
      if remaining_length > 127 then
        (c\<lparr>mc_length := word_of_int (remaining_length + 3), mc_data := mc_buffer c\<rparr>,
         m(mc_buffer c := fixed_header_byte type dup qos retain,
           mc_buffer c + 1 := word_of_int (0x80 OR (remaining_length mod 128)),
           mc_buffer c + 2 := word_of_int (remaining_length div 128)))
      else
        (c\<lparr>mc_length := word_of_int (remaining_length + 2), mc_data := mc_buffer c + 1\<rparr>,
         m(mc_buffer c + 1 := fixed_header_byte type dup qos retain,
           mc_buffer c + 2 := word_of_int remaining_length)))"

definition mqtt_msg_init :: "addr \<Rightarrow> u16 \<Rightarrow> mqtt_connection" where
  "mqtt_msg_init buffer buffer_length =
     \<lparr>mc_data = 0, mc_length = 0, mc_message_id = 0, mc_buffer = buffer,
      mc_buffer_length = buffer_length\<rparr>"

section \<open>The decoder\<close>

definition mqtt_get_type :: "mem \<Rightarrow> addr \<Rightarrow> int" where
  "mqtt_get_type m buffer = uint (drop_bit 4 (m buffer AND 0xf0))"

definition mqtt_get_dup :: "mem \<Rightarrow> addr \<Rightarrow> int" where
  "mqtt_get_dup m buffer = uint (drop_bit 3 (m buffer AND 0x08))"

definition mqtt_get_qos :: "mem \<Rightarrow> addr \<Rightarrow> int" where
  "mqtt_get_qos m buffer = uint (drop_bit 1 (m buffer AND 0x06))"

definition mqtt_get_retain :: "mem \<Rightarrow> addr \<Rightarrow> int" where
  "mqtt_get_retain m buffer = uint (m buffer AND 0x01)"

text \<open>
  The loop over the remaining-length bytes. It returns the index after the field and the value,
  a 32-bit \<open>int\<close> kept as a word; C leaves the shift undefined from the sixth byte on, where the
  model shifts the bits out.
\<close>

function remlen_loop :: "mem \<Rightarrow> addr \<Rightarrow> nat \<Rightarrow> nat \<Rightarrow> u32 \<Rightarrow> nat \<times> u32" where
  "remlen_loop m buffer len i totlen =
     (if i < len then
        let t1 = totlen + push_bit (7 * (i - 1)) (ucast (m (buffer + i) AND 0x7f)) in
        if m (buffer + i) AND 0x80 = 0 then (i + 1, t1)
        else remlen_loop m buffer len (i + 1) t1
      else (i, totlen))"
  by pat_completeness auto
termination
  by (relation "measure (\<lambda>(m, buffer, len, i, totlen). len - i)") auto

declare remlen_loop.simps [simp del]

definition mqtt_get_total_length :: "mem \<Rightarrow> addr \<Rightarrow> u16 \<Rightarrow> u32" where
  "mqtt_get_total_length m buffer len =
     (case remlen_loop m buffer (unat len) 1 0 of (i, totlen) \<Rightarrow> totlen + of_nat i)"

definition be_topiclen :: "mem \<Rightarrow> addr \<Rightarrow> nat" where
  "be_topiclen m a = unat (push_bit 8 (ucast (m a) :: u32) OR ucast (m (a + 1)))"

text \<open>The pointer result (\<open>None\<close> for \<open>NULL\<close>) and the value left in \<open>*length\<close>.\<close>

definition mqtt_get_publish_topic :: "mem \<Rightarrow> addr \<Rightarrow> u16 \<Rightarrow> addr option \<times> u16" where
  "mqtt_get_publish_topic m buffer len =
     (case remlen_loop m buffer (unat len) 1 0 of (i, totlen) \<Rightarrow>
        if i + 2 \<ge> unat len then (None, len)
        else
          let topiclen = be_topiclen m (buffer + i); i2 = i + 2 in
          if i2 + topiclen > unat len then (None, len)
          else (Some (buffer + i2), of_nat topiclen))"

definition mqtt_get_publish_data :: "mem \<Rightarrow> addr \<Rightarrow> u16 \<Rightarrow> addr option \<times> u16" where
  "mqtt_get_publish_data m buffer blen =
     (let blength = unat blen in
      case remlen_loop m buffer blength 1 0 of (i0, tot) \<Rightarrow>
        let totlen = sint (tot + of_nat i0) in
        if i0 + 2 \<ge> blength then (None, 0)
        else
          let topiclen = be_topiclen m (buffer + i0); i1 = i0 + 2 in
          if i1 + topiclen \<ge> blength then (None, 0)
          else
            let i2 = i1 + topiclen in
            if mqtt_get_qos m buffer > 0 \<and> i2 + 2 \<ge> blength then (None, 0)
            else
              let i = (if mqtt_get_qos m buffer > 0 then i2 + 2 else i2) in
              if totlen < int i then (None, 0)
              else if totlen \<le> int blength then (Some (buffer + i), word_of_int (totlen - int i))
              else (Some (buffer + i), of_nat (blength - i)))"

definition mqtt_get_id :: "mem \<Rightarrow> addr \<Rightarrow> u16 \<Rightarrow> u16" where
  "mqtt_get_id m buffer len =
     (if len < 1 then 0
      else
        let ty = mqtt_get_type m buffer in
        if ty = MQTT_MSG_TYPE_PUBLISH then
          (case remlen_loop m buffer (unat len) 1 0 of (i0, tot) \<Rightarrow>
             if i0 + 2 \<ge> unat len then 0
             else
               let topiclen = be_topiclen m (buffer + i0); i1 = i0 + 2 in
               if i1 + topiclen \<ge> unat len then 0
               else
                 let i = i1 + topiclen in
                 if mqtt_get_qos m buffer > 0 then
                   if i + 2 \<ge> unat len then 0
                   else push_bit 8 (ucast (m (buffer + i))) OR ucast (m (buffer + i + 1))
                 else 0)
        else if ty \<in> {MQTT_MSG_TYPE_PUBACK, MQTT_MSG_TYPE_PUBREC, MQTT_MSG_TYPE_PUBREL,
               MQTT_MSG_TYPE_PUBCOMP, MQTT_MSG_TYPE_SUBACK, MQTT_MSG_TYPE_UNSUBACK,
               MQTT_MSG_TYPE_SUBSCRIBE} then
          if len \<ge> 4 \<and> m (buffer + 1) AND 0x80 = 0
          then push_bit 8 (ucast (m (buffer + 2))) OR ucast (m (buffer + 3))
          else 0
        else 0)"

section \<open>The encoders\<close>

fun protocol_magic :: "mqtt_protocol_ver \<Rightarrow> u8 list \<times> u8" where
  "protocol_magic PROTOCOL_NAMEv31 = (ascii ''MQIsdp'', 3)"
| "protocol_magic PROTOCOL_NAMEv311 = (ascii ''MQTT'', 4)"

text \<open>\<^verbatim>\<open>s != NULL && s[0] != '\0'\<close>\<close>

definition str_given :: "u8 list option \<Rightarrow> bool" where
  "str_given s = (case s of None \<Rightarrow> False | Some t \<Rightarrow> t \<noteq> [])"

text \<open>The variable header that \<open>mqtt_msg_connect\<close> fills in before it appends strings.\<close>

definition connect_header ::
  "mqtt_protocol_ver \<Rightarrow> mem \<Rightarrow> addr \<Rightarrow> mqtt_connect_info \<Rightarrow> mem \<times> addr" where
  "connect_header ver m vh info =
     (let magic = fst (protocol_magic ver);
          m1 = m(vh := 0, vh + 1 := of_nat (length magic));
          m2 = mem_write m1 (vh + 2) magic;
          m3 = m2(vh + 2 + length magic := snd (protocol_magic ver));
          fl = vh + 3 + length magic;
          m4 = m3(fl := 0, fl + 1 := ucast (drop_bit 8 (ci_keepalive info)),
                  fl + 2 := ucast (ci_keepalive info AND 0xff));
          m5 = (if ci_clean_session info \<noteq> 0 then m4(fl := m4 fl OR 0x02) else m4)
      in (m5, fl))"

definition connect_will ::
  "mqtt_connection \<Rightarrow> mem \<Rightarrow> addr \<Rightarrow> mqtt_connect_info \<Rightarrow> mqtt_connection \<times> mem \<times> bool" where
  "connect_will c m fl info =
     (if str_given (ci_will_topic info) then
        case append_string c m (the (ci_will_topic info)) of (c1, m1, r1) \<Rightarrow>
          if r1 < 0 then (c1, m1, False)
          else
            case append_string c1 m1 (the (ci_will_message info)) of (c2, m2, r2) \<Rightarrow>
              if r2 < 0 then (c2, m2, False)
              else
                let m3 = m2(fl := m2 fl OR 0x04);
                    m4 = (if ci_will_retain info \<noteq> 0 then m3(fl := m3 fl OR 0x20) else m3);
                    m5 = m4(fl := m4 fl OR word_of_int (push_bit 3 (ci_will_qos info AND 3)))
                in (c2, m5, True)
      else (c, m, True))"

definition connect_credential ::
  "mqtt_connection \<Rightarrow> mem \<Rightarrow> addr \<Rightarrow> u8 list option \<Rightarrow> u8 \<Rightarrow> mqtt_connection \<times> mem \<times> bool" where
  "connect_credential c m fl s flag =
     (if str_given s then
        case append_string c m (the s) of (c1, m1, r1) \<Rightarrow>
          if r1 < 0 then (c1, m1, False) else (c1, m1(fl := m1 fl OR flag), True)
      else (c, m, True))"

definition mqtt_msg_connect ::
  "mqtt_protocol_ver \<Rightarrow> mqtt_connection \<Rightarrow> mem \<Rightarrow> mqtt_connect_info \<Rightarrow> mqtt_connection \<times> mem"
where
  "mqtt_msg_connect ver c0 m info =
     (let c = init_message c0; hs = length (fst (protocol_magic ver)) + 6 in
      if unat (mc_length c) + hs > unat (mc_buffer_length c) then (fail_message c, m)
      else
        case connect_header ver m (mc_buffer c + unat (mc_length c)) info of (m1, fl) \<Rightarrow>
          let c1 = c\<lparr>mc_length := mc_length c + of_nat hs\<rparr> in
          if \<not> str_given (ci_client_id info) then (fail_message c1, m1)
          else
            case append_string c1 m1 (the (ci_client_id info)) of (c2, m2, r2) \<Rightarrow>
              if r2 < 0 then (fail_message c2, m2)
              else
                case connect_will c2 m2 fl info of (c3, m3, ok3) \<Rightarrow>
                  if \<not> ok3 then (fail_message c3, m3)
                  else
                    case connect_credential c3 m3 fl (ci_username info) 0x80 of (c4, m4, ok4) \<Rightarrow>
                      if \<not> ok4 then (fail_message c4, m4)
                      else
                        case connect_credential c4 m4 fl (ci_password info) 0x40 of (c5, m5, ok5) \<Rightarrow>
                          if \<not> ok5 then (fail_message c5, m5)
                          else fini_message c5 m5 MQTT_MSG_TYPE_CONNECT 0 0 0)"

text \<open>The third component is the value left in \<open>*message_id\<close> (the caller's old one if unwritten).\<close>

definition mqtt_msg_publish ::
  "mqtt_connection \<Rightarrow> mem \<Rightarrow> u8 list option \<Rightarrow> u8 list \<Rightarrow> int \<Rightarrow> int \<Rightarrow> u16 \<Rightarrow>
     mqtt_connection \<times> mem \<times> u16" where
  "mqtt_msg_publish c0 m topic data qos retain mid0 =
     (let c = init_message c0 in
      if \<not> str_given topic then (fail_message c, m, mid0)
      else
        case append_string c m (the topic) of (c1, m1, r1) \<Rightarrow>
          if r1 < 0 then (fail_message c1, m1, mid0)
          else
            case (if qos > 0 then append_message_id c1 m1 0 else (c1, m1, 0)) of (c2, m2, mid) \<Rightarrow>
              if qos > 0 \<and> mid = 0 then (fail_message c2, m2, mid)
              else if unat (mc_length c2) + length data > unat (mc_buffer_length c2)
              then (fail_message c2, m2, mid)
              else
                let m3 = mem_write m2 (mc_buffer c2 + unat (mc_length c2)) data;
                    c3 = c2\<lparr>mc_length := mc_length c2 + of_nat (length data)\<rparr>
                in case fini_message c3 m3 MQTT_MSG_TYPE_PUBLISH 0 qos retain of
                     (c4, m4) \<Rightarrow> (c4, m4, mid))"

definition ack_message ::
  "int \<Rightarrow> int \<Rightarrow> mqtt_connection \<Rightarrow> mem \<Rightarrow> u16 \<Rightarrow> mqtt_connection \<times> mem" where
  "ack_message type qos c0 m message_id =
     (case append_message_id (init_message c0) m message_id of (c1, m1, i) \<Rightarrow>
        if i = 0 then (fail_message c1, m1) else fini_message c1 m1 type 0 qos 0)"

definition mqtt_msg_puback :: "mqtt_connection \<Rightarrow> mem \<Rightarrow> u16 \<Rightarrow> mqtt_connection \<times> mem" where
  "mqtt_msg_puback = ack_message MQTT_MSG_TYPE_PUBACK 0"

definition mqtt_msg_pubrec :: "mqtt_connection \<Rightarrow> mem \<Rightarrow> u16 \<Rightarrow> mqtt_connection \<times> mem" where
  "mqtt_msg_pubrec = ack_message MQTT_MSG_TYPE_PUBREC 0"

definition mqtt_msg_pubrel :: "mqtt_connection \<Rightarrow> mem \<Rightarrow> u16 \<Rightarrow> mqtt_connection \<times> mem" where
  "mqtt_msg_pubrel = ack_message MQTT_MSG_TYPE_PUBREL 1"

definition mqtt_msg_pubcomp :: "mqtt_connection \<Rightarrow> mem \<Rightarrow> u16 \<Rightarrow> mqtt_connection \<times> mem" where
  "mqtt_msg_pubcomp = ack_message MQTT_MSG_TYPE_PUBCOMP 0"

definition mqtt_msg_subscribe ::
  "mqtt_connection \<Rightarrow> mem \<Rightarrow> u8 list option \<Rightarrow> int \<Rightarrow> u16 \<Rightarrow> mqtt_connection \<times> mem \<times> u16" where
  "mqtt_msg_subscribe c0 m topic qos mid0 =
     (let c = init_message c0 in
      if \<not> str_given topic then (fail_message c, m, mid0)
      else
        case append_message_id c m 0 of (c1, m1, mid) \<Rightarrow>
          if mid = 0 then (fail_message c1, m1, mid)
          else
            case append_string c1 m1 (the topic) of (c2, m2, r2) \<Rightarrow>
              if r2 < 0 then (fail_message c2, m2, mid)
              else if unat (mc_length c2) + 1 > unat (mc_buffer_length c2)
              then (fail_message c2, m2, mid)
              else
                let m3 = m2(mc_buffer c2 + unat (mc_length c2) := word_of_int qos);
                    c3 = c2\<lparr>mc_length := mc_length c2 + 1\<rparr>
                in case fini_message c3 m3 MQTT_MSG_TYPE_SUBSCRIBE 0 1 0 of
                     (c4, m4) \<Rightarrow> (c4, m4, mid))"

definition mqtt_msg_unsubscribe ::
  "mqtt_connection \<Rightarrow> mem \<Rightarrow> u8 list option \<Rightarrow> u16 \<Rightarrow> mqtt_connection \<times> mem \<times> u16" where
  "mqtt_msg_unsubscribe c0 m topic mid0 =
     (let c = init_message c0 in
      if \<not> str_given topic then (fail_message c, m, mid0)
      else
        case append_message_id c m 0 of (c1, m1, mid) \<Rightarrow>
          if mid = 0 then (fail_message c1, m1, mid)
          else
            case append_string c1 m1 (the topic) of (c2, m2, r2) \<Rightarrow>
              if r2 < 0 then (fail_message c2, m2, mid)
              else
                case fini_message c2 m2 MQTT_MSG_TYPE_UNSUBSCRIBE 0 1 0 of
                  (c3, m3) \<Rightarrow> (c3, m3, mid))"

definition mqtt_msg_pingreq :: "mqtt_connection \<Rightarrow> mem \<Rightarrow> mqtt_connection \<times> mem" where
  "mqtt_msg_pingreq c m = fini_message (init_message c) m MQTT_MSG_TYPE_PINGREQ 0 0 0"

definition mqtt_msg_pingresp :: "mqtt_connection \<Rightarrow> mem \<Rightarrow> mqtt_connection \<times> mem" where
  "mqtt_msg_pingresp c m = fini_message (init_message c) m MQTT_MSG_TYPE_PINGRESP 0 0 0"

definition mqtt_msg_disconnect :: "mqtt_connection \<Rightarrow> mem \<Rightarrow> mqtt_connection \<times> mem" where
  "mqtt_msg_disconnect c m = fini_message (init_message c) m MQTT_MSG_TYPE_DISCONNECT 0 0 0"

end
