(* ===== verification/Mqtt_Utils.thy ===== *)
theory Mqtt_Utils
  imports Esp_Prelude
begin

text \<open>
  The string helpers of \<^verbatim>\<open>app_common/mqtt/utils.c\<close>. A C string is given by the bytes before its
  terminating NUL, so the empty list is the position of the NUL; \<open>None\<close> is the null pointer.
\<close>

section \<open>Model\<close>

text \<open>The loop state of \<open>UTILS_IsIPV4\<close>: three \<open>uint8_t\<close> counters; the answer after the loop.\<close>

fun isipv4_loop :: "u8 \<Rightarrow> u8 \<Rightarrow> u8 \<Rightarrow> u8 list \<Rightarrow> u8" where
  "isipv4_loop segs chcnt accum [] = (if segs \<noteq> 3 then 0 else if chcnt = 0 then 0 else 1)"
| "isipv4_loop segs chcnt accum (c # str) =
     (if sint c = 46 then
        (if chcnt = 0 then 0
         else let segs1 = segs + 1 in
           if segs1 = 4 then 0 else isipv4_loop segs1 0 0 str)
      else if sint c < 48 \<or> sint c > 57 then 0
      else let accum1 = word_of_int (uint accum * 10 + sint c - 48) :: u8 in
        if uint accum1 > 255 then 0 else isipv4_loop segs (chcnt + 1) accum1 str)"

definition UTILS_IsIPV4 :: "u8 list option \<Rightarrow> u8" where
  "UTILS_IsIPV4 str = (case str of None \<Rightarrow> 0 | Some s \<Rightarrow> isipv4_loop 0 0 0 s)"

text \<open>
  The inner loop of \<open>UTILS_StrToIP\<close> for byte \<open>i\<close>: the accumulated \<open>int\<close> (kept at 32 bits) and the
  rest of the string after the byte that stopped it, or \<open>None\<close> for \<open>return 0\<close>.
\<close>

fun strtoip_number :: "nat \<Rightarrow> u32 \<Rightarrow> u8 list \<Rightarrow> (u32 \<times> u8 list) option" where
  "strtoip_number i n [] = (if i = 3 then Some (n, []) else None)"
| "strtoip_number i n (c # start) =
     (if 48 \<le> c \<and> c \<le> 57 then strtoip_number i (n * 10 + (ucast c - 48)) start
      else if (i < 3 \<and> c = 46) \<or> i = 3 then Some (n, start)
      else None)"

text \<open>The outer loop: \<open>k\<close> bytes are left to parse, \<open>4 - k\<close> is the C variable \<open>i\<close>.\<close>

fun strtoip_loop :: "nat \<Rightarrow> mem \<Rightarrow> addr \<Rightarrow> u8 list \<Rightarrow> mem \<times> u8" where
  "strtoip_loop 0 m ip start = (m, 1)"
| "strtoip_loop (Suc k) m ip start =
     (case strtoip_number (3 - k) 0 start of
        None \<Rightarrow> (m, 0)
      | Some (n, rest) \<Rightarrow>
          if sint n \<ge> 256 then (m, 0)
          else strtoip_loop k (m(ip + (3 - k) := ucast n)) ip rest)"

definition UTILS_StrToIP :: "mem \<Rightarrow> u8 list \<Rightarrow> addr \<Rightarrow> mem \<times> u8" where
  "UTILS_StrToIP m str ip = strtoip_loop 4 m ip str"

definition hex_digit :: "u8 \<Rightarrow> u32 option" where
  "hex_digit c =
     (if 48 \<le> sint c \<and> sint c \<le> 57 then Some (ucast c - 48)
      else if 65 \<le> sint c \<and> sint c \<le> 70 then Some (ucast c - 65 + 10)
      else if 97 \<le> sint c \<and> sint c \<le> 102 then Some (ucast c - 97 + 10)
      else None)"

fun atoh_loop :: "u32 \<Rightarrow> u8 list \<Rightarrow> u32" where
  "atoh_loop value [] = value"
| "atoh_loop value (c # s) =
     (case hex_digit c of None \<Rightarrow> value | Some digit \<Rightarrow> atoh_loop (push_bit 4 value OR digit) s)"

definition UTILS_Atoh :: "u8 list \<Rightarrow> u32" where
  "UTILS_Atoh s = atoh_loop 0 s"

section \<open>Decimal strings\<close>

definition digit :: "nat \<Rightarrow> u8" where
  "digit d = of_nat (48 + d)"

fun dec :: "nat \<Rightarrow> u8 list" where
  "dec n = (if n < 10 then [digit n] else dec (n div 10) @ [digit (n mod 10)])"

declare dec.simps [simp del]

definition dotted :: "nat \<Rightarrow> nat \<Rightarrow> nat \<Rightarrow> nat \<Rightarrow> u8 list" where
  "dotted a b c d = dec a @ 46 # dec b @ 46 # dec c @ 46 # dec d"

lemma unat_digit: "d < 10 \<Longrightarrow> unat (digit d) = 48 + d"
  by (simp only: digit_def unsigned_of_nat) (simp add: take_bit_nat_eq_self)

lemma digit_range: "d < 10 \<Longrightarrow> 48 \<le> digit d \<and> digit d \<le> 57"
  by (simp add: word_le_nat_alt unat_digit)

lemma ucast_digit: "d < 10 \<Longrightarrow> (ucast (digit d) :: u32) - 48 = of_nat d"
proof -
  assume d: "d < 10"
  have "(ucast (digit d) :: u32) = of_nat (48 + d)"
    using unat_digit [OF d] by (metis of_nat_unat)
  then show ?thesis by simp
qed

lemma strtoip_number_dec:
  "strtoip_number i 0 (dec n @ rest) = strtoip_number i (of_nat n) rest"
proof (induction n arbitrary: rest rule: dec.induct)
  case (1 n)
  show ?case
  proof (cases "n < 10")
    case True
    then show ?thesis by (subst dec.simps) (simp add: digit_range ucast_digit)
  next
    case False
    have "(of_nat (n div 10) * 10 + of_nat (n mod 10) :: u32) = of_nat (n div 10 * 10 + n mod 10)"
      by (simp only: of_nat_add of_nat_mult of_nat_numeral)
    also have "n div 10 * 10 + n mod 10 = n" by simp
    finally have "(of_nat (n div 10) * 10 + of_nat (n mod 10) :: u32) = of_nat n" .
    then show ?thesis
      using False 1 [of "digit (n mod 10) # rest"]
      by (subst dec.simps) (simp add: digit_range ucast_digit)
  qed
qed

section \<open>Properties\<close>

text \<open>
  \<open>UTILS_StrToIP\<close> inverts decimal printing: on the dotted form of four numbers below 256 it
  returns 1 and stores exactly these four bytes at \<open>ip\<close>, and it changes nothing else.
\<close>

theorem UTILS_StrToIP_dotted:
  assumes "a < 256" "b < 256" "c < 256" "d < 256"
  shows "UTILS_StrToIP m (dotted a b c d) ip =
    (mem_write m ip [of_nat a, of_nat b, of_nat c, of_nat d], 1)"
proof -
  have small: "\<not> 256 \<le> sint (of_nat n :: u32)" "(ucast (of_nat n :: u32) :: u8) = of_nat n"
    if "n < 256" for n
  proof -
    show "\<not> 256 \<le> sint (of_nat n :: u32)"
      using that by (simp add: signed_of_nat signed_take_bit_int_eq_self)
    show "(ucast (of_nat n :: u32) :: u8) = of_nat n"
      using that
      by (simp add: word_unat_eq_iff unsigned_ucast_eq unsigned_of_nat take_bit_nat_eq_self)
  qed
  have four: "(4 :: nat) = Suc (Suc (Suc (Suc 0)))" by simp
  have number: "strtoip_number i 0 (dec n @ 46 # rest) = Some (of_nat n, rest)" if "i < 3" for i n rest
    using that by (simp add: strtoip_number_dec word_le_nat_alt)
  have last: "strtoip_number 3 0 (dec d) = Some (of_nat d, [])"
    using strtoip_number_dec [of 3 d "[]"] by simp
  show ?thesis
    unfolding UTILS_StrToIP_def dotted_def four
    using assms by (simp add: small number last [unfolded numeral_3_eq_3] mem_write_Cons numeral_2_eq_2 numeral_3_eq_3)
qed

theorem UTILS_StrToIP_dotted_witness:
  "UTILS_StrToIP (\<lambda>_. 0) (dotted 192 168 1 40) 8 = (mem_write (\<lambda>_. 0) 8 [192, 168, 1, 40], 1)"
  using UTILS_StrToIP_dotted [of 192 168 1 40] by simp

fun join :: "u8 list list \<Rightarrow> u8 list" where
  "join [] = []"
| "join [p] = p"
| "join (p # q # ps) = p @ 46 # join (q # ps)"

definition all_digits :: "u8 list \<Rightarrow> bool" where
  "all_digits p = list_all (\<lambda>c. 48 \<le> sint c \<and> sint c \<le> 57) p"

text \<open>Non-empty segments of digits; the \<open>uint8_t\<close> counter misses lengths divisible by 256.\<close>

definition seg_ok :: "u8 \<Rightarrow> u8 list \<Rightarrow> bool" where
  "seg_ok chcnt p \<longleftrightarrow> all_digits p \<and> chcnt + of_nat (length p) \<noteq> 0"

lemma join_Cons: "ps \<noteq> [] \<Longrightarrow> join (p # ps) = p @ 46 # join ps"
  by (cases ps) auto

lemma join_eq_Cons:
  "c # str = join (p # ps) \<longleftrightarrow>
     (\<exists>p'. p = c # p' \<and> str = join (p' # ps)) \<or> (p = [] \<and> c = 46 \<and> ps \<noteq> [] \<and> str = join ps)"
  by (cases ps; cases p) auto

definition segments :: "u8 \<Rightarrow> u8 \<Rightarrow> u8 list \<Rightarrow> bool" where
  "segments segs chcnt s \<longleftrightarrow>
    (\<exists>p ps. s = join (p # ps) \<and> length ps = 3 - unat segs \<and> seg_ok chcnt p \<and> (\<forall>q\<in>set ps. seg_ok 0 q))"

lemma sint_dot: "sint (c :: u8) = 46 \<longleftrightarrow> c = 46"
proof
  assume "sint c = 46"
  then have "sint c = sint (46 :: u8)" by simp
  then show "c = 46" by (rule signed_word_eqI)
qed simp

lemma segments_Nil: "unat segs \<le> 3 \<Longrightarrow> segments segs chcnt [] \<longleftrightarrow> segs = 3 \<and> chcnt \<noteq> 0"
proof -
  assume "unat segs \<le> 3"
  moreover have "segs = 3 \<longleftrightarrow> unat segs = 3" by (simp add: word_unat_eq_iff)
  moreover have "[] = join (p # ps) \<longleftrightarrow> p = [] \<and> ps = []" for p ps by (cases ps) auto
  ultimately show ?thesis by (auto simp: segments_def seg_ok_def all_digits_def)
qed

lemma segments_dot:
  assumes "unat segs \<le> 3"
  shows "segments segs chcnt (46 # str) \<longleftrightarrow> chcnt \<noteq> 0 \<and> segs + 1 \<noteq> 4 \<and> segments (segs + 1) 0 str"
proof -
  have u: "unat (segs + 1) = Suc (unat segs)" using assms by (simp add: unat_word_ariths)
  then have g: "segs + 1 = 4 \<longleftrightarrow> unat segs = 3" by (simp add: word_unat_eq_iff)
  have nd: "\<not> seg_ok k (46 # p)" for k p by (simp add: seg_ok_def all_digits_def)
  have e: "seg_ok chcnt [] \<longleftrightarrow> chcnt \<noteq> 0" by (simp add: seg_ok_def all_digits_def)
  show ?thesis
  proof
    assume "segments segs chcnt (46 # str)"
    then obtain ps where ps: "ps \<noteq> []" "str = join ps" "length ps = 3 - unat segs" "chcnt \<noteq> 0"
      "\<forall>q\<in>set ps. seg_ok 0 q"
      unfolding segments_def join_eq_Cons using nd e by blast
    then obtain q qs where q: "ps = q # qs" by (cases ps) auto
    show "chcnt \<noteq> 0 \<and> segs + 1 \<noteq> 4 \<and> segments (segs + 1) 0 str"
      unfolding segments_def g u using ps q by (auto intro!: exI [of _ q] exI [of _ qs])
  next
    assume h: "chcnt \<noteq> 0 \<and> segs + 1 \<noteq> 4 \<and> segments (segs + 1) 0 str"
    then obtain q qs where q: "str = join (q # qs)" "length qs = 3 - Suc (unat segs)" "seg_ok 0 q"
      "\<forall>x\<in>set qs. seg_ok 0 x"
      unfolding segments_def u by blast
    show "segments segs chcnt (46 # str)"
      unfolding segments_def join_eq_Cons using q h g assms e
      by (intro exI [of _ "[]"] exI [of _ "q # qs"]) auto
  qed
qed

lemma segments_digit:
  assumes "48 \<le> sint c" "sint c \<le> 57"
  shows "segments segs chcnt (c # str) \<longleftrightarrow> segments segs (chcnt + 1) str"
proof -
  have "c \<noteq> 46" using assms sint_dot [of c] by auto
  moreover have "seg_ok chcnt (c # p) \<longleftrightarrow> seg_ok (chcnt + 1) p" for p
    using assms by (simp add: seg_ok_def all_digits_def add.assoc)
  ultimately show ?thesis unfolding segments_def join_eq_Cons by blast
qed

lemma segments_bad:
  assumes "sint c \<noteq> 46" "sint c < 48 \<or> sint c > 57"
  shows "\<not> segments segs chcnt (c # str)"
proof -
  have "c \<noteq> 46" using assms sint_dot [of c] by auto
  moreover have "\<not> seg_ok chcnt (c # p)" for p using assms by (auto simp: seg_ok_def all_digits_def)
  ultimately show ?thesis unfolding segments_def join_eq_Cons by blast
qed

lemma isipv4_loop_iff:
  "unat segs \<le> 3 \<Longrightarrow> isipv4_loop segs chcnt accum s = (if segments segs chcnt s then 1 else 0)"
proof (induction segs chcnt accum s rule: isipv4_loop.induct)
  case (1 segs chcnt accum)
  then show ?case by (auto simp: segments_Nil)
next
  case (2 segs chcnt accum c str)
  have byte: "\<not> uint (x :: u8) > 255" for x using uint_bounded [of x] by simp
  consider (dot) "sint c = 46" | (bad) "sint c \<noteq> 46" "sint c < 48 \<or> sint c > 57"
    | (dig) "48 \<le> sint c" "sint c \<le> 57" by linarith
  then show ?case
  proof cases
    case dot
    have "unat (segs + 1) \<le> 3" if "segs + 1 \<noteq> 4"
      using that 2(3) by (simp add: word_unat_eq_iff unat_word_ariths)
    then show ?thesis using 2 dot sint_dot [of c] by (auto simp: segments_dot Let_def)
  next
    case bad
    then show ?thesis by (simp add: segments_bad)
  next
    case dig
    then show ?thesis using 2 byte by (auto simp: segments_digit Let_def)
  qed
qed

definition ip_segment :: "u8 list \<Rightarrow> bool" where
  "ip_segment p \<longleftrightarrow> all_digits p \<and> length p mod 256 \<noteq> 0"

text \<open>
  \<open>UTILS_IsIPV4\<close> answers 1 exactly on four dot-separated segments of decimal digits whose
  lengths are not divisible by 256 (the counter is a byte), and 0 on every other string. The value
  of a segment plays no part.
\<close>

theorem UTILS_IsIPV4_iff:
  "UTILS_IsIPV4 (Some s) = (if \<exists>a b c d. s = a @ 46 # b @ 46 # c @ 46 # d \<and>
     ip_segment a \<and> ip_segment b \<and> ip_segment c \<and> ip_segment d then 1 else 0)"
proof -
  have ok: "seg_ok 0 p \<longleftrightarrow> ip_segment p" for p
    by (simp add: seg_ok_def ip_segment_def word_of_nat_eq_0_iff mod_eq_0_iff_dvd)
  have len: "length ps = 3 \<longleftrightarrow> (\<exists>b c d. ps = [b, c, d])" for ps :: "u8 list list"
    by (auto simp: numeral_3_eq_3 length_Suc_conv)
  have "segments 0 0 s \<longleftrightarrow> (\<exists>p ps. s = join (p # ps) \<and> (\<exists>b c d. ps = [b, c, d]) \<and> ip_segment p \<and>
      (\<forall>q\<in>set ps. ip_segment q))" (is "_ \<longleftrightarrow> ?L")
    by (simp add: segments_def len ok)
  also have "?L \<longleftrightarrow> (\<exists>a b c d. s = join [a, b, c, d] \<and>
      ip_segment a \<and> ip_segment b \<and> ip_segment c \<and> ip_segment d)" (is "_ \<longleftrightarrow> ?R")
  proof
    assume ?L then show ?R by force
  next
    assume ?R
    then obtain a b c d where "s = join (a # [b, c, d])" "ip_segment a" "\<forall>q\<in>set [b, c, d]. ip_segment q"
      by auto
    then show ?L by blast
  qed
  finally show ?thesis by (simp add: UTILS_IsIPV4_def isipv4_loop_iff)
qed

text \<open>The segment value is never checked: \<open>accum\<close> is a \<open>uint8_t\<close>, so 999.1.1.1 is accepted.\<close>

lemma UTILS_IsIPV4_accepts_999: "UTILS_IsIPV4 (Some [57, 57, 57, 46, 49, 46, 49, 46, 49]) = 1"
  by (simp add: UTILS_IsIPV4_def)

end
