(* ===== verification/Mqtt_Client.thy ===== *)
theory Mqtt_Client
  imports Mqtt_Queue Mqtt_Msg Mqtt_Utils
begin

text \<open>
  The MQTT client of \<^verbatim>\<open>app_common/mqtt/mqtt.c\<close>: the client object, the callbacks the SDK invokes
  (DNS, TCP connect, reconnect, disconnect, receive, sent, the one-second timer, the task) and the
  public operations. Every operation is a function on a \<open>world\<close>: the client, the flat store and
  the trace of calls it makes to the SDK and to the application's callbacks. What the SDK decides
  (\<open>os_zalloc\<close>, the port, the result of \<open>espconn_send\<close>) and the stack garbage the code uses as
  scratch space are the fields of an environment. Callbacks of the application are recorded with
  their arguments; their own calls into the client are separate operations. C strings owned by the
  client are given by their bytes, \<open>None\<close> for \<open>NULL\<close>. The build has \<open>MQTT_SSL_ENABLE\<close> undefined.
\<close>

section \<open>Data\<close>

abbreviation (input) "MQTT_BUF_SIZE \<equiv> (1792 :: nat)"
abbreviation (input) "QUEUE_BUFFER_SIZE \<equiv> (1792 :: int)"
abbreviation (input) "MQTT_SEND_TIMOUT \<equiv> (7 :: u32)"
abbreviation (input) "MQTT_RECONNECT_TIMEOUT \<equiv> (10 :: u32)"
abbreviation (input) "ESPCONN_OK \<equiv> (0 :: int)"

datatype tConnState =
  WIFI_INIT | WIFI_CONNECTING | WIFI_CONNECTING_ERROR | WIFI_CONNECTED | DNS_RESOLVE
| TCP_DISCONNECTING | TCP_DISCONNECTED | TCP_RECONNECT_DISCONNECTING | TCP_RECONNECT_REQ
| TCP_RECONNECT | TCP_CONNECTING | TCP_CONNECTING_ERROR | TCP_CONNECTED | MQTT_CONNECT_SEND
| MQTT_CONNECT_SENDING | MQTT_SUBSCIBE_SEND | MQTT_SUBSCIBE_SENDING | MQTT_DATA
| MQTT_KEEPALIVE_SEND | MQTT_PUBLISH_RECV | MQTT_PUBLISHING | MQTT_DELETING | MQTT_DELETED

text \<open>
  \<open>outbound_message\<close> is a pointer to the message inside \<open>mqtt_connection\<close> or \<open>NULL\<close>; the field says
  which. \<open>connect_info\<close> points to the client's own \<open>connect_info\<close>.
\<close>

record mqtt_state =
  in_buffer :: addr
  out_buffer :: addr
  in_buffer_length :: int
  out_buffer_length :: int
  message_length :: u16
  message_length_read :: u16
  outbound_message :: bool
  mqtt_conn :: mqtt_connection
  pending_msg_id :: u16
  pending_msg_type :: int

text \<open>The parts of the SDK's \<open>struct espconn\<close> the client sets; \<open>remote_ip\<close> is the address of 4 bytes.\<close>

record espconn =
  local_port :: u32
  remote_port :: u32
  remote_ip :: addr

type_synonym callback = nat

record MQTT_Client =
  pCon :: "espconn option"
  security :: u8
  host :: "u8 list option"
  port :: u32
  ip :: u32
  mqtt_st :: mqtt_state
  connect_info :: mqtt_connect_info
  connectedCb :: "callback option"
  disconnectedCb :: "callback option"
  publishedCb :: "callback option"
  timeoutCb :: "callback option"
  dataCb :: "callback option"
  keepAliveTick :: u32
  reconnectTick :: u32
  sendTimeout :: u32
  connState :: tConnState
  msgQueue :: QUEUE
  user_data :: addr

datatype heap_obj =
  H_tcp | H_espconn | H_host | H_user_data | H_client_id | H_username | H_password | H_will_topic
| H_will_message | H_in_buffer | H_out_buffer

datatype action =
  Os_post | Os_task | Os_free heap_obj | Timer_disarm | Timer_setfn | Timer_arm
| Espconn_connect | Espconn_disconnect | Espconn_delete | Espconn_send "u8 list"
| Espconn_gethostbyname "u8 list option"
| Regist_connectcb | Regist_reconcb | Regist_disconcb | Regist_recvcb | Regist_sentcb
| Connected_cb callback | Disconnected_cb callback | Published_cb callback | Timeout_cb callback
| Data_cb callback "u8 list option" u16 "u8 list option" u16

record env =
  os_zalloc :: "mem \<Rightarrow> int \<Rightarrow> addr \<times> mem"
  sizeof_espconn :: int
  sizeof_esp_tcp :: int
  espconn_port :: u32
  espconn_send_result :: "u8 list \<Rightarrow> int"
  protocol_name :: mqtt_protocol_ver
  stack_buf :: addr
  stack_parser :: PROTO_PARSER

record world =
  w_client :: MQTT_Client
  w_mem :: mem
  w_trace :: "action list"

definition emit :: "action list \<Rightarrow> world \<Rightarrow> world" where
  "emit as w = w\<lparr>w_trace := w_trace w @ as\<rparr>"

definition upd_client :: "(MQTT_Client \<Rightarrow> MQTT_Client) \<Rightarrow> world \<Rightarrow> world" where
  "upd_client f w = w\<lparr>w_client := f (w_client w)\<rparr>"

definition upd_state :: "(mqtt_state \<Rightarrow> mqtt_state) \<Rightarrow> world \<Rightarrow> world" where
  "upd_state f = upd_client (\<lambda>c. c\<lparr>mqtt_st := f (mqtt_st c)\<rparr>)"

definition set_connState :: "tConnState \<Rightarrow> world \<Rightarrow> world" where
  "set_connState s = upd_client (\<lambda>c. c\<lparr>connState := s\<rparr>)"

definition call_cb :: "callback option \<Rightarrow> (callback \<Rightarrow> action) \<Rightarrow> world \<Rightarrow> world" where
  "call_cb cb a w = (case cb of None \<Rightarrow> w | Some f \<Rightarrow> emit [a f] w)"

text \<open>Without SSL support a secured client only logs; the result stays \<open>ESPCONN_OK\<close>.\<close>

definition plain :: "action \<Rightarrow> world \<Rightarrow> world" where
  "plain a w = (if security (w_client w) \<noteq> 0 then w else emit [a] w)"

definition conn_of :: "world \<Rightarrow> mqtt_connection" where
  "conn_of w = mqtt_conn (mqtt_st (w_client w))"

text \<open>\<^verbatim>\<open>client->mqtt_state.outbound_message = mqtt_msg_...(&client->mqtt_state.mqtt_connection, ..)\<close>\<close>

definition set_outbound :: "mqtt_connection \<times> mem \<Rightarrow> world \<Rightarrow> world" where
  "set_outbound r w =
     upd_state (\<lambda>s. s\<lparr>mqtt_conn := fst r, outbound_message := True\<rparr>) (w\<lparr>w_mem := snd r\<rparr>)"

definition set_pending :: "addr \<Rightarrow> u16 \<Rightarrow> world \<Rightarrow> world" where
  "set_pending d len w =
     upd_state (\<lambda>s. s\<lparr>pending_msg_type := mqtt_get_type (w_mem w) d,
                     pending_msg_id := mqtt_get_id (w_mem w) d len\<rparr>) w"

section \<open>TCP and DNS callbacks\<close>

text \<open>\<open>os_memcpy(remote_ip, &ipaddr->addr, 4)\<close> on the little-endian target.\<close>

definition ip_bytes :: "u32 \<Rightarrow> u8 list" where
  "ip_bytes a = [ucast a, ucast (drop_bit 8 a), ucast (drop_bit 16 a), ucast (drop_bit 24 a)]"

definition mqtt_dns_found :: "u32 option \<Rightarrow> world \<Rightarrow> world" where
  "mqtt_dns_found ipaddr w =
     (case ipaddr of
        None \<Rightarrow> set_connState TCP_RECONNECT_REQ w
      | Some a \<Rightarrow>
          let w1 =
            (if ip (w_client w) = 0 \<and> a \<noteq> 0 then
               set_connState TCP_CONNECTING
                 (plain Espconn_connect
                   (w\<lparr>w_mem := mem_write (w_mem w) (remote_ip (the (pCon (w_client w)))) (ip_bytes a)\<rparr>))
             else w)
          in emit [Os_post] w1)"

definition deref :: "mem \<Rightarrow> addr option \<Rightarrow> u16 \<Rightarrow> u8 list option" where
  "deref m p len = map_option (\<lambda>a. mem_read m a (unat len)) p"

definition deliver_publish :: "addr \<Rightarrow> u16 \<Rightarrow> world \<Rightarrow> world" where
  "deliver_publish message len w =
     (case mqtt_get_publish_topic (w_mem w) message len of (topic, topic_length) \<Rightarrow>
      case mqtt_get_publish_data (w_mem w) message len of (data, data_length) \<Rightarrow>
        call_cb (dataCb (w_client w))
          (\<lambda>f. Data_cb f (deref (w_mem w) topic topic_length) topic_length
                 (deref (w_mem w) data data_length) data_length) w)"

definition msg_of :: "world \<Rightarrow> u8 list" where
  "msg_of w = mem_read (w_mem w) (mc_data (conn_of w)) (unat (mc_length (conn_of w)))"

definition mqtt_send_keepalive :: "env \<Rightarrow> world \<Rightarrow> world" where
  "mqtt_send_keepalive e w =
     (let w1 = set_outbound (mqtt_msg_pingreq (conn_of w) (w_mem w)) w;
          w2 = set_pending (mc_data (conn_of w1)) (mc_length (conn_of w1)) w1;
          w3 = upd_client (\<lambda>c. c\<lparr>sendTimeout := MQTT_SEND_TIMOUT\<rparr>) w2;
          result = (if security (w_client w3) \<noteq> 0 then ESPCONN_OK else espconn_send_result e (msg_of w3));
          w4 = plain (Espconn_send (msg_of w3)) w3;
          w5 = upd_state (\<lambda>s. s\<lparr>outbound_message := False\<rparr>) w4
      in if result = ESPCONN_OK
         then emit [Os_post] (set_connState MQTT_DATA (upd_client (\<lambda>c. c\<lparr>keepAliveTick := 0\<rparr>) w5))
         else emit [Os_post] (set_connState TCP_RECONNECT_DISCONNECTING w5))"

definition mqtt_tcpclient_delete :: "world \<Rightarrow> world" where
  "mqtt_tcpclient_delete w =
     (if pCon (w_client w) \<noteq> None
      then upd_client (\<lambda>c. c\<lparr>pCon := None\<rparr>)
             (emit [Espconn_delete, Os_free H_tcp, Os_free H_espconn] w)
      else w)"

text \<open>\<^verbatim>\<open>if (p != NULL) { os_free(p); p = NULL; }\<close>\<close>

definition free_if :: "(MQTT_Client \<Rightarrow> bool) \<Rightarrow> heap_obj \<Rightarrow> (MQTT_Client \<Rightarrow> MQTT_Client) \<Rightarrow> world \<Rightarrow> world" where
  "free_if given h clear w =
     (if given (w_client w) then upd_client clear (emit [Os_free h] w) else w)"

definition mqtt_client_delete :: "world \<Rightarrow> world" where
  "mqtt_client_delete w =
     (let inf = (\<lambda>f c. c\<lparr>connect_info := f (connect_info c)\<rparr>);
          st = (\<lambda>f c. c\<lparr>mqtt_st := f (mqtt_st c)\<rparr>);
          w1 = mqtt_tcpclient_delete w;
          w2 = free_if (\<lambda>c. host c \<noteq> None) H_host (\<lambda>c. c\<lparr>host := None\<rparr>) w1;
          w3 = free_if (\<lambda>c. user_data c \<noteq> 0) H_user_data (\<lambda>c. c\<lparr>user_data := 0\<rparr>) w2;
          w4 = free_if (\<lambda>c. ci_client_id (connect_info c) \<noteq> None) H_client_id
                 (inf (\<lambda>i. i\<lparr>ci_client_id := None\<rparr>)) w3;
          w5 = free_if (\<lambda>c. ci_username (connect_info c) \<noteq> None) H_username
                 (inf (\<lambda>i. i\<lparr>ci_username := None\<rparr>)) w4;
          w6 = free_if (\<lambda>c. ci_password (connect_info c) \<noteq> None) H_password
                 (inf (\<lambda>i. i\<lparr>ci_password := None\<rparr>)) w5;
          w7 = free_if (\<lambda>c. ci_will_topic (connect_info c) \<noteq> None) H_will_topic
                 (inf (\<lambda>i. i\<lparr>ci_will_topic := None\<rparr>)) w6;
          w8 = free_if (\<lambda>c. ci_will_message (connect_info c) \<noteq> None) H_will_message
                 (inf (\<lambda>i. i\<lparr>ci_will_message := None\<rparr>)) w7;
          w9 = free_if (\<lambda>c. in_buffer (mqtt_st c) \<noteq> 0) H_in_buffer
                 (st (\<lambda>s. s\<lparr>in_buffer := 0\<rparr>)) w8
      in free_if (\<lambda>c. out_buffer (mqtt_st c) \<noteq> 0) H_out_buffer (st (\<lambda>s. s\<lparr>out_buffer := 0\<rparr>)) w9)"

section \<open>Receiving\<close>

text \<open>Build a response in the output buffer and put it in the queue; a full queue is only logged.\<close>

definition queue_response :: "(mqtt_connection \<times> mem) \<Rightarrow> world \<Rightarrow> world" where
  "queue_response r w =
     (let w1 = set_outbound r w in
      case QUEUE_Puts (msgQueue (w_client w1)) (w_mem w1) (mc_data (conn_of w1)) (mc_length (conn_of w1)) of
        (q, m, ret) \<Rightarrow> upd_client (\<lambda>c. c\<lparr>msgQueue := q\<rparr>) (w1\<lparr>w_mem := m\<rparr>))"

text \<open>The inner switch on the message type, in the states \<open>MQTT_DATA\<close> and \<open>MQTT_KEEPALIVE_SEND\<close>.\<close>

definition recv_dispatch :: "int \<Rightarrow> int \<Rightarrow> u16 \<Rightarrow> world \<Rightarrow> world" where
  "recv_dispatch msg_type msg_qos msg_id w =
     (if msg_type = MQTT_MSG_TYPE_PUBLISH then
        let w1 = (if msg_qos = 1 then queue_response (mqtt_msg_puback (conn_of w) (w_mem w) msg_id) w
                  else if msg_qos = 2 then queue_response (mqtt_msg_pubrec (conn_of w) (w_mem w) msg_id) w
                  else w)
        in deliver_publish (in_buffer (mqtt_st (w_client w1)))
             (message_length_read (mqtt_st (w_client w1))) w1
      else if msg_type = MQTT_MSG_TYPE_PUBREC then
        queue_response (mqtt_msg_pubrel (conn_of w) (w_mem w) msg_id) w
      else if msg_type = MQTT_MSG_TYPE_PUBREL then
        queue_response (mqtt_msg_pubcomp (conn_of w) (w_mem w) msg_id) w
      else if msg_type = MQTT_MSG_TYPE_PINGREQ then
        queue_response (mqtt_msg_pingresp (conn_of w) (w_mem w)) w
      else w)"

definition recv_connack :: "int \<Rightarrow> world \<Rightarrow> world" where
  "recv_connack msg_type w =
     (if msg_type = MQTT_MSG_TYPE_CONNACK then
        if pending_msg_type (mqtt_st (w_client w)) \<noteq> MQTT_MSG_TYPE_CONNECT
        then plain Espconn_disconnect w
        else let w1 = set_connState MQTT_DATA w in call_cb (connectedCb (w_client w1)) Connected_cb w1
      else w)"

text \<open>
  One pass from the label \<open>READPACKET\<close>; the second component is the rest of the data when the code
  jumps back to the label.
\<close>

definition recv_packet :: "u8 list \<Rightarrow> world \<Rightarrow> world \<times> u8 list option" where
  "recv_packet pdata w0 =
     (let ib = in_buffer (mqtt_st (w_client w0));
          w = w0\<lparr>w_mem := mem_write (w_mem w0) ib pdata\<rparr>;
          msg_type = mqtt_get_type (w_mem w) ib;
          msg_qos = mqtt_get_qos (w_mem w) ib;
          msg_id = mqtt_get_id (w_mem w) ib (word_of_int (in_buffer_length (mqtt_st (w_client w))))
      in case connState (w_client w) of
           MQTT_CONNECT_SENDING \<Rightarrow> (recv_connack msg_type w, None)
         | s \<Rightarrow>
             if s = MQTT_DATA \<or> s = MQTT_KEEPALIVE_SEND then
               let len = of_nat (length pdata);
                   w1 = upd_state (\<lambda>t. t\<lparr>message_length_read := len,
                          message_length := ucast (mqtt_get_total_length (w_mem w) ib len)\<rparr>) w;
                   w2 = recv_dispatch msg_type msg_qos msg_id w1;
                   t = mqtt_st (w_client w2)
               in if msg_type = MQTT_MSG_TYPE_PUBLISH \<and> message_length t < message_length_read t
                  then (w2, Some (drop (unat (message_length t)) pdata))
                  else (w2, None)
             else (w, None))"

partial_function (option) recv_loop :: "u8 list \<Rightarrow> world \<Rightarrow> world option" where
  "recv_loop pdata w =
     (if length pdata < MQTT_BUF_SIZE \<and> length pdata > 0 then
        (case recv_packet pdata w of (w1, next) \<Rightarrow>
           if next = None then Some w1 else recv_loop (the next) w1)
      else Some w)"

definition mqtt_tcpclient_recv :: "u8 list \<Rightarrow> world \<Rightarrow> world option" where
  "mqtt_tcpclient_recv pdata w =
     map_option (emit [Os_post]) (recv_loop pdata (upd_client (\<lambda>c. c\<lparr>keepAliveTick := 0\<rparr>) w))"

definition mqtt_tcpclient_sent_cb :: "world \<Rightarrow> world" where
  "mqtt_tcpclient_sent_cb w =
     (let w1 = upd_client (\<lambda>c. c\<lparr>sendTimeout := 0\<rparr>) w; c = w_client w1;
          w2 = (if (connState c = MQTT_DATA \<or> connState c = MQTT_KEEPALIVE_SEND) \<and>
                   pending_msg_type (mqtt_st c) = MQTT_MSG_TYPE_PUBLISH
                then call_cb (publishedCb c) Published_cb w1 else w1)
      in emit [Os_post] w2)"

definition mqtt_timer :: "world \<Rightarrow> world" where
  "mqtt_timer w =
     (let c = w_client w;
          w1 = (if connState c = MQTT_DATA then
                  let w2 = upd_client (\<lambda>c. c\<lparr>keepAliveTick := keepAliveTick c + 1\<rparr>) w in
                  if keepAliveTick (w_client w2) > ci_keepalive (connect_info (w_client w2))
                  then emit [Os_post] (set_connState MQTT_KEEPALIVE_SEND w2) else w2
                else if connState c = TCP_RECONNECT_REQ then
                  let w2 = upd_client (\<lambda>c. c\<lparr>reconnectTick := reconnectTick c + 1\<rparr>) w in
                  if reconnectTick (w_client w2) > MQTT_RECONNECT_TIMEOUT
                  then call_cb (timeoutCb (w_client w2)) Timeout_cb
                         (emit [Os_post] (set_connState TCP_RECONNECT
                           (upd_client (\<lambda>c. c\<lparr>reconnectTick := 0\<rparr>) w2)))
                  else w2
                else w)
      in if sendTimeout (w_client w1) > 0
         then upd_client (\<lambda>c. c\<lparr>sendTimeout := sendTimeout c - 1\<rparr>) w1 else w1)"

definition mqtt_tcpclient_discon_cb :: "world \<Rightarrow> world" where
  "mqtt_tcpclient_discon_cb w =
     (let s = connState (w_client w);
          w1 = set_connState (if s = TCP_DISCONNECTING then TCP_DISCONNECTED
                              else if s = MQTT_DELETING then MQTT_DELETED
                              else TCP_RECONNECT_REQ) w
      in emit [Os_post] (call_cb (disconnectedCb (w_client w1)) Disconnected_cb w1))"

definition mqtt_tcpclient_connect_cb :: "env \<Rightarrow> world \<Rightarrow> world" where
  "mqtt_tcpclient_connect_cb e w =
     (let w1 = emit [Regist_disconcb, Regist_recvcb, Regist_sentcb] w;
          t = mqtt_st (w_client w1);
          w2 = upd_state (\<lambda>s. s\<lparr>mqtt_conn :=
                 mqtt_msg_init (out_buffer t) (word_of_int (out_buffer_length t))\<rparr>) w1;
          w3 = set_outbound (mqtt_msg_connect (protocol_name e) (conn_of w2) (w_mem w2)
                 (connect_info (w_client w2))) w2;
          w4 = set_pending (mc_data (conn_of w3)) (mc_length (conn_of w3)) w3;
          w5 = upd_client (\<lambda>c. c\<lparr>sendTimeout := MQTT_SEND_TIMOUT\<rparr>) w4;
          w6 = plain (Espconn_send (msg_of w5)) w5;
          w7 = upd_state (\<lambda>s. s\<lparr>outbound_message := False\<rparr>) w6
      in emit [Os_post] (set_connState MQTT_CONNECT_SENDING w7))"

definition mqtt_tcpclient_recon_cb :: "world \<Rightarrow> world" where
  "mqtt_tcpclient_recon_cb w = emit [Os_post] (set_connState TCP_RECONNECT_REQ w)"

section \<open>Publishing, subscribing and the task\<close>

text \<open>The loop that drops old messages until the outbound message fits, and the post after it.\<close>

definition enqueue_outbound :: "env \<Rightarrow> world \<Rightarrow> (world \<times> bool) option" where
  "enqueue_outbound e w =
     (case enqueue_loop (q_put (mc_data (conn_of w)) (mc_length (conn_of w)))
             (q_get (stack_parser e) (stack_buf e) (of_nat MQTT_BUF_SIZE)) (msgQueue (w_client w), w_mem w) of
        None \<Rightarrow> None
      | Some ((q, m), ok) \<Rightarrow>
          let w1 = upd_client (\<lambda>c. c\<lparr>msgQueue := q\<rparr>) (w\<lparr>w_mem := m\<rparr>)
          in Some (if ok then (emit [Os_post] w1, True) else (w1, False)))"

definition set_outbound_id :: "mqtt_connection \<times> mem \<times> u16 \<Rightarrow> world \<Rightarrow> world" where
  "set_outbound_id r w =
     (case r of (c, m, i) \<Rightarrow> upd_state (\<lambda>s. s\<lparr>pending_msg_id := i\<rparr>) (set_outbound (c, m) w))"

definition MQTT_Publish ::
  "env \<Rightarrow> u8 list option \<Rightarrow> u8 list \<Rightarrow> int \<Rightarrow> int \<Rightarrow> world \<Rightarrow> (world \<times> bool) option" where
  "MQTT_Publish e topic data qos retain w =
     (let w1 = set_outbound_id (mqtt_msg_publish (conn_of w) (w_mem w) topic data qos retain
                 (pending_msg_id (mqtt_st (w_client w)))) w
      in if mc_length (conn_of w1) = 0 then Some (w1, False) else enqueue_outbound e w1)"

definition MQTT_Subscribe :: "env \<Rightarrow> u8 list option \<Rightarrow> u8 \<Rightarrow> world \<Rightarrow> (world \<times> bool) option" where
  "MQTT_Subscribe e topic qos w =
     enqueue_outbound e (set_outbound_id (mqtt_msg_subscribe (conn_of w) (w_mem w) topic (uint qos)
       (pending_msg_id (mqtt_st (w_client w)))) w)"

definition MQTT_UnSubscribe :: "env \<Rightarrow> u8 list option \<Rightarrow> world \<Rightarrow> (world \<times> bool) option" where
  "MQTT_UnSubscribe e topic w =
     enqueue_outbound e (set_outbound_id (mqtt_msg_unsubscribe (conn_of w) (w_mem w) topic
       (pending_msg_id (mqtt_st (w_client w)))) w)"

definition MQTT_Ping :: "env \<Rightarrow> world \<Rightarrow> (world \<times> bool) option" where
  "MQTT_Ping e w =
     (let w1 = set_outbound (mqtt_msg_pingreq (conn_of w) (w_mem w)) w
      in if mc_length (conn_of w1) = 0 then Some (w1, False) else enqueue_outbound e w1)"

text \<open>\<open>os_memset(mqttClient, 0, sizeof(MQTT_Client))\<close>\<close>

definition zero_client :: MQTT_Client where
  "zero_client =
     \<lparr>pCon = None, security = 0, host = None, port = 0, ip = 0,
      mqtt_st = \<lparr>in_buffer = 0, out_buffer = 0, in_buffer_length = 0, out_buffer_length = 0,
        message_length = 0, message_length_read = 0, outbound_message = False,
        mqtt_conn = \<lparr>mc_data = 0, mc_length = 0, mc_message_id = 0, mc_buffer = 0, mc_buffer_length = 0\<rparr>,
        pending_msg_id = 0, pending_msg_type = 0\<rparr>,
      connect_info = \<lparr>ci_client_id = None, ci_username = None, ci_password = None,
        ci_will_topic = None, ci_will_message = None, ci_keepalive = 0, ci_will_qos = 0,
        ci_will_retain = 0, ci_clean_session = 0\<rparr>,
      connectedCb = None, disconnectedCb = None, publishedCb = None, timeoutCb = None, dataCb = None,
      keepAliveTick = 0, reconnectTick = 0, sendTimeout = 0, connState = WIFI_INIT,
      msgQueue = \<lparr>q_buf = 0, q_rb = \<lparr>p_o = 0, p_r = 0, p_w = 0, fill_cnt = 0, rb_size = 0\<rparr>\<rparr>,
      user_data = 0\<rparr>"

definition MQTT_InitConnection :: "u8 list \<Rightarrow> u32 \<Rightarrow> u8 \<Rightarrow> world \<Rightarrow> world" where
  "MQTT_InitConnection h p sec w =
     w\<lparr>w_client := zero_client\<lparr>host := Some h, port := p, security := sec\<rparr>\<rparr>"

definition MQTT_InitClient ::
  "env \<Rightarrow> u8 list \<Rightarrow> u8 list option \<Rightarrow> u8 list option \<Rightarrow> u32 \<Rightarrow> u8 \<Rightarrow> world \<Rightarrow> world" where
  "MQTT_InitClient e client_id client_user client_pass keepAliveTime cleanSession w =
     (let inf = \<lparr>ci_client_id = Some client_id, ci_username = client_user, ci_password = client_pass,
            ci_will_topic = None, ci_will_message = None, ci_keepalive = keepAliveTime, ci_will_qos = 0,
            ci_will_retain = 0, ci_clean_session = uint cleanSession\<rparr>;
          w1 = upd_client (\<lambda>c. c\<lparr>connect_info := inf\<rparr>) w
      in case os_zalloc e (w_mem w1) (int MQTT_BUF_SIZE) of (ib, m1) \<Rightarrow>
         case os_zalloc e m1 (int MQTT_BUF_SIZE) of (ob, m2) \<Rightarrow>
           let w2 = upd_state (\<lambda>s. s\<lparr>in_buffer := ib, in_buffer_length := int MQTT_BUF_SIZE,
                      out_buffer := ob, out_buffer_length := int MQTT_BUF_SIZE,
                      mqtt_conn := mqtt_msg_init ob (of_nat MQTT_BUF_SIZE)\<rparr>) w1
           in case QUEUE_Init (os_zalloc e) (msgQueue (w_client w2)) m2 QUEUE_BUFFER_SIZE of (q, m3) \<Rightarrow>
                emit [Os_task, Os_post] (upd_client (\<lambda>c. c\<lparr>msgQueue := q\<rparr>) (w2\<lparr>w_mem := m3\<rparr>)))"

definition MQTT_InitLWT :: "u8 list \<Rightarrow> u8 list \<Rightarrow> u8 \<Rightarrow> u8 \<Rightarrow> world \<Rightarrow> world" where
  "MQTT_InitLWT will_topic will_msg will_qos will_retain =
     upd_client (\<lambda>c. c\<lparr>connect_info := (connect_info c)\<lparr>ci_will_topic := Some will_topic,
       ci_will_message := Some will_msg, ci_will_qos := uint will_qos, ci_will_retain := uint will_retain\<rparr>\<rparr>)"

definition MQTT_Connect :: "env \<Rightarrow> world \<Rightarrow> world" where
  "MQTT_Connect e w =
     (let w1 = (if pCon (w_client w) \<noteq> None then mqtt_tcpclient_delete w else w)
      in case os_zalloc e (snd (os_zalloc e (w_mem w1) (sizeof_espconn e))) (sizeof_esp_tcp e) of (a, m) \<Rightarrow>
           let con = \<lparr>local_port = espconn_port e, remote_port = port (w_client w1), remote_ip = a\<rparr>;
               w2 = emit [Regist_connectcb, Regist_reconcb]
                      (upd_client (\<lambda>c. c\<lparr>pCon := Some con\<rparr>) (w1\<lparr>w_mem := m\<rparr>));
               w3 = emit [Timer_disarm, Timer_setfn, Timer_arm]
                      (upd_client (\<lambda>c. c\<lparr>keepAliveTick := 0, reconnectTick := 0\<rparr>) w2)
           in case UTILS_StrToIP (w_mem w3) (the (host (w_client w3))) a of (m4, r) \<Rightarrow>
                let w4 = w3\<lparr>w_mem := m4\<rparr>;
                    w5 = (if r \<noteq> 0 then plain Espconn_connect w4
                          else emit [Espconn_gethostbyname (host (w_client w4))] w4)
                in set_connState TCP_CONNECTING w5)"

definition MQTT_Disconnect :: "world \<Rightarrow> world" where
  "MQTT_Disconnect w = emit [Os_post, Timer_disarm] (set_connState TCP_DISCONNECTING w)"

definition MQTT_DeleteClient :: "world \<Rightarrow> world" where
  "MQTT_DeleteClient w = emit [Os_post, Timer_disarm] (set_connState MQTT_DELETING w)"

definition MQTT_OnConnected :: "callback option \<Rightarrow> world \<Rightarrow> world" where
  "MQTT_OnConnected f = upd_client (\<lambda>c. c\<lparr>connectedCb := f\<rparr>)"

definition MQTT_OnDisconnected :: "callback option \<Rightarrow> world \<Rightarrow> world" where
  "MQTT_OnDisconnected f = upd_client (\<lambda>c. c\<lparr>disconnectedCb := f\<rparr>)"

definition MQTT_OnData :: "callback option \<Rightarrow> world \<Rightarrow> world" where
  "MQTT_OnData f = upd_client (\<lambda>c. c\<lparr>dataCb := f\<rparr>)"

definition MQTT_OnPublished :: "callback option \<Rightarrow> world \<Rightarrow> world" where
  "MQTT_OnPublished f = upd_client (\<lambda>c. c\<lparr>publishedCb := f\<rparr>)"

definition MQTT_OnTimeout :: "callback option \<Rightarrow> world \<Rightarrow> world" where
  "MQTT_OnTimeout f = upd_client (\<lambda>c. c\<lparr>timeoutCb := f\<rparr>)"

text \<open>\<open>e->par\<close> is the client pointer, assumed non-null; the stack buffer is \<open>dataBuffer\<close>.\<close>

definition task_send :: "env \<Rightarrow> world \<Rightarrow> world" where
  "task_send e w =
     (case QUEUE_Gets (msgQueue (w_client w)) (w_mem w) (stack_parser e) (stack_buf e) 0 (of_nat MQTT_BUF_SIZE) of
        (q, m, dlen, ret) \<Rightarrow>
          let w1 = upd_client (\<lambda>c. c\<lparr>msgQueue := q\<rparr>) (w\<lparr>w_mem := m\<rparr>) in
          if ret = 0 then
            let w2 = set_pending (stack_buf e) dlen w1;
                w3 = upd_client (\<lambda>c. c\<lparr>sendTimeout := MQTT_SEND_TIMOUT\<rparr>) w2;
                w4 = plain (Espconn_send (mem_read (w_mem w3) (stack_buf e) (unat dlen))) w3
            in upd_state (\<lambda>s. s\<lparr>outbound_message := False\<rparr>) w4
          else w1)"

definition MQTT_Task :: "env \<Rightarrow> world \<Rightarrow> world" where
  "MQTT_Task e w =
     (case connState (w_client w) of
        TCP_RECONNECT_REQ \<Rightarrow> w
      | TCP_RECONNECT \<Rightarrow> set_connState TCP_CONNECTING (MQTT_Connect e (mqtt_tcpclient_delete w))
      | MQTT_DELETING \<Rightarrow> plain Espconn_disconnect w
      | TCP_DISCONNECTING \<Rightarrow> plain Espconn_disconnect w
      | TCP_RECONNECT_DISCONNECTING \<Rightarrow> plain Espconn_disconnect w
      | TCP_DISCONNECTED \<Rightarrow> mqtt_tcpclient_delete w
      | MQTT_DELETED \<Rightarrow> mqtt_client_delete w
      | MQTT_KEEPALIVE_SEND \<Rightarrow> mqtt_send_keepalive e w
      | MQTT_DATA \<Rightarrow>
          if QUEUE_IsEmpty (msgQueue (w_client w)) \<or> sendTimeout (w_client w) \<noteq> 0 then w
          else task_send e w
      | _ \<Rightarrow> w)"

end
