(* ===== verification/Mqtt_Msg_Codec.thy ===== *)
theory Mqtt_Msg_Codec
  imports Mqtt_Msg
begin

text \<open>
  Correctness of the MQTT packet encoder and decoder. \<open>packet\<close> is the wire format on byte lists;
  \<open>built\<close> is the invariant of a packet under construction. Each building block of the encoder is
  one equation about \<open>built\<close>, each encoder is then its \<open>packet\<close>, and the decoder reads the fields of a
  \<open>packet\<close> back. The last section bounds what the decoder does on arbitrary input.
\<close>

section \<open>Wire format\<close>

definition be16 :: "nat \<Rightarrow> u8 list" where
  "be16 n = [of_nat (n div 256), of_nat (n mod 256)]"

definition enc_len :: "nat \<Rightarrow> u8 list" where
  "enc_len n = (if n \<le> 127 then [of_nat n] else [of_nat (128 + n mod 128), of_nat (n div 128)])"

definition packet :: "int \<Rightarrow> int \<Rightarrow> int \<Rightarrow> u8 list \<Rightarrow> u8 list" where
  "packet type qos retain body = fixed_header_byte type 0 qos retain # enc_len (length body) @ body"

definition msg_bytes :: "mqtt_connection \<Rightarrow> mem \<Rightarrow> u8 list" where
  "msg_bytes c m = mem_read m (mc_data c) (unat (mc_length c))"

definition built :: "mqtt_connection \<Rightarrow> mem \<Rightarrow> u8 list \<Rightarrow> bool" where
  "built c m body \<longleftrightarrow>
     unat (mc_length c) = 3 + length body \<and> 3 + length body \<le> unat (mc_buffer_length c) \<and>
     mem_read m (mc_buffer c + 3) (length body) = body"

section \<open>Building blocks\<close>

lemma length_be16 [simp]: "length (be16 n) = 2"
  by (simp add: be16_def)

lemma unat_add_small:
  fixes x y :: u16
  assumes "unat x + n \<le> unat y"
  shows "unat (x + of_nat n) = unat x + n"
proof -
  have "unat y < 2 ^ 16" using unsigned_less [of y] by simp
  with assms have "unat x + n < 2 ^ 16" by linarith
  then show ?thesis by (simp add: unat_word_ariths unsigned_of_nat take_bit_nat_eq_self)
qed

lemma built_append:
  assumes "built c m body" and "3 + length body + length bs \<le> unat (mc_buffer_length c)"
  shows "built (c\<lparr>mc_length := mc_length c + of_nat (length bs)\<rparr>)
    (mem_write m (mc_buffer c + unat (mc_length c)) bs) (body @ bs)"
proof -
  have "unat (mc_length c + of_nat (length bs)) = 3 + length body + length bs"
    using assms unat_add_small [of "mc_length c" "length bs" "mc_buffer_length c"]
    by (simp add: built_def)
  then show ?thesis
    using assms by (auto simp: built_def mem_read_add disjnt_blk_def mem_simps add.assoc)
qed

lemma built_init: "3 \<le> unat (mc_buffer_length c) \<Longrightarrow> built (init_message c) m []"
  by (simp add: built_def init_message_def)

lemma append_string_no_room:
  "unat (mc_buffer_length c) < unat (mc_length c) + length s + 2 \<Longrightarrow> append_string c m s = (c, m, -1)"
  by (simp add: append_string_def)

lemma u16_bytes:
  fixes j :: u16
  shows "unat (drop_bit 8 j) = unat j div 256" "unat (j AND 0xff) = unat j mod 256"
proof -
  have "j AND 0xff = take_bit 8 j" by (simp add: take_bit_eq_mask mask_eq_exp_minus_1)
  moreover have "unat (take_bit 8 j) = take_bit 8 (unat j)" by (simp add: unsigned_take_bit_eq)
  moreover have "take_bit 8 (unat j) = unat j mod 256" by (simp add: take_bit_eq_mod)
  ultimately show "unat (j AND 0xff) = unat j mod 256" by metis
  show "unat (drop_bit 8 j) = unat j div 256"
    by (simp add: drop_bit_eq_div unat_div_distrib)
qed

lemma unat_step:
  fixes x y :: u16
  assumes "unat x + 2 \<le> unat y"
  shows "unat (x + 1) = Suc (unat x)" "unat (1 + x) = Suc (unat x)"
    "unat (x + 2) = Suc (Suc (unat x))" "unat (2 + x) = Suc (Suc (unat x))"
  using assms unat_add_small [of x 1 y] unat_add_small [of x 2 y]
  by (simp_all add: add.commute)

lemma append_string_room:
  assumes "unat (mc_length c) + length s + 2 \<le> unat (mc_buffer_length c)"
  shows "append_string c m s =
    (c\<lparr>mc_length := mc_length c + of_nat (length (be16 (length s) @ s))\<rparr>,
     mem_write m (mc_buffer c + unat (mc_length c)) (be16 (length s) @ s), int (length s) + 2)"
proof -
  have w: "drop_bit 8 (length s) = length s div 256" "length s AND 0xff = length s mod 256"
    using take_bit_eq_mask [of 8 "length s"]
    by (simp_all add: drop_bit_eq_div take_bit_eq_mod mask_eq_exp_minus_1)
  have "unat (mc_length c) + 2 \<le> unat (mc_buffer_length c)" using assms by simp
  note st = unat_step [OF this]
  show ?thesis
    using assms by (simp add: append_string_def Let_def st w be16_def mem_write_Cons ac_simps)
qed

lemma append_string_built:
  assumes "built c m body" "append_string c m s = (c', m', ret)"
  shows "if 5 + length body + length s \<le> unat (mc_buffer_length c)
    then 0 \<le> ret \<and> built c' m' (body @ be16 (length s) @ s) \<and>
      c' = c\<lparr>mc_length := mc_length c'\<rparr> \<and>
      m' = mem_write m (mc_buffer c + 3 + length body) (be16 (length s) @ s)
    else ret = -1 \<and> c' = c \<and> m' = m"
proof (cases "5 + length body + length s \<le> unat (mc_buffer_length c)")
  case True
  then have room: "unat (mc_length c) + length s + 2 \<le> unat (mc_buffer_length c)"
    using assms(1) by (simp add: built_def)
  show ?thesis
    using True assms(2) built_append [OF assms(1), of "be16 (length s) @ s"] assms(1)
    by (auto simp: append_string_room [OF room] built_def add.assoc)
next
  case False
  then show ?thesis using assms by (auto simp: append_string_no_room built_def)
qed

lemma next_message_id_given: "i \<noteq> 0 \<Longrightarrow> next_message_id c i = (c, i)"
  by (simp add: next_message_id.simps)

lemma next_message_id_fresh:
  "next_message_id c 0 =
     (let k = (if mc_message_id c + 1 = 0 then 1 else mc_message_id c + 1)
      in (c\<lparr>mc_message_id := k\<rparr>, k))"
  by (subst next_message_id.simps, subst next_message_id.simps, subst next_message_id.simps)
     (simp add: Let_def)

lemma next_message_id_result:
  assumes "next_message_id c i = (c1, k)"
  shows "k \<noteq> 0 \<and> c1 = c\<lparr>mc_message_id := mc_message_id c1\<rparr>"
  using assms
  by (cases "i = 0") (auto simp: next_message_id_given next_message_id_fresh Let_def split: if_splits)

lemma append_message_id_built:
  assumes "built c m body" "append_message_id c m i = (c', m', k)"
  shows "if 5 + length body \<le> unat (mc_buffer_length c)
    then k \<noteq> 0 \<and> k = snd (next_message_id c i) \<and> built c' m' (body @ be16 (unat k)) \<and>
      c' = c\<lparr>mc_length := mc_length c', mc_message_id := mc_message_id (fst (next_message_id c i))\<rparr> \<and>
      m' = mem_write m (mc_buffer c + 3 + length body) (be16 (unat k))
    else k = 0 \<and> c' = fst (next_message_id c i) \<and> m' = m"
proof -
  obtain c1 j where nx: "next_message_id c i = (c1, j)" by fastforce
  from next_message_id_result [OF nx] obtain x where n: "j \<noteq> 0" "c1 = c\<lparr>mc_message_id := x\<rparr>"
    by metis
  have b1: "built c1 m body" and f: "mc_length c1 = mc_length c" "mc_buffer c1 = mc_buffer c"
    "mc_buffer_length c1 = mc_buffer_length c"
    using assms(1) n by (simp_all add: built_def)
  have len: "unat (mc_length c) = 3 + length body" using assms(1) by (simp add: built_def)
  have w: "(ucast (drop_bit 8 j) :: u8) = of_nat (unat j div 256)"
    "(ucast (j AND 0xff) :: u8) = of_nat (unat j mod 256)"
    using u16_bytes [of j] by (metis of_nat_unat)+
  show ?thesis
  proof (cases "5 + length body \<le> unat (mc_buffer_length c)")
    case True
    then have "unat (mc_length c) + 2 \<le> unat (mc_buffer_length c)" using len by simp
    note st = unat_step [OF this]
    have eq: "append_message_id c m i =
        (c1\<lparr>mc_length := mc_length c1 + of_nat (length (be16 (unat j)))\<rparr>,
         mem_write m (mc_buffer c1 + unat (mc_length c1)) (be16 (unat j)), j)"
      using True len f st w
      by (simp add: append_message_id_def nx Let_def be16_def mem_write_Cons ac_simps)
    show ?thesis
      using True assms(2) built_append [OF b1, of "be16 (unat j)"] n f len
      by (auto simp: eq nx add.assoc)
  next
    case False
    then show ?thesis using assms(2) len f by (auto simp: append_message_id_def nx)
  qed
qed

section \<open>The fixed header\<close>

lemma or_128: "(128::int) OR (k mod 128) = 128 + k mod 128"
  using push_or_take [of 7 1 k] by (simp add: take_bit_eq_mod push_bit_eq_mult)

lemma length_enc_len: "length (enc_len n) = (if n \<le> 127 then 1 else 2)"
  by (simp add: enc_len_def)

lemma length_packet: "length (packet ty q r body) = 1 + length (enc_len (length body)) + length body"
  by (simp add: packet_def)

lemma built_read_body:
  assumes "built c m body" "\<And>x. mc_buffer c + 3 \<le> x \<Longrightarrow> m' x = m x"
  shows "mem_read m' (mc_buffer c + 3) (length body) = body"
  using assms mem_read_cong [of "mc_buffer c + 3" "length body" m' m] by (simp add: built_def)

lemma fini_message_built:
  assumes b: "built c m body" and n: "length body \<le> 16383"
    and f: "fini_message c m ty 0 q r = (c', m')"
  shows "msg_bytes c' m' = packet ty q r body"
    and "unat (mc_length c') = length (packet ty q r body)"
    and "\<exists>l d. c' = c\<lparr>mc_length := l, mc_data := d\<rparr>"
    and "same_outside m m' (mc_buffer c) 3"
proof -
  have len: "unat (mc_length c) = 3 + length body" and lim: "3 + length body < 65536"
    using b n by (simp_all add: built_def)
  have rem: "int (unat (mc_length c)) - int 3 = int (length body)" unfolding len by simp
  have small: "unat (word_of_int (int k) :: u16) = k" if "k < 65536" for k :: nat
    using that by (simp add: unsigned_of_nat take_bit_nat_eq_self)
  have "msg_bytes c' m' = packet ty q r body \<and> unat (mc_length c') = length (packet ty q r body) \<and>
    (\<exists>l d. c' = c\<lparr>mc_length := l, mc_data := d\<rparr>) \<and> same_outside m m' (mc_buffer c) 3"
  proof (cases "length body \<le> 127")
    case True
    then have c': "c' = c\<lparr>mc_length := word_of_int (int (length body + 2)), mc_data := mc_buffer c + 1\<rparr>"
      and m': "m' = m(mc_buffer c + 1 := fixed_header_byte ty 0 q r,
        mc_buffer c + 2 := of_nat (length body))"
      using f unfolding fini_message_def Let_def rem by auto
    have "mem_read m' (mc_buffer c + 3) (length body) = body"
      by (rule built_read_body [OF b]) (simp add: m')
    then have "msg_bytes c' m' = packet ty q r body"
      using True small [of "length body + 2"] lim
      by (simp add: msg_bytes_def c' packet_def enc_len_def mem_read_Suc m' numeral_3_eq_3)
    then show ?thesis
      using True small [of "length body + 2"] lim
      by (auto simp: c' m' length_packet length_enc_len same_outside_def)
  next
    case False
    have "int (length body) div 128 = int (length body div 128)"
      "128 OR int (length body) mod 128 = int (128 + length body mod 128)"
      by (simp_all add: or_128 zdiv_int zmod_int)
    then have hi: "word_of_int (int (length body) div 128) = (of_nat (length body div 128) :: u8)"
      and lo: "word_of_int (128 OR int (length body) mod 128) = (of_nat (128 + length body mod 128) :: u8)"
      by (simp_all only: of_int_of_nat_eq)
    have c': "c' = c\<lparr>mc_length := word_of_int (int (length body + 3)), mc_data := mc_buffer c\<rparr>"
      and m': "m' = m(mc_buffer c := fixed_header_byte ty 0 q r,
        mc_buffer c + 1 := of_nat (128 + length body mod 128),
        mc_buffer c + 2 := of_nat (length body div 128))"
      using False f hi lo unfolding fini_message_def Let_def rem by auto
    have "mem_read m' (mc_buffer c + 3) (length body) = body"
      by (rule built_read_body [OF b]) (simp add: m')
    then have "msg_bytes c' m' = packet ty q r body"
      using False small [of "length body + 3"] lim
      by (simp add: msg_bytes_def c' packet_def enc_len_def mem_read_Suc m' numeral_3_eq_3)
    then show ?thesis
      using False small [of "length body + 3"] lim
      by (auto simp: c' m' length_packet length_enc_len same_outside_def)
  qed
  then show "msg_bytes c' m' = packet ty q r body" "unat (mc_length c') = length (packet ty q r body)"
    "\<exists>l d. c' = c\<lparr>mc_length := l, mc_data := d\<rparr>" "same_outside m m' (mc_buffer c) 3"
    by blast+
qed

section \<open>The encoders\<close>

text \<open>
  \<open>kept\<close> is what every step of an encoder keeps: the buffer of the connection and the store outside
  it. \<open>encoded\<close> is the outcome of an encoder, the packet it leaves in the buffer or the empty message.
\<close>

definition kept :: "mqtt_connection \<Rightarrow> mem \<Rightarrow> mqtt_connection \<Rightarrow> mem \<Rightarrow> bool" where
  "kept c m c' m' \<longleftrightarrow> mc_buffer c' = mc_buffer c \<and> mc_buffer_length c' = mc_buffer_length c \<and>
     same_outside m m' (mc_buffer c) (unat (mc_buffer_length c))"

definition encoded ::
  "mqtt_connection \<Rightarrow> mem \<Rightarrow> mqtt_connection \<Rightarrow> mem \<Rightarrow> u8 list option \<Rightarrow> bool" where
  "encoded c m c' m' p \<longleftrightarrow> kept c m c' m' \<and>
     (case p of None \<Rightarrow> mc_length c' = 0 \<and> mc_data c' = mc_buffer c
      | Some bs \<Rightarrow> msg_bytes c' m' = bs \<and> unat (mc_length c') = length bs \<and>
          mc_buffer c \<le> mc_data c' \<and>
          mc_data c' + length bs \<le> mc_buffer c + unat (mc_buffer_length c))"

definition fresh_id :: "u16 \<Rightarrow> u16" where
  "fresh_id i = (if i + 1 = 0 then 1 else i + 1)"

lemma kept_refl [simp]: "kept c m c m"
  by (simp add: kept_def)

lemma kept_trans: "kept c m c1 m1 \<Longrightarrow> kept c1 m1 c2 m2 \<Longrightarrow> kept c m c2 m2"
  by (auto simp: kept_def intro: same_outside_trans)

lemma kept_init [simp]: "kept c m (init_message c) m"
  by (simp add: kept_def init_message_def)

lemma encoded_fail: "kept c m c1 m1 \<Longrightarrow> encoded c m (fail_message c1) m1 None"
  by (simp add: encoded_def kept_def fail_message_def)

lemma kept_write:
  assumes "kept c m c1 m1" "mc_buffer c1 \<le> a"
    "a + length bs \<le> mc_buffer c1 + unat (mc_buffer_length c1)"
    "mc_buffer c' = mc_buffer c1" "mc_buffer_length c' = mc_buffer_length c1"
  shows "kept c m c' (mem_write m1 a bs)"
  using assms same_outside_write [of "mc_buffer c1" a bs "unat (mc_buffer_length c1)" m1]
  by (auto simp: kept_def intro: same_outside_trans)

lemma append_string_step:
  assumes "built c1 m1 body" "kept c m c1 m1" "append_string c1 m1 s = (c2, m2, r)"
  shows "if 5 + length body + length s \<le> unat (mc_buffer_length c)
    then 0 \<le> r \<and> built c2 m2 (body @ be16 (length s) @ s) \<and> kept c m c2 m2 \<and>
      mc_message_id c2 = mc_message_id c1 \<and>
      (\<forall>x < mc_buffer c + 3 + length body. m2 x = m1 x)
    else r < 0 \<and> kept c m c2 m2"
proof -
  have bl: "mc_buffer_length c1 = mc_buffer_length c" and bb: "mc_buffer c1 = mc_buffer c"
    using assms(2) by (simp_all add: kept_def)
  note st = append_string_built [OF assms(1,3)]
  show ?thesis
  proof (cases "5 + length body + length s \<le> unat (mc_buffer_length c)")
    case True
    from st [unfolded bl if_P [OF True]] have f: "0 \<le> r" "built c2 m2 (body @ be16 (length s) @ s)"
      "c2 = c1\<lparr>mc_length := mc_length c2\<rparr>"
      "m2 = mem_write m1 (mc_buffer c1 + 3 + length body) (be16 (length s) @ s)" by blast+
    obtain l where l: "c2 = c1\<lparr>mc_length := l\<rparr>" using f(3) by blast
    have "kept c m c2 m2"
      unfolding f(4) using True bl by (intro kept_write [OF assms(2)]) (simp_all add: l)
    then show ?thesis
      using True f(1,2) bb by (simp add: l f(4) mem_simps)
  next
    case False
    then show ?thesis using st bl assms(2) by auto
  qed
qed

lemma append_message_id_step:
  assumes "built c1 m1 body" "kept c m c1 m1" "append_message_id c1 m1 i = (c2, m2, k)"
  shows "if 5 + length body \<le> unat (mc_buffer_length c)
    then k = (if i = 0 then fresh_id (mc_message_id c1) else i) \<and> k \<noteq> 0 \<and>
      built c2 m2 (body @ be16 (unat k)) \<and> kept c m c2 m2 \<and>
      mc_message_id c2 = (if i = 0 then k else mc_message_id c1)
    else k = 0 \<and> kept c m c2 m2"
proof -
  have bl: "mc_buffer_length c1 = mc_buffer_length c" using assms(2) by (simp add: kept_def)
  note st = append_message_id_built [OF assms(1,3)]
  have nx: "snd (next_message_id c1 i) = (if i = 0 then fresh_id (mc_message_id c1) else i)"
    "mc_message_id (fst (next_message_id c1 i)) =
       (if i = 0 then fresh_id (mc_message_id c1) else mc_message_id c1)"
    by (simp_all add: next_message_id_given next_message_id_fresh fresh_id_def Let_def)
  obtain x where x: "fst (next_message_id c1 i) = c1\<lparr>mc_message_id := x\<rparr>"
    by (metis next_message_id_result prod.collapse)
  show ?thesis
  proof (cases "5 + length body \<le> unat (mc_buffer_length c)")
    case True
    from st [unfolded bl if_P [OF True] nx] have f: "k = (if i = 0 then fresh_id (mc_message_id c1) else i)" "k \<noteq> 0"
      "built c2 m2 (body @ be16 (unat k))"
      "m2 = mem_write m1 (mc_buffer c1 + 3 + length body) (be16 (unat k))" by blast+
    obtain l where l: "c2 = c1\<lparr>mc_length := l,
        mc_message_id := mc_message_id (fst (next_message_id c1 i))\<rparr>"
      using st True bl by auto
    have "kept c m c2 m2"
      unfolding f(4) using True bl by (intro kept_write [OF assms(2)]) (simp_all add: l)
    then show ?thesis
      using True f nx by (simp add: l)
  next
    case False
    then show ?thesis using st bl assms(2) x by (auto simp: kept_def)
  qed
qed

lemma fini_message_step:
  assumes b: "built c1 m1 body" and k: "kept c m c1 m1" and n: "length body \<le> 16383"
    and f: "fini_message c1 m1 ty 0 q r = (c2, m2)"
  shows "encoded c m c2 m2 (Some (packet ty q r body)) \<and> mc_message_id c2 = mc_message_id c1"
proof -
  note fb = fini_message_built [OF b n f]
  obtain l d where c2: "c2 = c1\<lparr>mc_length := l, mc_data := d\<rparr>" using fb(3) by blast
  have "3 \<le> unat (mc_buffer_length c1)" using b by (simp add: built_def)
  then have "same_outside m1 m2 (mc_buffer c1) (unat (mc_buffer_length c1))"
    using fb(4) by (auto simp: same_outside_def)
  then have "kept c m c2 m2" using k c2 by (auto simp: kept_def intro: same_outside_trans)
  moreover have "mc_data c2 + length (packet ty q r body) = mc_buffer c1 + 3 + length body \<and>
      mc_buffer c1 \<le> mc_data c2"
  proof -
    have "unat (mc_length c1) = 3 + length body" using b by (simp add: built_def)
    then have "int (unat (mc_length c1)) - int 3 = int (length body)" by simp
    from f [unfolded fini_message_def Let_def this] show ?thesis
      by (auto simp: length_packet length_enc_len split: if_splits)
  qed
  ultimately show ?thesis
    using fb b k by (auto simp: encoded_def c2 built_def kept_def)
qed

definition publish_body :: "u8 list \<Rightarrow> int \<Rightarrow> u16 \<Rightarrow> u8 list \<Rightarrow> u8 list" where
  "publish_body topic qos i data =
     be16 (length topic) @ topic @ (if qos > 0 then be16 (unat i) else []) @ data"

text \<open>The optional message identifier of a PUBLISH.\<close>

lemma publish_id_step:
  assumes "built c1 m1 body" "kept c m c1 m1"
    "(if (qos::int) > 0 then append_message_id c1 m1 0 else (c1, m1, 0)) = (c2, m2, k)"
  shows "if qos > 0 \<longrightarrow> 5 + length body \<le> unat (mc_buffer_length c)
    then (qos > 0 \<longrightarrow> k \<noteq> 0) \<and> k = (if qos > 0 then fresh_id (mc_message_id c1) else 0) \<and>
      built c2 m2 (body @ (if qos > 0 then be16 (unat k) else [])) \<and> kept c m c2 m2 \<and>
      mc_message_id c2 = (if qos > 0 then fresh_id (mc_message_id c1) else mc_message_id c1)
    else k = 0 \<and> kept c m c2 m2"
proof (cases "qos > 0")
  case True
  then have "append_message_id c1 m1 0 = (c2, m2, k)" using assms(3) by simp
  from append_message_id_step [OF assms(1,2) this] show ?thesis using True by simp metis
qed (use assms in auto)

text \<open>The last step of PUBLISH and SUBSCRIBE: append the payload if it fits, then the fixed header.\<close>

lemma payload_step:
  assumes b: "built c2 m2 body" and k: "kept c m c2 m2" and len: "unat (mc_buffer_length c) \<le> 16386"
    and f: "(if unat (mc_buffer_length c2) < unat (mc_length c2) + length data
       then (fail_message c2, m2)
       else fini_message (c2\<lparr>mc_length := mc_length c2 + of_nat (length data)\<rparr>)
         (mem_write m2 (mc_buffer c2 + unat (mc_length c2)) data) ty 0 q r) = (c', m')"
  shows "if 3 + length body + length data \<le> unat (mc_buffer_length c)
    then encoded c m c' m' (Some (packet ty q r (body @ data))) \<and> mc_message_id c' = mc_message_id c2
    else encoded c m c' m' None"
proof -
  let ?c3 = "c2\<lparr>mc_length := mc_length c2 + of_nat (length data)\<rparr>"
  let ?m3 = "mem_write m2 (mc_buffer c2 + unat (mc_length c2)) data"
  have l2: "unat (mc_length c2) = 3 + length body" "mc_buffer_length c2 = mc_buffer_length c"
    using b k by (simp_all add: built_def kept_def)
  show ?thesis
  proof (cases "3 + length body + length data \<le> unat (mc_buffer_length c)")
    case True
    then have s: "fini_message ?c3 ?m3 ty 0 q r = (c', m')" using f l2 by simp
    have "built ?c3 ?m3 (body @ data)" using True l2 by (intro built_append [OF b]) simp
    moreover have "kept c m ?c3 ?m3" using True l2 by (intro kept_write [OF k]) simp_all
    ultimately show ?thesis
      using fini_message_step [of ?c3 ?m3 "body @ data" c m] s True len by simp
  next
    case False
    then show ?thesis using f k l2 by (auto intro: encoded_fail)
  qed
qed

lemma mqtt_msg_publish_outcome:
  assumes len: "3 \<le> unat (mc_buffer_length c)" "unat (mc_buffer_length c) \<le> 16386"
    and pub: "mqtt_msg_publish c m topic data qos retain mid0 = (c', m', mid)"
    and body: "body = publish_body (the topic) qos (fresh_id (mc_message_id c)) data"
  shows "if str_given topic \<and> 3 + length body \<le> unat (mc_buffer_length c)
    then encoded c m c' m' (Some (packet 3 qos retain body)) \<and>
      mid = (if qos > 0 then fresh_id (mc_message_id c) else 0) \<and>
      mc_message_id c' = (if qos > 0 then mid else mc_message_id c)
    else encoded c m c' m' None"
proof (cases "str_given topic")
  case False
  then show ?thesis using pub by (auto simp: mqtt_msg_publish_def Let_def intro: encoded_fail)
next
  case True
  let ?c = "init_message c" and ?B = "unat (mc_buffer_length c)" and ?t = "the topic"
  have b0: "built ?c m []" by (rule built_init [OF len(1)])
  have mid: "mc_message_id ?c = mc_message_id c" by (simp add: init_message_def)
  obtain c1 m1 r1 where s1: "append_string ?c m ?t = (c1, m1, r1)" by (metis prod_cases3)
  note st1 = append_string_step [OF b0 kept_init s1, unfolded mid]
  show ?thesis
  proof (cases "5 + length ?t \<le> ?B")
    case False
    then show ?thesis using st1 pub True
      by (auto simp: mqtt_msg_publish_def Let_def s1 body publish_body_def intro: encoded_fail)
  next
    case fit1: True
    with st1 have r1: "\<not> r1 < 0" and b1: "built c1 m1 (be16 (length ?t) @ ?t)" and k1: "kept c m c1 m1"
      and i1: "mc_message_id c1 = mc_message_id c" by simp_all
    obtain c2 m2 k where s2:
      "(if qos > 0 then append_message_id c1 m1 0 else (c1, m1, 0)) = (c2, m2, k)"
      by (metis prod_cases3)
    note st2 = publish_id_step [OF b1 k1 s2, unfolded i1]
    obtain c3 m3 where s3: "(if unat (mc_buffer_length c2) < unat (mc_length c2) + length data
       then (fail_message c2, m2)
       else fini_message (c2\<lparr>mc_length := mc_length c2 + of_nat (length data)\<rparr>)
         (mem_write m2 (mc_buffer c2 + unat (mc_length c2)) data) 3 0 qos retain) = (c3, m3)"
      by fastforce
    have pub2: "mqtt_msg_publish c m topic data qos retain mid0 =
      (if qos > 0 \<and> k = 0 then (fail_message c2, m2, k) else (c3, m3, k))"
      using True r1 s3 by (simp add: mqtt_msg_publish_def Let_def s1 s2 split: if_splits)
    show ?thesis
    proof (cases "qos > 0 \<longrightarrow> 7 + length ?t \<le> ?B")
      case False
      then show ?thesis using st2 pub by (auto simp: pub2 body publish_body_def intro: encoded_fail)
    next
      case fit2: True
      let ?b2 = "be16 (length ?t) @ ?t @ (if qos > 0 then be16 (unat k) else [])"
      from fit2 st2 have k: "k = (if qos > 0 then fresh_id (mc_message_id c) else 0)" "qos > 0 \<longrightarrow> k \<noteq> 0"
        and b2: "built c2 m2 ?b2" and k2: "kept c m c2 m2"
        and i2: "mc_message_id c2 = (if qos > 0 then fresh_id (mc_message_id c) else mc_message_id c)"
        by auto
      have "body = ?b2 @ data" using k by (simp add: body publish_body_def)
      then show ?thesis
        using payload_step [OF b2 k2 len(2) s3] True k i2 pub by (simp add: pub2 split: if_splits)
    qed
  qed
qed

lemma ack_message_outcome:
  assumes len: "3 \<le> unat (mc_buffer_length c)"
    and ack: "ack_message ty q c m i = (c', m')"
    and k: "k = (if i = 0 then fresh_id (mc_message_id c) else i)"
  shows "if 5 \<le> unat (mc_buffer_length c)
    then encoded c m c' m' (Some (packet ty q 0 (be16 (unat k)))) else encoded c m c' m' None"
proof -
  have mid: "mc_message_id (init_message c) = mc_message_id c" by (simp add: init_message_def)
  obtain c1 m1 j where s1: "append_message_id (init_message c) m i = (c1, m1, j)"
    by (metis prod_cases3)
  note st = append_message_id_step [OF built_init [OF len] kept_init s1, unfolded mid]
  show ?thesis
  proof (cases "5 \<le> unat (mc_buffer_length c)")
    case True
    with st k have "j = k" "k \<noteq> 0" "built c1 m1 (be16 (unat k))" "kept c m c1 m1" by auto
    then show ?thesis
      using fini_message_step [of c1 m1 "be16 (unat k)" c m ty q 0] ack True
      by (simp add: ack_message_def s1)
  next
    case False
    then show ?thesis using st ack by (auto simp: ack_message_def s1 intro: encoded_fail)
  qed
qed

definition subscribe_body :: "u8 list \<Rightarrow> int \<Rightarrow> u16 \<Rightarrow> u8 list" where
  "subscribe_body topic qos i = be16 (unat i) @ be16 (length topic) @ topic @ [word_of_int qos]"

definition unsubscribe_body :: "u8 list \<Rightarrow> u16 \<Rightarrow> u8 list" where
  "unsubscribe_body topic i = be16 (unat i) @ be16 (length topic) @ topic"

text \<open>The common prefix of SUBSCRIBE and UNSUBSCRIBE: the identifier, then the topic.\<close>

lemma id_topic_step:
  assumes len: "3 \<le> unat (mc_buffer_length c)"
    and s1: "append_message_id (init_message c) m 0 = (c1, m1, k)"
    and s2: "append_string c1 m1 t = (c2, m2, r)"
  shows "if 7 + length t \<le> unat (mc_buffer_length c)
    then k = fresh_id (mc_message_id c) \<and> k \<noteq> 0 \<and> 0 \<le> r \<and> kept c m c2 m2 \<and>
      built c2 m2 (be16 (unat k) @ be16 (length t) @ t) \<and> mc_message_id c2 = k
    else kept c m c1 m1 \<and> (k = 0 \<or> r < 0 \<and> kept c m c2 m2)"
proof -
  have mid: "mc_message_id (init_message c) = mc_message_id c" by (simp add: init_message_def)
  note st1 = append_message_id_step [OF built_init [OF len] kept_init s1, unfolded mid]
  show ?thesis
  proof (cases "5 \<le> unat (mc_buffer_length c)")
    case True
    with st1 have f: "k = fresh_id (mc_message_id c)" "k \<noteq> 0" "built c1 m1 (be16 (unat k))"
      "kept c m c1 m1" "mc_message_id c1 = k" by auto
    show ?thesis using append_string_step [OF f(3,4) s2] f by (auto split: if_splits)
  qed (use st1 in auto)
qed

lemma mqtt_msg_subscribe_outcome:
  assumes len: "3 \<le> unat (mc_buffer_length c)" "unat (mc_buffer_length c) \<le> 16386"
    and sub: "mqtt_msg_subscribe c m topic qos mid0 = (c', m', mid)"
    and body: "body = subscribe_body (the topic) qos (fresh_id (mc_message_id c))"
  shows "if str_given topic \<and> 3 + length body \<le> unat (mc_buffer_length c)
    then encoded c m c' m' (Some (packet 8 1 0 body)) \<and>
      mid = fresh_id (mc_message_id c) \<and> mc_message_id c' = mid
    else encoded c m c' m' None"
proof (cases "str_given topic")
  case False
  then show ?thesis using sub by (auto simp: mqtt_msg_subscribe_def Let_def intro: encoded_fail)
next
  case True
  let ?q = "[word_of_int qos :: u8]"
  obtain c1 m1 k where s1: "append_message_id (init_message c) m 0 = (c1, m1, k)"
    by (metis prod_cases3)
  obtain c2 m2 r where s2: "append_string c1 m1 (the topic) = (c2, m2, r)" by (metis prod_cases3)
  obtain c3 m3 where s3: "(if unat (mc_buffer_length c2) < unat (mc_length c2) + length ?q
       then (fail_message c2, m2)
       else fini_message (c2\<lparr>mc_length := mc_length c2 + of_nat (length ?q)\<rparr>)
         (mem_write m2 (mc_buffer c2 + unat (mc_length c2)) ?q) 8 0 1 0) = (c3, m3)"
    by fastforce
  have eq: "mqtt_msg_subscribe c m topic qos mid0 =
    (if k = 0 then (fail_message c1, m1, k) else if r < 0 then (fail_message c2, m2, k)
     else (c3, m3, k))"
    using True s3
    by (simp add: mqtt_msg_subscribe_def Let_def s1 s2 mem_write_Cons split: if_splits)
  note st = id_topic_step [OF len(1) s1 s2]
  show ?thesis
  proof (cases "7 + length (the topic) \<le> unat (mc_buffer_length c)")
    case fit: True
    with st have f: "k = fresh_id (mc_message_id c)" "k \<noteq> 0" "0 \<le> r" "kept c m c2 m2"
      "built c2 m2 (be16 (unat k) @ be16 (length (the topic)) @ the topic)" "mc_message_id c2 = k"
      by auto
    show ?thesis
      using payload_step [OF f(5,4) len(2) s3] f sub True
      by (simp add: eq body subscribe_body_def split: if_splits)
  next
    case False
    then show ?thesis
      using st sub by (auto simp: eq body subscribe_body_def split: if_splits intro: encoded_fail)
  qed
qed

lemma mqtt_msg_unsubscribe_outcome:
  assumes len: "3 \<le> unat (mc_buffer_length c)" "unat (mc_buffer_length c) \<le> 16386"
    and sub: "mqtt_msg_unsubscribe c m topic mid0 = (c', m', mid)"
    and body: "body = unsubscribe_body (the topic) (fresh_id (mc_message_id c))"
  shows "if str_given topic \<and> 3 + length body \<le> unat (mc_buffer_length c)
    then encoded c m c' m' (Some (packet 10 1 0 body)) \<and>
      mid = fresh_id (mc_message_id c) \<and> mc_message_id c' = mid
    else encoded c m c' m' None"
proof (cases "str_given topic")
  case False
  then show ?thesis using sub by (auto simp: mqtt_msg_unsubscribe_def Let_def intro: encoded_fail)
next
  case True
  obtain c1 m1 k where s1: "append_message_id (init_message c) m 0 = (c1, m1, k)"
    by (metis prod_cases3)
  obtain c2 m2 r where s2: "append_string c1 m1 (the topic) = (c2, m2, r)" by (metis prod_cases3)
  obtain c3 m3 where s3: "fini_message c2 m2 10 0 1 0 = (c3, m3)" by fastforce
  have eq: "mqtt_msg_unsubscribe c m topic mid0 =
    (if k = 0 then (fail_message c1, m1, k) else if r < 0 then (fail_message c2, m2, k)
     else (c3, m3, k))"
    using True s3 by (simp add: mqtt_msg_unsubscribe_def Let_def s1 s2)
  note st = id_topic_step [OF len(1) s1 s2]
  show ?thesis
  proof (cases "7 + length (the topic) \<le> unat (mc_buffer_length c)")
    case fit: True
    with st have f: "k = fresh_id (mc_message_id c)" "k \<noteq> 0" "0 \<le> r" "kept c m c2 m2"
      "built c2 m2 (be16 (unat k) @ be16 (length (the topic)) @ the topic)" "mc_message_id c2 = k"
      by auto
    show ?thesis
      using fini_message_step [OF f(5,4) _ s3] f sub True fit len(2)
      by (simp add: eq body unsubscribe_body_def split: if_splits)
  next
    case False
    then show ?thesis
      using st sub by (auto simp: eq body unsubscribe_body_def split: if_splits intro: encoded_fail)
  qed
qed

lemma empty_message_outcome:
  assumes "3 \<le> unat (mc_buffer_length c)" "fini_message (init_message c) m ty 0 q r = (c', m')"
  shows "encoded c m c' m' (Some (packet ty q r []))"
  using fini_message_step [OF built_init [OF assms(1)] kept_init _ assms(2)] by simp

section \<open>CONNECT\<close>

definition str_field :: "u8 list option \<Rightarrow> u8 list" where
  "str_field s = (if str_given s then be16 (length (the s)) @ the s else [])"

definition will_field :: "mqtt_connect_info \<Rightarrow> u8 list" where
  "will_field info =
     (if str_given (ci_will_topic info)
      then str_field (ci_will_topic info) @
        be16 (length (the (ci_will_message info))) @ the (ci_will_message info)
      else [])"

definition will_flags :: "mqtt_connect_info \<Rightarrow> u8" where
  "will_flags info =
     (if str_given (ci_will_topic info)
      then (if ci_will_retain info \<noteq> 0 then 0x24 else 0x04) OR
        word_of_int (push_bit 3 (ci_will_qos info AND 3))
      else 0)"

definition connect_flags :: "mqtt_connect_info \<Rightarrow> u8" where
  "connect_flags info =
     (((if ci_clean_session info \<noteq> 0 then 0x02 else 0) OR will_flags info) OR
       (if str_given (ci_username info) then 0x80 else 0)) OR
       (if str_given (ci_password info) then 0x40 else 0)"

definition connect_pre :: "mqtt_protocol_ver \<Rightarrow> u8 list" where
  "connect_pre ver = be16 (length (fst (protocol_magic ver))) @ fst (protocol_magic ver) @
     [snd (protocol_magic ver)]"

definition connect_keepalive :: "mqtt_connect_info \<Rightarrow> u8 list" where
  "connect_keepalive info =
     [ucast (drop_bit 8 (ci_keepalive info)), ucast (ci_keepalive info AND 0xff)]"

definition connect_body :: "mqtt_protocol_ver \<Rightarrow> mqtt_connect_info \<Rightarrow> u8 list" where
  "connect_body ver info = connect_pre ver @ connect_flags info # connect_keepalive info @
     str_field (ci_client_id info) @ will_field info @ str_field (ci_username info) @
     str_field (ci_password info)"

lemma built_flag:
  assumes b: "built c1 m1 (pre @ f # post)" and k: "kept c m c1 m1"
    and fl: "fl = mc_buffer c + 3 + length pre"
  shows "m1 fl = f" and "built c1 (m1(fl := v)) (pre @ v # post)" and "kept c m c1 (m1(fl := v))"
proof -
  have bb: "mc_buffer c1 = mc_buffer c" using k by (simp add: kept_def)
  have rd: "mem_read m1 (mc_buffer c + 3) (length (pre @ f # post)) = pre @ f # post"
    using b bb by (simp add: built_def)
  then have "mem_read m1 (mc_buffer c + 3) (length (pre @ f # post)) ! length pre = f" by simp
  then show "m1 fl = f" by (simp add: fl)
  have L: "length (pre @ x # post) = length pre + Suc (length post)" for x :: u8 by simp
  have "mem_read m1 (mc_buffer c + 3) (length pre) = pre" "mem_read m1 (Suc fl) (length post) = post"
    using rd [unfolded L mem_read_add mem_read_Suc] by (simp_all add: fl)
  then have "mem_read (m1(fl := v)) (mc_buffer c + 3) (length (pre @ v # post)) = pre @ v # post"
    unfolding L mem_read_add mem_read_Suc by (simp add: fl mem_simps)
  then show "built c1 (m1(fl := v)) (pre @ v # post)"
    using b bb by (simp add: built_def)
  have "m1(fl := v) = mem_write m1 fl [v]" by (simp add: mem_write_Cons)
  then show "kept c m c1 (m1(fl := v))"
    using b bb by (simp only:) (intro kept_write [OF k], simp_all add: built_def fl)
qed

lemma connect_credential_step:
  assumes b: "built c1 m1 (pre @ f # post)" and k: "kept c m c1 m1"
    and fl: "fl = mc_buffer c + 3 + length pre"
    and s: "connect_credential c1 m1 fl s flag = (c2, m2, ok)"
  shows "if 4 + length pre + length post + length (str_field s) \<le> unat (mc_buffer_length c)
    then ok \<and> kept c m c2 m2 \<and>
      built c2 m2 (pre @ (f OR (if str_given s then flag else 0)) # (post @ str_field s))
    else \<not> ok \<and> kept c m c2 m2"
proof (cases "str_given s")
  case False
  then show ?thesis using s b k by (auto simp: connect_credential_def str_field_def built_def kept_def)
next
  case True
  obtain ca ma r where a: "append_string c1 m1 (the s) = (ca, ma, r)" by (metis prod_cases3)
  note st = append_string_step [OF b k a]
  show ?thesis
  proof (cases "4 + length pre + length post + length (str_field s) \<le> unat (mc_buffer_length c)")
    case fit: True
    with st have f: "0 \<le> r" "built ca ma (pre @ f # (post @ str_field s))" "kept c m ca ma"
      using True by (simp_all add: str_field_def)
    show ?thesis
      using s f(1) fit True built_flag [OF f(2,3) fl]
      by (auto simp: connect_credential_def a)
  next
    case False
    then show ?thesis using st s True by (auto simp: connect_credential_def a str_field_def)
  qed
qed

lemma connect_will_step:
  assumes b: "built c1 m1 (pre @ f # post)" and k: "kept c m c1 m1"
    and fl: "fl = mc_buffer c + 3 + length pre"
    and s: "connect_will c1 m1 fl info = (c2, m2, ok)"
  shows "if 4 + length pre + length post + length (will_field info) \<le> unat (mc_buffer_length c)
    then ok \<and> kept c m c2 m2 \<and>
      built c2 m2 (pre @ (f OR will_flags info) # (post @ will_field info))
    else \<not> ok \<and> kept c m c2 m2"
proof (cases "str_given (ci_will_topic info)")
  case False
  then show ?thesis
    using s b k by (auto simp: connect_will_def will_field_def will_flags_def built_def kept_def)
next
  case True
  let ?t = "the (ci_will_topic info)" and ?w = "the (ci_will_message info)"
  let ?B = "unat (mc_buffer_length c)"
  obtain ca ma ra where a: "append_string c1 m1 ?t = (ca, ma, ra)" by (metis prod_cases3)
  obtain cb mb rb where e: "append_string ca ma ?w = (cb, mb, rb)" by (metis prod_cases3)
  note sta = append_string_step [OF b k a]
  show ?thesis
  proof (cases "6 + length pre + length post + length ?t \<le> ?B")
    case fit1: True
    with sta have fa: "0 \<le> ra" "built ca ma (pre @ f # (post @ be16 (length ?t) @ ?t))" "kept c m ca ma"
      by simp_all
    note stb = append_string_step [OF fa(2,3) e]
    show ?thesis
    proof (cases "8 + length pre + length post + length ?t + length ?w \<le> ?B")
      case fit2: True
      with stb True have fb: "0 \<le> rb" "built cb mb (pre @ f # (post @ will_field info))" "kept c m cb mb"
        by (simp_all add: will_field_def str_field_def)
      have "(c2, m2, ok) = (cb, mb(fl := f OR will_flags info), True)"
        using s True fa(1) fb(1) built_flag(1) [OF fb(2,3) fl]
        by (auto simp: connect_will_def a e will_flags_def Let_def or.assoc)
      then show ?thesis
        using fit2 True built_flag [OF fb(2,3) fl] by (simp add: will_field_def str_field_def)
    next
      case False
      with stb s True fa(1) show ?thesis
        by (auto simp: connect_will_def a e will_field_def str_field_def)
    qed
  next
    case False
    with sta s True show ?thesis by (auto simp: connect_will_def a will_field_def str_field_def)
  qed
qed

lemma mem_write_head: "(mem_write m a (x # xs))(a := v) = mem_write m a (v # xs)"
  by (rule ext) (auto simp: mem_write_def nth_Cons')

lemma connect_header_eq:
  "connect_header ver m vh info =
     (mem_write m vh (connect_pre ver @ (if ci_clean_session info \<noteq> 0 then 0x02 else 0) #
        connect_keepalive info), vh + length (connect_pre ver))"
proof -
  let ?g = "fst (protocol_magic ver)"
  let ?fl = "vh + length (connect_pre ver)" and ?m3 = "mem_write m vh (connect_pre ver)"
  have small: "length ?g div 256 = 0" "length ?g mod 256 = length ?g"
    by (cases ver; simp add: ascii_def)+
  have m3: "?m3 = (mem_write (m(vh := 0, vh + 1 := of_nat (length ?g))) (vh + 2) ?g)
      (vh + 2 + length ?g := snd (protocol_magic ver))"
    by (simp add: connect_pre_def be16_def small mem_write_Cons mem_write_append add.assoc)
  have m4: "?m3(?fl := 0, ?fl + 1 := ucast (drop_bit 8 (ci_keepalive info)),
      ?fl + 2 := ucast (ci_keepalive info AND 0xff)) = mem_write ?m3 ?fl (0 # connect_keepalive info)"
    by (simp add: connect_keepalive_def mem_write_Cons)
  have fl: "?fl = vh + 3 + length ?g" by (simp add: connect_pre_def)
  have "mem_write ?m3 ?fl (0 # connect_keepalive info) ?fl = 0" by (simp add: mem_write_def)
  then show ?thesis
    unfolding connect_header_def Let_def m3 [symmetric] fl [symmetric] m4
    by (simp add: mem_write_append mem_write_head)
qed

lemma length_connect_pre: "length (connect_pre ver) + 3 = length (fst (protocol_magic ver)) + 6"
  by (simp add: connect_pre_def)

lemma mqtt_msg_connect_start:
  assumes len: "3 \<le> unat (mc_buffer_length c)"
    and fit: "length (connect_pre ver) + 6 \<le> unat (mc_buffer_length c)"
    and h: "connect_header ver m (mc_buffer c + 3) info = (m1, fl)"
    and c1: "c1 = (init_message c)\<lparr>mc_length := 3 + of_nat (length (fst (protocol_magic ver)) + 6)\<rparr>"
  shows "built c1 m1 (connect_pre ver @ (if ci_clean_session info \<noteq> 0 then 0x02 else 0) #
      connect_keepalive info) \<and> kept c m c1 m1 \<and> fl = mc_buffer c + 3 + length (connect_pre ver)"
proof -
  let ?bs = "connect_pre ver @ (if ci_clean_session info \<noteq> 0 then 0x02 else 0) # connect_keepalive info"
  have l: "length ?bs = length (fst (protocol_magic ver)) + 6"
    using length_connect_pre [of ver] by (simp add: connect_keepalive_def)
  have c1': "c1 = (init_message c)\<lparr>mc_length := mc_length (init_message c) + of_nat (length ?bs)\<rparr>"
    unfolding l by (simp add: c1 init_message_def)
  have m1: "m1 = mem_write m (mc_buffer (init_message c) + unat (mc_length (init_message c))) ?bs"
    and fl: "fl = mc_buffer c + 3 + length (connect_pre ver)"
    using h by (simp_all add: connect_header_eq init_message_def)
  have "built c1 m1 ([] @ ?bs)" unfolding c1' m1
    by (rule built_append [OF built_init [OF len]])
       (use fit in \<open>simp add: init_message_def connect_keepalive_def\<close>)
  moreover have "kept c m c1 m1" unfolding c1' m1
    by (rule kept_write [OF kept_init])
       (use fit in \<open>simp_all add: init_message_def connect_keepalive_def\<close>)
  ultimately show ?thesis using fl by simp
qed

lemma connect_credentials_outcome:
  assumes b: "built c1 m1 (pre @ f # post)" and k: "kept c m c1 m1"
    and fl: "fl = mc_buffer c + 3 + length pre" and len: "unat (mc_buffer_length c) \<le> 16386"
    and body: "body = pre @ ((f OR (if str_given u then 0x80 else 0)) OR
      (if str_given p then 0x40 else 0)) # (post @ str_field u @ str_field p)"
    and r: "(case connect_credential c1 m1 fl u 0x80 of (c4, m4, ok4) \<Rightarrow>
        if \<not> ok4 then (fail_message c4, m4)
        else case connect_credential c4 m4 fl p 0x40 of (c5, m5, ok5) \<Rightarrow>
          if \<not> ok5 then (fail_message c5, m5) else fini_message c5 m5 1 0 0 0) = (c', m')"
  shows "encoded c m c' m' (if 3 + length body \<le> unat (mc_buffer_length c)
    then Some (packet 1 0 0 body) else None)"
proof -
  let ?B = "unat (mc_buffer_length c)"
  obtain c4 m4 ok4 where s4: "connect_credential c1 m1 fl u 0x80 = (c4, m4, ok4)"
    by (metis prod_cases3)
  obtain c5 m5 ok5 where s5: "connect_credential c4 m4 fl p 0x40 = (c5, m5, ok5)"
    by (metis prod_cases3)
  note st4 = connect_credential_step [OF b k fl s4]
  show ?thesis
  proof (cases "4 + length pre + length post + length (str_field u) \<le> ?B")
    case fit4: True
    with st4 have f4: ok4 "kept c m c4 m4"
      "built c4 m4 (pre @ (f OR (if str_given u then 0x80 else 0)) # (post @ str_field u))"
      by simp_all
    note st5 = connect_credential_step [OF f4(3,2) fl s5]
    show ?thesis
    proof (cases "3 + length body \<le> ?B")
      case fit5: True
      then have f5: ok5 "kept c m c5 m5" "built c5 m5 body" using st5 by (simp_all add: body)
      have "length body \<le> 16383" using fit5 len by simp
      from fini_message_step [OF f5(3,2) this] show ?thesis using r f4(1) f5(1) fit5 s4 s5 by simp
    next
      case False
      then show ?thesis using st5 r f4(1) s4 s5 by (auto simp: body intro: encoded_fail)
    qed
  next
    case False
    then show ?thesis using st4 r s4 by (auto simp: body intro: encoded_fail)
  qed
qed

lemma mqtt_msg_connect_outcome:
  assumes len: "3 \<le> unat (mc_buffer_length c)" "unat (mc_buffer_length c) \<le> 16386"
    and con: "mqtt_msg_connect ver c m info = (c', m')"
  shows "encoded c m c' m'
    (if str_given (ci_client_id info) \<and> 3 + length (connect_body ver info) \<le> unat (mc_buffer_length c)
     then Some (packet 1 0 0 (connect_body ver info)) else None)"
proof -
  let ?B = "unat (mc_buffer_length c)" and ?id = "ci_client_id info"
  let ?f = "(if ci_clean_session info \<noteq> 0 then 0x02 else 0) :: u8"
  define hs where "hs = length (fst (protocol_magic ver)) + 6"
  have hs: "hs = length (connect_pre ver) + 3" using length_connect_pre [of ver] by (simp add: hs_def)
  define c1 where "c1 = (init_message c)\<lparr>mc_length := 3 + of_nat hs\<rparr>"
  have i: "mc_length (init_message c) = 3" "unat (3 :: u16) = 3"
    "mc_buffer (init_message c) = mc_buffer c" "mc_buffer_length (init_message c) = mc_buffer_length c"
    by (simp_all add: init_message_def)
  obtain m1 fl where h: "connect_header ver m (mc_buffer c + 3) info = (m1, fl)" by fastforce
  obtain c2 m2 r2 where s2: "append_string c1 m1 (the ?id) = (c2, m2, r2)" by (metis prod_cases3)
  obtain c3 m3 ok3 where s3: "connect_will c2 m2 fl info = (c3, m3, ok3)" by (metis prod_cases3)
  note con' = con [unfolded mqtt_msg_connect_def Let_def hs_def [symmetric] i h prod.case
      c1_def [symmetric] s2 s3]
  have kl: "length (connect_keepalive info) = 2" by (simp add: connect_keepalive_def)
  show ?thesis
  proof (cases "3 + hs \<le> ?B")
    case False
    then show ?thesis using con' kl by (auto simp: connect_body_def hs intro: encoded_fail)
  next
    case fit1: True
    have "built c1 m1 (connect_pre ver @ ?f # connect_keepalive info) \<and> kept c m c1 m1 \<and>
        fl = mc_buffer c + 3 + length (connect_pre ver)"
      using fit1 hs by (intro mqtt_msg_connect_start [OF len(1) _ h]) (simp_all add: c1_def hs_def)
    then have f1: "built c1 m1 (connect_pre ver @ ?f # connect_keepalive info)" "kept c m c1 m1"
      "fl = mc_buffer c + 3 + length (connect_pre ver)" by simp_all
    note st2 = append_string_step [OF f1(1,2) s2]
    show ?thesis
    proof (cases "str_given ?id \<and> 5 + hs + length (the ?id) \<le> ?B")
      case False
      then show ?thesis using st2 con' fit1 f1(2) kl
        by (auto simp: connect_body_def str_field_def hs intro: encoded_fail split: if_splits)
    next
      case fit2: True
      then have f2: "0 \<le> r2" "kept c m c2 m2"
        "built c2 m2 (connect_pre ver @ ?f # (connect_keepalive info @ str_field ?id))"
        using st2 kl by (simp_all add: str_field_def hs)
      note st3 = connect_will_step [OF f2(3,2) f1(3) s3]
      show ?thesis
      proof (cases "3 + hs + length (str_field ?id @ will_field info) \<le> ?B")
        case False
        then show ?thesis using st3 con' fit1 fit2 f2(1) kl
          by (auto simp: connect_body_def hs intro: encoded_fail split: if_splits)
      next
        case fit3: True
        then have f3: ok3 "kept c m c3 m3" "built c3 m3 (connect_pre ver @ (?f OR will_flags info) #
            (connect_keepalive info @ str_field ?id @ will_field info))"
          using st3 kl by (simp_all add: hs)
        have body: "connect_body ver info = connect_pre ver @
            (((?f OR will_flags info) OR (if str_given (ci_username info) then 0x80 else 0)) OR
              (if str_given (ci_password info) then 0x40 else 0)) #
            ((connect_keepalive info @ str_field ?id @ will_field info) @
              str_field (ci_username info) @ str_field (ci_password info))"
          by (simp only: connect_body_def connect_flags_def append_assoc)
        have "encoded c m c' m' (if 3 + length (connect_body ver info) \<le> ?B
            then Some (packet 1 0 0 (connect_body ver info)) else None)"
          using con' fit1 fit2 f2(1) f3(1)
          by (intro connect_credentials_outcome [OF f3(3,2) f1(3) len(2) body]) simp
        then show ?thesis using fit2 by simp
      qed
    qed
  qed
qed

end
