(* ===== verification/Mqtt_Msg_Decode.thy ===== *)
theory Mqtt_Msg_Decode
  imports Mqtt_Msg_Codec
begin

text \<open>
  The MQTT decoder: what it reads back from a packet of the wire format, and what it does on arbitrary
  bytes (no read outside the given block, no pointer result that leaves it).
\<close>

section \<open>Arbitrary input\<close>

definition same_block :: "mem \<Rightarrow> mem \<Rightarrow> addr \<Rightarrow> nat \<Rightarrow> bool" where
  "same_block m m' a n \<longleftrightarrow> (\<forall>i < n. m (a + i) = m' (a + i))"

lemma remlen_loop_local:
  "same_block m m' b len \<Longrightarrow> remlen_loop m b len i t = remlen_loop m' b len i t"
proof (induction m b len i t rule: remlen_loop.induct)
  case (1 m b len i t)
  then show ?case
    by (subst (1 2) remlen_loop.simps) (auto simp: same_block_def Let_def)
qed

lemma remlen_loop_index: "remlen_loop m b len i t = (j, t') \<Longrightarrow> i \<le> j \<and> (i \<le> len \<longrightarrow> j \<le> len)"
proof (induction m b len i t rule: remlen_loop.induct)
  case (1 m b len i t)
  show ?case
    using 1(2) 1(1) by (subst (asm) remlen_loop.simps) (fastforce simp: Let_def split: if_splits)
qed

lemma be_topiclen_eq: "be_topiclen m a = 256 * unat (m a) + unat (m (a + 1))"
  by (simp add: be_topiclen_def unat_be_pair)

lemma be_topiclen_less: "be_topiclen m a < 65536"
  using unat_u8_less [of "m a"] unat_u8_less [of "m (a + 1)"] by (simp add: be_topiclen_eq)

lemma be_topiclen_local:
  "same_block m m' b len \<Longrightarrow> i + 1 < len \<Longrightarrow> be_topiclen m (b + i) = be_topiclen m' (b + i)"
  by (auto simp: be_topiclen_def same_block_def add.assoc)

lemma header_local:
  assumes "same_block m m' b len" "0 < len"
  shows "mqtt_get_type m b = mqtt_get_type m' b" "mqtt_get_qos m b = mqtt_get_qos m' b"
proof -
  have "m b = m' b" using assms unfolding same_block_def by (metis add_0_right)
  then show "mqtt_get_type m b = mqtt_get_type m' b" "mqtt_get_qos m b = mqtt_get_qos m' b"
    by (simp_all add: mqtt_get_type_def mqtt_get_qos_def)
qed

lemma mqtt_get_publish_topic_local:
  assumes "same_block m m' b (unat len)"
  shows "mqtt_get_publish_topic m b len = mqtt_get_publish_topic m' b len"
  using assms be_topiclen_local [OF assms]
  by (simp add: mqtt_get_publish_topic_def remlen_loop_local [OF assms] Let_def split: prod.splits)

lemma mqtt_get_publish_data_local:
  assumes "same_block m m' b (unat len)"
  shows "mqtt_get_publish_data m b len = mqtt_get_publish_data m' b len"
proof (cases "0 < unat len")
  case True
  show ?thesis
    using be_topiclen_local [OF assms] header_local [OF assms True]
    by (simp add: mqtt_get_publish_data_def remlen_loop_local [OF assms] Let_def split: prod.splits)
next
  case False
  then show ?thesis by (auto simp: mqtt_get_publish_data_def Let_def split: prod.splits)
qed

lemma mqtt_get_id_local:
  assumes "same_block m m' b (unat len)"
  shows "mqtt_get_id m b len = mqtt_get_id m' b len"
proof (cases "len < 1")
  case True
  then show ?thesis by (simp add: mqtt_get_id_def)
next
  case False
  then have pos: "0 < unat len" by (simp add: word_less_nat_alt unat_gt_0)
  have at: "m (b + i) = m' (b + i)" if "i < unat len" for i
    using assms that by (simp add: same_block_def)
  have at2: "m (Suc (Suc (b + i))) = m' (Suc (Suc (b + i)))"
    "m (Suc (Suc (Suc (b + i)))) = m' (Suc (Suc (Suc (b + i))))" if "Suc (Suc (Suc (Suc i))) < unat len" for i
    using that at [of "Suc (Suc i)"] at [of "Suc (Suc (Suc i))"] by simp_all
  have ack: "m (Suc b) = m' (Suc b)" "m (Suc (Suc b)) = m' (Suc (Suc b))" "m (b + 3) = m' (b + 3)"
    if "4 \<le> len"
    using that at [of 1] at [of 2] at [of 3] by (simp_all add: word_le_nat_alt)
  note h = header_local [OF assms pos]
  show ?thesis
  proof (cases "mqtt_get_type m' b = 3")
    case True
    then show ?thesis
      using False be_topiclen_local [OF assms] at2
      by (simp add: mqtt_get_id_def remlen_loop_local [OF assms] h Let_def add.assoc
          split: prod.splits)
  next
    case False
    then show ?thesis using ack by (cases "4 \<le> len") (simp_all add: mqtt_get_id_def h Let_def)
  qed
qed

lemma mqtt_get_publish_topic_inside:
  assumes "mqtt_get_publish_topic m b len = (Some p, n)"
  shows "b \<le> p \<and> p + unat n \<le> b + unat len"
proof -
  obtain i t where l: "remlen_loop m b (unat len) 1 0 = (i, t)" by fastforce
  have "unat (of_nat (be_topiclen m (b + i)) :: u16) = be_topiclen m (b + i)"
    using be_topiclen_less by (simp add: unsigned_of_nat take_bit_nat_eq_self)
  then show ?thesis
    using assms unfolding mqtt_get_publish_topic_def l Let_def by (auto split: if_splits)
qed

lemma mqtt_get_publish_data_inside:
  assumes "mqtt_get_publish_data m b len = (Some p, n)"
  shows "b \<le> p \<and> p + unat n \<le> b + unat len"
proof -
  obtain i0 t where l: "remlen_loop m b (unat len) 1 0 = (i0, t)" by fastforce
  define i where "i = i0 + 2 + be_topiclen m (b + i0) + (if mqtt_get_qos m b > 0 then 2 else 0)"
  have B: "unat len < 65536" by (rule unat_u16_less)
  have p: "p = b + i" and i: "i \<le> unat len" and T: "int i \<le> sint (t + of_nat i0)"
    and n: "n = (if sint (t + of_nat i0) \<le> int (unat len) then word_of_int (sint (t + of_nat i0) - int i)
      else of_nat (unat len - i))"
    using assms unfolding mqtt_get_publish_data_def Let_def l i_def by (auto split: if_splits)
  have "unat n \<le> unat len - i"
  proof (cases "sint (t + of_nat i0) \<le> int (unat len)")
    case True
    define k where "k = nat (sint (t + of_nat i0) - int i)"
    have k: "sint (t + of_nat i0) - int i = int k" "k \<le> unat len - i"
      using T True unfolding k_def by linarith+
    have "n = of_nat k" unfolding n k(1) using True by simp
    then show ?thesis using k(2) B by (simp add: unsigned_of_nat take_bit_nat_eq_self)
  next
    case False
    then show ?thesis using n B by (simp add: unsigned_of_nat take_bit_nat_eq_self)
  qed
  then show ?thesis using p i by simp
qed

section \<open>Reading a packet back\<close>

definition holds :: "mem \<Rightarrow> addr \<Rightarrow> u8 list \<Rightarrow> bool" where
  "holds m b bs \<longleftrightarrow> mem_read m b (length bs) = bs"

lemma holds_append: "holds m b (xs @ ys) \<longleftrightarrow> holds m b xs \<and> holds m (b + length xs) ys"
  by (auto simp: holds_def mem_read_add)

lemma holds_Cons: "holds m b (x # xs) \<longleftrightarrow> m b = x \<and> holds m (Suc b) xs"
  by (auto simp: holds_def mem_read_Suc)

lemma holds_Nil [simp]: "holds m b []"
  by (simp add: holds_def)

lemma fixed_header_byte_fields:
  assumes "m b = fixed_header_byte ty 0 q r" "0 \<le> ty" "ty < 16" "0 \<le> q" "q < 4" "r \<in> {0, 1}"
  shows "mqtt_get_type m b = ty" "mqtt_get_dup m b = 0" "mqtt_get_qos m b = q" "mqtt_get_retain m b = r"
proof -
  have "ty \<in> {0..<16}" "q \<in> {0..<4}" using assms by auto
  then have ty: "ty \<in> set [0..15]" and q: "q \<in> set [0..3]" by auto
  have "list_all (\<lambda>t. list_all (\<lambda>k. list_all (\<lambda>v.
      uint (drop_bit 4 (fixed_header_byte t 0 k v AND 0xf0)) = t \<and>
      uint (drop_bit 3 (fixed_header_byte t 0 k v AND 0x08)) = 0 \<and>
      uint (drop_bit 1 (fixed_header_byte t 0 k v AND 0x06)) = k \<and>
      uint (fixed_header_byte t 0 k v AND 0x01) = v) [0, 1]) [0..3]) [0..15]"
    by code_simp
  with ty q assms(1,6) show "mqtt_get_type m b = ty" "mqtt_get_dup m b = 0" "mqtt_get_qos m b = q"
    "mqtt_get_retain m b = r"
    by (simp_all only: list_all_iff mqtt_get_type_def mqtt_get_dup_def mqtt_get_qos_def
        mqtt_get_retain_def list.set)
qed

lemma u8_len_byte:
  fixes n :: nat
  shows "n \<le> 127 \<Longrightarrow> (of_nat n :: u8) AND 0x80 = 0"
    and "n \<le> 127 \<Longrightarrow> (of_nat n :: u8) AND 0x7f = of_nat n"
    and "(of_nat (128 + n mod 128) :: u8) AND 0x80 \<noteq> 0"
    and "(of_nat (128 + n mod 128) :: u8) AND 0x7f = of_nat (n mod 128)"
proof -
  have all: "list_all (\<lambda>k. (of_nat k :: u8) AND 0x80 = 0 \<and> (of_nat k :: u8) AND 0x7f = of_nat k \<and>
      (of_nat (128 + k) :: u8) AND 0x80 \<noteq> 0 \<and> (of_nat (128 + k) :: u8) AND 0x7f = of_nat k) [0..<128]"
    by code_simp
  show "n \<le> 127 \<Longrightarrow> (of_nat n :: u8) AND 0x80 = 0" "n \<le> 127 \<Longrightarrow> (of_nat n :: u8) AND 0x7f = of_nat n"
    using all by (simp_all add: list_all_iff)
  have "n mod 128 \<in> set [0..<128]" by simp
  with all show "(of_nat (128 + n mod 128) :: u8) AND 0x80 \<noteq> 0"
    "(of_nat (128 + n mod 128) :: u8) AND 0x7f = of_nat (n mod 128)"
    unfolding list_all_iff by blast+
qed

lemma ucast_of_nat_u8: "n < 256 \<Longrightarrow> (ucast (of_nat n :: u8) :: u32) = of_nat n"
  by (rule word_unat_eq_iff [THEN iffD2])
     (simp add: unsigned_ucast_eq unsigned_of_nat take_bit_nat_eq_self)

lemma remlen_loop_enc_len:
  assumes h: "holds m (b + 1) (enc_len n)" and n: "n \<le> 16383" and len: "length (enc_len n) < len"
  shows "remlen_loop m b len 1 0 = (1 + length (enc_len n), of_nat n)"
proof (cases "n \<le> 127")
  case True
  then show ?thesis using h len
    by (subst remlen_loop.simps) (simp add: enc_len_def holds_Cons u8_len_byte ucast_of_nat_u8)
next
  case False
  then have q: "n div 128 \<le> 127" using n by simp
  have m: "m (Suc b) = of_nat (128 + n mod 128)" "m (Suc (Suc b)) = of_nat (n div 128)" "2 < len"
    using h len False by (simp_all add: enc_len_def holds_Cons)
  have "(of_nat (n mod 128) :: u32) + push_bit 7 (of_nat (n div 128)) = of_nat (n mod 128 + 128 * (n div 128))"
    by (simp only: of_nat_add of_nat_mult push_bit_eq_mult) simp
  also have "n mod 128 + 128 * (n div 128) = n" by (rule mod_mult_div_eq)
  finally have v: "(of_nat (n mod 128) :: u32) + push_bit 7 (of_nat (n div 128)) = of_nat n" .
  show ?thesis
    using False m v u8_len_byte(3,4) [of n] u8_len_byte(1,2) [OF q] ucast_of_nat_u8 [of "n div 128"] q
    by (subst remlen_loop.simps, subst remlen_loop.simps)
       (simp add: length_enc_len ucast_of_nat_u8 numeral_2_eq_2 numeral_3_eq_3)
qed

text \<open>
  The situation of all field readers below: the block at \<open>b\<close> starts with a packet of at most 16383
  body bytes and \<open>len\<close> covers it.
\<close>

definition pkt_at :: "mem \<Rightarrow> addr \<Rightarrow> nat \<Rightarrow> int \<Rightarrow> int \<Rightarrow> int \<Rightarrow> u8 list \<Rightarrow> bool" where
  "pkt_at m b len ty q r body \<longleftrightarrow> holds m b (packet ty q r body) \<and> length body \<le> 16383 \<and>
     length (packet ty q r body) \<le> len \<and> 0 \<le> ty \<and> ty < 16 \<and> 0 \<le> q \<and> q < 4 \<and> r \<in> {0, 1}"

lemma pkt_at_header:
  assumes "pkt_at m b len ty q r body"
  shows "mqtt_get_type m b = ty" "mqtt_get_dup m b = 0" "mqtt_get_qos m b = q" "mqtt_get_retain m b = r"
  using assms fixed_header_byte_fields [of m b ty q r]
  by (auto simp: pkt_at_def packet_def holds_Cons)

lemma pkt_at_remlen:
  assumes "pkt_at m b len ty q r body" and "i = 1 + length (enc_len (length body))"
  shows "remlen_loop m b len 1 0 = (i, of_nat (length body))"
    and "holds m (b + i) body" and "i + length body \<le> len" and "1 < i"
  using assms remlen_loop_enc_len [of m b "length body" len]
  by (auto simp: pkt_at_def packet_def holds_Cons holds_append length_enc_len)

lemma mqtt_get_total_length_packet:
  assumes "pkt_at m b (unat len) ty q r body"
  shows "mqtt_get_total_length m b len = of_nat (length (packet ty q r body))"
  using pkt_at_remlen(1) [OF assms refl] by (simp add: mqtt_get_total_length_def length_packet)

lemma be_topiclen_be16:
  assumes "holds m a (be16 n)" "n < 65536"
  shows "be_topiclen m a = n"
proof -
  have "unat (of_nat (n div 256) :: u8) = n div 256" "unat (of_nat (n mod 256) :: u8) = n mod 256"
    using assms(2) by (simp_all add: unsigned_of_nat take_bit_nat_eq_self)
  then show ?thesis using assms(1) by (simp add: be_topiclen_eq be16_def holds_Cons)
qed

lemma be16_id:
  fixes i :: u16
  assumes "holds m a (be16 (unat i))"
  shows "push_bit 8 (ucast (m a)) OR ucast (m (Suc a)) = i"
proof -
  have "unat (of_nat (unat i div 256) :: u8) = unat i div 256"
    "unat (of_nat (unat i mod 256) :: u8) = unat i mod 256"
    using unat_u16_less [of i] by (simp_all add: unsigned_of_nat take_bit_nat_eq_self)
  then have "unat (push_bit 8 (ucast (m a)) OR ucast (m (Suc a)) :: u16) = unat i"
    using assms by (simp add: unat_be_pair be16_def holds_Cons)
  then show ?thesis by (simp add: word_unat_eq_iff)
qed

text \<open>Positions of the fields of a PUBLISH packet.\<close>

lemma publish_fields:
  assumes p: "pkt_at m b len 3 q r (publish_body t q i data)"
    and a: "a = 1 + length (enc_len (length (publish_body t q i data)))"
    and e: "e = a + 2 + length t + (if q > 0 then 2 else 0)"
  shows "be_topiclen m (b + a) = length t" "mem_read m (b + a + 2) (length t) = t"
    "mem_read m (b + e) (length data) = data"
    "q > 0 \<Longrightarrow> push_bit 8 (ucast (m (b + a + 2 + length t))) OR ucast (m (Suc (b + a + 2 + length t))) = i"
    "e + length data \<le> len" "a + length (publish_body t q i data) = e + length data"
proof -
  note f = pkt_at_remlen [OF p a]
  have lt: "length t < 65536" using p by (simp add: pkt_at_def publish_body_def)
  show "be_topiclen m (b + a) = length t"
    by (rule be_topiclen_be16) (use f(2) lt in \<open>simp_all add: publish_body_def holds_append\<close>)
  show "mem_read m (b + a + 2) (length t) = t"
    using f(2) unfolding holds_def [symmetric] by (simp add: publish_body_def holds_append)
  show "mem_read m (b + e) (length data) = data"
    using f(2) unfolding holds_def [symmetric]
    by (auto simp: publish_body_def holds_append e add.assoc split: if_splits)
  show "push_bit 8 (ucast (m (b + a + 2 + length t))) OR ucast (m (Suc (b + a + 2 + length t))) = i"
    if "q > 0"
    by (rule be16_id) (use f(2) that in \<open>simp add: publish_body_def holds_append\<close>)
  show "a + length (publish_body t q i data) = e + length data" by (simp add: publish_body_def e)
  then show "e + length data \<le> len" using f(3) by simp
qed

lemma mqtt_get_publish_topic_packet:
  assumes p: "pkt_at m b (unat len) 3 q r (publish_body t q i data)" and t: "t \<noteq> []"
  shows "\<exists>a. mqtt_get_publish_topic m b len = (Some a, of_nat (length t)) \<and> mem_read m a (length t) = t"
proof -
  define a where "a = 1 + length (enc_len (length (publish_body t q i data)))"
  define e where "e = a + 2 + length t + (if q > 0 then 2 else 0)"
  note l = pkt_at_remlen [OF p a_def]
  note f = publish_fields [OF p a_def e_def]
  have "a + 2 < unat len" "a + 2 + length t \<le> unat len" using f(5) t by (cases t; auto simp: e_def)+
  then have "mqtt_get_publish_topic m b len = (Some (b + (a + 2)), of_nat (length t))"
    unfolding mqtt_get_publish_topic_def l(1) prod.case f(1) Let_def by simp
  then show ?thesis using f(2) by (simp add: add.assoc)
qed

lemma mqtt_get_publish_data_packet:
  assumes p: "pkt_at m b (unat len) 3 q r (publish_body t q i data)" and d: "data \<noteq> []"
  shows "\<exists>a. mqtt_get_publish_data m b len = (Some a, of_nat (length data)) \<and>
    mem_read m a (length data) = data"
proof -
  define a where "a = 1 + length (enc_len (length (publish_body t q i data)))"
  define e where "e = a + 2 + length t + (if q > 0 then 2 else 0)"
  note l = pkt_at_remlen [OF p a_def]
  note f = publish_fields [OF p a_def e_def]
  have q: "mqtt_get_qos m b = q" by (rule pkt_at_header [OF p])
  have B: "unat len < 65536" by (rule unat_u16_less)
  have tot: "sint (of_nat (length (publish_body t q i data)) + of_nat a :: u32) = int (e + length data)"
  proof -
    have "(of_nat (length (publish_body t q i data)) + of_nat a :: u32) = of_nat (e + length data)"
      using f(6) by (metis add.commute of_nat_add)
    moreover have "int (e + length data) < 2 ^ 31" using f(5) B by simp
    ultimately show ?thesis
      by (simp only: signed_of_nat) (simp add: signed_take_bit_int_eq_self)
  qed
  define L where "L = unat len"
  have fit: "e + length data \<le> L" and dl: "1 \<le> length data"
    using f(5) d by (simp_all add: L_def Suc_leI)
  have "mqtt_get_publish_data m b len = (Some (b + e), of_nat (length data))"
    unfolding mqtt_get_publish_data_def l(1) Let_def prod.case f(1) q tot
    unfolding L_def [symmetric]
    using fit dl by (cases "q > 0") (simp_all add: e_def)
  then show ?thesis using f(3) by simp
qed

lemma mqtt_get_id_publish_packet:
  assumes p: "pkt_at m b (unat len) 3 q r (publish_body t q i data)" and q0: "q > 0"
    and d: "data \<noteq> [] \<or> length (packet 3 q r (publish_body t q i data)) < unat len"
  shows "mqtt_get_id m b len = i"
proof -
  define a where "a = 1 + length (enc_len (length (publish_body t q i data)))"
  define e where "e = a + 2 + length t + (if q > 0 then 2 else 0)"
  note l = pkt_at_remlen [OF p a_def]
  note f = publish_fields [OF p a_def e_def]
  note h = pkt_at_header [OF p]
  have g: "a + 4 + length t < unat len"
    using f(5) d q0 by (cases data) (auto simp: e_def a_def length_packet publish_body_def)
  then have "\<not> len < 1" by (auto simp: word_less_nat_alt)
  then show ?thesis
    unfolding mqtt_get_id_def h l(1) Let_def prod.case f(1)
    using g q0 f(4) by (simp add: add.assoc)
qed

lemma mqtt_get_id_ack_packet:
  assumes p: "pkt_at m b (unat len) ty q r (be16 (unat i) @ rest)"
    and ty: "ty \<in> {4, 5, 6, 7, 8, 9, 11}" and small: "length rest \<le> 125"
  shows "mqtt_get_id m b len = i"
proof -
  note h = pkt_at_header [OF p]
  have "4 \<le> unat len" and m1: "m (Suc b) = of_nat (2 + length rest)"
    and id: "holds m (b + 2) (be16 (unat i))"
    using p small
    by (auto simp: pkt_at_def packet_def holds_Cons holds_append enc_len_def add.commute)
  then have len: "4 \<le> len" "\<not> len < 1" by (auto simp: word_le_nat_alt word_less_nat_alt)
  have "m (Suc b) AND 0x80 = 0" unfolding m1 by (rule u8_len_byte) (use small in simp)
  then show ?thesis
    using ty len be16_id [OF id] by (auto simp: mqtt_get_id_def h Let_def numeral_3_eq_3)
qed

section \<open>Properties\<close>

lemma encoded_pkt_at:
  assumes "encoded c m c' m' (Some (packet ty q r body))" "length body \<le> 16383"
    "0 \<le> ty" "ty < 16" "0 \<le> q" "q < 4" "r \<in> {0, 1}"
  shows "pkt_at m' (mc_data c') (unat (mc_length c')) ty q r body"
  using assms by (auto simp: encoded_def pkt_at_def msg_bytes_def holds_def)

text \<open>
  C4. A PUBLISH message that fits the output buffer (of at most 16386 bytes, the limit of the
  two-byte length field) is decoded to the same fields: \<open>mqtt_msg_publish\<close> leaves a message whose type,
  QoS and retain flag, total length, topic, payload and message identifier the \<open>mqtt_get_*\<close> functions
  read back, and the encoder writes only inside the connection's buffer.
\<close>

theorem mqtt_publish_roundtrip:
  assumes "3 \<le> unat (mc_buffer_length c)" "unat (mc_buffer_length c) \<le> 16386"
    and "topic \<noteq> []" "data \<noteq> []" "0 \<le> qos" "qos \<le> 2" "retain \<in> {0, 1}"
    and "5 + length topic + (if qos > 0 then 2 else 0) + length data \<le> unat (mc_buffer_length c)"
    and "mqtt_msg_publish c m (Some topic) data qos retain mid0 = (c', m', mid)"
  shows "mqtt_get_type m' (mc_data c') = MQTT_MSG_TYPE_PUBLISH \<and>
    mqtt_get_dup m' (mc_data c') = 0 \<and> mqtt_get_qos m' (mc_data c') = qos \<and>
    mqtt_get_retain m' (mc_data c') = retain \<and>
    unat (mqtt_get_total_length m' (mc_data c') (mc_length c')) = unat (mc_length c') \<and>
    (\<exists>a. mqtt_get_publish_topic m' (mc_data c') (mc_length c') = (Some a, of_nat (length topic)) \<and>
      mem_read m' a (length topic) = topic) \<and>
    (\<exists>a. mqtt_get_publish_data m' (mc_data c') (mc_length c') = (Some a, of_nat (length data)) \<and>
      mem_read m' a (length data) = data) \<and>
    (qos > 0 \<longrightarrow> mid \<noteq> 0 \<and> mqtt_get_id m' (mc_data c') (mc_length c') = mid) \<and>
    same_outside m m' (mc_buffer c) (unat (mc_buffer_length c))"
proof -
  let ?i = "fresh_id (mc_message_id c)"
  let ?body = "publish_body topic qos ?i data"
  have fit: "3 + length ?body \<le> unat (mc_buffer_length c)"
    using assms(8) by (auto simp: publish_body_def)
  then have enc: "encoded c m c' m' (Some (packet 3 qos retain ?body))"
    and mid: "mid = (if qos > 0 then ?i else 0)"
    using mqtt_msg_publish_outcome [OF assms(1,2,9) refl] assms(3) by (simp_all add: str_given_def)
  have p: "pkt_at m' (mc_data c') (unat (mc_length c')) 3 qos retain ?body"
    using assms(2,5-7) fit by (intro encoded_pkt_at [OF enc]) auto
  have tl: "mqtt_get_total_length m' (mc_data c') (mc_length c') = of_nat (unat (mc_length c'))"
    using mqtt_get_total_length_packet [OF p] enc by (simp add: encoded_def)
  have "unat (mqtt_get_total_length m' (mc_data c') (mc_length c')) = unat (mc_length c')"
    unfolding tl using unat_u16_less [of "mc_length c'"]
    by (simp only: unsigned_of_nat) (simp add: take_bit_nat_eq_self)
  moreover have "?i \<noteq> 0" by (simp add: fresh_id_def)
  ultimately show ?thesis
    using pkt_at_header [OF p] mqtt_get_publish_topic_packet [OF p assms(3)]
      mqtt_get_publish_data_packet [OF p assms(4)] mqtt_get_id_publish_packet [OF p _ disjI1 [OF assms(4)]] mid enc
    by (simp add: encoded_def kept_def)
qed

theorem mqtt_publish_roundtrip_witness:
  "\<exists>c' m' mid. mqtt_msg_publish (mqtt_msg_init 100 64) (\<lambda>_. 0) (Some [0x61, 0x62]) [1, 2, 3] 1 0 0 =
     (c', m', mid) \<and> mqtt_get_id m' (mc_data c') (mc_length c') = mid \<and> mid \<noteq> 0"
proof -
  obtain c' m' mid where e: "mqtt_msg_publish (mqtt_msg_init 100 64) (\<lambda>_. 0) (Some [0x61, 0x62])
      [1, 2, 3] 1 0 0 = (c', m', mid)" by (metis prod_cases3)
  show ?thesis
    using mqtt_publish_roundtrip [OF _ _ _ _ _ _ _ _ e] e by (simp add: mqtt_msg_init_def)
qed

text \<open>
  C5. On arbitrary bytes the decoder is confined to the block it is given: its results depend only on
  the \<open>len\<close> bytes at \<open>b\<close>, and a topic or payload it returns lies inside them.
\<close>

theorem mqtt_decoder_confined:
  assumes "\<forall>i < unat len. m (b + i) = m' (b + i)"
  shows "mqtt_get_total_length m b len = mqtt_get_total_length m' b len \<and>
    mqtt_get_publish_topic m b len = mqtt_get_publish_topic m' b len \<and>
    mqtt_get_publish_data m b len = mqtt_get_publish_data m' b len \<and>
    mqtt_get_id m b len = mqtt_get_id m' b len \<and>
    (\<forall>p n. mqtt_get_publish_topic m b len = (Some p, n) \<or> mqtt_get_publish_data m b len = (Some p, n)
       \<longrightarrow> b \<le> p \<and> p + unat n \<le> b + unat len)"
proof -
  have s: "same_block m m' b (unat len)" using assms by (simp add: same_block_def)
  show ?thesis
    using mqtt_get_publish_topic_local [OF s] mqtt_get_publish_data_local [OF s]
      mqtt_get_id_local [OF s] mqtt_get_publish_topic_inside mqtt_get_publish_data_inside
    by (auto simp: mqtt_get_total_length_def remlen_loop_local [OF s])
qed

theorem mqtt_decoder_confined_witness:
  "mqtt_get_id (\<lambda>x. if x < 4 then [0x40, 2, 1, 44] ! x else 0) 0 4 =
   mqtt_get_id (\<lambda>x. if x < 4 then [0x40, 2, 1, 44] ! x else 99) 0 4"
  using mqtt_decoder_confined [of 4 "\<lambda>x. if x < 4 then [0x40, 2, 1, 44] ! x else 0" 0
      "\<lambda>x. if x < 4 then [0x40, 2, 1, 44] ! x else 99"] by simp

text \<open>
  Acknowledgements echo the identifier: for a nonzero identifier each of the four acknowledgement
  encoders leaves, in any buffer of at least 5 bytes, a packet of its own type and flags from which
  \<open>mqtt_get_id\<close> reads the identifier back.
\<close>

theorem mqtt_ack_echoes_id:
  assumes "i \<noteq> 0" "5 \<le> unat (mc_buffer_length c)"
    and "(f, ty, q) \<in> {(mqtt_msg_puback, MQTT_MSG_TYPE_PUBACK, 0), (mqtt_msg_pubrec, MQTT_MSG_TYPE_PUBREC, 0),
      (mqtt_msg_pubrel, MQTT_MSG_TYPE_PUBREL, 1), (mqtt_msg_pubcomp, MQTT_MSG_TYPE_PUBCOMP, 0)}"
    and "f c m i = (c', m')"
  shows "mc_length c' = 4 \<and> mqtt_get_type m' (mc_data c') = ty \<and> mqtt_get_qos m' (mc_data c') = q \<and>
    mqtt_get_id m' (mc_data c') (mc_length c') = i \<and>
    same_outside m m' (mc_buffer c) (unat (mc_buffer_length c))"
proof -
  have ty: "ty \<in> {4, 5, 6, 7}" "0 \<le> q" "q < 4" and a: "ack_message ty q c m i = (c', m')"
    using assms(3,4)
    by (auto simp: mqtt_msg_puback_def mqtt_msg_pubrec_def mqtt_msg_pubrel_def mqtt_msg_pubcomp_def)
  have enc: "encoded c m c' m' (Some (packet ty q 0 (be16 (unat i))))"
    using ack_message_outcome [OF _ a refl] assms(1,2) by simp
  have p: "pkt_at m' (mc_data c') (unat (mc_length c')) ty q 0 (be16 (unat i) @ [])"
    using ty encoded_pkt_at [OF enc] by auto
  have "unat (mc_length c') = 4" using enc by (simp add: encoded_def length_packet length_enc_len)
  then have "mc_length c' = 4" by (simp add: word_unat_eq_iff)
  then show ?thesis
    using pkt_at_header [OF p] mqtt_get_id_ack_packet [OF p] ty enc by (auto simp: encoded_def kept_def)
qed

theorem mqtt_ack_echoes_id_witness:
  "\<exists>c' m'. mqtt_msg_pubrel (mqtt_msg_init 0 16) (\<lambda>_. 0) 300 = (c', m') \<and>
     mqtt_get_id m' (mc_data c') (mc_length c') = 300"
proof -
  obtain c' m' where e: "mqtt_msg_pubrel (mqtt_msg_init 0 16) (\<lambda>_. 0) 300 = (c', m')" by fastforce
  have "mc_length c' = 4 \<and> mqtt_get_type m' (mc_data c') = 6 \<and> mqtt_get_qos m' (mc_data c') = 1 \<and>
    mqtt_get_id m' (mc_data c') (mc_length c') = 300 \<and>
    same_outside (\<lambda>_. 0) m' (mc_buffer (mqtt_msg_init 0 16)) (unat (mc_buffer_length (mqtt_msg_init 0 16)))"
    by (rule mqtt_ack_echoes_id [where f = mqtt_msg_pubrel]) (use e in \<open>simp_all add: mqtt_msg_init_def\<close>)
  then show ?thesis using e by blast
qed

text \<open>
  C6. \<open>mqtt_msg_connect\<close> produces exactly the CONNECT packet of the connect information (protocol name
  and version, the flag byte, keep-alive, client identifier, will, credentials) when a client
  identifier is given and the packet fits, and the empty message otherwise; either way it writes only
  inside the connection's buffer.
\<close>

theorem mqtt_msg_connect_packet:
  assumes "3 \<le> unat (mc_buffer_length c)" "unat (mc_buffer_length c) \<le> 16386"
    and "mqtt_msg_connect ver c m info = (c', m')"
  shows "same_outside m m' (mc_buffer c) (unat (mc_buffer_length c)) \<and>
    (if str_given (ci_client_id info) \<and> 3 + length (connect_body ver info) \<le> unat (mc_buffer_length c)
     then msg_bytes c' m' = packet MQTT_MSG_TYPE_CONNECT 0 0 (connect_body ver info)
     else mc_length c' = 0)"
  using mqtt_msg_connect_outcome [OF assms] by (auto simp: encoded_def kept_def split: if_splits)

definition sample_connect_info :: mqtt_connect_info where
  "sample_connect_info = \<lparr>ci_client_id = Some [0x65], ci_username = None, ci_password = None,
     ci_will_topic = Some [0x77], ci_will_message = Some [1], ci_keepalive = 120, ci_will_qos = 0,
     ci_will_retain = 1, ci_clean_session = 1\<rparr>"

theorem mqtt_msg_connect_packet_witness:
  "\<exists>c' m'. mqtt_msg_connect PROTOCOL_NAMEv31 (mqtt_msg_init 0 64) (\<lambda>_. 0) sample_connect_info = (c', m') \<and>
     msg_bytes c' m' = packet 1 0 0 (connect_body PROTOCOL_NAMEv31 sample_connect_info)"
proof -
  obtain c' m' where e: "mqtt_msg_connect PROTOCOL_NAMEv31 (mqtt_msg_init 0 64) (\<lambda>_. 0)
      sample_connect_info = (c', m')" by fastforce
  have "3 + length (connect_body PROTOCOL_NAMEv31 sample_connect_info) \<le> 64"
    by (simp add: connect_body_def connect_pre_def ascii_def connect_keepalive_def str_field_def
        will_field_def sample_connect_info_def str_given_def)
  moreover have "str_given (ci_client_id sample_connect_info)"
    by (simp add: sample_connect_info_def str_given_def)
  ultimately show ?thesis
    using mqtt_msg_connect_packet [OF _ _ e] e by (simp add: mqtt_msg_init_def)
qed

end
