(* ===== verification/Mqtt_Client_Inv.thy ===== *)
theory Mqtt_Client_Inv
  imports Mqtt_Client Mqtt_Msg_Decode
begin

text \<open>
  The invariant of the MQTT client: its four blocks (input buffer, output buffer, the queue's ring,
  the scratch buffer on the stack) do not overlap, the encoder works on the output buffer, and the
  queue is well formed. Every callback and every public operation of a client that is not yet
  deleted keeps it; \<open>client_step\<close> is the interleaving of all of them.
\<close>

section \<open>Invariant\<close>

definition ring_blk :: "world \<Rightarrow> addr" where
  "ring_blk w = p_o (q_rb (msgQueue (w_client w)))"

definition blocks :: "env \<Rightarrow> world \<Rightarrow> addr list" where
  "blocks e w = [in_buffer (mqtt_st (w_client w)), out_buffer (mqtt_st (w_client w)), ring_blk w, stack_buf e]"

text \<open>Blocks of \<open>MQTT_BUF_SIZE\<close> bytes each.\<close>

fun apart :: "addr list \<Rightarrow> bool" where
  "apart [] = True"
| "apart (a # as) = ((\<forall>b\<in>set as. disjnt_blk a MQTT_BUF_SIZE b MQTT_BUF_SIZE) \<and> apart as)"

definition outside :: "addr list \<Rightarrow> addr \<Rightarrow> bool" where
  "outside bs x \<longleftrightarrow> (\<forall>b\<in>set bs. x < b \<or> b + MQTT_BUF_SIZE \<le> x)"

definition client_inv :: "env \<Rightarrow> world \<Rightarrow> bool" where
  "client_inv e w \<longleftrightarrow>
     (let t = mqtt_st (w_client w); q = msgQueue (w_client w) in
      apart (blocks e w) \<and> in_buffer_length t = int MQTT_BUF_SIZE \<and>
      out_buffer_length t = int MQTT_BUF_SIZE \<and>
      mc_buffer (mqtt_conn t) = out_buffer t \<and> mc_buffer_length (mqtt_conn t) = of_nat MQTT_BUF_SIZE \<and>
      queue_inv q (w_mem w) \<and> rb_size (q_rb q) = QUEUE_BUFFER_SIZE \<and>
      (\<forall>con. pCon (w_client w) = Some con \<longrightarrow>
         (\<forall>b\<in>set (blocks e w). disjnt_blk (remote_ip con) 4 b MQTT_BUF_SIZE)))"

definition queued :: "world \<Rightarrow> u8 list list" where
  "queued w = queue_msgs (msgQueue (w_client w)) (w_mem w)"

text \<open>What the invariant and the queued messages depend on.\<close>

definition core :: "world \<Rightarrow> espconn option \<times> mqtt_state \<times> mqtt_connection \<times> QUEUE \<times> mem" where
  "core w = (let t = mqtt_st (w_client w) in
     (pCon (w_client w),
      t\<lparr>message_length := 0, message_length_read := 0, outbound_message := False,
        mqtt_conn := undefined, pending_msg_id := 0, pending_msg_type := 0\<rparr>,
      (mqtt_conn t)\<lparr>mc_data := 0, mc_length := 0, mc_message_id := 0\<rparr>,
      msgQueue (w_client w), w_mem w))"

lemmas world_defs = emit_def upd_client_def upd_state_def set_connState_def plain_def call_cb_def
  set_outbound_def set_pending_def conn_of_def

lemma core_simps [simp]:
  "core (emit as w) = core w"
  "core (plain a w) = core w"
  "core (call_cb cb f w) = core w"
  "core (set_connState s w) = core w"
  "core (set_pending d len w) = core w"
  "core (upd_client (\<lambda>c. c\<lparr>sendTimeout := x c\<rparr>) w) = core w"
  "core (upd_client (\<lambda>c. c\<lparr>keepAliveTick := x c\<rparr>) w) = core w"
  "core (upd_client (\<lambda>c. c\<lparr>reconnectTick := x c\<rparr>) w) = core w"
  "core (upd_state (\<lambda>s. s\<lparr>outbound_message := b\<rparr>) w) = core w"
  "core (upd_state (\<lambda>s. s\<lparr>pending_msg_id := i\<rparr>) w) = core w"
  "core (upd_state (\<lambda>s. s\<lparr>message_length_read := j, message_length := k\<rparr>) w) = core w"
  by (auto simp: world_defs core_def Let_def split: option.splits)

lemma core_eqD:
  assumes "core w' = core w"
  shows "pCon (w_client w') = pCon (w_client w)"
    "in_buffer (mqtt_st (w_client w')) = in_buffer (mqtt_st (w_client w))"
    "out_buffer (mqtt_st (w_client w')) = out_buffer (mqtt_st (w_client w))"
    "in_buffer_length (mqtt_st (w_client w')) = in_buffer_length (mqtt_st (w_client w))"
    "out_buffer_length (mqtt_st (w_client w')) = out_buffer_length (mqtt_st (w_client w))"
    "mc_buffer (mqtt_conn (mqtt_st (w_client w'))) = mc_buffer (mqtt_conn (mqtt_st (w_client w)))"
    "mc_buffer_length (mqtt_conn (mqtt_st (w_client w'))) = mc_buffer_length (mqtt_conn (mqtt_st (w_client w)))"
    "msgQueue (w_client w') = msgQueue (w_client w)" "w_mem w' = w_mem w"
proof -
  let ?t = "mqtt_st (w_client w)" and ?t' = "mqtt_st (w_client w')"
  from assms show "pCon (w_client w') = pCon (w_client w)" "msgQueue (w_client w') = msgQueue (w_client w)"
    "w_mem w' = w_mem w" by (simp_all add: core_def Let_def)
  have s: "?t'\<lparr>message_length := 0, message_length_read := 0, outbound_message := False,
        mqtt_conn := undefined, pending_msg_id := 0, pending_msg_type := 0\<rparr> =
      ?t\<lparr>message_length := 0, message_length_read := 0, outbound_message := False,
        mqtt_conn := undefined, pending_msg_id := 0, pending_msg_type := 0\<rparr>"
    and c: "(mqtt_conn ?t')\<lparr>mc_data := 0, mc_length := 0, mc_message_id := 0\<rparr> =
      (mqtt_conn ?t)\<lparr>mc_data := 0, mc_length := 0, mc_message_id := 0\<rparr>"
    using assms by (simp_all add: core_def Let_def)
  from arg_cong [OF s, of in_buffer] arg_cong [OF s, of out_buffer] arg_cong [OF s, of in_buffer_length]
    arg_cong [OF s, of out_buffer_length] arg_cong [OF c, of mc_buffer] arg_cong [OF c, of mc_buffer_length]
  show "in_buffer ?t' = in_buffer ?t" "out_buffer ?t' = out_buffer ?t"
    "in_buffer_length ?t' = in_buffer_length ?t" "out_buffer_length ?t' = out_buffer_length ?t"
    "mc_buffer (mqtt_conn ?t') = mc_buffer (mqtt_conn ?t)"
    "mc_buffer_length (mqtt_conn ?t') = mc_buffer_length (mqtt_conn ?t)"
    by simp_all
qed

lemma core_inv:
  assumes "core w' = core w"
  shows "client_inv e w' = client_inv e w" "blocks e w' = blocks e w" "queued w' = queued w"
  using core_eqD [OF assms]
  by (simp_all add: client_inv_def blocks_def ring_blk_def queued_def Let_def)

section \<open>Steps that keep the invariant\<close>

definition step_ok :: "env \<Rightarrow> world \<Rightarrow> world \<Rightarrow> bool" where
  "step_ok e w w' \<longleftrightarrow> client_inv e w' \<and> blocks e w' = blocks e w \<and>
     (\<forall>x. outside (blocks e w) x \<longrightarrow> w_mem w' x = w_mem w x)"

lemma step_ok_core: "client_inv e w \<Longrightarrow> core w' = core w \<Longrightarrow> step_ok e w w'"
  using core_inv [where w = w and w' = w'] core_eqD(9) [of w' w] by (simp add: step_ok_def)

lemma step_ok_refl: "client_inv e w \<Longrightarrow> step_ok e w w"
  by (simp add: step_ok_def)

lemma step_ok_trans: "step_ok e w w1 \<Longrightarrow> step_ok e w1 w2 \<Longrightarrow> step_ok e w w2"
  by (auto simp: step_ok_def)

lemma step_ok_then_core: "step_ok e w w1 \<Longrightarrow> core w2 = core w1 \<Longrightarrow> step_ok e w w2"
  using step_ok_core [of e w1 w2] step_ok_trans by (auto simp: step_ok_def)

lemma client_invD:
  assumes "client_inv e w"
  shows "mc_buffer (conn_of w) = out_buffer (mqtt_st (w_client w))"
    and "unat (mc_buffer_length (conn_of w)) = MQTT_BUF_SIZE"
    and "queue_inv (msgQueue (w_client w)) (w_mem w)"
    and "rb_size (q_rb (msgQueue (w_client w))) = QUEUE_BUFFER_SIZE"
    and "apart (blocks e w)"
  using assms by (simp_all add: client_inv_def conn_of_def Let_def)

text \<open>A write inside one of the blocks other than the ring keeps the queue.\<close>

lemma write_block_ok:
  assumes inv: "client_inv e w" and so: "same_outside (w_mem w) m' b MQTT_BUF_SIZE"
    and b: "b \<in> {in_buffer (mqtt_st (w_client w)), out_buffer (mqtt_st (w_client w)), stack_buf e}"
    and w': "w_mem w' = m'" "core (w'\<lparr>w_mem := w_mem w\<rparr>) = core w"
  shows "step_ok e w w' \<and> queued w' = queued w"
proof -
  note d = client_invD [OF inv]
  have "queue_disj (msgQueue (w_client w)) b MQTT_BUF_SIZE"
    using d(4,5) b by (auto simp: queue_disj_def blocks_def ring_blk_def disjnt_blk_def)
  from queue_msgs_frame [OF d(3) so this] have
    q: "queue_inv (msgQueue (w_client w)) m'" "queue_msgs (msgQueue (w_client w)) m' = queued w"
    by (simp_all add: queued_def)
  note c = core_eqD [OF w'(2), simplified]
  have "outside (blocks e w) x \<Longrightarrow> m' x = w_mem w x" for x
    using so b by (auto simp: same_outside_def outside_def blocks_def)
  then show ?thesis
    using inv q c w'(1)
    by (simp add: step_ok_def client_inv_def Let_def blocks_def ring_blk_def queued_def)
qed

definition out_msg_in :: "world \<Rightarrow> bool" where
  "out_msg_in w \<longleftrightarrow> out_buffer (mqtt_st (w_client w)) \<le> mc_data (conn_of w) \<and>
     mc_data (conn_of w) + unat (mc_length (conn_of w)) \<le> out_buffer (mqtt_st (w_client w)) + MQTT_BUF_SIZE"

lemma set_outbound_ok:
  assumes inv: "client_inv e w" and enc: "encoded (conn_of w) (w_mem w) c' m' p"
  shows "step_ok e w (set_outbound (c', m') w) \<and> queued (set_outbound (c', m') w) = queued w \<and>
    out_msg_in (set_outbound (c', m') w) \<and>
    msg_of (set_outbound (c', m') w) = (case p of None \<Rightarrow> [] | Some bs \<Rightarrow> bs)"
proof -
  note d = client_invD [OF inv]
  have k: "mc_buffer c' = mc_buffer (conn_of w)" "mc_buffer_length c' = mc_buffer_length (conn_of w)"
    "same_outside (w_mem w) m' (out_buffer (mqtt_st (w_client w))) MQTT_BUF_SIZE"
    using enc d(1,2) by (simp_all add: encoded_def kept_def)
  have "step_ok e w (set_outbound (c', m') w) \<and> queued (set_outbound (c', m') w) = queued w"
    by (rule write_block_ok [OF inv k(3)])
       (use k in \<open>simp_all add: world_defs core_def Let_def mqtt_connection.equality\<close>)
  moreover have "conn_of (set_outbound (c', m') w) = c'" "w_mem (set_outbound (c', m') w) = m'"
    "out_buffer (mqtt_st (w_client (set_outbound (c', m') w))) = mc_buffer (conn_of w)"
    using d(1) by (simp_all add: world_defs)
  ultimately show ?thesis
    using enc d(2) by (auto simp: out_msg_in_def msg_of_def encoded_def msg_bytes_def split: option.splits)
qed

definition queue_room :: "world \<Rightarrow> u8 list \<Rightarrow> bool" where
  "queue_room w bs \<longleftrightarrow>
     fill_cnt (q_rb (msgQueue (w_client w))) + int (length (frame bs)) \<le> QUEUE_BUFFER_SIZE"

lemma queue_response_ok:
  assumes inv: "client_inv e w" and enc: "encoded (conn_of w) (w_mem w) c' m' (Some bs)"
  shows "step_ok e w (queue_response (c', m') w) \<and>
    queued (queue_response (c', m') w) = (if queue_room w bs then queued w @ [bs] else queued w)"
proof -
  let ?w1 = "set_outbound (c', m') w"
  note so = set_outbound_ok [OF inv enc]
  then have inv1: "client_inv e ?w1" and om: "out_msg_in ?w1" by (simp_all add: step_ok_def)
  note d = client_invD [OF inv1]
  let ?q = "msgQueue (w_client ?w1)"
  obtain q m ret where put: "QUEUE_Puts ?q (w_mem ?w1) (mc_data (conn_of ?w1)) (mc_length (conn_of ?w1)) =
      (q, m, ret)" by (metis prod_cases3)
  have dis: "queue_disj ?q (mc_data (conn_of ?w1)) (unat (mc_length (conn_of ?w1)))"
    using om d(4,5) by (auto simp: out_msg_in_def queue_disj_def blocks_def ring_blk_def disjnt_blk_def)
  note sp = QUEUE_Puts_spec(1) [OF d(3) dis put] and rt = QUEUE_Puts_spec(2) [OF d(3) dis put]
  let ?w2 = "upd_client (\<lambda>c. c\<lparr>msgQueue := q\<rparr>) (?w1\<lparr>w_mem := m\<rparr>)"
  have r: "queue_response (c', m') w = ?w2" by (simp add: queue_response_def Let_def put)
  have "outside (blocks e ?w1) x \<Longrightarrow> m x = w_mem ?w1 x" for x
    using sp d(4) by (auto simp: same_outside_def outside_def blocks_def ring_blk_def)
  then have "step_ok e ?w1 ?w2"
    using inv1 sp
    by (auto simp: step_ok_def client_inv_def Let_def blocks_def ring_blk_def upd_client_def)
  moreover have "msgQueue (w_client ?w1) = msgQueue (w_client w)" by (simp add: world_defs)
  then have "queued ?w2 = (if queue_room w bs then queued ?w1 @ [bs] else queued ?w1)"
    using sp so rt d(4) by (auto simp: queued_def upd_client_def msg_of_def queue_room_def)
  ultimately show ?thesis
    unfolding r using so step_ok_trans by auto
qed

section \<open>Receiving\<close>

lemma ack_encoded:
  assumes "client_inv e w" "f \<in> {mqtt_msg_puback, mqtt_msg_pubrec, mqtt_msg_pubrel, mqtt_msg_pubcomp}"
  shows "\<exists>bs. encoded (conn_of w) (w_mem w) (fst (f (conn_of w) (w_mem w) i)) (snd (f (conn_of w) (w_mem w) i))
    (Some bs)"
proof -
  obtain ty q where f: "f = ack_message ty q"
    using assms(2) by (auto simp: mqtt_msg_puback_def mqtt_msg_pubrec_def mqtt_msg_pubrel_def mqtt_msg_pubcomp_def)
  note d = client_invD [OF assms(1)]
  show ?thesis
    using ack_message_outcome [of "conn_of w" ty q "w_mem w" i _ _, OF _ prod.collapse [symmetric] refl] d(2)
    by (auto simp: f)
qed

lemma queue_ack_ok:
  assumes "client_inv e w" "f \<in> {mqtt_msg_puback, mqtt_msg_pubrec, mqtt_msg_pubrel, mqtt_msg_pubcomp}"
  shows "step_ok e w (queue_response (f (conn_of w) (w_mem w) i) w)"
  using ack_encoded [OF assms] queue_response_ok [OF assms(1)] by (metis prod.collapse)

lemma queue_pingresp_ok:
  assumes "client_inv e w"
  shows "step_ok e w (queue_response (mqtt_msg_pingresp (conn_of w) (w_mem w)) w)"
proof -
  obtain c' m' where p: "mqtt_msg_pingresp (conn_of w) (w_mem w) = (c', m')" by fastforce
  have "encoded (conn_of w) (w_mem w) c' m' (Some (packet 13 0 0 []))"
    using client_invD(2) [OF assms] p
    by (intro empty_message_outcome) (simp_all add: mqtt_msg_pingresp_def)
  then show ?thesis using queue_response_ok [OF assms] p by auto
qed

lemma core_deliver_publish [simp]: "core (deliver_publish b len w) = core w"
  by (simp add: deliver_publish_def split: prod.splits)

lemma core_recv_connack [simp]: "core (recv_connack ty w) = core w"
  by (simp add: recv_connack_def Let_def)

lemma recv_dispatch_ok:
  assumes "client_inv e w"
  shows "step_ok e w (recv_dispatch ty q i w)"
proof -
  have dl: "step_ok e w w1 \<Longrightarrow> step_ok e w (deliver_publish b len w1)" for w1 b len
    by (erule step_ok_then_core) simp
  show ?thesis
    using queue_ack_ok [OF assms] queue_pingresp_ok [OF assms] step_ok_refl [OF assms]
    by (auto simp: recv_dispatch_def Let_def intro!: dl)
qed

lemma recv_packet_ok:
  assumes inv: "client_inv e w" and len: "length pdata < MQTT_BUF_SIZE"
  shows "step_ok e w (fst (recv_packet pdata w))"
proof -
  let ?ib = "in_buffer (mqtt_st (w_client w))"
  let ?w = "w\<lparr>w_mem := mem_write (w_mem w) ?ib pdata\<rparr>"
  have so: "same_outside (w_mem w) (mem_write (w_mem w) ?ib pdata) ?ib MQTT_BUF_SIZE"
    using len by (intro same_outside_write) simp_all
  have s1: "step_ok e w ?w"
    using write_block_ok [OF inv so, of ?w] by simp
  then have i1: "client_inv e ?w" by (simp add: step_ok_def)
  have s2: "step_ok e ?w (recv_dispatch ty q i (upd_state (\<lambda>t. t\<lparr>message_length_read := j, message_length := k\<rparr>) ?w))"
    for ty q i j k
    by (rule step_ok_trans [OF step_ok_core [OF i1] recv_dispatch_ok])
       (simp_all add: core_inv(1) [where w = ?w] i1)
  show ?thesis
    using s1 step_ok_trans [OF s1 s2] step_ok_then_core [OF s1]
    by (auto simp: recv_packet_def Let_def split: tConnState.split)
qed

lemma recv_loop_ok:
  assumes "recv_loop pdata w = Some w'" "client_inv e w"
  shows "step_ok e w w'"
proof -
  have "client_inv e w \<longrightarrow> step_ok e w w'"
  proof (rule recv_loop.raw_induct [where P = "\<lambda>pd w w'. client_inv e w \<longrightarrow> step_ok e w w'", OF _ assms(1)], intro impI)
    fix rec pd w w'
    assume ih: "\<And>pd w w'. rec pd w = Some w' \<Longrightarrow> client_inv e w \<longrightarrow> step_ok e w w'"
      and r: "(if length pd < MQTT_BUF_SIZE \<and> 0 < length pd
        then case recv_packet pd w of (w1, nx) \<Rightarrow> if nx = None then Some w1 else rec (the nx) w1
        else Some w) = Some w'" and inv: "client_inv e w"
    obtain w1 nx where p: "recv_packet pd w = (w1, nx)" by fastforce
    show "step_ok e w w'"
    proof (cases "length pd < MQTT_BUF_SIZE \<and> length pd > 0")
      case False
      then show ?thesis using r inv by (auto intro: step_ok_refl split: if_splits)
    next
      case True
      have s1: "step_ok e w w1" using recv_packet_ok [OF inv, of pd] True p by simp
      then have "client_inv e w1" by (simp add: step_ok_def)
      then show ?thesis
        using r True p s1 ih [of "the nx" w1 w'] step_ok_trans [OF s1] by (cases nx) auto
    qed
  qed
  then show ?thesis using assms(2) by simp
qed

section \<open>Sending\<close>

lemma enqueue_outbound_ok:
  assumes inv: "client_inv e w" and om: "out_msg_in w"
  shows "\<exists>w' ok. enqueue_outbound e w = Some (w', ok) \<and> step_ok e w w' \<and>
    (if ok then w_trace w' = w_trace w @ [Os_post] \<and>
       (\<exists>k \<le> length (queued w). queued w' = drop k (queued w) @ [msg_of w])
     else w_trace w' = w_trace w \<and> queued w' = [])"
proof -
  note d = client_invD [OF inv]
  let ?s = "(msgQueue (w_client w), w_mem w)" and ?d = "mc_data (conn_of w)" and ?l = "mc_length (conn_of w)"
  let ?I = "send_inv ?d ?l (stack_buf e) (of_nat MQTT_BUF_SIZE) (ring_blk w) QUEUE_BUFFER_SIZE (w_mem w)"
  have start: "?I ?s"
    using d om by (auto simp: send_inv_def blocks_def ring_blk_def out_msg_in_def disjnt_blk_def)
  obtain s' ok where r': "enqueue_loop (q_put ?d ?l)
      (q_get (stack_parser e) (stack_buf e) (of_nat MQTT_BUF_SIZE)) ?s = Some (s', ok)" and i': "?I s'"
    and k': "if ok then \<exists>k \<le> length (queue_msgs (fst ?s) (snd ?s)).
        queue_msgs (fst s') (snd s') = drop k (queue_msgs (fst ?s) (snd ?s)) @ [mem_read (w_mem w) ?d (unat ?l)]
      else queue_msgs (fst s') (snd s') = []"
    using mq.enqueue_loop_returns [OF start, of "stack_parser e"] by blast
  obtain q m where s': "s' = (q, m)" by fastforce
  note r = r' [unfolded s'] and i = i' [unfolded s']
  have k: "if ok then \<exists>k \<le> length (queued w). queue_msgs q m = drop k (queued w) @ [msg_of w]
      else queue_msgs q m = []"
    using k' unfolding s' fst_conv snd_conv queued_def msg_of_def .
  let ?w1 = "upd_client (\<lambda>c. c\<lparr>msgQueue := q\<rparr>) (w\<lparr>w_mem := m\<rparr>)"
  have e1: "enqueue_outbound e w = Some (if ok then (emit [Os_post] ?w1, True) else (?w1, False))"
    unfolding enqueue_outbound_def r Let_def by simp
  have "outside (blocks e w) x \<Longrightarrow> m x = w_mem w x" for x
    using i by (auto simp: send_inv_def outside_def blocks_def)
  then have "step_ok e w ?w1"
    using inv i
    by (auto simp: step_ok_def client_inv_def Let_def blocks_def ring_blk_def upd_client_def send_inv_def)
  moreover from this have "step_ok e w (emit [Os_post] ?w1)" by (rule step_ok_then_core) simp
  ultimately show ?thesis
    using k unfolding e1 by (cases ok) (simp_all add: emit_def upd_client_def queued_def, blast+)
qed

lemma task_send_ok:
  assumes inv: "client_inv e w"
  shows "step_ok e w (task_send e w)"
proof -
  note d = client_invD [OF inv]
  obtain q m n ret where g: "QUEUE_Gets (msgQueue (w_client w)) (w_mem w) (stack_parser e) (stack_buf e) 0
      (of_nat MQTT_BUF_SIZE) = (q, m, n, ret)" by (metis prod_cases4)
  have "queue_disj (msgQueue (w_client w)) (stack_buf e) (unat (of_nat MQTT_BUF_SIZE :: u16))"
    using d(4,5) by (auto simp: queue_disj_def blocks_def ring_blk_def disjnt_blk_def)
  note sp = QUEUE_Gets_spec(1) [OF d(3) this g]
  let ?w1 = "upd_client (\<lambda>c. c\<lparr>msgQueue := q\<rparr>) (w\<lparr>w_mem := m\<rparr>)"
  have "outside (blocks e w) x \<Longrightarrow> m x = w_mem w x" for x
    using sp by (auto simp: same_outside_def outside_def blocks_def)
  then have s1: "step_ok e w ?w1"
    using inv sp by (auto simp: step_ok_def client_inv_def Let_def blocks_def ring_blk_def upd_client_def)
  show ?thesis
    unfolding task_send_def g Let_def prod.case
    using s1 by (auto intro: step_ok_then_core [OF s1])
qed

lemma mqtt_send_keepalive_ok:
  assumes inv: "client_inv e w"
  shows "step_ok e w (mqtt_send_keepalive e w)"
proof -
  obtain c' m' where p: "mqtt_msg_pingreq (conn_of w) (w_mem w) = (c', m')" by fastforce
  have "encoded (conn_of w) (w_mem w) c' m' (Some (packet 12 0 0 []))"
    using client_invD(2) [OF inv] p by (intro empty_message_outcome) (simp_all add: mqtt_msg_pingreq_def)
  from set_outbound_ok [OF inv this] have s1: "step_ok e w (set_outbound (c', m') w)" by simp
  show ?thesis
    by (auto simp: mqtt_send_keepalive_def p Let_def intro!: step_ok_then_core [OF s1])
qed

lemma mqtt_tcpclient_connect_cb_ok:
  assumes inv: "client_inv e w"
  shows "step_ok e w (mqtt_tcpclient_connect_cb e w)"
proof -
  note d = client_invD [OF inv]
  let ?w1 = "emit [Regist_disconcb, Regist_recvcb, Regist_sentcb] w"
  let ?t = "mqtt_st (w_client ?w1)"
  let ?w2 = "upd_state (\<lambda>s. s\<lparr>mqtt_conn := mqtt_msg_init (out_buffer ?t) (word_of_int (out_buffer_length ?t))\<rparr>) ?w1"
  have c2: "core ?w2 = core w"
    using inv
    by (simp add: core_def Let_def world_defs mqtt_msg_init_def client_inv_def mqtt_connection.equality)
  have i2: "client_inv e ?w2" using core_inv(1) [OF c2] inv by simp
  obtain c' m' where p: "mqtt_msg_connect (protocol_name e) (conn_of ?w2) (w_mem ?w2)
      (connect_info (w_client ?w2)) = (c', m')" by fastforce
  have "\<exists>b. encoded (conn_of ?w2) (w_mem ?w2) c' m' b"
    using mqtt_msg_connect_outcome [OF _ _ p] client_invD(2) [OF i2] by auto
  then have "step_ok e ?w2 (set_outbound (c', m') ?w2)" using set_outbound_ok [OF i2] by blast
  then have s3: "step_ok e w (set_outbound (c', m') ?w2)"
    using step_ok_trans [OF step_ok_core [OF inv c2]] by blast
  show ?thesis
    unfolding mqtt_tcpclient_connect_cb_def Let_def p by (rule step_ok_then_core [OF s3]) simp
qed

lemma core_simple_ops [simp]:
  "core (mqtt_tcpclient_sent_cb w) = core w"
  "core (mqtt_timer w) = core w"
  "core (mqtt_tcpclient_discon_cb w) = core w"
  "core (mqtt_tcpclient_recon_cb w) = core w"
  "core (MQTT_Disconnect w) = core w"
  "core (MQTT_DeleteClient w) = core w"
  "core (MQTT_OnConnected f w) = core w"
  "core (MQTT_OnDisconnected f w) = core w"
  "core (MQTT_OnData f w) = core w"
  "core (MQTT_OnPublished f w) = core w"
  "core (MQTT_OnTimeout f w) = core w"
  "core (MQTT_InitLWT a b c d w) = core w"
  by (simp_all add: mqtt_tcpclient_sent_cb_def mqtt_timer_def mqtt_tcpclient_discon_cb_def
      mqtt_tcpclient_recon_cb_def MQTT_Disconnect_def MQTT_DeleteClient_def Let_def)
     (simp_all add: MQTT_OnConnected_def MQTT_OnDisconnected_def MQTT_OnData_def MQTT_OnPublished_def
      MQTT_OnTimeout_def MQTT_InitLWT_def core_def upd_client_def Let_def)

section \<open>Connecting\<close>

text \<open>
  What the client relies on in the allocator: a connection object does not overlap the client's
  blocks, and allocating it leaves their contents alone.
\<close>

definition alloc_ok :: "env \<Rightarrow> addr list \<Rightarrow> bool" where
  "alloc_ok e bs \<longleftrightarrow> 4 \<le> sizeof_esp_tcp e \<and>
     (\<forall>m n a m'. n \<in> {sizeof_espconn e, sizeof_esp_tcp e} \<longrightarrow> os_zalloc e m n = (a, m') \<longrightarrow>
       (\<forall>b\<in>set bs. disjnt_blk a (nat n) b MQTT_BUF_SIZE \<and>
         (\<forall>x. b \<le> x \<and> x < b + MQTT_BUF_SIZE \<longrightarrow> m' x = m x)))"

definition inv_step :: "env \<Rightarrow> world \<Rightarrow> world \<Rightarrow> bool" where
  "inv_step e w w' \<longleftrightarrow> client_inv e w' \<and> blocks e w' = blocks e w"

lemma step_ok_inv_step: "step_ok e w w' \<Longrightarrow> inv_step e w w'"
  by (simp add: step_ok_def inv_step_def)

lemma inv_step_trans: "inv_step e w w1 \<Longrightarrow> inv_step e w1 w2 \<Longrightarrow> inv_step e w w2"
  by (simp add: inv_step_def)

lemma inv_step_core: "inv_step e w w1 \<Longrightarrow> core w2 = core w1 \<Longrightarrow> inv_step e w w2"
  using core_inv [where w = w1 and w' = w2] by (simp add: inv_step_def)

text \<open>A new connection object, and writes that leave the client's blocks alone.\<close>

lemma inv_step_foreign:
  assumes inv: "client_inv e w"
    and m: "\<And>b x. b \<in> set (blocks e w) \<Longrightarrow> b \<le> x \<Longrightarrow> x < b + MQTT_BUF_SIZE \<Longrightarrow> w_mem w' x = w_mem w x"
    and c: "core (upd_client (\<lambda>c. c\<lparr>pCon := p\<rparr>) (w'\<lparr>w_mem := w_mem w\<rparr>)) =
            core (upd_client (\<lambda>c. c\<lparr>pCon := p\<rparr>) w)"
    and p: "\<And>con. pCon (w_client w') = Some con \<Longrightarrow>
            \<forall>b\<in>set (blocks e w). disjnt_blk (remote_ip con) 4 b MQTT_BUF_SIZE"
  shows "inv_step e w w'"
proof -
  note d = client_invD [OF inv]
  note q = core_eqD [OF c, unfolded upd_client_def, simplified]
  let ?q = "msgQueue (w_client w)"
  have "ring_contents (q_rb ?q) (w_mem w') = ring_contents (q_rb ?q) (w_mem w)"
    using d(3,4) m [of "ring_blk w"]
    by (intro ring_contents_cong) (auto simp: queue_inv_def blocks_def ring_blk_def)
  then have "queue_inv ?q (w_mem w')" using d(3) by (simp add: queue_inv_def)
  moreover have "blocks e w' = blocks e w" using q by (simp add: blocks_def ring_blk_def)
  ultimately show ?thesis using inv p q by (simp add: inv_step_def client_inv_def Let_def)
qed

lemma UTILS_StrToIP_frame:
  assumes "UTILS_StrToIP m str d = (m', r)" "x < d \<or> d + 4 \<le> x"
  shows "m' x = m x"
proof -
  have "strtoip_loop k m d str = (m', r) \<Longrightarrow> k \<le> 4 \<Longrightarrow> m' x = m x" for k
    using assms(2)
    by (induction k arbitrary: m str) (auto split: option.splits prod.splits if_splits)
  then show ?thesis using assms(1) by (simp add: UTILS_StrToIP_def)
qed

lemma mqtt_tcpclient_delete_ok: "client_inv e w \<Longrightarrow> inv_step e w (mqtt_tcpclient_delete w)"
  by (auto simp: mqtt_tcpclient_delete_def world_defs inv_step_def client_inv_def blocks_def ring_blk_def
      Let_def)

lemma mqtt_dns_found_ok:
  assumes inv: "client_inv e w" and con: "pCon (w_client w) = Some con"
  shows "inv_step e w (mqtt_dns_found a w)"
proof (cases a)
  case None
  then show ?thesis
    using step_ok_inv_step [OF step_ok_core [OF inv]] by (simp add: mqtt_dns_found_def)
next
  case (Some x)
  have ipd: "\<forall>b\<in>set (blocks e w). disjnt_blk (remote_ip con) 4 b MQTT_BUF_SIZE"
    using inv con by (simp add: client_inv_def Let_def)
  let ?w1 = "w\<lparr>w_mem := mem_write (w_mem w) (remote_ip (the (pCon (w_client w)))) (ip_bytes x)\<rparr>"
  have "inv_step e w ?w1"
    by (rule inv_step_foreign [OF inv, where p = None])
       (use ipd con in \<open>auto simp: mem_write_def ip_bytes_def disjnt_blk_def upd_client_def core_def Let_def\<close>)
  then show ?thesis
    using Some step_ok_inv_step [OF step_ok_core [OF inv]]
    by (auto simp: mqtt_dns_found_def Let_def intro: inv_step_core)
qed

lemma MQTT_Connect_ok:
  assumes inv0: "client_inv e w0" and al: "alloc_ok e (blocks e w0)"
  shows "inv_step e w0 (MQTT_Connect e w0)"
proof -
  define w where "w = (if pCon (w_client w0) \<noteq> None then mqtt_tcpclient_delete w0 else w0)"
  have s0: "inv_step e w0 w"
    using mqtt_tcpclient_delete_ok [OF inv0] inv0 by (simp add: w_def inv_step_def)
  then have inv: "client_inv e w" and bl: "blocks e w = blocks e w0" by (simp_all add: inv_step_def)
  obtain a1 m1 where z1: "os_zalloc e (w_mem w) (sizeof_espconn e) = (a1, m1)" by fastforce
  obtain a m where z2: "os_zalloc e m1 (sizeof_esp_tcp e) = (a, m)" by fastforce
  define con where "con = \<lparr>local_port = espconn_port e, remote_port = port (w_client w), remote_ip = a\<rparr>"
  define w3 where "w3 = emit [Timer_disarm, Timer_setfn, Timer_arm]
      (upd_client (\<lambda>c. c\<lparr>keepAliveTick := 0, reconnectTick := 0\<rparr>)
        (emit [Regist_connectcb, Regist_reconcb] (upd_client (\<lambda>c. c\<lparr>pCon := Some con\<rparr>) (w\<lparr>w_mem := m\<rparr>))))"
  obtain m4 r where ip4: "UTILS_StrToIP (w_mem w3) (the (host (w_client w3))) a = (m4, r)" by fastforce
  define w4 where "w4 = w3\<lparr>w_mem := m4\<rparr>"
  have res: "MQTT_Connect e w0 = set_connState TCP_CONNECTING
      (if r \<noteq> 0 then plain Espconn_connect w4 else emit [Espconn_gethostbyname (host (w_client w4))] w4)"
    unfolding MQTT_Connect_def w_def [symmetric] Let_def z1 z2 prod.case snd_conv
      con_def [symmetric] w3_def [symmetric] ip4 w4_def [symmetric] ..
  have dis: "\<forall>b\<in>set (blocks e w). disjnt_blk a 4 b MQTT_BUF_SIZE"
    using al z2 unfolding alloc_ok_def bl by (fastforce simp: disjnt_blk_def)
  have mem: "m4 x = w_mem w x" if b: "b \<in> set (blocks e w)" "b \<le> x" "x < b + MQTT_BUF_SIZE" for b x
  proof -
    have "m x = m1 x" "m1 x = w_mem w x" using al z1 z2 b unfolding alloc_ok_def bl by blast+
    moreover have "m4 x = w_mem w3 x"
      using UTILS_StrToIP_frame [OF ip4, of x] dis b by (auto simp: disjnt_blk_def)
    ultimately show ?thesis by (simp add: w3_def emit_def upd_client_def)
  qed
  have "inv_step e w w4"
    by (rule inv_step_foreign [OF inv, where p = None])
       (use mem dis in \<open>auto simp: w4_def w3_def con_def emit_def upd_client_def core_def Let_def\<close>)
  then show ?thesis
    unfolding res by (intro inv_step_trans [OF s0]) (erule inv_step_core, simp)
qed

section \<open>All operations\<close>

lemma set_outbound_id_ok:
  assumes inv: "client_inv e w" and enc: "encoded (conn_of w) (w_mem w) c' m' p"
  shows "step_ok e w (set_outbound_id (c', m', i) w) \<and> queued (set_outbound_id (c', m', i) w) = queued w \<and>
    out_msg_in (set_outbound_id (c', m', i) w) \<and> conn_of (set_outbound_id (c', m', i) w) = c' \<and>
    w_trace (set_outbound_id (c', m', i) w) = w_trace w \<and>
    msg_of (set_outbound_id (c', m', i) w) = (case p of None \<Rightarrow> [] | Some bs \<Rightarrow> bs)"
proof -
  let ?w1 = "set_outbound (c', m') w" and ?w2 = "set_outbound_id (c', m', i) w"
  have c: "core ?w2 = core ?w1" by (simp add: set_outbound_id_def)
  have "conn_of ?w2 = conn_of ?w1" "conn_of ?w1 = c'" "w_trace ?w2 = w_trace w" "w_mem ?w2 = w_mem ?w1"
    by (simp_all add: set_outbound_id_def world_defs)
  then show ?thesis
    using set_outbound_ok [OF inv enc] step_ok_then_core [OF _ c] core_inv(3) [OF c] core_eqD(3) [OF c]
    by (simp add: out_msg_in_def msg_of_def)
qed

text \<open>The encoders of the public operations on a client that satisfies the invariant.\<close>

lemma client_encoded:
  assumes "client_inv e w"
  shows "mqtt_msg_publish (conn_of w) (w_mem w) t dt q r i = (c', m', k) \<Longrightarrow>
      \<exists>p. encoded (conn_of w) (w_mem w) c' m' p"
    and "mqtt_msg_subscribe (conn_of w) (w_mem w) t q i = (c', m', k) \<Longrightarrow>
      \<exists>p. encoded (conn_of w) (w_mem w) c' m' p"
    and "mqtt_msg_unsubscribe (conn_of w) (w_mem w) t i = (c', m', k) \<Longrightarrow>
      \<exists>p. encoded (conn_of w) (w_mem w) c' m' p"
    and "mqtt_msg_pingreq (conn_of w) (w_mem w) = (c', m') \<Longrightarrow>
      encoded (conn_of w) (w_mem w) c' m' (Some (packet 12 0 0 []))"
  using client_invD(2) [OF assms] mqtt_msg_publish_outcome [of "conn_of w" "w_mem w" t dt q r i c' m' k, OF _ _ _ refl]
    mqtt_msg_subscribe_outcome [of "conn_of w" "w_mem w" t q i c' m' k, OF _ _ _ refl]
    mqtt_msg_unsubscribe_outcome [of "conn_of w" "w_mem w" t i c' m' k, OF _ _ _ refl]
    empty_message_outcome [of "conn_of w" "w_mem w" 12 0 0 c' m']
  by (auto simp: mqtt_msg_pingreq_def split: if_splits)

lemma enqueue_step:
  assumes "client_inv e w" "out_msg_in w" "enqueue_outbound e w = Some (w', ok)"
  shows "step_ok e w w'"
  using enqueue_outbound_ok [OF assms(1,2)] assms(3) by auto

end
