(* ===== verification/Mqtt_Client_Props.thy ===== *)
theory Mqtt_Client_Props
  imports Mqtt_Client_Inv
begin

text \<open>
  Properties of the MQTT client: the invariant over every interleaving of callbacks and public
  operations, the outcome of publishing, the task's send discipline, keep-alive, reconnection and
  the handling of received segments.
\<close>

section \<open>Interleavings\<close>

text \<open>
  One event: a callback of the SDK or a call of the application. The DNS callback needs a connection
  object, and the task step that frees the whole client (state \<open>MQTT_DELETED\<close>) ends its life.
\<close>

inductive client_step :: "env \<Rightarrow> world \<Rightarrow> world \<Rightarrow> bool" for e where
  dns: "pCon (w_client w) \<noteq> None \<Longrightarrow> client_step e w (mqtt_dns_found a w)"
| recv: "mqtt_tcpclient_recv pdata w = Some w' \<Longrightarrow> client_step e w w'"
| sent: "client_step e w (mqtt_tcpclient_sent_cb w)"
| timer: "client_step e w (mqtt_timer w)"
| discon: "client_step e w (mqtt_tcpclient_discon_cb w)"
| connect_cb: "client_step e w (mqtt_tcpclient_connect_cb e w)"
| recon: "client_step e w (mqtt_tcpclient_recon_cb w)"
| publish: "MQTT_Publish e t dt q r w = Some (w', ok) \<Longrightarrow> client_step e w w'"
| subscribe: "MQTT_Subscribe e t qos w = Some (w', ok) \<Longrightarrow> client_step e w w'"
| unsubscribe: "MQTT_UnSubscribe e t w = Some (w', ok) \<Longrightarrow> client_step e w w'"
| ping: "MQTT_Ping e w = Some (w', ok) \<Longrightarrow> client_step e w w'"
| task: "connState (w_client w) \<noteq> MQTT_DELETED \<Longrightarrow> client_step e w (MQTT_Task e w)"
| connect: "client_step e w (MQTT_Connect e w)"
| disconnect: "client_step e w (MQTT_Disconnect w)"
| delete: "client_step e w (MQTT_DeleteClient w)"
| lwt: "client_step e w (MQTT_InitLWT wt wm wq wr w)"
| on_connected: "client_step e w (MQTT_OnConnected f w)"
| on_disconnected: "client_step e w (MQTT_OnDisconnected f w)"
| on_data: "client_step e w (MQTT_OnData f w)"
| on_published: "client_step e w (MQTT_OnPublished f w)"
| on_timeout: "client_step e w (MQTT_OnTimeout f w)"

lemma mqtt_tcpclient_recv_ok:
  assumes inv: "client_inv e w" and r: "mqtt_tcpclient_recv pdata w = Some w'"
  shows "step_ok e w w'"
proof -
  let ?w0 = "upd_client (\<lambda>c. c\<lparr>keepAliveTick := 0\<rparr>) w"
  obtain w1 where l: "recv_loop pdata ?w0 = Some w1" and w': "w' = emit [Os_post] w1"
    using r by (auto simp: mqtt_tcpclient_recv_def)
  have s0: "step_ok e w ?w0" by (rule step_ok_core [OF inv]) simp
  then have i0: "client_inv e ?w0" by (simp add: step_ok_def)
  have "step_ok e w w1" by (rule step_ok_trans [OF s0 recv_loop_ok [OF l i0]])
  then show ?thesis unfolding w' by (rule step_ok_then_core) simp
qed

lemma MQTT_Task_ok:
  assumes inv: "client_inv e w" and al: "alloc_ok e (blocks e w)"
    and nd: "connState (w_client w) \<noteq> MQTT_DELETED"
  shows "inv_step e w (MQTT_Task e w)"
proof -
  have refl: "inv_step e w w" using inv by (simp add: inv_step_def)
  let ?w1 = "mqtt_tcpclient_delete w"
  have s1: "inv_step e w ?w1" by (rule mqtt_tcpclient_delete_ok [OF inv])
  then have "inv_step e ?w1 (MQTT_Connect e ?w1)"
    using al by (intro MQTT_Connect_ok) (simp_all add: inv_step_def)
  then have "inv_step e w (set_connState TCP_CONNECTING (MQTT_Connect e ?w1))"
    by (intro inv_step_core [OF inv_step_trans [OF s1]]) simp_all
  moreover have "inv_step e w (plain a w)" for a by (rule inv_step_core [OF refl]) simp
  ultimately show ?thesis
    using nd refl s1 step_ok_inv_step [OF mqtt_send_keepalive_ok [OF inv]] step_ok_inv_step [OF task_send_ok [OF inv]]
    by (simp add: MQTT_Task_def split: tConnState.split)
qed

lemma client_step_ok:
  assumes "client_step e w w'" "client_inv e w" "alloc_ok e (blocks e w)"
  shows "inv_step e w w'"
proof -
  note cor = step_ok_inv_step [OF step_ok_core [OF assms(2)]]
  from assms show ?thesis
  proof (cases rule: client_step.cases)
    case (dns a)
    then show ?thesis using assms(2) mqtt_dns_found_ok by auto
  next
    case (publish t dt q r ok)
    obtain c' m' k where p: "mqtt_msg_publish (conn_of w) (w_mem w) t dt q r
        (pending_msg_id (mqtt_st (w_client w))) = (c', m', k)" by (metis prod_cases3)
    from client_encoded(1) [OF assms(2) p] set_outbound_id_ok [OF assms(2)]
    have "step_ok e w (set_outbound_id (c', m', k) w) \<and> out_msg_in (set_outbound_id (c', m', k) w)" by blast
    then show ?thesis
      using publish enqueue_step [of e "set_outbound_id (c', m', k) w" w'] step_ok_trans step_ok_inv_step
      by (fastforce simp: MQTT_Publish_def p Let_def step_ok_def split: if_splits)
  next
    case (subscribe t qos ok)
    obtain c' m' k where p: "mqtt_msg_subscribe (conn_of w) (w_mem w) t (uint qos)
        (pending_msg_id (mqtt_st (w_client w))) = (c', m', k)" by (metis prod_cases3)
    from client_encoded(2) [OF assms(2) p] set_outbound_id_ok [OF assms(2)]
    have "step_ok e w (set_outbound_id (c', m', k) w) \<and> out_msg_in (set_outbound_id (c', m', k) w)" by blast
    then show ?thesis
      using subscribe enqueue_step [of e "set_outbound_id (c', m', k) w" w'] step_ok_trans step_ok_inv_step
      by (fastforce simp: MQTT_Subscribe_def p step_ok_def)
  next
    case (unsubscribe t ok)
    obtain c' m' k where p: "mqtt_msg_unsubscribe (conn_of w) (w_mem w) t
        (pending_msg_id (mqtt_st (w_client w))) = (c', m', k)" by (metis prod_cases3)
    from client_encoded(3) [OF assms(2) p] set_outbound_id_ok [OF assms(2)]
    have "step_ok e w (set_outbound_id (c', m', k) w) \<and> out_msg_in (set_outbound_id (c', m', k) w)" by blast
    then show ?thesis
      using unsubscribe enqueue_step [of e "set_outbound_id (c', m', k) w" w'] step_ok_trans step_ok_inv_step
      by (fastforce simp: MQTT_UnSubscribe_def p step_ok_def)
  next
    case (ping ok)
    obtain c' m' where p: "mqtt_msg_pingreq (conn_of w) (w_mem w) = (c', m')" by fastforce
    have "step_ok e w (set_outbound (c', m') w) \<and> out_msg_in (set_outbound (c', m') w)"
      using set_outbound_ok [OF assms(2) client_encoded(4) [OF assms(2) p]] by blast
    then show ?thesis
      using ping enqueue_step [of e "set_outbound (c', m') w" w'] step_ok_trans step_ok_inv_step
      by (fastforce simp: MQTT_Ping_def p Let_def step_ok_def split: if_splits)
  qed (use assms(2,3) in \<open>simp_all add: cor step_ok_inv_step mqtt_tcpclient_recv_ok mqtt_tcpclient_connect_cb_ok
      MQTT_Task_ok MQTT_Connect_ok\<close>)
qed

section \<open>The invariant from initialisation on\<close>

lemma MQTT_InitClient_inv:
  assumes "os_zalloc e (w_mem w) (int MQTT_BUF_SIZE) = (ib, m1)" "os_zalloc e m1 (int MQTT_BUF_SIZE) = (ob, m2)"
    "os_zalloc e m2 QUEUE_BUFFER_SIZE = (rb, m3)" "rb \<noteq> 0" "apart [ib, ob, rb, stack_buf e]"
    "pCon (w_client w) = None" "w' = MQTT_InitClient e i u p k cs w"
  shows "client_inv e w' \<and> queued w' = [] \<and> blocks e w' = [ib, ob, rb, stack_buf e]"
proof -
  obtain q where q: "QUEUE_Init (os_zalloc e) (msgQueue (w_client w)) m2 QUEUE_BUFFER_SIZE = (q, m3)"
    "queue_inv q m3" "queue_msgs q m3 = []" "p_o (q_rb q) = rb" "rb_size (q_rb q) = QUEUE_BUFFER_SIZE"
    using QUEUE_Init_inv [of "os_zalloc e" m2 QUEUE_BUFFER_SIZE rb m3 "msgQueue (w_client w)"] assms(3,4) by auto
  have w': "msgQueue (w_client w') = q" "w_mem w' = m3" "pCon (w_client w') = None"
    "in_buffer (mqtt_st (w_client w')) = ib" "out_buffer (mqtt_st (w_client w')) = ob"
    "in_buffer_length (mqtt_st (w_client w')) = int MQTT_BUF_SIZE"
    "out_buffer_length (mqtt_st (w_client w')) = int MQTT_BUF_SIZE"
    "mqtt_conn (mqtt_st (w_client w')) = mqtt_msg_init ob (of_nat MQTT_BUF_SIZE)"
    using assms q(1) by (auto simp: MQTT_InitClient_def Let_def world_defs)
  show ?thesis
    using assms(5) q w'
    by (simp add: client_inv_def Let_def blocks_def ring_blk_def queued_def mqtt_msg_init_def)
qed

text \<open>
  C7. Memory safety of the MQTT client: after \<open>MQTT_InitConnection\<close> and \<open>MQTT_InitClient\<close> with an
  allocator that hands out non-overlapping blocks, every interleaving of SDK callbacks, timer ticks,
  task runs and public operations up to the deletion of the client keeps the invariant: the queue is
  well formed, the encoder's buffer is the output buffer, the sizes are right, and the client's
  blocks stay where they are, apart from each other and from the connection object.
\<close>

theorem mqtt_client_invariant:
  assumes "os_zalloc e (w_mem w) (int MQTT_BUF_SIZE) = (ib, m1)" "os_zalloc e m1 (int MQTT_BUF_SIZE) = (ob, m2)"
    "os_zalloc e m2 QUEUE_BUFFER_SIZE = (rb, m3)" "rb \<noteq> 0" "apart [ib, ob, rb, stack_buf e]"
    and "alloc_ok e [ib, ob, rb, stack_buf e]"
    and "(client_step e)\<^sup>*\<^sup>* (MQTT_InitClient e i u p k cs (MQTT_InitConnection h pt sec w)) w'"
  shows "client_inv e w' \<and> blocks e w' = [ib, ob, rb, stack_buf e]"
  using assms(7)
proof (induction rule: rtranclp_induct)
  case base
  have m: "w_mem (MQTT_InitConnection h pt sec w) = w_mem w"
    "pCon (w_client (MQTT_InitConnection h pt sec w)) = None"
    by (simp_all add: MQTT_InitConnection_def zero_client_def)
  show ?case
    using MQTT_InitClient_inv [of e "MQTT_InitConnection h pt sec w", unfolded m, OF assms(1-5) refl refl] by blast
next
  case (step y z)
  then show ?case using client_step_ok [OF step(2)] assms(6) by (simp add: inv_step_def)
qed

definition sample_env :: env where
  "sample_env = \<lparr>os_zalloc = (\<lambda>m n. if n = int MQTT_BUF_SIZE
       then (20000 + 2000 * unat (m 0), m(0 := m 0 + 1)) else (60000, m)),
     sizeof_espconn = 40, sizeof_esp_tcp = 24, espconn_port = 1024, espconn_send_result = (\<lambda>_. 0),
     protocol_name = PROTOCOL_NAMEv31, stack_buf = 4000,
     stack_parser = \<lparr>pp_buf = 0, bufSize = 0, dataLen = 0, isEsc = 0, isBegin = 0, pp_callback = None\<rparr>\<rparr>"

definition blank_world :: world where
  "blank_world = \<lparr>w_client = zero_client, w_mem = (\<lambda>_. 0), w_trace = []\<rparr>"

definition sample_world :: world where
  "sample_world =
     MQTT_InitClient sample_env [0x65] None None 20 1 (MQTT_InitConnection [0x68] 1883 0 blank_world)"

lemma sample_alloc:
  "os_zalloc sample_env (w_mem blank_world) (int MQTT_BUF_SIZE) = (20000, (\<lambda>_. 0)(0 := 1))"
  "os_zalloc sample_env ((\<lambda>_. 0)(0 := 1)) (int MQTT_BUF_SIZE) = (22000, (\<lambda>_. 0)(0 := 2))"
  "os_zalloc sample_env ((\<lambda>_. 0)(0 := 2)) QUEUE_BUFFER_SIZE = (24000, (\<lambda>_. 0)(0 := 3))"
  "apart [20000, 22000, 24000, stack_buf sample_env]"
  "alloc_ok sample_env [20000, 22000, 24000, stack_buf sample_env]"
  by (auto simp: alloc_ok_def sample_env_def blank_world_def disjnt_blk_def)

lemma sample_world_inv:
  "client_inv sample_env sample_world \<and> queued sample_world = [] \<and>
   blocks sample_env sample_world = [20000, 22000, 24000, stack_buf sample_env]"
  unfolding sample_world_def
  by (rule MQTT_InitClient_inv [OF _ sample_alloc(2,3) _ sample_alloc(4)])
     (use sample_alloc(1) in \<open>simp_all add: MQTT_InitConnection_def zero_client_def\<close>)

theorem mqtt_client_invariant_witness:
  "client_inv sample_env (mqtt_timer (MQTT_Connect sample_env sample_world))"
proof -
  have "(client_step sample_env)\<^sup>*\<^sup>* sample_world (mqtt_timer (MQTT_Connect sample_env sample_world))"
    by (meson client_step.connect client_step.timer r_into_rtranclp rtranclp.rtrancl_into_rtrancl)
  then show ?thesis
    using mqtt_client_invariant [OF sample_alloc(1-3) _ sample_alloc(4,5)] unfolding sample_world_def by simp
qed

section \<open>Publishing\<close>

lemma publish_outcome:
  assumes "client_inv e w"
    and "body = publish_body (the topic) qos (fresh_id (mc_message_id (conn_of w))) data"
  shows "\<exists>w' ok. MQTT_Publish e topic data qos retain w = Some (w', ok) \<and> client_inv e w' \<and>
    (\<forall>x. outside (blocks e w) x \<longrightarrow> w_mem w' x = w_mem w x) \<and>
    (if str_given topic \<and> 3 + length body \<le> MQTT_BUF_SIZE
     then if ok then w_trace w' = w_trace w @ [Os_post] \<and>
            (\<exists>k \<le> length (queued w).
               queued w' = drop k (queued w) @ [packet MQTT_MSG_TYPE_PUBLISH qos retain body])
          else w_trace w' = w_trace w \<and> queued w' = []
     else \<not> ok \<and> w_trace w' = w_trace w \<and> queued w' = queued w)"
proof -
  obtain c' m' k where p: "mqtt_msg_publish (conn_of w) (w_mem w) topic data qos retain
      (pending_msg_id (mqtt_st (w_client w))) = (c', m', k)" by (metis prod_cases3)
  have B: "unat (mc_buffer_length (conn_of w)) = MQTT_BUF_SIZE" by (rule client_invD(2) [OF assms(1)])
  note out = mqtt_msg_publish_outcome [OF _ _ p assms(2), unfolded B]
  let ?w1 = "set_outbound_id (c', m', k) w"
  have pub: "MQTT_Publish e topic data qos retain w =
      (if mc_length (conn_of ?w1) = 0 then Some (?w1, False) else enqueue_outbound e ?w1)"
    unfolding MQTT_Publish_def p Let_def ..
  show ?thesis
  proof (cases "str_given topic \<and> 3 + length body \<le> MQTT_BUF_SIZE")
    case True
    then have enc: "encoded (conn_of w) (w_mem w) c' m' (Some (packet 3 qos retain body))" using out by simp
    note s1 = set_outbound_id_ok [OF assms(1) enc, of k]
    then have "client_inv e ?w1" "out_msg_in ?w1" by (simp_all add: step_ok_def)
    note eo = enqueue_outbound_ok [OF this]
    have t: "queued ?w1 = queued w" "w_trace ?w1 = w_trace w" "msg_of ?w1 = packet 3 qos retain body"
      using s1 by simp_all
    obtain w' ok where
      q: "enqueue_outbound e ?w1 = Some (w', ok)" "step_ok e ?w1 w'"
        "if ok then w_trace w' = w_trace w @ [Os_post] \<and>
           (\<exists>k \<le> length (queued w). queued w' = drop k (queued w) @ [packet 3 qos retain body])
         else w_trace w' = w_trace w \<and> queued w' = []"
      using eo [unfolded t] by blast
    have "unat (mc_length c') = length (packet 3 qos retain body)" using enc by (simp add: encoded_def)
    then have "mc_length (conn_of ?w1) \<noteq> 0" using s1 by (auto simp: packet_def)
    then have "MQTT_Publish e topic data qos retain w = Some (w', ok)" using pub q(1) by simp
    moreover have "step_ok e w w'" using s1 q(2) step_ok_trans by blast
    ultimately show ?thesis using q(3) True by (auto simp: step_ok_def)
  next
    case False
    then have enc: "encoded (conn_of w) (w_mem w) c' m' None" using out by (simp split: if_splits)
    note s1 = set_outbound_id_ok [OF assms(1) enc, of k]
    then have "MQTT_Publish e topic data qos retain w = Some (?w1, False)"
      using pub enc by (simp add: encoded_def)
    then show ?thesis using s1 False by (auto simp: step_ok_def)
  qed
qed

text \<open>
  C8. \<open>MQTT_Publish\<close> always returns. A message that cannot be encoded is refused with the queue
  untouched. Otherwise it either answers TRUE, and then the queue holds a suffix of the old messages
  followed by exactly the PUBLISH packet of the arguments and the task has been posted, or it answers
  FALSE with the queue emptied. Only the client's own blocks are written.
\<close>

theorem MQTT_Publish_outcome:
  assumes "client_inv e w"
    and "body = publish_body (the topic) qos (fresh_id (mc_message_id (conn_of w))) data"
  shows "\<exists>w' ok. MQTT_Publish e topic data qos retain w = Some (w', ok) \<and> client_inv e w' \<and>
    (\<forall>x. outside (blocks e w) x \<longrightarrow> w_mem w' x = w_mem w x) \<and>
    (if str_given topic \<and> 3 + length body \<le> MQTT_BUF_SIZE
     then if ok then w_trace w' = w_trace w @ [Os_post] \<and>
            (\<exists>k \<le> length (queued w).
               queued w' = drop k (queued w) @ [packet MQTT_MSG_TYPE_PUBLISH qos retain body])
          else w_trace w' = w_trace w \<and> queued w' = []
     else \<not> ok \<and> w_trace w' = w_trace w \<and> queued w' = queued w)"
  by (rule publish_outcome [OF assms])

theorem MQTT_Publish_outcome_witness:
  "\<exists>w' ok. MQTT_Publish sample_env (Some [0x61]) [1, 2] 0 0 sample_world = Some (w', ok) \<and>
     client_inv sample_env w' \<and>
     (if ok then queued w' = [packet 3 0 0 (publish_body [0x61] 0 1 [1, 2])] else queued w' = [])"
proof -
  have "client_inv sample_env sample_world" "queued sample_world = []" using sample_world_inv by simp_all
  from MQTT_Publish_outcome [OF this(1) refl, where topic = "Some [0x61]" and data = "[1, 2]" and qos = 0 and
      retain = 0] this(2)
  obtain w' ok where "MQTT_Publish sample_env (Some [0x61]) [1, 2] 0 0 sample_world = Some (w', ok)"
    "client_inv sample_env w'"
    "if ok then queued w' = [packet 3 0 0 (publish_body [0x61] 0
        (fresh_id (mc_message_id (conn_of sample_world))) [1, 2])] else queued w' = []"
    by (auto simp: str_given_def publish_body_def split: if_splits)
  moreover have "publish_body [0x61] 0 i [1, 2] = publish_body [0x61] 0 1 [1, 2]" for i
    by (simp add: publish_body_def)
  ultimately show ?thesis by metis
qed

section \<open>The task\<close>

lemma QUEUE_IsEmpty_queued: "client_inv e w \<Longrightarrow> QUEUE_IsEmpty (msgQueue (w_client w)) \<Longrightarrow> queued w = []"
  using queue_msgs_empty client_invD(3) by (auto simp: queued_def)

lemma task_send_cases:
  assumes inv: "client_inv e w"
  shows "case queued w of
      [] \<Rightarrow> queued (task_send e w) = [] \<and> w_trace (task_send e w) = w_trace w \<and>
            sendTimeout (w_client (task_send e w)) = sendTimeout (w_client w)
    | a # as \<Rightarrow> queued (task_send e w) = as \<and> sendTimeout (w_client (task_send e w)) = MQTT_SEND_TIMOUT \<and>
            w_trace (task_send e w) = w_trace w @
              (if security (w_client w) \<noteq> 0 then [] else [Espconn_send (take MQTT_BUF_SIZE a)])"
proof -
  note d = client_invD [OF inv]
  obtain q m n ret where g: "QUEUE_Gets (msgQueue (w_client w)) (w_mem w) (stack_parser e) (stack_buf e) 0
      (of_nat MQTT_BUF_SIZE) = (q, m, n, ret)" by (metis prod_cases4)
  have "queue_disj (msgQueue (w_client w)) (stack_buf e) (unat (of_nat MQTT_BUF_SIZE :: u16))"
    using d(4,5) by (auto simp: queue_disj_def blocks_def ring_blk_def disjnt_blk_def)
  note sp = QUEUE_Gets_spec [OF d(3) this g]
  show ?thesis
  proof (cases "queued w")
    case Nil
    then have "ret = -1" "queue_msgs q m = []" using sp(2) by (simp_all add: queued_def)
    then show ?thesis
      unfolding Nil task_send_def g Let_def prod.case by (simp add: upd_client_def queued_def)
  next
    case (Cons a as)
    have "ret = 0 \<and> queue_msgs q m = as \<and> mem_read m (stack_buf e) (unat n) = take MQTT_BUF_SIZE a"
      using sp(3) [OF Cons [unfolded queued_def]] by auto
    then show ?thesis
      unfolding Cons task_send_def g Let_def prod.case
      by (simp add: world_defs queued_def)
  qed
qed

text \<open>
  C9. The task's send discipline in the connected state: it sends only when no send is outstanding
  (\<open>sendTimeout\<close> is 0) and a message is queued; it then hands the oldest queued message to the
  connection, removes it from the queue and marks a send as outstanding for 7 ticks. Otherwise it
  sends nothing and the queued messages stay. (Without SSL support a secured client drops the message.)
\<close>

theorem MQTT_Task_sends_oldest:
  assumes "client_inv e w" "connState (w_client w) = MQTT_DATA"
  shows "if sendTimeout (w_client w) = 0 \<and> queued w \<noteq> []
    then queued (MQTT_Task e w) = tl (queued w) \<and>
      sendTimeout (w_client (MQTT_Task e w)) = MQTT_SEND_TIMOUT \<and>
      w_trace (MQTT_Task e w) = w_trace w @
        (if security (w_client w) \<noteq> 0 then [] else [Espconn_send (take MQTT_BUF_SIZE (hd (queued w)))])
    else queued (MQTT_Task e w) = queued w \<and> w_trace (MQTT_Task e w) = w_trace w \<and>
      sendTimeout (w_client (MQTT_Task e w)) = sendTimeout (w_client w)"
proof (cases "QUEUE_IsEmpty (msgQueue (w_client w)) \<or> sendTimeout (w_client w) \<noteq> 0")
  case True
  then have "MQTT_Task e w = w" using assms(2) by (simp add: MQTT_Task_def)
  then show ?thesis using True QUEUE_IsEmpty_queued [OF assms(1)] by auto
next
  case False
  then have "MQTT_Task e w = task_send e w" using assms(2) by (simp add: MQTT_Task_def)
  then show ?thesis using task_send_cases [OF assms(1)] False by (auto split: list.splits)
qed

theorem MQTT_Task_sends_oldest_witness:
  "w_trace (MQTT_Task sample_env (set_connState MQTT_DATA sample_world)) = w_trace sample_world"
proof -
  let ?w = "set_connState MQTT_DATA sample_world"
  have "client_inv sample_env ?w" "queued ?w = []"
    using sample_world_inv core_inv [where w = sample_world and w' = ?w] by simp_all
  then show ?thesis
    using MQTT_Task_sends_oldest [of sample_env ?w] by (simp add: world_defs)
qed

section \<open>Timers\<close>

text \<open>The four ways a tick can go.\<close>

definition countdown :: "u32 \<Rightarrow> u32" where
  "countdown t = (if 0 < t then t - 1 else t)"

lemma timer_data_tick:
  assumes "connState (w_client v) = MQTT_DATA"
    "\<not> ci_keepalive (connect_info (w_client v)) < keepAliveTick (w_client v) + 1"
  shows "mqtt_timer v =
    v\<lparr>w_client := (w_client v)\<lparr>keepAliveTick := keepAliveTick (w_client v) + 1, sendTimeout := countdown (sendTimeout (w_client v))\<rparr>\<rparr>"
  using assms
  by (cases v; cases "w_client v") (simp add: mqtt_timer_def countdown_def world_defs Let_def)

lemma timer_data_expire:
  assumes "connState (w_client v) = MQTT_DATA"
    "ci_keepalive (connect_info (w_client v)) < keepAliveTick (w_client v) + 1"
  shows "mqtt_timer v = v\<lparr>w_client := (w_client v)\<lparr>keepAliveTick := keepAliveTick (w_client v) + 1,
      connState := MQTT_KEEPALIVE_SEND, sendTimeout := countdown (sendTimeout (w_client v))\<rparr>, w_trace := w_trace v @ [Os_post]\<rparr>"
  using assms
  by (cases v; cases "w_client v") (simp add: mqtt_timer_def countdown_def world_defs Let_def)

lemma timer_recon_tick:
  assumes "connState (w_client v) = TCP_RECONNECT_REQ"
    "\<not> MQTT_RECONNECT_TIMEOUT < reconnectTick (w_client v) + 1"
  shows "mqtt_timer v =
    v\<lparr>w_client := (w_client v)\<lparr>reconnectTick := reconnectTick (w_client v) + 1, sendTimeout := countdown (sendTimeout (w_client v))\<rparr>\<rparr>"
  using assms
  by (cases v; cases "w_client v") (simp add: mqtt_timer_def countdown_def world_defs Let_def)

lemma timer_recon_expire:
  assumes "connState (w_client v) = TCP_RECONNECT_REQ"
    "MQTT_RECONNECT_TIMEOUT < reconnectTick (w_client v) + 1"
  shows "mqtt_timer v = v\<lparr>w_client := (w_client v)\<lparr>reconnectTick := 0, connState := TCP_RECONNECT,
      sendTimeout := countdown (sendTimeout (w_client v))\<rparr>, w_trace := w_trace v @ Os_post # (case timeoutCb (w_client v) of None \<Rightarrow> []
        | Some f \<Rightarrow> [Timeout_cb f])\<rparr>"
  using assms
  by (cases v; cases "w_client v") (simp add: mqtt_timer_def countdown_def world_defs Let_def split: option.splits)

lemma data_ticks:
  assumes "connState (w_client w) = MQTT_DATA" "keepAliveTick (w_client w) = 0"
    "n \<le> unat (ci_keepalive (connect_info (w_client w)))"
  shows "(mqtt_timer ^^ n) w = w\<lparr>w_client := (w_client w)\<lparr>keepAliveTick := of_nat n,
    sendTimeout := (countdown ^^ n) (sendTimeout (w_client w))\<rparr>\<rparr>"
  using assms(3)
proof (induction n)
  case 0
  show ?case by (cases w; cases "w_client w") (use assms(2) in simp)
next
  case (Suc n)
  let ?K = "ci_keepalive (connect_info (w_client w))"
  let ?v = "w\<lparr>w_client := (w_client w)\<lparr>keepAliveTick := of_nat n,
    sendTimeout := (countdown ^^ n) (sendTimeout (w_client w))\<rparr>\<rparr>"
  have v: "(mqtt_timer ^^ n) w = ?v" using Suc by simp
  have "unat ?K < 2 ^ 32" by (rule order_less_le_trans [OF unsigned_less]) simp
  then have "Suc n < 2 ^ 32" using Suc.prems by linarith
  then have "unat (of_nat (Suc n) :: u32) = Suc n" by (intro unat_of_nat_small) simp
  then have "\<not> ?K < of_nat n + 1" using Suc.prems by (simp add: word_less_nat_alt add.commute)
  then have "mqtt_timer ?v = ?v\<lparr>w_client := (w_client ?v)\<lparr>keepAliveTick := keepAliveTick (w_client ?v) + 1,
      sendTimeout := countdown (sendTimeout (w_client ?v))\<rparr>\<rparr>"
    using assms(1) by (intro timer_data_tick) simp_all
  then show ?case by (simp add: v add.commute)
qed

lemma recon_ticks:
  assumes "connState (w_client w) = TCP_RECONNECT_REQ" "reconnectTick (w_client w) = 0" "n \<le> 10"
  shows "(mqtt_timer ^^ n) w = w\<lparr>w_client := (w_client w)\<lparr>reconnectTick := of_nat n,
    sendTimeout := (countdown ^^ n) (sendTimeout (w_client w))\<rparr>\<rparr>"
  using assms(3)
proof (induction n)
  case 0
  show ?case by (cases w; cases "w_client w") (use assms(2) in simp)
next
  case (Suc n)
  let ?v = "w\<lparr>w_client := (w_client w)\<lparr>reconnectTick := of_nat n,
    sendTimeout := (countdown ^^ n) (sendTimeout (w_client w))\<rparr>\<rparr>"
  have v: "(mqtt_timer ^^ n) w = ?v" using Suc by simp
  have "unat (of_nat (Suc n) :: u32) = Suc n" using Suc.prems by (intro unat_of_nat_small) simp
  moreover have "unat (10 :: u32) = 10" by simp
  ultimately have "\<not> 10 < (of_nat n + 1 :: u32)"
    using Suc.prems unfolding word_less_nat_alt by (simp add: add.commute)
  then have "mqtt_timer ?v = ?v\<lparr>w_client := (w_client ?v)\<lparr>reconnectTick := reconnectTick (w_client ?v) + 1,
      sendTimeout := countdown (sendTimeout (w_client ?v))\<rparr>\<rparr>"
    using assms(1) by (intro timer_recon_tick) simp_all
  then show ?case by (simp add: v add.commute)
qed

lemma mqtt_send_keepalive_effect:
  assumes inv: "client_inv e w" and ns: "security (w_client w) = 0"
  shows "w_trace (mqtt_send_keepalive e w) = w_trace w @ [Espconn_send [0xC0, 0], Os_post] \<and>
    connState (w_client (mqtt_send_keepalive e w)) =
      (if espconn_send_result e [0xC0, 0] = 0 then MQTT_DATA else TCP_RECONNECT_DISCONNECTING) \<and>
    sendTimeout (w_client (mqtt_send_keepalive e w)) = MQTT_SEND_TIMOUT \<and>
    (espconn_send_result e [0xC0, 0] = 0 \<longrightarrow> keepAliveTick (w_client (mqtt_send_keepalive e w)) = 0)"
proof -
  obtain c' m' where p: "mqtt_msg_pingreq (conn_of w) (w_mem w) = (c', m')" by fastforce
  let ?w1 = "set_outbound (c', m') w"
  let ?w3 = "upd_client (\<lambda>c. c\<lparr>sendTimeout := MQTT_SEND_TIMOUT\<rparr>)
    (set_pending (mc_data (conn_of ?w1)) (mc_length (conn_of ?w1)) ?w1)"
  have "msg_of ?w1 = packet 12 0 0 []"
    using set_outbound_ok [OF inv client_encoded(4) [OF inv p]] by simp
  also have "packet 12 0 0 [] = [0xC0, 0]" by (simp add: packet_def fixed_header_byte_def enc_len_def)
  finally have m: "msg_of ?w3 = [0xC0, 0]" by (simp add: msg_of_def world_defs)
  have "security (w_client ?w3) = 0" "w_trace ?w3 = w_trace w"
    "sendTimeout (w_client ?w3) = MQTT_SEND_TIMOUT" using ns by (simp_all add: world_defs)
  then show ?thesis
    unfolding mqtt_send_keepalive_def p Let_def m by (simp add: world_defs)
qed

text \<open>
  C10. Keep-alive: a client in \<open>MQTT_DATA\<close> whose counter was just reset stays silent for \<open>keepalive\<close>
  timer ticks; the next tick puts it in \<open>MQTT_KEEPALIVE_SEND\<close> and posts the task, and the task then
  sends a PINGREQ packet (bytes C0 00) and returns to \<open>MQTT_DATA\<close> with the counter reset, or starts a
  reconnect when the connection refuses the packet.
\<close>

theorem mqtt_keepalive_ping:
  assumes "client_inv e w" "connState (w_client w) = MQTT_DATA" "keepAliveTick (w_client w) = 0"
    and "security (w_client w) = 0" "K = unat (ci_keepalive (connect_info (w_client w)))" "Suc K < 2 ^ 32"
  shows "(\<forall>n \<le> K. w_trace ((mqtt_timer ^^ n) w) = w_trace w \<and>
           connState (w_client ((mqtt_timer ^^ n) w)) = MQTT_DATA) \<and>
    (let w1 = (mqtt_timer ^^ Suc K) w; w2 = MQTT_Task e w1 in
       connState (w_client w1) = MQTT_KEEPALIVE_SEND \<and>
       w_trace w2 = w_trace w @ [Os_post, Espconn_send [0xC0, 0], Os_post] \<and>
       connState (w_client w2) =
         (if espconn_send_result e [0xC0, 0] = 0 then MQTT_DATA else TCP_RECONNECT_DISCONNECTING) \<and>
       (espconn_send_result e [0xC0, 0] = 0 \<longrightarrow> keepAliveTick (w_client w2) = 0))"
proof -
  let ?v = "(mqtt_timer ^^ K) w"
  note dt = data_ticks [OF assms(2,3), of K]
  have v: "connState (w_client ?v) = MQTT_DATA" "keepAliveTick (w_client ?v) = of_nat K"
    "w_trace ?v = w_trace w" "connect_info (w_client ?v) = connect_info (w_client w)"
    "security (w_client ?v) = 0"
    using dt assms by simp_all
  have "unat (of_nat (Suc K) :: u32) = Suc K" using assms(6) by (intro unat_of_nat_small) simp
  then have "unat (of_nat K + 1 :: u32) = Suc K" by (simp add: add.commute)
  then have "ci_keepalive (connect_info (w_client ?v)) < keepAliveTick (w_client ?v) + 1"
    using assms(5) v by (simp add: word_less_nat_alt)
  note ex = timer_data_expire [OF v(1) this]
  let ?w1 = "(mqtt_timer ^^ Suc K) w"
  have w1: "?w1 = mqtt_timer ?v" by simp
  have c1: "connState (w_client ?w1) = MQTT_KEEPALIVE_SEND" "security (w_client ?w1) = 0"
    "w_trace ?w1 = w_trace w @ [Os_post]"
    unfolding w1 ex using v by simp_all
  have "core ?w1 = core w"
    by (induction K) simp_all
  then have "client_inv e ?w1" using core_inv(1) assms(1) by blast
  note ka = mqtt_send_keepalive_effect [OF this c1(2)]
  have "MQTT_Task e ?w1 = mqtt_send_keepalive e ?w1" using c1(1) by (simp add: MQTT_Task_def)
  then show ?thesis
    using ka c1 data_ticks [OF assms(2,3)] assms(2,5) by (auto simp: Let_def)
qed

lemma sample_data_world:
  fixes w0 defines "w0 \<equiv> set_connState MQTT_DATA sample_world"
  shows "client_inv sample_env w0" "connState (w_client w0) = MQTT_DATA" "keepAliveTick (w_client w0) = 0"
    "security (w_client w0) = 0" "ci_keepalive (connect_info (w_client w0)) = 20" "queued w0 = []"
    "dataCb (w_client w0) = None"
  using sample_world_inv core_inv [where w = sample_world and w' = w0]
  by (simp_all add: w0_def)
     (simp_all add: sample_world_def MQTT_InitClient_def MQTT_InitConnection_def zero_client_def sample_env_def
      QUEUE_Init_def RINGBUF_Init_def Let_def world_defs)

theorem mqtt_keepalive_ping_witness:
  "w_trace (MQTT_Task sample_env ((mqtt_timer ^^ 21) (set_connState MQTT_DATA sample_world))) =
   w_trace sample_world @ [Os_post, Espconn_send [0xC0, 0], Os_post]"
proof -
  have tr: "w_trace (set_connState MQTT_DATA sample_world) = w_trace sample_world" by (simp add: world_defs)
  have "20 = unat (ci_keepalive (connect_info (w_client (set_connState MQTT_DATA sample_world))))"
    by (simp add: sample_data_world(5))
  from mqtt_keepalive_ping [OF sample_data_world(1-4) this] show ?thesis
    by (simp add: Let_def tr eval_nat_numeral(3) [of num.One, symmetric])
qed

text \<open>
  C11. Reconnection: a client in \<open>TCP_RECONNECT_REQ\<close> waits ten timer ticks; the eleventh puts it in
  \<open>TCP_RECONNECT\<close>, posts the task and calls the timeout callback, and the task then replaces the
  connection object by a new one for the configured port and starts a connection attempt, by address
  or by name.
\<close>

theorem mqtt_reconnect:
  assumes "connState (w_client w) = TCP_RECONNECT_REQ" "reconnectTick (w_client w) = 0"
    and "security (w_client w) = 0"
  shows "(\<forall>n \<le> 10. w_trace ((mqtt_timer ^^ n) w) = w_trace w \<and>
           connState (w_client ((mqtt_timer ^^ n) w)) = TCP_RECONNECT_REQ) \<and>
    (let w1 = (mqtt_timer ^^ 11) w; w2 = MQTT_Task e w1 in
       connState (w_client w1) = TCP_RECONNECT \<and>
       w_trace w1 = w_trace w @ Os_post #
         (case timeoutCb (w_client w) of None \<Rightarrow> [] | Some f \<Rightarrow> [Timeout_cb f]) \<and>
       connState (w_client w2) = TCP_CONNECTING \<and> reconnectTick (w_client w2) = 0 \<and>
       (\<exists>con. pCon (w_client w2) = Some con \<and> remote_port con = port (w_client w)) \<and>
       last (w_trace w2) \<in> {Espconn_connect, Espconn_gethostbyname (host (w_client w))})"
proof -
  let ?v = "(mqtt_timer ^^ 10) w"
  note rt = recon_ticks [OF assms(1,2)]
  have v: "connState (w_client ?v) = TCP_RECONNECT_REQ" "reconnectTick (w_client ?v) = 10"
    "w_trace ?v = w_trace w" "timeoutCb (w_client ?v) = timeoutCb (w_client w)"
    "port (w_client ?v) = port (w_client w)" "host (w_client ?v) = host (w_client w)"
    "security (w_client ?v) = 0"
    using rt [of 10] assms by simp_all
  have "(10 :: u32) < reconnectTick (w_client ?v) + 1" by (simp add: v)
  note ex = timer_recon_expire [OF v(1) this]
  let ?w1 = "mqtt_timer ?v"
  have w1: "(mqtt_timer ^^ 11) w = ?w1" using funpow_swap1 [of mqtt_timer 10 w] by (simp add: numeral_eq_Suc)
  have c1: "connState (w_client ?w1) = TCP_RECONNECT" "security (w_client ?w1) = 0"
    "port (w_client ?w1) = port (w_client w)" "host (w_client ?w1) = host (w_client w)"
    "w_trace ?w1 = w_trace w @ Os_post # (case timeoutCb (w_client w) of None \<Rightarrow> [] | Some f \<Rightarrow> [Timeout_cb f])"
    unfolding ex using v by simp_all
  let ?d = "mqtt_tcpclient_delete ?w1"
  have d: "pCon (w_client ?d) = None" "security (w_client ?d) = 0" "port (w_client ?d) = port (w_client w)"
    "host (w_client ?d) = host (w_client w)"
    using c1 by (simp_all add: mqtt_tcpclient_delete_def world_defs)
  have "MQTT_Task e ?w1 = set_connState TCP_CONNECTING (MQTT_Connect e ?d)"
    using c1(1) by (simp add: MQTT_Task_def)
  moreover have "reconnectTick (w_client (MQTT_Connect e ?d)) = 0 \<and>
      (\<exists>con. pCon (w_client (MQTT_Connect e ?d)) = Some con \<and> remote_port con = port (w_client w)) \<and>
      last (w_trace (MQTT_Connect e ?d)) \<in> {Espconn_connect, Espconn_gethostbyname (host (w_client w))}"
    using d by (auto simp: MQTT_Connect_def Let_def world_defs split: prod.split)
  ultimately show ?thesis
    unfolding Let_def w1 using c1 rt assms(1) by (simp add: world_defs)
qed

theorem mqtt_reconnect_witness:
  "connState (w_client (MQTT_Task sample_env ((mqtt_timer ^^ 11)
     (mqtt_tcpclient_recon_cb sample_world)))) = TCP_CONNECTING"
proof -
  let ?w = "mqtt_tcpclient_recon_cb sample_world"
  have "connState (w_client ?w) = TCP_RECONNECT_REQ" "reconnectTick (w_client ?w) = 0"
    "security (w_client ?w) = 0"
    by (simp_all add: mqtt_tcpclient_recon_cb_def sample_world_def MQTT_InitClient_def MQTT_InitConnection_def
        zero_client_def sample_env_def QUEUE_Init_def RINGBUF_Init_def Let_def world_defs)
  from mqtt_reconnect [OF this] show ?thesis by (simp add: Let_def)
qed

end
