(* ===== verification/Mqtt_Client_Recv.thy ===== *)
theory Mqtt_Client_Recv
  imports Mqtt_Client_Props
begin

text \<open>
  Received TCP segments: PUBLISH packets that share a segment are delivered one by one, QoS 1 and 2
  messages are acknowledged with their own identifier, and the one shape of length field on which
  the receive loop never ends.
\<close>

section \<open>One PUBLISH packet at the front of the data\<close>

definition data_call :: "world \<Rightarrow> u8 list \<Rightarrow> u8 list \<Rightarrow> action list" where
  "data_call w t d = (case dataCb (w_client w) of None \<Rightarrow> []
     | Some f \<Rightarrow> [Data_cb f (Some t) (of_nat (length t)) (Some d) (of_nat (length d))])"

lemma deliver_publish_packet:
  assumes p: "pkt_at (w_mem w) b (unat len) 3 q r (publish_body t q i d)" and "t \<noteq> []" "d \<noteq> []"
  shows "deliver_publish b len w = emit (data_call w t d) w"
proof -
  obtain a1 where t: "mqtt_get_publish_topic (w_mem w) b len = (Some a1, of_nat (length t))"
    "mem_read (w_mem w) a1 (length t) = t" using mqtt_get_publish_topic_packet [OF p assms(2)] by blast
  obtain a2 where d: "mqtt_get_publish_data (w_mem w) b len = (Some a2, of_nat (length d))"
    "mem_read (w_mem w) a2 (length d) = d" using mqtt_get_publish_data_packet [OF p assms(3)] by blast
  have "length t < 65536" "length d < 65536"
    using p by (simp_all add: pkt_at_def publish_body_def)
  then have "unat (of_nat (length t) :: u16) = length t" "unat (of_nat (length d) :: u16) = length d"
    by (simp_all add: unat_of_nat_small)
  then show ?thesis
    using t d by (simp add: deliver_publish_def deref_def call_cb_def data_call_def emit_def split: option.split)
qed

text \<open>The store after the copy into the input buffer, and the fields the code computes from it.\<close>

lemma recv_copy:
  assumes "pdata = packet 3 q r (publish_body t q i d) @ rest" "length pdata < MQTT_BUF_SIZE"
    "q \<in> {0, 1, 2}" "r \<in> {0, 1}" "m = mem_write m0 ib pdata" "len = of_nat (length pdata)"
  shows "pkt_at m ib (unat len) 3 q r (publish_body t q i d)"
    "pkt_at m ib MQTT_BUF_SIZE 3 q r (publish_body t q i d)" "unat len = length pdata"
    "unat (ucast (mqtt_get_total_length m ib len) :: u16) = length (packet 3 q r (publish_body t q i d))"
proof -
  let ?p = "packet 3 q r (publish_body t q i d)"
  show len: "unat len = length pdata" using assms(2) unfolding assms(6) by (intro unat_of_nat_small) simp
  have "holds m ib pdata" by (simp add: holds_def assms(5))
  then have h: "holds m ib ?p" using assms(1) by (simp add: holds_append)
  have "length (publish_body t q i d) \<le> length ?p" by (simp add: length_packet)
  then show p: "pkt_at m ib (unat len) 3 q r (publish_body t q i d)"
    and "pkt_at m ib MQTT_BUF_SIZE 3 q r (publish_body t q i d)"
    using assms(1-4) h len by (auto simp: pkt_at_def)
  have "length ?p < 2 ^ 16" using assms(1,2) by simp
  then show "unat (ucast (mqtt_get_total_length m ib len) :: u16) = length ?p"
    by (simp add: mqtt_get_total_length_packet [OF p] unsigned_ucast_eq unsigned_of_nat take_bit_nat_eq_self)
qed

lemma recv_packet_data:
  assumes "connState (w_client w) = MQTT_DATA" and "ib = in_buffer (mqtt_st (w_client w))"
    and "m = mem_write (w_mem w) ib pdata"
    and "w1 = upd_state (\<lambda>s. s\<lparr>message_length_read := of_nat (length pdata),
      message_length := ucast (mqtt_get_total_length m ib (of_nat (length pdata)))\<rparr>) (w\<lparr>w_mem := m\<rparr>)"
    and "w2 = recv_dispatch (mqtt_get_type m ib) (mqtt_get_qos m ib)
      (mqtt_get_id m ib (word_of_int (in_buffer_length (mqtt_st (w_client w))))) w1"
    and "s2 = mqtt_st (w_client w2)"
  shows "recv_packet pdata w = (w2,
    if mqtt_get_type m ib = MQTT_MSG_TYPE_PUBLISH \<and> message_length s2 < message_length_read s2
    then Some (drop (unat (message_length s2)) pdata) else None)"
  using assms(1) unfolding assms(2-6) by (auto simp: recv_packet_def Let_def)

lemma recv_packet_publish0:
  assumes st: "connState (w_client w) = MQTT_DATA"
    and pd: "pdata = packet 3 0 r (publish_body t 0 i d) @ rest" and len: "length pdata < MQTT_BUF_SIZE"
    and ne: "t \<noteq> []" "d \<noteq> []" and r: "r \<in> {0, 1}"
  shows "\<exists>w1. recv_packet pdata w = (w1, if rest = [] then None else Some rest) \<and>
    w_trace w1 = w_trace w @ data_call w t d \<and> connState (w_client w1) = MQTT_DATA \<and>
    dataCb (w_client w1) = dataCb (w_client w) \<and> msgQueue (w_client w1) = msgQueue (w_client w)"
proof -
  define ib where "ib = in_buffer (mqtt_st (w_client w))"
  define m where "m = mem_write (w_mem w) ib pdata"
  define len where "len = (of_nat (length pdata) :: u16)"
  have q: "(0 :: int) \<in> {0, 1, 2}" by simp
  note rc = recv_copy [OF pd len q r m_def len_def]
  note h = pkt_at_header [OF rc(1)]
  define w1 where "w1 = upd_state (\<lambda>s. s\<lparr>message_length_read := of_nat (length pdata),
      message_length := ucast (mqtt_get_total_length m ib (of_nat (length pdata)))\<rparr>) (w\<lparr>w_mem := m\<rparr>)"
  have f: "w_mem w1 = m" "in_buffer (mqtt_st (w_client w1)) = ib"
    "message_length_read (mqtt_st (w_client w1)) = len"
    "message_length (mqtt_st (w_client w1)) = ucast (mqtt_get_total_length m ib len)"
    "connState (w_client w1) = MQTT_DATA" "dataCb (w_client w1) = dataCb (w_client w)"
    "msgQueue (w_client w1) = msgQueue (w_client w)" "w_trace w1 = w_trace w"
    using st by (simp_all add: w1_def world_defs ib_def len_def)
  have dp: "deliver_publish ib len w1 = emit (data_call w t d) w1"
    using deliver_publish_packet [of w1 ib len 0 r t i d] rc(1) ne by (simp add: f data_call_def)
  have w2: "emit (data_call w t d) w1 = recv_dispatch (mqtt_get_type m ib) (mqtt_get_qos m ib)
      (mqtt_get_id m ib (word_of_int (in_buffer_length (mqtt_st (w_client w))))) w1"
    unfolding recv_dispatch_def Let_def h by (simp add: f dp)
  have s2: "mqtt_st (w_client (emit (data_call w t d) w1)) = mqtt_st (w_client w1)" by (simp add: emit_def)
  have ml: "unat (message_length (mqtt_st (w_client w1))) = length (packet 3 0 r (publish_body t 0 i d))"
    unfolding f(4) by (rule rc(4))
  have "message_length (mqtt_st (w_client w1)) < len \<longleftrightarrow> rest \<noteq> []"
    unfolding word_less_nat_alt ml rc(3) pd by simp
  then have "recv_packet pdata w = (emit (data_call w t d) w1, if rest = [] then None else Some rest)"
    using recv_packet_data [OF st ib_def m_def w1_def w2 s2 [symmetric]] h(1)
    by (simp add: f(3) ml pd)
  then show ?thesis using f by (simp add: emit_def)
qed

section \<open>Segments\<close>

definition publish0 :: "int \<times> u8 list \<times> u8 list \<Rightarrow> u8 list" where
  "publish0 x = (case x of (r, t, d) \<Rightarrow> packet MQTT_MSG_TYPE_PUBLISH 0 r (publish_body t 0 0 d))"

definition deliverable :: "int \<times> u8 list \<times> u8 list \<Rightarrow> bool" where
  "deliverable x = (case x of (r, t, d) \<Rightarrow> r \<in> {0, 1} \<and> t \<noteq> [] \<and> d \<noteq> [])"

lemma publish0_not_Nil: "publish0 x \<noteq> []"
  by (cases x) (simp add: publish0_def packet_def)

lemma recv_loop_stream:
  assumes "xs \<noteq> []" "list_all deliverable xs" "length (concat (map publish0 xs)) < MQTT_BUF_SIZE"
    "connState (w_client w) = MQTT_DATA"
  shows "\<exists>w'. recv_loop (concat (map publish0 xs)) w = Some w' \<and>
    w_trace w' = w_trace w @ concat (map (\<lambda>(r, t, d). data_call w t d) xs) \<and>
    connState (w_client w') = MQTT_DATA \<and> msgQueue (w_client w') = msgQueue (w_client w)"
  using assms
proof (induction xs arbitrary: w)
  case (Cons x xs)
  obtain r t d where x: "x = (r, t, d)" by (cases x)
  have dl: "r \<in> {0, 1}" "t \<noteq> []" "d \<noteq> []" using Cons.prems(2) by (auto simp: x deliverable_def)
  let ?pd = "concat (map publish0 (x # xs))" and ?rest = "concat (map publish0 xs)"
  have pd: "?pd = packet 3 0 r (publish_body t 0 0 d) @ ?rest" by (simp add: x publish0_def)
  have ne: "?rest = [] \<longleftrightarrow> xs = []" using publish0_not_Nil by (cases xs) auto
  obtain w1 where w1: "recv_packet ?pd w = (w1, if ?rest = [] then None else Some ?rest)"
    "w_trace w1 = w_trace w @ data_call w t d" "connState (w_client w1) = MQTT_DATA"
    "dataCb (w_client w1) = dataCb (w_client w)" "msgQueue (w_client w1) = msgQueue (w_client w)"
    using recv_packet_publish0 [OF Cons.prems(4) pd Cons.prems(3) dl(2,3,1)] by blast
  have step: "recv_loop ?pd w = (if xs = [] then Some w1 else recv_loop ?rest w1)"
    using Cons.prems(3) w1(1) ne publish0_not_Nil [of x] by (subst recv_loop.simps) simp
  show ?case
  proof (cases "xs = []")
    case True
    then show ?thesis using step w1 by (simp add: x)
  next
    case False
    have dc: "data_call w1 = data_call w" by (simp add: fun_eq_iff data_call_def w1(4))
    from Cons.IH [of w1] False Cons.prems w1(3) obtain w' where
      "recv_loop ?rest w1 = Some w'" "w_trace w' = w_trace w1 @ concat (map (\<lambda>(r, t, d). data_call w1 t d) xs)"
      "connState (w_client w') = MQTT_DATA" "msgQueue (w_client w') = msgQueue (w_client w1)"
      by auto
    then show ?thesis using step False w1(2,5) by (simp add: x dc)
  qed
qed simp



section \<open>Acknowledgements\<close>

lemma queue_response_fields:
  "mqtt_st (w_client (queue_response r w)) = (mqtt_st (w_client w))\<lparr>mqtt_conn := fst r, outbound_message := True\<rparr>"
  "dataCb (w_client (queue_response r w)) = dataCb (w_client w)"
  "w_trace (queue_response r w) = w_trace w"
  by (simp_all add: queue_response_def Let_def world_defs split: prod.split)

lemma queue_response_in_buffer:
  assumes inv: "client_inv e w" and enc: "encoded (conn_of w) (w_mem w) c' m' (Some bs)"
    and x: "in_buffer (mqtt_st (w_client w)) \<le> x" "x < in_buffer (mqtt_st (w_client w)) + MQTT_BUF_SIZE"
  shows "w_mem (queue_response (c', m') w) x = w_mem w x"
proof -
  let ?w1 = "set_outbound (c', m') w"
  note so = set_outbound_ok [OF inv enc]
  then have inv1: "client_inv e ?w1" and om: "out_msg_in ?w1" by (simp_all add: step_ok_def)
  note d = client_invD [OF inv1] and d0 = client_invD [OF inv]
  obtain q m ret where put: "QUEUE_Puts (msgQueue (w_client ?w1)) (w_mem ?w1) (mc_data (conn_of ?w1))
      (mc_length (conn_of ?w1)) = (q, m, ret)" by (metis prod_cases3)
  have dis: "queue_disj (msgQueue (w_client ?w1)) (mc_data (conn_of ?w1)) (unat (mc_length (conn_of ?w1)))"
    using om d(4,5) by (auto simp: out_msg_in_def queue_disj_def blocks_def ring_blk_def disjnt_blk_def)
  have q1: "msgQueue (w_client ?w1) = msgQueue (w_client w)" "w_mem ?w1 = m'" by (simp_all add: world_defs)
  have "m x = m' x"
    using QUEUE_Puts_spec(1) [OF d(3) dis put] x d0(4,5)
    by (auto simp: q1 same_outside_def blocks_def ring_blk_def disjnt_blk_def)
  moreover have "m' x = w_mem w x"
    using enc x d0(1,2,5) by (auto simp: encoded_def kept_def same_outside_def blocks_def disjnt_blk_def)
  ultimately show ?thesis by (simp add: queue_response_def Let_def put upd_client_def)
qed

text \<open>The client after a segment has been copied into its input buffer.\<close>

definition landed :: "u8 list \<Rightarrow> world \<Rightarrow> world" where
  "landed pdata w =
     (let ib = in_buffer (mqtt_st (w_client w)); m = mem_write (w_mem w) ib pdata in
      upd_state (\<lambda>s. s\<lparr>message_length_read := of_nat (length pdata),
        message_length := ucast (mqtt_get_total_length m ib (of_nat (length pdata)))\<rparr>) (w\<lparr>w_mem := m\<rparr>))"

lemma landed_fields:
  "w_mem (landed pdata w) = mem_write (w_mem w) (in_buffer (mqtt_st (w_client w))) pdata"
  "in_buffer (mqtt_st (w_client (landed pdata w))) = in_buffer (mqtt_st (w_client w))"
  "message_length_read (mqtt_st (w_client (landed pdata w))) = of_nat (length pdata)"
  "message_length (mqtt_st (w_client (landed pdata w))) = ucast (mqtt_get_total_length
     (mem_write (w_mem w) (in_buffer (mqtt_st (w_client w))) pdata) (in_buffer (mqtt_st (w_client w))) (of_nat (length pdata)))"
  "dataCb (w_client (landed pdata w)) = dataCb (w_client w)" "w_trace (landed pdata w) = w_trace w"
  "msgQueue (w_client (landed pdata w)) = msgQueue (w_client w)"
  by (simp_all add: landed_def world_defs Let_def)

lemma landed_ok:
  assumes inv: "client_inv e w" and len: "length pdata < MQTT_BUF_SIZE"
  shows "client_inv e (landed pdata w)" "queued (landed pdata w) = queued w"
proof -
  let ?m = "mem_write (w_mem w) (in_buffer (mqtt_st (w_client w))) pdata"
  have "same_outside (w_mem w) ?m (in_buffer (mqtt_st (w_client w))) MQTT_BUF_SIZE"
    using len by (intro same_outside_write) simp_all
  from write_block_ok [OF inv this, of "w\<lparr>w_mem := ?m\<rparr>"]
  have "step_ok e w (w\<lparr>w_mem := ?m\<rparr>)" "queued (w\<lparr>w_mem := ?m\<rparr>) = queued w" by simp_all
  moreover have "core (landed pdata w) = core (w\<lparr>w_mem := ?m\<rparr>)" by (simp add: landed_def Let_def)
  ultimately show "client_inv e (landed pdata w)" "queued (landed pdata w) = queued w"
    using core_inv [of "landed pdata w" "w\<lparr>w_mem := ?m\<rparr>"] by (simp_all add: step_ok_def)
qed

text \<open>Queueing the response leaves the packet in the input buffer, from where it is then delivered.\<close>

lemma respond_then_deliver:
  assumes inv: "client_inv e w" and enc: "encoded (conn_of w) (w_mem w) c' m' (Some bs)"
    and ib: "ib = in_buffer (mqtt_st (w_client w))" and ne: "t \<noteq> []" "d \<noteq> []"
    and p: "pkt_at (w_mem w) ib (unat l) 3 q r (publish_body t q i d)"
    and len: "length (packet 3 q r (publish_body t q i d)) \<le> MQTT_BUF_SIZE"
  shows "deliver_publish ib l (queue_response (c', m') w) = emit (data_call w t d) (queue_response (c', m') w)"
proof -
  let ?w2 = "queue_response (c', m') w"
  have "w_mem ?w2 x = w_mem w x" if "ib \<le> x" "x < ib + MQTT_BUF_SIZE" for x
    using queue_response_in_buffer [OF inv enc, of x] that ib by simp
  then have "mem_read (w_mem ?w2) ib (length (packet 3 q r (publish_body t q i d))) =
      mem_read (w_mem w) ib (length (packet 3 q r (publish_body t q i d)))"
    using len by (intro mem_read_cong) simp
  then have "pkt_at (w_mem ?w2) ib (unat l) 3 q r (publish_body t q i d)" using p by (simp add: pkt_at_def holds_def)
  from deliver_publish_packet [OF this ne] show ?thesis by (simp add: data_call_def queue_response_fields)
qed

lemma response_encoded:
  assumes inv: "client_inv e w" and i: "i \<noteq> 0"
    and f: "f = (if q = (1 :: int) then mqtt_msg_puback else mqtt_msg_pubrec)" "f (conn_of w) (w_mem w) i = (c', m')"
    and ack: "ack = packet (if q = 1 then MQTT_MSG_TYPE_PUBACK else MQTT_MSG_TYPE_PUBREC) 0 0 (be16 (unat i))"
  shows "encoded (conn_of w) (w_mem w) c' m' (Some ack)"
  using ack_message_outcome [of "conn_of w" _ 0 "w_mem w" i c' m', OF _ _ refl] client_invD(2) [OF inv] f i
  by (auto simp: ack mqtt_msg_puback_def mqtt_msg_pubrec_def split: if_splits)

text \<open>
  C13. QoS 1 and 2: a PUBLISH packet with QoS 1 (2) and a nonzero identifier, alone in a segment of
  fewer than 1792 bytes, is delivered to the data callback, and a PUBACK (PUBREC) packet with the
  same identifier is appended to the queue if its frame fits in the free space; if not, the queued
  messages are unchanged and no acknowledgement will be sent.
\<close>

theorem mqtt_recv_acknowledges:
  assumes inv: "client_inv e w" and st: "connState (w_client w) = MQTT_DATA"
    and q: "q \<in> {1, 2}" and r: "r \<in> {0, 1}" and i: "i \<noteq> 0" and ne: "t \<noteq> []" "d \<noteq> []"
    and pd: "pdata = packet MQTT_MSG_TYPE_PUBLISH q r (publish_body t q i d)"
    and len: "length pdata < MQTT_BUF_SIZE"
    and ack: "ack = packet (if q = 1 then MQTT_MSG_TYPE_PUBACK else MQTT_MSG_TYPE_PUBREC) 0 0 (be16 (unat i))"
  shows "\<exists>w'. mqtt_tcpclient_recv pdata w = Some w' \<and> client_inv e w' \<and>
    w_trace w' = w_trace w @ data_call w t d @ [Os_post] \<and>
    queued w' = (if queue_room w ack then queued w @ [ack] else queued w)"
proof -
  define wk where "wk = upd_client (\<lambda>c. c\<lparr>keepAliveTick := 0\<rparr>) w"
  define ib where "ib = in_buffer (mqtt_st (w_client wk))"
  define m where "m = mem_write (w_mem wk) ib pdata"
  define l where "l = (of_nat (length pdata) :: u16)"
  define w1 where "w1 = landed pdata wk"
  define f where "f = (if q = 1 then mqtt_msg_puback else mqtt_msg_pubrec)"
  have sk: "connState (w_client wk) = MQTT_DATA" "dataCb (w_client wk) = dataCb (w_client w)" "w_trace wk = w_trace w"
      "msgQueue (w_client wk) = msgQueue (w_client w)"
    using st by (simp_all add: wk_def upd_client_def)
  have kc: "core wk = core w" by (simp add: wk_def)
  have invk: "client_inv e wk" using core_inv(1) [OF kc] inv by simp
  note w1f = landed_fields [of pdata wk, folded ib_def, folded m_def l_def w1_def]
  note w1ok = landed_ok [OF invk len, folded w1_def]
  have rc: "pkt_at m ib (unat l) 3 q r (publish_body t q i d)"
    "pkt_at m ib MQTT_BUF_SIZE 3 q r (publish_body t q i d)" "unat l = length pdata"
    "unat (ucast (mqtt_get_total_length m ib l) :: u16) = length pdata"
    using recv_copy [of pdata q r t i d "[]" m "w_mem wk" ib l] pd len q r m_def l_def by auto
  have il: "in_buffer_length (mqtt_st (w_client wk)) = 1792" using invk by (simp add: client_inv_def Let_def)
  have "mqtt_get_id m ib (of_nat MQTT_BUF_SIZE) = i"
    using rc(2) q len pd by (intro mqtt_get_id_publish_packet) auto
  then have id: "mqtt_get_id m ib (word_of_int (in_buffer_length (mqtt_st (w_client wk)))) = i" by (simp add: il)
  obtain c' m' where fr: "f (conn_of w1) (w_mem w1) i = (c', m')" by fastforce
  define w2 where "w2 = queue_response (c', m') w1"
  note enc = response_encoded [OF w1ok(1) i f_def fr ack]
  note qr = queue_response_ok [OF w1ok(1) enc, folded w2_def]
  have w2f: "in_buffer (mqtt_st (w_client w2)) = ib" "message_length_read (mqtt_st (w_client w2)) = l"
    "message_length (mqtt_st (w_client w2)) = ucast (mqtt_get_total_length m ib l)" "w_trace w2 = w_trace w"
    by (simp_all add: w2_def queue_response_fields w1f sk)
  let ?w3 = "emit (data_call w t d) w2"
  have dp: "deliver_publish ib l w2 = ?w3"
    using respond_then_deliver [OF w1ok(1) enc _ ne, of ib l q r i] rc(1) w1f len pd
    by (simp add: w2_def data_call_def sk)
  have w3: "?w3 = recv_dispatch (mqtt_get_type m ib) (mqtt_get_qos m ib)
      (mqtt_get_id m ib (word_of_int (in_buffer_length (mqtt_st (w_client wk))))) w1"
    unfolding recv_dispatch_def Let_def pkt_at_header [OF rc(1)] id using q w2f dp fr by (auto simp: w2_def f_def)
  have s3: "mqtt_st (w_client w2) = mqtt_st (w_client ?w3)" by (simp add: emit_def)
  have w1: "w1 = upd_state (\<lambda>s. s\<lparr>message_length_read := of_nat (length pdata),
      message_length := ucast (mqtt_get_total_length m ib (of_nat (length pdata)))\<rparr>) (wk\<lparr>w_mem := m\<rparr>)"
    by (simp add: w1_def landed_def Let_def m_def ib_def)
  have "\<not> message_length (mqtt_st (w_client w2)) < message_length_read (mqtt_st (w_client w2))"
    unfolding w2f word_less_nat_alt rc(3,4) by simp
  then have "recv_packet pdata wk = (?w3, None)" using recv_packet_data [OF sk(1) ib_def m_def w1 w3 s3] by simp
  then have "recv_loop pdata wk = Some ?w3" using len by (subst recv_loop.simps) (simp add: pd packet_def)
  then have res: "mqtt_tcpclient_recv pdata w = Some (emit [Os_post] ?w3)"
    by (simp add: mqtt_tcpclient_recv_def wk_def [symmetric])
  have "core (emit [Os_post] ?w3) = core w2" by simp
  from core_inv [OF this] show ?thesis
    unfolding res using qr w1ok(2) core_inv(3) [OF kc] by (simp add: step_ok_def w2f emit_def queue_room_def w1f sk)
qed

theorem mqtt_recv_acknowledges_witness:
  "\<exists>w'. mqtt_tcpclient_recv (packet 3 1 0 (publish_body [0x61] 1 5 [9])) (set_connState MQTT_DATA sample_world) =
       Some w' \<and> queued w' = [packet 4 0 0 (be16 5)]"
proof -
  let ?w = "set_connState MQTT_DATA sample_world"
  have fill: "fill_cnt (q_rb (msgQueue (w_client ?w))) = 0"
    by (simp add: sample_world_def MQTT_InitClient_def MQTT_InitConnection_def zero_client_def sample_env_def
        QUEUE_Init_def RINGBUF_Init_def Let_def world_defs)
  have "length (frame (packet 4 0 0 (be16 5))) \<le> 10"
    by (simp add: frame_def stuff_def esc_def is_ctl_def packet_def fixed_header_byte_def enc_len_def be16_def)
  then have room: "queue_room ?w (packet 4 0 0 (be16 5))" by (simp add: queue_room_def fill)
  from mqtt_recv_acknowledges [OF sample_data_world(1,2), of 1 0 5 "[0x61]" "[9]", OF _ _ _ _ _ refl _ refl]
    sample_data_world(6) room show ?thesis
    by (auto simp: packet_def enc_len_def publish_body_def)
qed

section \<open>A length field that stops progress\<close>

text \<open>
  The four bytes 30 FC FF 03: a PUBLISH header whose remaining length 65532 makes the packet 65536
  bytes long, which is 0 in the \<open>uint16_t\<close> \<open>message_length\<close>; the loop then steps over 0 bytes.
\<close>

lemma recv_packet_zero_length:
  assumes "connState (w_client w) = MQTT_DATA"
  shows "\<exists>w1. recv_packet [0x30, 0xFC, 0xFF, 3] w = (w1, Some [0x30, 0xFC, 0xFF, 3]) \<and>
    connState (w_client w1) = MQTT_DATA"
proof -
  let ?pd = "[0x30, 0xFC, 0xFF, 3] :: u8 list"
  define ib where "ib = in_buffer (mqtt_st (w_client w))"
  define m where "m = mem_write (w_mem w) ib ?pd"
  have mb: "m ib = 0x30" "m (ib + 1) = 0xFC" "m (ib + 2) = 0xFF" "m (ib + 3) = 3"
    by (simp_all add: m_def mem_write_def)
  have h: "mqtt_get_type m ib = 3" "mqtt_get_qos m ib = 0"
    by (simp_all add: mqtt_get_type_def mqtt_get_qos_def mb)
  have four: "unat (of_nat (length ?pd) :: u16) = 4" by simp
  have "remlen_loop m ib 4 1 0 = remlen_loop m ib 4 (Suc 1) 124"
    by (subst remlen_loop.simps) (use mb(2) in simp)
  note s1 = this [unfolded Suc_1]
  have s2: "remlen_loop m ib 4 2 124 = remlen_loop m ib 4 3 16380"
    by (subst remlen_loop.simps) (use mb(3) in simp)
  have s3: "remlen_loop m ib 4 3 16380 = (4, 65532)"
    by (subst remlen_loop.simps) (use mb(4) in simp)
  have "mqtt_get_total_length m ib (of_nat (length ?pd)) = 65536"
    unfolding mqtt_get_total_length_def four s1 s2 s3 by simp
  then have tl: "(ucast (mqtt_get_total_length m ib (of_nat (length ?pd))) :: u16) = 0" by simp
  define w1 where "w1 = upd_state (\<lambda>s. s\<lparr>message_length_read := of_nat (length ?pd),
      message_length := ucast (mqtt_get_total_length m ib (of_nat (length ?pd)))\<rparr>) (w\<lparr>w_mem := m\<rparr>)"
  define w2 where "w2 = recv_dispatch (mqtt_get_type m ib) (mqtt_get_qos m ib)
      (mqtt_get_id m ib (word_of_int (in_buffer_length (mqtt_st (w_client w))))) w1"
  have "mqtt_st (w_client w2) = mqtt_st (w_client w1) \<and> connState (w_client w2) = connState (w_client w1)"
    unfolding w2_def h recv_dispatch_def Let_def
    by (simp add: deliver_publish_def call_cb_def emit_def split: prod.split option.split)
  moreover have "message_length (mqtt_st (w_client w1)) = 0" "message_length_read (mqtt_st (w_client w1)) = 4"
    "connState (w_client w1) = MQTT_DATA"
    using assms tl by (simp_all add: w1_def world_defs)
  ultimately show ?thesis
    using recv_packet_data [OF assms ib_def m_def w1_def w2_def refl] h(1) by simp
qed

lemma mqtt_recv_never_returns:
  assumes "connState (w_client w) = MQTT_DATA"
  shows "mqtt_tcpclient_recv [0x30, 0xFC, 0xFF, 3] w = None"
proof -
  have "recv_loop [0x30, 0xFC, 0xFF, 3] v = Some y \<Longrightarrow> connState (w_client v) \<noteq> MQTT_DATA" for v y
  proof -
    assume r: "recv_loop [0x30, 0xFC, 0xFF, 3] v = Some y"
    have "[0x30, 0xFC, 0xFF, 3] = ([0x30, 0xFC, 0xFF, 3] :: u8 list) \<longrightarrow> connState (w_client v) \<noteq> MQTT_DATA"
    proof (rule recv_loop.raw_induct [where P = "\<lambda>pd v y. pd = [0x30, 0xFC, 0xFF, 3] \<longrightarrow>
          connState (w_client v) \<noteq> MQTT_DATA", OF _ r], intro impI notI)
      fix rec pd u z
      assume ih: "\<And>pd u z. rec pd u = Some z \<Longrightarrow> pd = [0x30, 0xFC, 0xFF, 3] \<longrightarrow> connState (w_client u) \<noteq> MQTT_DATA"
        and b: "(if length pd < MQTT_BUF_SIZE \<and> 0 < length pd
          then case recv_packet pd u of (w1, nx) \<Rightarrow> if nx = None then Some w1 else rec (the nx) w1
          else Some u) = Some z" and pd: "pd = [0x30, 0xFC, 0xFF, 3]" and st: "connState (w_client u) = MQTT_DATA"
      from recv_packet_zero_length [OF st] b ih show False by (auto simp: pd)
    qed
    then show ?thesis by simp
  qed
  moreover have "connState (w_client (upd_client (\<lambda>c. c\<lparr>keepAliveTick := 0\<rparr>) w)) = MQTT_DATA"
    using assms by (simp add: upd_client_def)
  ultimately have "recv_loop [0x30, 0xFC, 0xFF, 3] (upd_client (\<lambda>c. c\<lparr>keepAliveTick := 0\<rparr>) w) = None"
    by (metis option.exhaust)
  then show ?thesis by (simp add: mqtt_tcpclient_recv_def)
qed

end
