(* ===== verification/Cbuff.thy ===== *)
theory Cbuff
  imports Fifo_Spec
begin

text \<open>
  The circular buffer module \<^verbatim>\<open>app_common/util/cbuff.c\<close>: the operations on one buffer object. The
  object keeps four pointers into the caller's array and a flag byte; a full and an empty buffer have
  equal pointers and are told apart by the flags. The second interpretation of the queue contract is
  here; the registry of buffer objects is in the theory \<open>Cbuff_Reg\<close>.
\<close>

section \<open>Model\<close>

record CBUFFOBJ =
  startOfBuffer :: addr
  endOfBuffer :: addr
  inPointer :: addr
  outPointer :: addr
  bufferNumber :: u32
  localFlag :: u8
  nextCircBufferObj :: addr

abbreviation (input) "CBUFF_FULL \<equiv> (0x80 :: u8)"
abbreviation (input) "CBUFF_EMPTY \<equiv> (0x40 :: u8)"
abbreviation (input) "CBUFF_OPEN \<equiv> (0x20 :: u8)"

definition set_flag :: "u8 \<Rightarrow> CBUFFOBJ \<Rightarrow> CBUFFOBJ" where
  "set_flag f b = b\<lparr>localFlag := localFlag b OR f\<rparr>"

definition clear_flag :: "u8 \<Rightarrow> CBUFFOBJ \<Rightarrow> CBUFFOBJ" where
  "clear_flag f b = b\<lparr>localFlag := localFlag b AND NOT f\<rparr>"

text \<open>The step of a pointer with wrap-around, and back.\<close>

definition ptr_next :: "CBUFFOBJ \<Rightarrow> addr \<Rightarrow> addr" where
  "ptr_next b p = (if p + 1 > endOfBuffer b then startOfBuffer b else p + 1)"

definition ptr_prev :: "CBUFFOBJ \<Rightarrow> addr \<Rightarrow> addr" where
  "ptr_prev b p = (if p \<noteq> startOfBuffer b then p - 1 else endOfBuffer b)"

text \<open>One pass of the write loop: store, step, mark full.\<close>

definition put_step :: "CBUFFOBJ \<Rightarrow> mem \<Rightarrow> u8 \<Rightarrow> CBUFFOBJ \<times> mem" where
  "put_step b m data =
     (let m1 = m(inPointer b := data);
          b1 = b\<lparr>inPointer := ptr_next b (inPointer b)\<rparr>;
          b2 = (if inPointer b1 = outPointer b1 then set_flag CBUFF_FULL b1 else b1)
      in (b2, m1))"

definition cbuffPutByte :: "CBUFFOBJ \<Rightarrow> mem \<Rightarrow> u8 \<Rightarrow> CBUFFOBJ \<times> mem \<times> u8" where
  "cbuffPutByte b m data =
     (if localFlag b AND CBUFF_FULL \<noteq> 0 then (b, m, 0)
      else case put_step b m data of (b1, m1) \<Rightarrow> (clear_flag CBUFF_EMPTY b1, m1, 1))"

definition cbuffGetSpace :: "CBUFFOBJ \<Rightarrow> nat" where
  "cbuffGetSpace b =
     (if localFlag b AND CBUFF_FULL \<noteq> 0 then 0
      else if localFlag b AND CBUFF_EMPTY \<noteq> 0 then (endOfBuffer b + 1) - startOfBuffer b
      else if inPointer b > outPointer b
      then (endOfBuffer b - startOfBuffer b + 1) - (inPointer b - outPointer b)
      else outPointer b - inPointer b)"

definition cbuffGetFill :: "CBUFFOBJ \<Rightarrow> nat" where
  "cbuffGetFill b = (endOfBuffer b - startOfBuffer b + 1) - cbuffGetSpace b"

definition cbuffClearBuffer :: "CBUFFOBJ \<Rightarrow> CBUFFOBJ" where
  "cbuffClearBuffer b =
     set_flag CBUFF_EMPTY
       (b\<lparr>inPointer := startOfBuffer b, outPointer := startOfBuffer b, localFlag := 0\<rparr>)"

text \<open>One pass of the read loop: fetch, step, mark empty.\<close>

definition get_step :: "CBUFFOBJ \<Rightarrow> mem \<Rightarrow> CBUFFOBJ \<times> u8" where
  "get_step b m =
     (let v = m (outPointer b);
          b1 = b\<lparr>outPointer := ptr_next b (outPointer b)\<rparr>;
          b2 = (if outPointer b1 = inPointer b1 then set_flag CBUFF_EMPTY b1 else b1)
      in (b2, v))"

text \<open>The byte results are \<open>None\<close> when \<open>*data\<close> is left alone.\<close>

definition cbuffGetByte :: "CBUFFOBJ \<Rightarrow> mem \<Rightarrow> CBUFFOBJ \<times> u8 option \<times> u8" where
  "cbuffGetByte b m =
     (if localFlag b AND CBUFF_EMPTY \<noteq> 0 then (b, None, 0)
      else case get_step b m of (b1, v) \<Rightarrow> (clear_flag CBUFF_FULL b1, Some v, 1))"

definition cbuffPeekTail :: "CBUFFOBJ \<Rightarrow> mem \<Rightarrow> u8 option \<times> u8" where
  "cbuffPeekTail b m =
     (if \<not> localFlag b AND CBUFF_EMPTY \<noteq> 0 then (Some (m (outPointer b)), 1) else (None, 0))"

definition cbuffPeekHead :: "CBUFFOBJ \<Rightarrow> mem \<Rightarrow> u8 option \<times> u8" where
  "cbuffPeekHead b m =
     (if \<not> localFlag b AND CBUFF_EMPTY \<noteq> 0 then
        (Some (if inPointer b \<noteq> startOfBuffer b then m (inPointer b - 1) else m (endOfBuffer b)), 1)
      else (None, 0))"

definition cbuffUnputByte :: "CBUFFOBJ \<Rightarrow> CBUFFOBJ \<times> u8" where
  "cbuffUnputByte b =
     (if localFlag b AND CBUFF_EMPTY \<noteq> 0 then (b, 1)
      else
        let b1 = b\<lparr>inPointer := ptr_prev b (inPointer b)\<rparr>;
            b2 = (if inPointer b1 = outPointer b1 then set_flag CBUFF_EMPTY b1 else b1)
        in (clear_flag CBUFF_FULL b2, 0))"

definition cbuffUngetByte :: "CBUFFOBJ \<Rightarrow> CBUFFOBJ \<times> u8" where
  "cbuffUngetByte b =
     (if localFlag b AND CBUFF_FULL \<noteq> 0 then (b, 1)
      else
        let b1 = b\<lparr>outPointer := ptr_prev b (outPointer b)\<rparr>;
            b2 = (if outPointer b1 = inPointer b1 then set_flag CBUFF_FULL b1 else b1)
        in (clear_flag CBUFF_EMPTY b2, 0))"

partial_function (option) put_array_loop ::
  "CBUFFOBJ \<Rightarrow> mem \<Rightarrow> addr \<Rightarrow> u32 \<Rightarrow> u32 \<Rightarrow> (CBUFFOBJ \<times> mem \<times> u32) option" where
  "put_array_loop b m data bytesWritten noOfBytes =
     (if \<not> localFlag b AND CBUFF_FULL \<noteq> 0 then
        (case put_step b m (m data) of (b1, m1) \<Rightarrow>
           if bytesWritten + 1 = noOfBytes then Some (b1, m1, bytesWritten + 1)
           else put_array_loop b1 m1 (data + 1) (bytesWritten + 1) noOfBytes)
      else Some (b, m, bytesWritten))"

definition cbuffPutArray :: "CBUFFOBJ \<Rightarrow> mem \<Rightarrow> addr \<Rightarrow> u32 \<Rightarrow> (CBUFFOBJ \<times> mem \<times> u32) option" where
  "cbuffPutArray b m data noOfBytes =
     (if localFlag b AND CBUFF_FULL \<noteq> 0 then Some (b, m, 0)
      else map_option (\<lambda>(b1, m1, n). (clear_flag CBUFF_EMPTY b1, m1, n))
             (put_array_loop b m data 0 noOfBytes))"

partial_function (option) get_array_loop ::
  "CBUFFOBJ \<Rightarrow> mem \<Rightarrow> addr \<Rightarrow> u32 \<Rightarrow> u32 \<Rightarrow> (CBUFFOBJ \<times> mem \<times> u32) option" where
  "get_array_loop b m data bytesRead noOfBytes =
     (if \<not> localFlag b AND CBUFF_EMPTY \<noteq> 0 then
        (case get_step b m of (b1, v) \<Rightarrow>
           if bytesRead + 1 = noOfBytes then Some (b1, m(data := v), bytesRead + 1)
           else get_array_loop b1 (m(data := v)) (data + 1) (bytesRead + 1) noOfBytes)
      else Some (b, m, bytesRead))"

definition cbuffGetArray :: "CBUFFOBJ \<Rightarrow> mem \<Rightarrow> addr \<Rightarrow> u32 \<Rightarrow> (CBUFFOBJ \<times> mem \<times> u32) option" where
  "cbuffGetArray b m data noOfBytes =
     (if localFlag b AND CBUFF_EMPTY \<noteq> 0 then Some (b, m, 0)
      else map_option (\<lambda>(b1, m1, n). (clear_flag CBUFF_FULL b1, m1, n))
             (get_array_loop b m data 0 noOfBytes))"

section \<open>Invariant and abstraction\<close>

definition is_full :: "CBUFFOBJ \<Rightarrow> bool" where
  "is_full b = bit (localFlag b) 7"

definition is_empty :: "CBUFFOBJ \<Rightarrow> bool" where
  "is_empty b = bit (localFlag b) 6"

definition cb_size :: "CBUFFOBJ \<Rightarrow> nat" where
  "cb_size b = endOfBuffer b + 1 - startOfBuffer b"

definition cb_inv :: "CBUFFOBJ \<Rightarrow> bool" where
  "cb_inv b \<longleftrightarrow>
     startOfBuffer b \<le> inPointer b \<and> inPointer b \<le> endOfBuffer b \<and>
     startOfBuffer b \<le> outPointer b \<and> outPointer b \<le> endOfBuffer b \<and>
     \<not> (is_full b \<and> is_empty b) \<and> (is_full b \<or> is_empty b \<longleftrightarrow> inPointer b = outPointer b)"

definition cb_fill :: "CBUFFOBJ \<Rightarrow> nat" where
  "cb_fill b = (if is_full b then cb_size b else if is_empty b then 0
     else (inPointer b + cb_size b - outPointer b) mod cb_size b)"

definition cb_contents :: "CBUFFOBJ \<Rightarrow> mem \<Rightarrow> u8 list" where
  "cb_contents b m =
     ring_read m (startOfBuffer b) (cb_size b) (outPointer b - startOfBuffer b) (cb_fill b)"

text \<open>The operations in the shape of the queue contract.\<close>

definition cb_put :: "CBUFFOBJ \<times> mem \<Rightarrow> u8 \<Rightarrow> (CBUFFOBJ \<times> mem) \<times> bool" where
  "cb_put q c = (case cbuffPutByte (fst q) (snd q) c of (b, m, ret) \<Rightarrow> ((b, m), ret = 1))"

definition cb_get :: "CBUFFOBJ \<times> mem \<Rightarrow> (CBUFFOBJ \<times> mem) \<times> u8 option" where
  "cb_get q = (case cbuffGetByte (fst q) (snd q) of (b, v, ret) \<Rightarrow> ((b, snd q), v))"

section \<open>Flags and positions\<close>

lemma flag_tests [simp]:
  fixes x :: u8
  shows "x AND 0x80 = 0 \<longleftrightarrow> \<not> bit x 7" "x AND 0x40 = 0 \<longleftrightarrow> \<not> bit x 6" "x AND 0x20 = 0 \<longleftrightarrow> \<not> bit x 5"
  using and_exp_eq_0_iff_not_bit [of x 7] and_exp_eq_0_iff_not_bit [of x 6] and_exp_eq_0_iff_not_bit [of x 5]
  by simp_all

lemma flag_bits [simp]:
  "is_full (set_flag 0x80 b)" "is_full (set_flag 0x40 b) = is_full b"
  "is_empty (set_flag 0x40 b)" "is_empty (set_flag 0x80 b) = is_empty b"
  "\<not> is_full (clear_flag 0x80 b)" "is_full (clear_flag 0x40 b) = is_full b"
  "\<not> is_empty (clear_flag 0x40 b)" "is_empty (clear_flag 0x80 b) = is_empty b"
  "is_full (b\<lparr>inPointer := p\<rparr>) = is_full b" "is_full (b\<lparr>outPointer := p\<rparr>) = is_full b"
  "is_empty (b\<lparr>inPointer := p\<rparr>) = is_empty b" "is_empty (b\<lparr>outPointer := p\<rparr>) = is_empty b"
  by (simp_all add: is_full_def is_empty_def set_flag_def clear_flag_def bit_simps)

lemma flag_fields [simp]:
  "startOfBuffer (set_flag f b) = startOfBuffer b" "startOfBuffer (clear_flag f b) = startOfBuffer b"
  "endOfBuffer (set_flag f b) = endOfBuffer b" "endOfBuffer (clear_flag f b) = endOfBuffer b"
  "inPointer (set_flag f b) = inPointer b" "inPointer (clear_flag f b) = inPointer b"
  "outPointer (set_flag f b) = outPointer b" "outPointer (clear_flag f b) = outPointer b"
  by (simp_all add: set_flag_def clear_flag_def)

lemma cb_size_simps [simp]:
  "cb_size (set_flag f b) = cb_size b" "cb_size (clear_flag f b) = cb_size b"
  "cb_size (b\<lparr>inPointer := p\<rparr>) = cb_size b" "cb_size (b\<lparr>outPointer := p\<rparr>) = cb_size b"
  by (simp_all add: cb_size_def)

lemma ring_distance:
  fixes x k n :: nat
  assumes "x < n" "0 < k" "k < n"
  shows "((x + k) mod n + n - x) mod n = k" "(x + k) mod n \<noteq> x"
proof -
  show "((x + k) mod n + n - x) mod n = k"
  proof (cases "x + k < n")
    case True
    then show ?thesis using assms by simp
  next
    case False
    then have "(x + k) mod n = x + k - n" using assms by (simp add: mod_if)
    then show ?thesis using False assms by simp
  qed
  show "(x + k) mod n \<noteq> x" using ring_slot_free [of 0 k n x] assms by (metis add_0_right mod_less)
qed

text \<open>The input position is the output position plus the fill count; the flags are the two extremes.\<close>

lemma cb_inv_fill:
  assumes "cb_inv b"
  shows "0 < cb_size b" "outPointer b - startOfBuffer b < cb_size b" "cb_fill b \<le> cb_size b"
    "inPointer b = startOfBuffer b + (outPointer b - startOfBuffer b + cb_fill b) mod cb_size b"
    "is_full b \<longleftrightarrow> cb_fill b = cb_size b" "is_empty b \<longleftrightarrow> cb_fill b = 0"
proof -
  define n i oo where "n = cb_size b" and "i = inPointer b - startOfBuffer b" and "oo = outPointer b - startOfBuffer b"
  have r: "startOfBuffer b \<le> inPointer b" "inPointer b \<le> endOfBuffer b"
      "startOfBuffer b \<le> outPointer b" "outPointer b \<le> endOfBuffer b"
    and fl: "\<not> (is_full b \<and> is_empty b)" "is_full b \<or> is_empty b \<longleftrightarrow> inPointer b = outPointer b"
    using assms unfolding cb_inv_def by blast+
  have p: "0 < n" "i < n" "oo < n" "inPointer b = startOfBuffer b + i" "outPointer b = startOfBuffer b + oo"
    using r by (simp_all add: n_def i_def oo_def cb_size_def)
  show "0 < cb_size b" "outPointer b - startOfBuffer b < cb_size b"
    using p(1,3) by (simp_all add: n_def oo_def)
  have f: "cb_fill b = (if is_full b then n else if is_empty b then 0 else (i + n - oo) mod n)"
    using p(4,5) by (simp add: cb_fill_def n_def)
  have eq: "is_full b \<or> is_empty b \<longleftrightarrow> i = oo" using fl p(4,5) by simp
  have d: "(i + n - oo) mod n = (if oo \<le> i then i - oo else i + n - oo)"
    using p(1-3) by (auto simp: mod_if not_le)
  have cases: "is_full b \<and> \<not> is_empty b \<and> i = oo \<and> cb_fill b = n \<or>
      \<not> is_full b \<and> is_empty b \<and> i = oo \<and> cb_fill b = 0 \<or>
      \<not> is_full b \<and> \<not> is_empty b \<and> oo < i \<and> cb_fill b = i - oo \<or>
      \<not> is_full b \<and> \<not> is_empty b \<and> i < oo \<and> cb_fill b = i + n - oo"
    using fl(1) eq unfolding f d by (auto simp: not_le le_less)
  show "cb_fill b \<le> cb_size b" "is_full b \<longleftrightarrow> cb_fill b = cb_size b" "is_empty b \<longleftrightarrow> cb_fill b = 0"
    using cases p(1-3) unfolding n_def [symmetric] by (elim disjE conjE; simp; fail)+
  have "i = (oo + cb_fill b) mod n"
    using cases p(1-3) by (elim disjE conjE) (simp_all add: mod_if)
  then show "inPointer b = startOfBuffer b + (outPointer b - startOfBuffer b + cb_fill b) mod cb_size b"
    using p(4) by (simp add: n_def oo_def)
qed

text \<open>Conversely, these facts give the invariant and the fill count of an object.\<close>

lemma cb_invI:
  assumes "0 < cb_size b" "outPointer b = startOfBuffer b + x" "x < cb_size b" "k \<le> cb_size b"
    "inPointer b = startOfBuffer b + (x + k) mod cb_size b"
    "is_full b \<longleftrightarrow> k = cb_size b" "is_empty b \<longleftrightarrow> k = 0"
  shows "cb_inv b \<and> cb_fill b = k"
proof -
  define n j where "n = cb_size b" and "j = (x + k) mod n"
  have e: "Suc (endOfBuffer b) = startOfBuffer b + n" using assms(1) by (simp add: cb_size_def n_def)
  have j: "j < n" "x < n" using assms(1,3) by (simp_all add: j_def n_def)
  have i: "inPointer b = startOfBuffer b + j" using assms(5) by (simp add: j_def n_def)
  have le: "startOfBuffer b + j \<le> endOfBuffer b" "startOfBuffer b + x \<le> endOfBuffer b"
    using e j by linarith+
  have d: "0 < k \<Longrightarrow> k < n \<Longrightarrow> j \<noteq> x \<and> (j + n - x) mod n = k"
    using ring_distance [of x n k] j by (simp add: j_def)
  have s: "k = 0 \<or> k = n \<Longrightarrow> j = x" using j by (auto simp: j_def)
  consider "k = 0" "0 < n" | "k = n" "0 < n" | "0 < k" "k < n"
    using assms(1,4) unfolding n_def [symmetric] by linarith
  then show ?thesis
  proof cases
    case 1
    then show ?thesis using assms(2,6,7) i le s unfolding cb_inv_def cb_fill_def n_def [symmetric] by simp
  next
    case 2
    then show ?thesis using assms(2,6,7) i le s unfolding cb_inv_def cb_fill_def n_def [symmetric] by simp
  next
    case 3
    then show ?thesis using assms(2,6,7) i le d unfolding cb_inv_def cb_fill_def n_def [symmetric] by simp
  qed
qed

section \<open>Positions\<close>

text \<open>The object holds \<open>k\<close> bytes starting at position \<open>x\<close>, whatever its flags say.\<close>

definition cb_pos :: "CBUFFOBJ \<Rightarrow> nat \<Rightarrow> nat \<Rightarrow> bool" where
  "cb_pos b x k \<longleftrightarrow> x < cb_size b \<and> k \<le> cb_size b \<and> outPointer b = startOfBuffer b + x \<and>
     inPointer b = startOfBuffer b + (x + k) mod cb_size b"

definition cb_same :: "CBUFFOBJ \<Rightarrow> CBUFFOBJ \<Rightarrow> bool" where
  "cb_same b b' \<longleftrightarrow> startOfBuffer b' = startOfBuffer b \<and> endOfBuffer b' = endOfBuffer b"

lemma cb_same_size: "cb_same b b' \<Longrightarrow> cb_size b' = cb_size b"
  by (simp add: cb_same_def cb_size_def)

lemma cb_same_trans: "cb_same b b' \<Longrightarrow> cb_same b' b'' \<Longrightarrow> cb_same b b''"
  by (simp add: cb_same_def)

lemma cb_pos_flags [simp]:
  "cb_pos (set_flag f b) x k = cb_pos b x k" "cb_pos (clear_flag f b) x k = cb_pos b x k"
  "cb_same b (set_flag f b')  = cb_same b b'" "cb_same b (clear_flag f b') = cb_same b b'"
  "cb_same b b"
  by (simp_all add: cb_pos_def cb_same_def)

lemma cb_inv_pos:
  assumes "cb_inv b"
  shows "cb_pos b (outPointer b - startOfBuffer b) (cb_fill b)"
  using cb_inv_fill [OF assms] assms by (simp add: cb_pos_def cb_inv_def)

lemma cb_posI:
  assumes "cb_pos b x k" "is_full b \<longleftrightarrow> k = cb_size b" "is_empty b \<longleftrightarrow> k = 0"
  shows "cb_inv b" "cb_fill b = k" "cb_contents b m = ring_read m (startOfBuffer b) (cb_size b) x k"
proof -
  have "cb_inv b \<and> cb_fill b = k" using assms unfolding cb_pos_def by (intro cb_invI [of b x]) auto
  then show "cb_inv b" "cb_fill b = k" "cb_contents b m = ring_read m (startOfBuffer b) (cb_size b) x k"
    using assms(1) by (auto simp: cb_contents_def cb_pos_def)
qed

lemma ptr_next_pos:
  assumes "p < cb_size b"
  shows "ptr_next b (startOfBuffer b + p) = startOfBuffer b + Suc p mod cb_size b"
proof -
  have "Suc (endOfBuffer b) = startOfBuffer b + cb_size b" using assms by (simp add: cb_size_def)
  then show ?thesis using ring_succ [OF assms] assms by (auto simp: ptr_next_def)
qed

lemma ptr_prev_pos:
  assumes "p < cb_size b"
  shows "ptr_prev b (startOfBuffer b + p) = startOfBuffer b + (p + cb_size b - 1) mod cb_size b"
proof -
  have e: "Suc (endOfBuffer b) = startOfBuffer b + cb_size b" using assms by (simp add: cb_size_def)
  show ?thesis
  proof (cases p)
    case 0
    then show ?thesis using e assms by (simp add: ptr_prev_def)
  next
    case (Suc q)
    then have "(p + cb_size b - 1) mod cb_size b = q" using assms by simp
    then show ?thesis using Suc by (simp add: ptr_prev_def)
  qed
qed

lemma ring_pos_eq:
  fixes x k n :: nat
  assumes "x < n" "k \<le> n"
  shows "(x + k) mod n = x \<longleftrightarrow> k = 0 \<or> k = n"
  using assms ring_distance(2) [of x n k] by (cases "k = 0 \<or> k = n") auto

lemma put_step_pos:
  assumes "cb_pos b x k" "k < cb_size b" "\<not> is_full b"
  shows "\<exists>b'. put_step b m v = (b', m(startOfBuffer b + (x + k) mod cb_size b := v)) \<and>
    cb_pos b' x (Suc k) \<and> (is_full b' \<longleftrightarrow> Suc k = cb_size b') \<and> is_empty b' = is_empty b \<and> cb_same b b'"
proof -
  define n where "n = cb_size b"
  have n: "(x + k) mod n < n" using assms(2) by (simp add: n_def)
  have nx: "ptr_next b (inPointer b) = startOfBuffer b + (x + Suc k) mod n"
    using ptr_next_pos [of "(x + k) mod n" b] n assms(1) by (simp add: cb_pos_def n_def mod_Suc_eq)
  define b1 where "b1 = b\<lparr>inPointer := startOfBuffer b + (x + Suc k) mod n\<rparr>"
  have b1: "cb_pos b1 x (Suc k)" "is_full b1 = is_full b" "is_empty b1 = is_empty b" "cb_same b b1" "cb_size b1 = n"
    using assms by (simp_all add: b1_def cb_pos_def n_def cb_same_def)
  have "inPointer b1 = outPointer b1 \<longleftrightarrow> Suc k = n"
    using ring_pos_eq [of x n "Suc k"] assms(1,2) by (simp add: b1_def cb_pos_def n_def)
  moreover have "put_step b m v = ((if inPointer b1 = outPointer b1 then set_flag CBUFF_FULL b1 else b1),
      m(inPointer b := v))"
    by (simp add: put_step_def Let_def nx b1_def)
  ultimately show ?thesis using b1 assms by (simp add: cb_pos_def n_def)
qed

lemma get_step_pos:
  assumes "cb_pos b x k" "0 < k" "\<not> is_empty b"
  shows "\<exists>b'. get_step b m = (b', m (startOfBuffer b + x)) \<and>
    cb_pos b' (Suc x mod cb_size b) (k - 1) \<and> (is_empty b' \<longleftrightarrow> k = 1) \<and> is_full b' = is_full b \<and> cb_same b b'"
proof -
  define n where "n = cb_size b"
  have x: "x < n" "k \<le> n" "0 < n" "Suc x mod n < n"
    using assms(1) by (auto simp: cb_pos_def n_def)
  have nx: "ptr_next b (outPointer b) = startOfBuffer b + Suc x mod n"
    using ptr_next_pos [of x b] assms(1) by (simp add: cb_pos_def n_def)
  define b1 where "b1 = b\<lparr>outPointer := startOfBuffer b + Suc x mod n\<rparr>"
  have "(Suc x mod n + (k - 1)) mod n = (x + k) mod n"
    using assms(2) by (cases k) (simp_all add: mod_add_left_eq)
  moreover have "k - 1 \<le> n" using x(2) by linarith
  ultimately have b1: "cb_pos b1 (Suc x mod n) (k - 1)" "is_full b1 = is_full b" "is_empty b1 = is_empty b" "cb_same b b1"
    using assms(1) x by (simp_all add: b1_def cb_pos_def n_def cb_same_def)
  have "outPointer b1 = inPointer b1 \<longleftrightarrow> k = 1"
    using ring_pos_eq [of "Suc x mod n" n "k - 1"] b1(1) x assms(2)
    by (auto simp: b1_def cb_pos_def n_def)
  moreover have "get_step b m = ((if outPointer b1 = inPointer b1 then set_flag CBUFF_EMPTY b1 else b1), m (outPointer b))"
    by (simp add: get_step_def Let_def nx b1_def)
  ultimately show ?thesis using b1 assms by (simp add: cb_pos_def n_def)
qed

section \<open>The byte operations\<close>

lemma cbuffPutByte_full: "is_full b \<Longrightarrow> cbuffPutByte b m v = (b, m, 0)"
  by (simp add: cbuffPutByte_def is_full_def)

lemma cbuffGetByte_empty: "is_empty b \<Longrightarrow> cbuffGetByte b m = (b, None, 0)"
  by (simp add: cbuffGetByte_def is_empty_def)

lemma cbuffPutByte_room:
  assumes "cb_inv b" "cb_fill b < cb_size b"
  shows "\<exists>b'. cbuffPutByte b m v = (b', m(inPointer b := v), 1) \<and> cb_inv b' \<and> cb_same b b' \<and>
    cb_contents b' (m(inPointer b := v)) = cb_contents b m @ [v]"
proof -
  define x k where "x = outPointer b - startOfBuffer b" and "k = cb_fill b"
  have p: "cb_pos b x k" using cb_inv_pos [OF assms(1)] by (simp add: x_def k_def)
  have nf: "\<not> is_full b" "k < cb_size b" using cb_inv_fill(5) [OF assms(1)] assms(2) by (simp_all add: k_def)
  have ip: "startOfBuffer b + (x + k) mod cb_size b = inPointer b" using p by (simp add: cb_pos_def)
  obtain b1 where b1: "put_step b m v = (b1, m(inPointer b := v))" "cb_pos b1 x (Suc k)"
      "is_full b1 \<longleftrightarrow> Suc k = cb_size b1" "cb_same b b1"
    using put_step_pos [OF p nf(2,1), of m v] unfolding ip by blast
  have put: "cbuffPutByte b m v = (clear_flag CBUFF_EMPTY b1, m(inPointer b := v), 1)"
    using nf(1) b1(1) by (simp add: cbuffPutByte_def is_full_def)
  have "cb_inv (clear_flag CBUFF_EMPTY b1)"
    "cb_contents (clear_flag CBUFF_EMPTY b1) m' = ring_read m' (startOfBuffer b) (cb_size b) x (Suc k)" for m'
    using cb_posI [of "clear_flag CBUFF_EMPTY b1" x "Suc k"] b1 cb_same_size [OF b1(4)]
    by (simp_all add: cb_same_def)
  moreover have "cb_contents b m = ring_read m (startOfBuffer b) (cb_size b) x k"
    by (simp add: cb_contents_def x_def k_def)
  ultimately show ?thesis
    using put b1(4) nf(2) by (simp add: ring_read_snoc ring_read_upd_free flip: ip)
qed

lemma cbuffGetByte_some:
  assumes "cb_inv b" "0 < cb_fill b"
  shows "\<exists>b'. cbuffGetByte b m = (b', Some (m (outPointer b)), 1) \<and> cb_inv b' \<and> cb_same b b' \<and>
    cb_contents b m = m (outPointer b) # cb_contents b' m"
proof -
  define x k where "x = outPointer b - startOfBuffer b" and "k = cb_fill b"
  have p: "cb_pos b x k" using cb_inv_pos [OF assms(1)] by (simp add: x_def k_def)
  have ne: "\<not> is_empty b" "0 < k" using cb_inv_fill(6) [OF assms(1)] assms(2) by (simp_all add: k_def)
  have op: "startOfBuffer b + x = outPointer b" using p by (simp add: cb_pos_def)
  have x: "x < cb_size b" "k \<le> cb_size b" using p by (simp_all add: cb_pos_def)
  obtain b1 where b1: "get_step b m = (b1, m (outPointer b))" "cb_pos b1 (Suc x mod cb_size b) (k - 1)"
      "is_empty b1 \<longleftrightarrow> k = 1" "cb_same b b1"
    using get_step_pos [OF p ne(2,1), of m] unfolding op by blast
  have get: "cbuffGetByte b m = (clear_flag CBUFF_FULL b1, Some (m (outPointer b)), 1)"
    using ne(1) b1(1) by (simp add: cbuffGetByte_def is_empty_def)
  have "k - 1 \<noteq> cb_size b1" "k - 1 = 0 \<longleftrightarrow> k = 1" using x ne(2) cb_same_size [OF b1(4)] by linarith+
  then have i: "cb_inv (clear_flag CBUFF_FULL b1)"
    and c: "cb_contents (clear_flag CBUFF_FULL b1) m =
        ring_read m (startOfBuffer b) (cb_size b) (Suc x mod cb_size b) (k - 1)"
    using cb_posI [where b = "clear_flag CBUFF_FULL b1" and x = "Suc x mod cb_size b" and k = "k - 1"] b1 cb_same_size [OF b1(4)]
    by (simp_all add: cb_same_def)
  have "cb_contents b m = ring_read m (startOfBuffer b) (cb_size b) x (Suc (k - 1))"
    using ne(2) by (simp add: cb_contents_def x_def k_def)
  also have "\<dots> = m (outPointer b) # ring_read m (startOfBuffer b) (cb_size b) (Suc x mod cb_size b) (k - 1)"
    unfolding ring_read_Cons using x(1) op
    by (simp add: ring_read_cong_mod [of "Suc x" _ "Suc x mod cb_size b"])
  finally show ?thesis using get i c b1(4) by simp
qed

lemma length_cb_contents [simp]: "length (cb_contents b m) = cb_fill b"
  by (simp add: cb_contents_def)

lemma cb_contents_Nil: "cb_contents b m = [] \<longleftrightarrow> cb_fill b = 0"
  by (metis length_0_conv length_cb_contents)

interpretation cb: byte_fifo cb_put cb_get "\<lambda>q. cb_contents (fst q) (snd q)" "\<lambda>q. cb_size (fst q)" "\<lambda>q. cb_inv (fst q)"
proof unfold_locales
  fix q :: "CBUFFOBJ \<times> mem" and c
  assume i: "cb_inv (fst q)"
  show "cb_put q c = (q, False)" if "cb_size (fst q) \<le> length (cb_contents (fst q) (snd q))"
    using that cb_inv_fill(3,5) [OF i] by (simp add: cb_put_def cbuffPutByte_full)
  show "cb_get q = (q, None)" if "cb_contents (fst q) (snd q) = []"
    using that cb_inv_fill(6) [OF i] by (simp add: cb_get_def cbuffGetByte_empty cb_contents_Nil)
  show "length (cb_contents (fst q) (snd q)) \<le> cb_size (fst q)" using cb_inv_fill(3) [OF i] by simp
  show "\<exists>q'. cb_put q c = (q', True) \<and> cb_contents (fst q') (snd q') = cb_contents (fst q) (snd q) @ [c] \<and>
        cb_inv (fst q') \<and> cb_size (fst q') = cb_size (fst q)"
    if "length (cb_contents (fst q) (snd q)) < cb_size (fst q)"
    using that cbuffPutByte_room [OF i, of "snd q" c] by (auto simp: cb_put_def cb_same_size)
  show "\<exists>q'. cb_get q = (q', Some x) \<and> cb_contents (fst q') (snd q') = xs \<and>
        cb_inv (fst q') \<and> cb_size (fst q') = cb_size (fst q)"
    if c: "cb_contents (fst q) (snd q) = x # xs" for x xs
  proof -
    have "0 < cb_fill (fst q)" using c by (metis length_cb_contents length_greater_0_conv list.discI)
    from cbuffGetByte_some [OF i this, of "snd q"] show ?thesis
      using c by (auto simp: cb_get_def cb_same_size)
  qed
qed

section \<open>Fill count, peeking and undoing\<close>

lemma cbuffGetSpace_fill:
  assumes "cb_inv b"
  shows "cbuffGetSpace b = cb_size b - cb_fill b"
proof -
  have r: "startOfBuffer b \<le> inPointer b" "inPointer b \<le> endOfBuffer b"
      "startOfBuffer b \<le> outPointer b" "outPointer b \<le> endOfBuffer b"
    and fl: "\<not> (is_full b \<and> is_empty b)" "is_full b \<or> is_empty b \<longleftrightarrow> inPointer b = outPointer b"
    using assms unfolding cb_inv_def by blast+
  define n where "n = cb_size b"
  have n: "endOfBuffer b - startOfBuffer b + 1 = n" "endOfBuffer b + 1 - startOfBuffer b = n"
    "inPointer b < outPointer b + n" "outPointer b < inPointer b + n"
    using r by (simp_all add: n_def cb_size_def)
  have d: "(inPointer b + n - outPointer b) mod n =
      (if outPointer b \<le> inPointer b then inPointer b - outPointer b else inPointer b + n - outPointer b)"
    using n(3,4) by (auto simp: mod_if not_le)
  consider "is_full b" | "\<not> is_full b" "is_empty b" | "\<not> is_full b" "\<not> is_empty b" "inPointer b \<noteq> outPointer b"
    using fl by blast
  then show ?thesis
  proof cases
    case 1
    then show ?thesis by (simp add: cbuffGetSpace_def cb_fill_def is_full_def)
  next
    case 2
    then show ?thesis using n by (simp add: cbuffGetSpace_def cb_fill_def is_full_def is_empty_def n_def)
  next
    case 3
    then have "cb_fill b = (inPointer b + n - outPointer b) mod n" by (simp add: cb_fill_def n_def)
    moreover have "cbuffGetSpace b = (if inPointer b > outPointer b then n - (inPointer b - outPointer b)
        else outPointer b - inPointer b)"
      using 3 n by (simp add: cbuffGetSpace_def is_full_def is_empty_def)
    ultimately show ?thesis using 3(3) n(3,4) unfolding d n_def [symmetric] by auto
  qed
qed

lemma cbuffGetFill_fill:
  assumes "cb_inv b"
  shows "cbuffGetFill b = cb_fill b"
proof -
  have "startOfBuffer b \<le> endOfBuffer b" using assms unfolding cb_inv_def by linarith
  then have "endOfBuffer b - startOfBuffer b + 1 = cb_size b" by (simp add: cb_size_def)
  then show ?thesis using cb_inv_fill(3) [OF assms] by (simp add: cbuffGetFill_def cbuffGetSpace_fill [OF assms])
qed

lemma ring_prev_next:
  fixes x k n :: nat
  assumes "x < n" "0 < k"
  shows "((x + k) mod n + n - 1) mod n = (x + (k - 1)) mod n"
proof -
  have "0 < n" using assms(1) by simp
  then have "((x + k) mod n + n - 1) mod n = ((x + k) mod n + (n - 1)) mod n" by simp
  also have "\<dots> = (x + k + (n - 1)) mod n" by (simp add: mod_add_left_eq)
  also have "x + k + (n - 1) = x + (k - 1) + n" using assms \<open>0 < n\<close> by simp
  finally show ?thesis by simp
qed

lemma cbuffUnputByte_pos:
  assumes "cb_inv b" "0 < cb_fill b"
  shows "\<exists>b'. cbuffUnputByte b = (b', 0) \<and> cb_inv b' \<and> cb_same b b' \<and>
    cb_contents b' m = butlast (cb_contents b m)"
proof -
  define x k n where "x = outPointer b - startOfBuffer b" and "k = cb_fill b" and "n = cb_size b"
  have p: "cb_pos b x k" using cb_inv_pos [OF assms(1)] by (simp add: x_def k_def)
  have ne: "\<not> is_empty b" "0 < k" using cb_inv_fill(6) [OF assms(1)] assms(2) by (simp_all add: k_def)
  have x: "x < n" "k \<le> n" "k - 1 < n" "k - 1 \<noteq> n" using p ne(2) by (auto simp: cb_pos_def n_def)
  have pr: "ptr_prev b (inPointer b) = startOfBuffer b + (x + (k - 1)) mod n"
    using ptr_prev_pos [of "(x + k) mod n" b] ring_prev_next [OF x(1) ne(2)] p x(1)
    by (simp add: cb_pos_def n_def)
  define b1 where "b1 = b\<lparr>inPointer := startOfBuffer b + (x + (k - 1)) mod n\<rparr>"
  define b2 where "b2 = clear_flag CBUFF_FULL (if inPointer b1 = outPointer b1 then set_flag CBUFF_EMPTY b1 else b1)"
  have e: "inPointer b1 = outPointer b1 \<longleftrightarrow> k = 1"
    using ring_pos_eq [of x n "k - 1"] p x ne(2) by (auto simp: b1_def cb_pos_def)
  have u: "cbuffUnputByte b = (b2, 0)"
    using ne(1) by (simp add: cbuffUnputByte_def is_empty_def Let_def pr b1_def b2_def)
  have b2: "cb_pos b2 x (k - 1)" "cb_same b b2" "cb_size b2 = n" "startOfBuffer b2 = startOfBuffer b"
      "\<not> is_full b2" "is_empty b2 \<longleftrightarrow> k = 1"
    using p x ne e by (auto simp: b2_def b1_def cb_pos_def cb_same_def n_def)
  have "k - 1 = 0 \<longleftrightarrow> k = 1" using ne(2) by linarith
  then have "cb_inv b2" "cb_contents b2 m = ring_read m (startOfBuffer b) n x (k - 1)"
    using cb_posI [where b = b2 and x = x and k = "k - 1"] b2 x(4) by simp_all
  moreover have "cb_contents b m = ring_read m (startOfBuffer b) n x (Suc (k - 1))"
    using ne(2) by (simp add: cb_contents_def x_def k_def n_def)
  ultimately show ?thesis using u b2(2) by (simp add: ring_read_snoc)
qed

lemma cbuffUngetByte_pos:
  assumes "cb_inv b" "cb_fill b < cb_size b"
  shows "\<exists>b'. cbuffUngetByte b = (b', 0) \<and> cb_inv b' \<and> cb_same b b' \<and>
    cb_contents b' m = m (ptr_prev b (outPointer b)) # cb_contents b m"
proof -
  define x k n where "x = outPointer b - startOfBuffer b" and "k = cb_fill b" and "n = cb_size b"
  have p: "cb_pos b x k" using cb_inv_pos [OF assms(1)] by (simp add: x_def k_def)
  have nf: "\<not> is_full b" "k < n" using cb_inv_fill(5) [OF assms(1)] assms(2) by (simp_all add: k_def n_def)
  define y where "y = (x + n - 1) mod n"
  have x: "x < n" "y < n" using p nf(2) by (simp_all add: cb_pos_def n_def y_def)
  have sy: "Suc y mod n = x" using x(1) by (simp add: y_def mod_Suc_eq)
  have pr: "ptr_prev b (outPointer b) = startOfBuffer b + y"
    using ptr_prev_pos [of x b] p by (simp add: cb_pos_def n_def y_def)
  define b1 where "b1 = b\<lparr>outPointer := startOfBuffer b + y\<rparr>"
  define b2 where "b2 = clear_flag CBUFF_EMPTY (if outPointer b1 = inPointer b1 then set_flag CBUFF_FULL b1 else b1)"
  have yk: "(y + Suc k) mod n = (x + k) mod n"
    using sy by (metis add_Suc_shift mod_add_left_eq)
  have e: "outPointer b1 = inPointer b1 \<longleftrightarrow> Suc k = n"
    using ring_pos_eq [of y n "Suc k"] p x nf(2) yk by (auto simp: b1_def cb_pos_def n_def)
  have u: "cbuffUngetByte b = (b2, 0)"
    using nf(1) by (simp add: cbuffUngetByte_def is_full_def Let_def pr b1_def b2_def)
  have b2: "cb_pos b2 y (Suc k)" "cb_same b b2" "cb_size b2 = n" "startOfBuffer b2 = startOfBuffer b"
      "\<not> is_empty b2" "is_full b2 \<longleftrightarrow> Suc k = n"
    using p x nf e yk by (auto simp: b2_def b1_def cb_pos_def cb_same_def n_def)
  then have "cb_inv b2" "cb_contents b2 m = ring_read m (startOfBuffer b) n y (Suc k)"
    using cb_posI [where b = b2 and x = y and k = "Suc k"] by simp_all
  moreover have "ring_read m (startOfBuffer b) n (Suc y) k = ring_read m (startOfBuffer b) n x k"
    using sy x(1) by (intro ring_read_cong_mod) simp
  moreover have "cb_contents b m = ring_read m (startOfBuffer b) n x k"
    by (simp add: cb_contents_def x_def k_def n_def)
  ultimately show ?thesis using u b2(2) x(2) by (simp add: ring_read_Cons pr)
qed

lemma cbuffPeek_ends:
  assumes "cb_inv b" "0 < cb_fill b"
  shows "cbuffPeekTail b m = (Some (hd (cb_contents b m)), 1)"
    "cbuffPeekHead b m = (Some (last (cb_contents b m)), 1)"
proof -
  define x k n where "x = outPointer b - startOfBuffer b" and "k = cb_fill b" and "n = cb_size b"
  have p: "cb_pos b x k" using cb_inv_pos [OF assms(1)] by (simp add: x_def k_def)
  have ne: "\<not> is_empty b" "0 < k" using cb_inv_fill(6) [OF assms(1)] assms(2) by (simp_all add: k_def)
  have x: "x < n" using p by (simp add: cb_pos_def n_def)
  show "cbuffPeekTail b m = (Some (hd (cb_contents b m)), 1)"
    using ne cbuffGetByte_some [OF assms, of m] by (auto simp: cbuffPeekTail_def is_empty_def)
  have "ptr_prev b (inPointer b) = startOfBuffer b + (x + (k - 1)) mod n"
    using ptr_prev_pos [of "(x + k) mod n" b] ring_prev_next [OF x ne(2)] p x
    by (simp add: cb_pos_def n_def)
  moreover have "cb_contents b m = ring_read m (startOfBuffer b) n x (Suc (k - 1))"
    using ne(2) by (simp add: cb_contents_def x_def k_def n_def)
  ultimately have "last (cb_contents b m) = m (ptr_prev b (inPointer b))"
    by (simp add: ring_read_snoc)
  then show "cbuffPeekHead b m = (Some (last (cb_contents b m)), 1)"
    using ne(1) by (auto simp: cbuffPeekHead_def ptr_prev_def is_empty_def)
qed

section \<open>The array operations\<close>

definition array_count :: "u32 \<Rightarrow> nat \<Rightarrow> nat" where
  "array_count noOfBytes room = (if noOfBytes = 0 then room else min (unat noOfBytes) room)"

text \<open>The number of passes left when \<open>done\<close> of them are over.\<close>

definition passes_left :: "u32 \<Rightarrow> u32 \<Rightarrow> nat \<Rightarrow> nat" where
  "passes_left noOfBytes so_far room =
     (if noOfBytes = 0 then room else min (unat noOfBytes - unat so_far) room)"

lemma passes_left_start: "passes_left nb 0 room = array_count nb room"
  by (simp add: passes_left_def array_count_def)

lemma passes_left_step:
  assumes "nb = 0 \<or> c < nb" "unat c + room < 2 ^ 32" "0 < room"
  shows "c + 1 = nb \<Longrightarrow> passes_left nb c room = 1"
    "c + 1 \<noteq> nb \<Longrightarrow> passes_left nb c room = Suc (passes_left nb (c + 1) (room - 1)) \<and>
       (nb = 0 \<or> c + 1 < nb) \<and> unat (c + 1) + (room - 1) < 2 ^ 32"
proof -
  have lt: "unat c + 1 < 2 ^ 32" using assms(2,3) by linarith
  then have u: "unat (c + 1) = Suc (unat c)" by (simp add: unat_word_ariths)
  show "passes_left nb c room = 1" if "c + 1 = nb"
  proof -
    have "unat nb = Suc (unat c)" using u that by simp
    then show ?thesis using assms(3) by (auto simp: passes_left_def)
  qed
  assume ne: "c + 1 \<noteq> nb"
  have "unat nb \<noteq> Suc (unat c)" using ne u by (metis word_unat_eq_iff)
  moreover have "nb = 0 \<or> unat c < unat nb" using assms(1) by (simp add: word_less_nat_alt)
  ultimately have l: "nb = 0 \<or> Suc (unat c) < unat nb" by linarith
  then have "passes_left nb c room = Suc (passes_left nb (c + 1) (room - 1))"
    unfolding passes_left_def u using assms(3) by auto
  moreover have "nb = 0 \<or> c + 1 < nb" using l u by (simp add: word_less_nat_alt)
  moreover have "unat (c + 1) + (room - 1) < 2 ^ 32" unfolding u using assms(2,3) by linarith
  ultimately show "passes_left nb c room = Suc (passes_left nb (c + 1) (room - 1)) \<and>
       (nb = 0 \<or> c + 1 < nb) \<and> unat (c + 1) + (room - 1) < 2 ^ 32" by blast
qed

lemma put_array_loop_pos:
  assumes "cb_pos b x k" "is_full b \<longleftrightarrow> k = cb_size b" "nb = 0 \<or> c < nb"
    "unat c + (cb_size b - k) < 2 ^ 32" "w = passes_left nb c (cb_size b - k)"
    "disjnt_blk data w (startOfBuffer b) (cb_size b)"
  shows "\<exists>b' m'. put_array_loop b m data c nb = Some (b', m', c + of_nat w) \<and> cb_pos b' x (k + w) \<and>
    (is_full b' \<longleftrightarrow> k + w = cb_size b) \<and> cb_same b b' \<and>
    ring_read m' (startOfBuffer b) (cb_size b) x (k + w) =
      ring_read m (startOfBuffer b) (cb_size b) x k @ mem_read m data w \<and>
    same_outside m m' (startOfBuffer b) (cb_size b)"
  using assms
proof (induction "cb_size b - k" arbitrary: b m data c k w)
  case 0
  then have "k = cb_size b" "w = 0" by (auto simp: cb_pos_def passes_left_def)
  moreover from this have "put_array_loop b m data c nb = Some (b, m, c)"
    using "0.prems"(2) by (subst put_array_loop.simps) (simp add: is_full_def)
  ultimately show ?case using 0 by simp
next
  case (Suc r)
  define n where "n = cb_size b"
  define s where "s = startOfBuffer b"
  have k: "k < n" "\<not> is_full b" "n - k = Suc r" using Suc.hyps(2) Suc.prems(2) by (auto simp: n_def)
  define m1 where "m1 = m(s + (x + k) mod n := m data)"
  obtain b1 where b1: "put_step b m (m data) = (b1, m1)" "cb_pos b1 x (Suc k)"
      "is_full b1 \<longleftrightarrow> Suc k = cb_size b1" "cb_same b b1"
    using put_step_pos [OF Suc.prems(1) _ k(2), of m "m data"] k(1) unfolding n_def m1_def s_def by blast
  have sz: "cb_size b1 = n" "startOfBuffer b1 = s"
    using cb_same_size [OF b1(4)] b1(4) by (simp_all add: n_def s_def cb_same_def)
  have room: "unat c + Suc r < 2 ^ 32" using Suc.prems(4) k by (simp add: n_def)
  have wr: "w = passes_left nb c (Suc r)" using Suc.prems(5) k(3) by (simp add: n_def)
  have pos: "(x + k) mod n < n" using k(1) by simp
  have unf: "put_array_loop b m data c nb =
      (if c + 1 = nb then Some (b1, m1, c + 1) else put_array_loop b1 m1 (data + 1) (c + 1) nb)"
    using k(2) b1(1) by (subst put_array_loop.simps) (simp add: is_full_def)
  have rr: "ring_read m1 s n x (Suc k) = ring_read m s n x k @ [m data]"
    using k(1) by (simp add: m1_def ring_read_snoc ring_read_upd_free)
  have so: "same_outside m m1 s n" using pos by (auto simp: same_outside_def m1_def)
  show ?case
  proof (cases "c + 1 = nb")
    case True
    then have "w = 1" using passes_left_step(1) [OF Suc.prems(3) room] wr by simp
    then show ?thesis using unf True b1 sz rr so k(1)
      by (simp add: n_def s_def mem_read_Suc)
  next
    case False
    define v where "v = passes_left nb (c + 1) r"
    have w: "w = Suc v" and nxt: "nb = 0 \<or> c + 1 < nb" "unat (c + 1) + r < 2 ^ 32"
      using passes_left_step(2) [OF Suc.prems(3) room _ False] wr by (simp_all add: v_def)
    have dj: "disjnt_blk data (Suc v) s n" using Suc.prems(6) w by (simp add: s_def n_def)
    then have dj1: "disjnt_blk (data + 1) v s n" by (auto simp: disjnt_blk_def)
    have r: "cb_size b1 - Suc k = r" using k sz by simp
    have "\<exists>b' m'. put_array_loop b1 m1 (data + 1) (c + 1) nb = Some (b', m', c + 1 + of_nat v) \<and>
      cb_pos b' x (Suc k + v) \<and> (is_full b' \<longleftrightarrow> Suc k + v = n) \<and> cb_same b1 b' \<and>
      ring_read m' s n x (Suc k + v) = ring_read m1 s n x (Suc k) @ mem_read m1 (data + 1) v \<and>
      same_outside m1 m' s n"
      using Suc.hyps(1) [of b1 "Suc k" "c + 1" v "data + 1" m1] b1 nxt dj1 r sz by (simp add: v_def)
    then obtain b' m' where ih: "put_array_loop b1 m1 (data + 1) (c + 1) nb = Some (b', m', c + 1 + of_nat v)"
      "cb_pos b' x (Suc k + v)" "is_full b' \<longleftrightarrow> Suc k + v = n" "cb_same b1 b'"
      "ring_read m' s n x (Suc k + v) = ring_read m1 s n x (Suc k) @ mem_read m1 (data + 1) v"
      "same_outside m1 m' s n" by blast
    have "mem_read m1 (data + 1) v = mem_read m (data + 1) v"
      by (rule same_outside_read [OF so dj1])
    then have "ring_read m' s n x (k + w) = ring_read m s n x k @ mem_read m data w"
      using ih(5) rr w by (simp add: mem_read_Suc)
    moreover have "put_array_loop b m data c nb = Some (b', m', c + of_nat w)"
      using unf False ih(1) w by (simp add: algebra_simps)
    ultimately show ?thesis
      using ih cb_same_trans [OF b1(4) ih(4)] same_outside_trans [OF so ih(6)] w
      by (auto simp: n_def s_def)
  qed
qed

lemma ring_read_upd_disjnt [mem_simps]:
  assumes "0 < n" "d < b \<or> b + n \<le> d"
  shows "ring_read (m(d := v)) b n off k = ring_read m b n off k"
proof -
  have "b + (off + i) mod n \<noteq> d" for i
    using assms mod_less_divisor [OF assms(1), of "off + i"] by linarith
  then show ?thesis by (simp add: ring_read_def)
qed

lemma get_array_loop_pos:
  assumes "cb_pos b x k" "is_empty b \<longleftrightarrow> k = 0" "nb = 0 \<or> c < nb"
    "unat c + k < 2 ^ 32" "w = passes_left nb c k"
    "disjnt_blk data w (startOfBuffer b) (cb_size b)"
  shows "\<exists>b'. get_array_loop b m data c nb =
      Some (b', mem_write m data (ring_read m (startOfBuffer b) (cb_size b) x w), c + of_nat w) \<and>
    cb_pos b' ((x + w) mod cb_size b) (k - w) \<and> (is_empty b' \<longleftrightarrow> w = k) \<and> is_full b' = is_full b \<and> cb_same b b'"
  using assms
proof (induction k arbitrary: b m data c x w)
  case 0
  then have "w = 0" by (simp add: passes_left_def)
  moreover have "get_array_loop b m data c nb = Some (b, m, c)"
    using "0.prems"(2) by (subst get_array_loop.simps) (simp add: is_empty_def)
  ultimately show ?case using 0 by (simp add: cb_pos_def)
next
  case (Suc k)
  define n where "n = cb_size b"
  define s where "s = startOfBuffer b"
  have ne: "\<not> is_empty b" "x < n" using Suc.prems(1,2) by (auto simp: n_def cb_pos_def)
  define m1 where "m1 = m(data := m (s + x))"
  obtain b1 where b1: "get_step b m = (b1, m (s + x))" "cb_pos b1 (Suc x mod n) k"
      "is_empty b1 \<longleftrightarrow> k = 0" "is_full b1 = is_full b" "cb_same b b1"
    using get_step_pos [OF Suc.prems(1) _ ne(1), of m] by (auto simp: n_def s_def)
  have sz: "cb_size b1 = n" "startOfBuffer b1 = s"
    using cb_same_size [OF b1(5)] b1(5) by (simp_all add: n_def s_def cb_same_def)
  have unf: "get_array_loop b m data c nb =
      (if c + 1 = nb then Some (b1, m1, c + 1) else get_array_loop b1 m1 (data + 1) (c + 1) nb)"
    using ne(1) b1(1) by (subst get_array_loop.simps) (simp add: is_empty_def m1_def)
  show ?case
  proof (cases "c + 1 = nb")
    case True
    then have "w = 1" using passes_left_step(1) [OF Suc.prems(3,4)] Suc.prems(5) by simp
    then show ?thesis using unf True b1 sz ne(2)
      by (auto simp: n_def s_def ring_read_Cons mem_write_Cons m1_def)
  next
    case False
    define v where "v = passes_left nb (c + 1) k"
    have w: "w = Suc v" and nxt: "nb = 0 \<or> c + 1 < nb" "unat (c + 1) + k < 2 ^ 32"
      using passes_left_step(2) [OF Suc.prems(3,4) _ False] Suc.prems(5) by (simp_all add: v_def)
    have dj: "disjnt_blk data (Suc v) s n" using Suc.prems(6) w by (simp add: s_def n_def)
    then have dj1: "disjnt_blk (data + 1) v s n" by (auto simp: disjnt_blk_def)
    have rr: "ring_read m1 s n (Suc x mod n) v = ring_read m s n (Suc x) v"
    proof -
      have "0 < n" "data < s \<or> s + n \<le> data" using dj ne(2) by (auto simp: disjnt_blk_def)
      then have "ring_read m1 s n (Suc x mod n) v = ring_read m s n (Suc x mod n) v"
        unfolding m1_def by (rule ring_read_upd_disjnt)
      also have "\<dots> = ring_read m s n (Suc x) v" by (rule ring_read_cong_mod) simp
      finally show ?thesis .
    qed
    have "(Suc x mod n + v) mod n = (x + w) mod n" by (simp add: w mod_add_left_eq)
    then have "\<exists>b'. get_array_loop b1 m1 (data + 1) (c + 1) nb =
        Some (b', mem_write m1 (data + 1) (ring_read m s n (Suc x) v), c + 1 + of_nat v) \<and>
      cb_pos b' ((x + w) mod n) (k - v) \<and> (is_empty b' \<longleftrightarrow> v = k) \<and> is_full b' = is_full b1 \<and> cb_same b1 b'"
      using Suc.IH [OF b1(2,3) nxt v_def, of "data + 1" m1] dj1 by (simp add: sz rr)
    then obtain b' where ih: "get_array_loop b1 m1 (data + 1) (c + 1) nb =
        Some (b', mem_write m1 (data + 1) (ring_read m s n (Suc x) v), c + 1 + of_nat v)"
      "cb_pos b' ((x + w) mod n) (k - v)" "is_empty b' \<longleftrightarrow> v = k" "is_full b' = is_full b1" "cb_same b1 b'" by blast
    have "mem_write m data (ring_read m s n x w) = mem_write m1 (data + 1) (ring_read m s n (Suc x) v)"
      using ne(2) by (simp add: w ring_read_Cons mem_write_Cons m1_def)
    then have "get_array_loop b m data c nb = Some (b', mem_write m data (ring_read m s n x w), c + of_nat w)"
      using unf False ih(1) w by (simp add: algebra_simps)
    then show ?thesis
      using ih(2-4) b1(4) cb_same_trans [OF b1(5) ih(5)] w by (auto simp: n_def s_def)
  qed
qed

section \<open>Properties\<close>

text \<open>
  C14. The circular buffer is a bounded byte queue: any sequence of \<^verbatim>\<open>cbuffPutByte\<close> and \<^verbatim>\<open>cbuffGetByte\<close>
  calls, started in any well-formed object, returns exactly what the abstract bounded queue of the
  array's full capacity returns and keeps the object well formed. A put is refused only when every
  cell of the array is used.
\<close>

theorem cbuff_refines_queue:
  assumes "cb_inv b"
  shows "\<exists>b' m'. fifo_run cb_put cb_get (b, m) cs =
      ((b', m'), snd (bq_run (cb_size b) (cb_contents b m) cs)) \<and>
    cb_contents b' m' = fst (bq_run (cb_size b) (cb_contents b m) cs) \<and> cb_inv b' \<and> cb_size b' = cb_size b"
  using cb.run_refines [of "(b, m)" cs] assms by auto

definition sample_cbuff :: CBUFFOBJ where
  "sample_cbuff = \<lparr>startOfBuffer = 100, endOfBuffer = 103, inPointer = 101, outPointer = 103,
     bufferNumber = 1, localFlag = CBUFF_OPEN, nextCircBufferObj = 0\<rparr>"

lemma sample_cbuff_ok [simp]:
  "cb_inv sample_cbuff" "cb_fill sample_cbuff = 2" "cb_size sample_cbuff = 4" "startOfBuffer sample_cbuff = 100"
  "cb_contents sample_cbuff m = [m 103, m 100]"
  by (simp_all add: cb_inv_def cb_fill_def sample_cbuff_def is_full_def is_empty_def cb_size_def cb_contents_def
      ring_read_def upt_rec)

theorem cbuff_refines_queue_witness:
  "\<exists>b' m'. fifo_run cb_put cb_get (sample_cbuff, \<lambda>_. 0) [Put_cmd 7, Get_cmd] =
      ((b', m'), [Put_res True, Get_res (Some 0)]) \<and> cb_contents b' m' = [0, 7] \<and> cb_inv b' \<and> cb_size b' = 4"
  using cbuff_refines_queue [OF sample_cbuff_ok(1), of "\<lambda>_. 0" "[Put_cmd 7, Get_cmd]"] by simp

text \<open>
  \<^verbatim>\<open>cbuffPutArray\<close> returns (its loop ends), writes as many bytes as asked for and as fit, appends
  exactly those bytes of the caller's array in order, keeps the object well formed and changes no byte
  outside the buffer's array. A count of 0 is not "nothing": it fills the buffer.
\<close>

theorem cbuffPutArray_appends:
  assumes "cb_inv b" "cb_size b < 2 ^ 32" "w = array_count noOfBytes (cbuffGetSpace b)"
    "disjnt_blk data w (startOfBuffer b) (cb_size b)"
  shows "\<exists>b' m'. cbuffPutArray b m data noOfBytes = Some (b', m', of_nat w) \<and> cb_inv b' \<and>
    cb_contents b' m' = cb_contents b m @ mem_read m data w \<and>
    same_outside m m' (startOfBuffer b) (cb_size b)"
proof (cases "is_full b")
  case True
  then have "w = 0"
    using assms(3) cb_inv_fill(5) [OF assms(1)] by (simp add: array_count_def cbuffGetSpace_fill [OF assms(1)])
  then show ?thesis using True assms(1) by (simp add: cbuffPutArray_def is_full_def)
next
  case False
  define x k where "x = outPointer b - startOfBuffer b" and "k = cb_fill b"
  have p: "cb_pos b x k" using cb_inv_pos [OF assms(1)] by (simp add: x_def k_def)
  have w: "w = passes_left noOfBytes 0 (cb_size b - k)"
    using assms(3) by (simp add: passes_left_start cbuffGetSpace_fill [OF assms(1)] k_def)
  have "noOfBytes = 0 \<or> 0 < noOfBytes" by (simp add: word_gt_0)
  moreover have "unat (0 :: u32) + (cb_size b - k) < 2 ^ 32" using assms(2) by simp
  moreover have "is_full b \<longleftrightarrow> k = cb_size b" using cb_inv_fill(5) [OF assms(1)] by (simp add: k_def)
  ultimately obtain b1 m1 where l: "put_array_loop b m data 0 noOfBytes = Some (b1, m1, 0 + of_nat w)"
      "cb_pos b1 x (k + w)" "is_full b1 \<longleftrightarrow> k + w = cb_size b" "cb_same b b1"
      "ring_read m1 (startOfBuffer b) (cb_size b) x (k + w) =
        ring_read m (startOfBuffer b) (cb_size b) x k @ mem_read m data w"
      "same_outside m m1 (startOfBuffer b) (cb_size b)"
    using put_array_loop_pos [OF p _ _ _ w assms(4), of m] by blast
  have "0 < w" using False cb_inv_fill(3,5) [OF assms(1)] w
    by (auto simp: passes_left_def k_def unat_gt_0)
  then have "cb_inv (clear_flag CBUFF_EMPTY b1)"
    "cb_contents (clear_flag CBUFF_EMPTY b1) m1 = ring_read m1 (startOfBuffer b) (cb_size b) x (k + w)"
    using cb_posI [where b = "clear_flag CBUFF_EMPTY b1" and x = x and k = "k + w"] l(2-4) cb_same_size [OF l(4)]
    by (simp_all add: cb_same_def)
  moreover have "cb_contents b m = ring_read m (startOfBuffer b) (cb_size b) x k"
    by (simp add: cb_contents_def x_def k_def)
  ultimately show ?thesis using False l(1,5,6) by (simp add: cbuffPutArray_def is_full_def)
qed

theorem cbuffPutArray_appends_witness:
  "\<exists>b' m'. cbuffPutArray sample_cbuff (\<lambda>a. of_nat a) 10 3 = Some (b', m', 2) \<and> cb_inv b' \<and>
    cb_contents b' m' = [103, 100, 10, 11] \<and> same_outside (\<lambda>a. of_nat a) m' 100 4"
proof -
  have w: "(2 :: nat) = array_count 3 (cbuffGetSpace sample_cbuff)"
    by (simp add: cbuffGetSpace_fill array_count_def)
  have d: "disjnt_blk 10 2 (startOfBuffer sample_cbuff) (cb_size sample_cbuff)" by (simp add: disjnt_blk_def)
  have "mem_read (\<lambda>a. of_nat a) 10 2 = [10, 11]" by (simp add: mem_read_def upt_conv_Cons)
  then show ?thesis using cbuffPutArray_appends [OF sample_cbuff_ok(1) _ w d, of "\<lambda>a. of_nat a"] by simp
qed

text \<open>
  \<^verbatim>\<open>cbuffGetArray\<close> returns, stores the oldest bytes in the caller's array, as many as asked for and
  present (0 asks for all), reports their number and leaves the rest in the buffer; apart from that
  array no byte changes.
\<close>

theorem cbuffGetArray_removes:
  assumes "cb_inv b" "cb_size b < 2 ^ 32" "w = array_count noOfBytes (cbuffGetFill b)"
    "disjnt_blk data w (startOfBuffer b) (cb_size b)"
  shows "\<exists>b'. cbuffGetArray b m data noOfBytes =
      Some (b', mem_write m data (take w (cb_contents b m)), of_nat w) \<and> cb_inv b' \<and>
    cb_contents b' m = drop w (cb_contents b m)"
proof (cases "is_empty b")
  case True
  then have "w = 0"
    using assms(3) cb_inv_fill(6) [OF assms(1)] by (simp add: array_count_def cbuffGetFill_fill [OF assms(1)])
  then show ?thesis using True assms(1) by (simp add: cbuffGetArray_def is_empty_def)
next
  case False
  define x k n where "x = outPointer b - startOfBuffer b" and "k = cb_fill b" and "n = cb_size b"
  have p: "cb_pos b x k" using cb_inv_pos [OF assms(1)] by (simp add: x_def k_def)
  have c: "cb_contents b m = ring_read m (startOfBuffer b) n x k"
    by (simp add: cb_contents_def x_def k_def n_def)
  have w: "w = passes_left noOfBytes 0 k"
    using assms(3) by (simp add: passes_left_start cbuffGetFill_fill [OF assms(1)] k_def)
  have "noOfBytes = 0 \<or> 0 < noOfBytes" by (simp add: word_gt_0)
  moreover have "unat (0 :: u32) + k < 2 ^ 32" using assms(2) p by (simp add: cb_pos_def)
  moreover have e: "is_empty b \<longleftrightarrow> k = 0" using cb_inv_fill(6) [OF assms(1)] by (simp add: k_def)
  ultimately obtain b1 where l: "get_array_loop b m data 0 noOfBytes =
        Some (b1, mem_write m data (ring_read m (startOfBuffer b) n x w), 0 + of_nat w)"
      "cb_pos b1 ((x + w) mod n) (k - w)" "is_empty b1 \<longleftrightarrow> w = k" "cb_same b b1"
    using get_array_loop_pos [OF p _ _ _ w assms(4), of m] unfolding n_def by blast
  have le: "0 < w" "w \<le> k" "k \<le> n" using False e w p
    by (auto simp: passes_left_def unat_gt_0 cb_pos_def n_def)
  then have q: "k - w \<noteq> n" "k - w = 0 \<longleftrightarrow> w = k" by linarith+
  then have "cb_inv (clear_flag CBUFF_FULL b1)"
    "cb_contents (clear_flag CBUFF_FULL b1) m = ring_read m (startOfBuffer b) n ((x + w) mod n) (k - w)"
    using cb_posI [where b = "clear_flag CBUFF_FULL b1" and x = "(x + w) mod n" and k = "k - w"]
      l(2-4) cb_same_size [OF l(4)] by (simp_all add: cb_same_def n_def)
  moreover have "ring_read m (startOfBuffer b) n ((x + w) mod n) (k - w) = drop w (cb_contents b m)"
  proof (rule nth_equalityI)
    fix i assume "i < length (ring_read m (startOfBuffer b) n ((x + w) mod n) (k - w))"
    then have "w + i < k" "i < k - w" by simp_all
    then show "ring_read m (startOfBuffer b) n ((x + w) mod n) (k - w) ! i = drop w (cb_contents b m) ! i"
      by (simp add: c ring_read_def mod_add_left_eq add.assoc)
  qed (simp add: c)
  moreover have "ring_read m (startOfBuffer b) n x w = take w (cb_contents b m)"
    using le(2) by (intro nth_equalityI) (simp_all add: c ring_read_def)
  ultimately show ?thesis using False l(1) by (simp add: cbuffGetArray_def is_empty_def)
qed

theorem cbuffGetArray_removes_witness:
  "\<exists>b'. cbuffGetArray sample_cbuff (\<lambda>a. of_nat a) 10 0 = Some (b', mem_write (\<lambda>a. of_nat a) 10 [103, 100], 2) \<and>
    cb_inv b' \<and> cb_contents b' (\<lambda>a. of_nat a) = []"
proof -
  have w: "(2 :: nat) = array_count 0 (cbuffGetFill sample_cbuff)"
    by (simp add: cbuffGetFill_fill array_count_def)
  have d: "disjnt_blk 10 2 (startOfBuffer sample_cbuff) (cb_size sample_cbuff)" by (simp add: disjnt_blk_def)
  show ?thesis using cbuffGetArray_removes [OF sample_cbuff_ok(1) _ w d, of "\<lambda>a. of_nat a"] by simp
qed

lemma cbuffGetByte_out:
  assumes "cb_inv b" "cbuffGetByte b m = (b1, r, 1)"
  shows "ptr_prev b1 (outPointer b1) = outPointer b"
proof -
  have "outPointer b1 = ptr_next b (outPointer b)" "startOfBuffer b1 = startOfBuffer b" "endOfBuffer b1 = endOfBuffer b"
    using assms(2) by (auto simp: cbuffGetByte_def get_step_def Let_def split: if_splits)
  then show ?thesis
    using assms(1) unfolding ptr_prev_def ptr_next_def cb_inv_def by (cases "outPointer b = endOfBuffer b") auto
qed

text \<open>
  \<^verbatim>\<open>cbuffUnputByte\<close> takes back the byte a successful \<^verbatim>\<open>cbuffPutByte\<close> stored, and \<^verbatim>\<open>cbuffUngetByte\<close>
  returns the byte a successful \<^verbatim>\<open>cbuffGetByte\<close> removed to the front of the queue: both restore the
  contents, and a peek at the respective end shows the byte in between.
\<close>

theorem cbuff_undo:
  assumes "cb_inv b"
  shows "(\<not> is_full b \<longrightarrow> (\<exists>b1 b2 m1. cbuffPutByte b m v = (b1, m1, 1) \<and>
      cbuffPeekHead b1 m1 = (Some v, 1) \<and> cbuffUnputByte b1 = (b2, 0) \<and> cb_inv b2 \<and>
      cb_contents b2 m1 = cb_contents b m)) \<and>
    (\<not> is_empty b \<longrightarrow> (\<exists>b1 b2 u. cbuffPeekTail b m = (Some u, 1) \<and> cbuffGetByte b m = (b1, Some u, 1) \<and>
      cbuffUngetByte b1 = (b2, 0) \<and> cb_inv b2 \<and> cb_contents b2 m = cb_contents b m))"
proof (intro conjI impI)
  assume "\<not> is_full b"
  then have "cb_fill b < cb_size b" using cb_inv_fill(3,5) [OF assms] by simp
  then obtain b1 where b1: "cbuffPutByte b m v = (b1, m(inPointer b := v), 1)" "cb_inv b1"
      "cb_contents b1 (m(inPointer b := v)) = cb_contents b m @ [v]"
    using cbuffPutByte_room [OF assms] by blast
  have f: "0 < cb_fill b1" using b1(3) by (metis length_cb_contents length_append_singleton zero_less_Suc)
  show "\<exists>b1 b2 m1. cbuffPutByte b m v = (b1, m1, 1) \<and> cbuffPeekHead b1 m1 = (Some v, 1) \<and>
      cbuffUnputByte b1 = (b2, 0) \<and> cb_inv b2 \<and> cb_contents b2 m1 = cb_contents b m"
    using b1 cbuffPeek_ends(2) [OF b1(2) f, of "m(inPointer b := v)"]
      cbuffUnputByte_pos [OF b1(2) f, of "m(inPointer b := v)"] by auto
next
  assume "\<not> is_empty b"
  then have f: "0 < cb_fill b" using cb_inv_fill(6) [OF assms] by simp
  then obtain b1 where b1: "cbuffGetByte b m = (b1, Some (m (outPointer b)), 1)" "cb_inv b1" "cb_same b b1"
      "cb_contents b m = m (outPointer b) # cb_contents b1 m"
    using cbuffGetByte_some [OF assms] by blast
  have "Suc (cb_fill b1) = cb_fill b" using b1(4) by (metis length_Cons length_cb_contents)
  then have "cb_fill b1 < cb_size b1" using cb_inv_fill(3) [OF assms] cb_same_size [OF b1(3)] by simp
  from cbuffUngetByte_pos [OF b1(2) this, of m] cbuffGetByte_out [OF assms b1(1)]
  show "\<exists>b1 b2 u. cbuffPeekTail b m = (Some u, 1) \<and> cbuffGetByte b m = (b1, Some u, 1) \<and>
      cbuffUngetByte b1 = (b2, 0) \<and> cb_inv b2 \<and> cb_contents b2 m = cb_contents b m"
    using b1 cbuffPeek_ends(1) [OF assms f, of m] by auto
qed

theorem cbuff_undo_witness:
  "\<not> is_full sample_cbuff \<and> \<not> is_empty sample_cbuff \<and>
    (\<exists>b1 b2 m1. cbuffPutByte sample_cbuff (\<lambda>_. 0) 5 = (b1, m1, 1) \<and>
      cbuffPeekHead b1 m1 = (Some 5, 1) \<and> cbuffUnputByte b1 = (b2, 0) \<and> cb_inv b2 \<and>
      cb_contents b2 m1 = [0, 0])"
proof -
  have "\<not> is_full sample_cbuff" "\<not> is_empty sample_cbuff"
    by (simp_all add: is_full_def is_empty_def sample_cbuff_def)
  then show ?thesis using cbuff_undo [OF sample_cbuff_ok(1), of "\<lambda>_. 0" 5] by simp
qed

end
