(* ===== verification/Cbuff_Reg.thy ===== *)
theory Cbuff_Reg
  imports Cbuff
begin

text \<open>
  The registry of \<^verbatim>\<open>app_common/util/cbuff.c\<close>: the module variables \<^verbatim>\<open>startOfCbuffObjs\<close> and
  \<^verbatim>\<open>activeCbuffObjs\<close> and the linked list of buffer objects, an object store indexed by addresses.
  The invariant \<open>reg_ok\<close> ties the list, the numbers of its objects and the bit set of numbers in use.
\<close>

section \<open>Model\<close>

record cbuff_reg =
  startOfCbuffObjs :: addr
  activeCbuffObjs :: u32
  objs :: "addr \<Rightarrow> CBUFFOBJ"

definition cbuffInit :: "cbuff_reg \<Rightarrow> cbuff_reg" where
  "cbuffInit r = r\<lparr>startOfCbuffObjs := 0, activeCbuffObjs := 0\<rparr>"

definition cbuffDeinit :: "cbuff_reg \<Rightarrow> cbuff_reg" where
  "cbuffDeinit r = r\<lparr>startOfCbuffObjs := 0, activeCbuffObjs := 0\<rparr>"

text \<open>The search for a free number; 0 when the mask shifts the bit out. \<open>None\<close> is no return.\<close>

partial_function (option) free_number :: "u32 \<Rightarrow> u32 \<Rightarrow> u32 option" where
  "free_number active circBuffNum =
     (if active AND circBuffNum = 0 then Some circBuffNum
      else let n = push_bit 1 circBuffNum AND 0xFFFF in
        if n \<noteq> 0 then free_number active n else Some 0)"

definition setup_obj :: "CBUFFOBJ \<Rightarrow> addr \<Rightarrow> u32 \<Rightarrow> addr \<Rightarrow> CBUFFOBJ" where
  "setup_obj b buffer sizeOfBuffer nxt =
     b\<lparr>startOfBuffer := buffer, endOfBuffer := buffer + unat (sizeOfBuffer - 1),
       inPointer := buffer, outPointer := buffer, localFlag := 0 OR CBUFF_EMPTY, nextCircBufferObj := nxt\<rparr>"

definition cbuffCreate :: "cbuff_reg \<Rightarrow> addr \<Rightarrow> u32 \<Rightarrow> addr \<Rightarrow> (cbuff_reg \<times> u32) option" where
  "cbuffCreate r buffer sizeOfBuffer newCircBufferObj =
     (if buffer \<noteq> 0 \<and> sizeOfBuffer \<noteq> 0 \<and> newCircBufferObj \<noteq> 0 then
        if activeCbuffObjs r = 0 \<and> startOfCbuffObjs r = 0 then
          let b = (setup_obj (objs r newCircBufferObj) buffer sizeOfBuffer 0)\<lparr>bufferNumber := 1\<rparr>
          in Some (r\<lparr>startOfCbuffObjs := newCircBufferObj, activeCbuffObjs := activeCbuffObjs r OR 1,
                     objs := (objs r)(newCircBufferObj := b)\<rparr>, 1)
        else if activeCbuffObjs r \<noteq> 0xFFFF then
          let b = setup_obj (objs r newCircBufferObj) buffer sizeOfBuffer (startOfCbuffObjs r);
              r1 = r\<lparr>startOfCbuffObjs := newCircBufferObj, objs := (objs r)(newCircBufferObj := b)\<rparr>
          in (case free_number (activeCbuffObjs r) (push_bit 1 1) of
                None \<Rightarrow> None
              | Some n \<Rightarrow>
                  if n \<noteq> 0 then
                    Some (r1\<lparr>activeCbuffObjs := activeCbuffObjs r OR n,
                             objs := (objs r1)(newCircBufferObj := b\<lparr>bufferNumber := n\<rparr>)\<rparr>, n)
                  else Some (r1, 0))
        else Some (r, 0)
      else Some (r, 0))"

partial_function (option) destroy_loop :: "cbuff_reg \<Rightarrow> addr \<Rightarrow> addr \<Rightarrow> u32 \<Rightarrow> (cbuff_reg \<times> u8) option" where
  "destroy_loop r prev loc num =
     (if bufferNumber (objs r loc) = num then
        Some (r\<lparr>activeCbuffObjs := activeCbuffObjs r AND NOT num,
                objs := (objs r)(prev := (objs r prev)\<lparr>nextCircBufferObj := nextCircBufferObj (objs r loc)\<rparr>)\<rparr>, 1)
      else if nextCircBufferObj (objs r loc) \<noteq> 0
      then destroy_loop r loc (nextCircBufferObj (objs r loc)) num
      else Some (r, 0))"

definition cbuffDestroy :: "cbuff_reg \<Rightarrow> u32 \<Rightarrow> (cbuff_reg \<times> u8) option" where
  "cbuffDestroy r num =
     (let s = startOfCbuffObjs r in
      if s \<noteq> 0 then
        if bufferNumber (objs r s) = num then
          Some (r\<lparr>startOfCbuffObjs := nextCircBufferObj (objs r s), activeCbuffObjs := activeCbuffObjs r AND NOT num\<rparr>, 1)
        else if nextCircBufferObj (objs r s) \<noteq> 0
        then destroy_loop r s (nextCircBufferObj (objs r s)) num
        else Some (r, 0)
      else Some (r, 0))"

partial_function (option) open_loop :: "cbuff_reg \<Rightarrow> addr \<Rightarrow> u32 \<Rightarrow> (cbuff_reg \<times> addr) option" where
  "open_loop r loc num =
     (if bufferNumber (objs r loc) = num then
        if localFlag (objs r loc) AND CBUFF_OPEN = 0
        then Some (r\<lparr>objs := (objs r)(loc := set_flag CBUFF_OPEN (objs r loc))\<rparr>, loc)
        else Some (r, 0)
      else if nextCircBufferObj (objs r loc) \<noteq> 0
      then open_loop r (nextCircBufferObj (objs r loc)) num
      else Some (r, 0))"

text \<open>With no object in the list the first pass reads through a null pointer: \<open>None\<close>.\<close>

definition cbuffOpen :: "cbuff_reg \<Rightarrow> u32 \<Rightarrow> (cbuff_reg \<times> addr) option" where
  "cbuffOpen r num = (if startOfCbuffObjs r = 0 then None else open_loop r (startOfCbuffObjs r) num)"

definition cbuffClose :: "cbuff_reg \<Rightarrow> addr \<Rightarrow> cbuff_reg \<times> u32" where
  "cbuffClose r h =
     (if localFlag (objs r h) AND CBUFF_OPEN \<noteq> 0
      then (r\<lparr>objs := (objs r)(h := clear_flag CBUFF_OPEN (objs r h))\<rparr>, bufferNumber (objs r h))
      else (r, 0))"

section \<open>The list of objects and its invariant\<close>

fun chain :: "(addr \<Rightarrow> CBUFFOBJ) \<Rightarrow> addr \<Rightarrow> addr list \<Rightarrow> bool" where
  "chain h p [] = (p = 0)"
| "chain h p (a # as) = (p = a \<and> a \<noteq> 0 \<and> chain h (nextCircBufferObj (h a)) as)"

definition reg_ok :: "cbuff_reg \<Rightarrow> addr list \<Rightarrow> bool" where
  "reg_ok r os \<longleftrightarrow> chain (objs r) (startOfCbuffObjs r) os \<and> distinct os \<and>
     distinct (map (\<lambda>a. bufferNumber (objs r a)) os) \<and>
     (\<forall>a \<in> set os. \<exists>i < 16. bufferNumber (objs r a) = 2 ^ i) \<and>
     (\<forall>i. bit (activeCbuffObjs r) i \<longleftrightarrow> (i < 16 \<and> (\<exists>a \<in> set os. bufferNumber (objs r a) = 2 ^ i)))"

lemma chain_cong:
  "(\<And>a. a \<in> set as \<Longrightarrow> nextCircBufferObj (h' a) = nextCircBufferObj (h a)) \<Longrightarrow> chain h' p as = chain h p as"
  by (induction as arbitrary: p) auto

lemma chain_upd_out [simp]: "b \<notin> set as \<Longrightarrow> chain (h(b := v)) p as = chain h p as"
  by (rule chain_cong) auto

lemma chain_next_0: "chain h p as \<Longrightarrow> p = 0 \<longleftrightarrow> as = []"
  by (cases as) auto

lemma exp_inj_u32:
  assumes "i < 32" "(2 :: u32) ^ i = 2 ^ j"
  shows "i = j"
proof -
  have "bit ((2 :: u32) ^ i) i" using assms(1) by (simp add: bit_simps)
  then show ?thesis unfolding assms(2) by (simp add: bit_simps)
qed

lemma free_number_search:
  assumes "i < 16"
  shows "free_number active (2 ^ i) =
    Some (case find (\<lambda>j. \<not> bit active j) [i..<16] of None \<Rightarrow> 0 | Some j \<Rightarrow> 2 ^ j)"
  using assms
proof (induction "16 - i" arbitrary: i)
  case 0
  then show ?case by simp
next
  case (Suc d)
  have up: "[i..<16] = i # [Suc i..<16]" using Suc.prems by (simp add: upt_conv_Cons)
  have sh: "push_bit 1 ((2 :: u32) ^ i) AND 0xFFFF = (if Suc i < 16 then 2 ^ Suc i else 0)"
  proof -
    have "push_bit 1 ((2 :: u32) ^ i) = 2 ^ Suc i" by (simp add: push_bit_eq_mult)
    moreover have "(0xFFFF :: u32) = mask 16" by (simp add: mask_eq_exp_minus_1)
    moreover have "(2 :: u32) ^ Suc i AND mask 16 = (if Suc i < 16 then 2 ^ Suc i else 0)"
      by (rule bit_word_eqI) (auto simp: bit_simps simp del: power_Suc)
    ultimately show ?thesis by (simp only:)
  qed
  show ?case
  proof (cases "bit active i")
    case True
    then have "free_number active (2 ^ i) = (if Suc i < 16 then free_number active (2 ^ Suc i) else Some 0)"
      unfolding free_number.simps [of active "2 ^ i"] sh Let_def
      by (auto simp: and_exp_eq_0_iff_not_bit word_exp_nz simp del: power_Suc)
    moreover have "find (\<lambda>j. \<not> bit active j) [i..<16] = find (\<lambda>j. \<not> bit active j) [Suc i..<16]"
      using True up by simp
    ultimately show ?thesis using Suc.hyps(1) [of "Suc i"] Suc.hyps(2)
      by (cases "Suc i < 16") (simp_all del: power_Suc)
  next
    case False
    then show ?thesis
      by (subst free_number.simps) (simp add: and_exp_eq_0_iff_not_bit up del: upt_Suc)
  qed
qed

lemma reg_ok_number_bit:
  assumes "reg_ok r os" "a \<in> set os"
  obtains i where "i < 16" "bufferNumber (objs r a) = 2 ^ i" "bit (activeCbuffObjs r) i"
  using assms unfolding reg_ok_def by blast

lemma reg_ok_empty:
  assumes "reg_ok r os"
  shows "activeCbuffObjs r = 0 \<and> startOfCbuffObjs r = 0 \<longleftrightarrow> os = []"
proof (cases os)
  case Nil
  then have "\<not> bit (activeCbuffObjs r) i" for i using assms by (simp add: reg_ok_def)
  then have "activeCbuffObjs r = 0" by (intro bit_eqI) simp
  then show ?thesis using assms Nil by (simp add: reg_ok_def)
next
  case (Cons a as)
  then show ?thesis using assms by (auto simp: reg_ok_def)
qed

text \<open>An object whose number was free joins at the head of the list.\<close>

lemma reg_ok_link:
  assumes "reg_ok r os" "a \<noteq> 0" "a \<notin> set os" "i < 16" "\<not> bit (activeCbuffObjs r) i"
    "nextCircBufferObj b = startOfCbuffObjs r" "bufferNumber b = 2 ^ i"
  shows "reg_ok (r\<lparr>startOfCbuffObjs := a, activeCbuffObjs := activeCbuffObjs r OR 2 ^ i,
      objs := (objs r)(a := b)\<rparr>) (a # os)"
proof -
  have out: "c \<noteq> a" if "c \<in> set os" for c using that assms(3) by blast
  have num: "bufferNumber (objs r c) \<noteq> 2 ^ i" if "c \<in> set os" for c
    using that assms(1,4,5) by (auto simp: reg_ok_def)
  have act: "bit (activeCbuffObjs r OR 2 ^ i) j \<longleftrightarrow>
      j < 16 \<and> (2 ^ i = (2 :: u32) ^ j \<or> (\<exists>c \<in> set os. bufferNumber (objs r c) = 2 ^ j))" for j
    using assms(1,4) exp_inj_u32 [of i j] by (auto simp: reg_ok_def bit_simps)
  show ?thesis
    using assms act num unfolding reg_ok_def by (auto simp: out cong: map_cong)
qed

lemma setup_obj_fields:
  assumes "sizeOfBuffer \<noteq> 0"
  shows "cb_inv (setup_obj b buffer sizeOfBuffer nxt)" "cb_fill (setup_obj b buffer sizeOfBuffer nxt) = 0"
    "cb_size (setup_obj b buffer sizeOfBuffer nxt) = unat sizeOfBuffer"
    "nextCircBufferObj (setup_obj b buffer sizeOfBuffer nxt) = nxt"
proof -
  have "unat (sizeOfBuffer - 1) = unat sizeOfBuffer - 1" using assms by (simp add: unat_minus_one)
  moreover have "0 < unat sizeOfBuffer" using assms by (simp add: unat_gt_0)
  ultimately show "cb_inv (setup_obj b buffer sizeOfBuffer nxt)" "cb_fill (setup_obj b buffer sizeOfBuffer nxt) = 0"
    "cb_size (setup_obj b buffer sizeOfBuffer nxt) = unat sizeOfBuffer"
    "nextCircBufferObj (setup_obj b buffer sizeOfBuffer nxt) = nxt"
    by (simp_all add: setup_obj_def cb_inv_def cb_fill_def cb_size_def is_full_def is_empty_def bit_simps)
qed

lemma next_upd_self [simp]: "\<exists>p. b = (b :: CBUFFOBJ)\<lparr>nextCircBufferObj := p\<rparr>"
  by (rule exI [of _ "nextCircBufferObj b"]) simp

lemma cb_number_upd [simp]:
  "cb_inv (b\<lparr>bufferNumber := n\<rparr>) = cb_inv b" "cb_fill (b\<lparr>bufferNumber := n\<rparr>) = cb_fill b"
  "cb_size (b\<lparr>bufferNumber := n\<rparr>) = cb_size b"
  by (simp_all add: cb_inv_def cb_fill_def cb_size_def is_full_def is_empty_def)

lemma destroy_loop_chain:
  assumes "chain (objs r) loc (as @ c # bs)" "prev \<notin> set (as @ c # bs)" "distinct (as @ c # bs)"
    "bufferNumber (objs r c) = num" "\<forall>a \<in> set as. bufferNumber (objs r a) \<noteq> num"
  shows "\<exists>p. destroy_loop r prev loc num =
      Some (r\<lparr>activeCbuffObjs := activeCbuffObjs r AND NOT num,
              objs := (objs r)(p := (objs r p)\<lparr>nextCircBufferObj := nextCircBufferObj (objs r c)\<rparr>)\<rparr>, 1) \<and>
    p = last (prev # as)"
  using assms
proof (induction as arbitrary: prev loc)
  case Nil
  then show ?case by (subst destroy_loop.simps) simp
next
  case (Cons a as)
  have nz: "nextCircBufferObj (objs r a) \<noteq> 0" and ch: "chain (objs r) (nextCircBufferObj (objs r a)) (as @ c # bs)"
    using Cons.prems(1) chain_next_0 [of "objs r" "nextCircBufferObj (objs r a)" "as @ c # bs"] by auto
  have "destroy_loop r prev loc num = destroy_loop r a (nextCircBufferObj (objs r a)) num"
    using Cons.prems(1,5) nz by (subst destroy_loop.simps) auto
  then show ?case using Cons.IH [OF ch, of a] Cons.prems(3-5) by auto
qed

lemma destroy_loop_none:
  assumes "chain (objs r) loc as" "as \<noteq> []" "\<forall>a \<in> set as. bufferNumber (objs r a) \<noteq> num"
  shows "destroy_loop r prev loc num = Some (r, 0)"
  using assms
proof (induction as arbitrary: prev loc)
  case Nil
  then show ?case by simp
next
  case (Cons a as)
  have "nextCircBufferObj (objs r a) = 0 \<longleftrightarrow> as = []" using Cons.prems(1) by (auto intro!: chain_next_0)
  then show ?case using Cons.IH [of "nextCircBufferObj (objs r a)"] Cons.prems
    by (subst destroy_loop.simps) auto
qed

lemma chain_unlink:
  assumes "chain h p (as @ c # bs)" "distinct (as @ c # bs)" "as \<noteq> []"
  shows "chain (h(last as := (h (last as))\<lparr>nextCircBufferObj := nextCircBufferObj (h c)\<rparr>)) p (as @ bs)"
  using assms
proof (induction as arbitrary: p)
  case Nil
  then show ?case by simp
next
  case (Cons a as)
  show ?case
  proof (cases as)
    case Nil
    then show ?thesis using Cons.prems by (auto simp del: fun_upd_apply simp: fun_upd_same)
  next
    case (Cons a' as')
    then have "last as \<noteq> a" using Cons.prems(2) last_in_set [of as] by auto
    then show ?thesis using Cons.IH [of "nextCircBufferObj (h a)"] Cons.prems Cons by auto
  qed
qed

text \<open>What leaving the list means for the invariant, whichever pointer was redirected.\<close>

lemma reg_ok_unlink:
  assumes "reg_ok r (as @ c # bs)" "chain h' start' (as @ bs)"
    "\<And>a. bufferNumber (h' a) = bufferNumber (objs r a)"
  shows "reg_ok (r\<lparr>startOfCbuffObjs := start', activeCbuffObjs := activeCbuffObjs r AND NOT (bufferNumber (objs r c)),
      objs := h'\<rparr>) (as @ bs)"
proof -
  obtain i where i: "i < 16" "bufferNumber (objs r c) = 2 ^ i"
    by (rule reg_ok_number_bit [OF assms(1), of c]) auto
  have d: "distinct (map (\<lambda>a. bufferNumber (objs r a)) (as @ c # bs))" using assms(1) by (simp add: reg_ok_def)
  then have ne: "bufferNumber (objs r a) \<noteq> 2 ^ i" if "a \<in> set (as @ bs)" for a
    using that i(2) by (auto simp: image_iff)
  have "bit (activeCbuffObjs r AND NOT (2 ^ i)) j \<longleftrightarrow>
      j < 16 \<and> (\<exists>a \<in> set (as @ bs). bufferNumber (objs r a) = 2 ^ j)" for j
  proof -
    have "bit (activeCbuffObjs r) j \<longleftrightarrow>
        j < 16 \<and> (2 ^ i = (2 :: u32) ^ j \<or> (\<exists>a \<in> set (as @ bs). bufferNumber (objs r a) = 2 ^ j))"
      using assms(1) i(2) by (simp add: reg_ok_def)
    moreover have "2 ^ i = (2 :: u32) ^ j \<longleftrightarrow> i = j" using exp_inj_u32 [of i j] i(1) by auto
    ultimately show ?thesis using ne by (auto simp: bit_simps)
  qed
  then show ?thesis using assms i d by (simp add: reg_ok_def)
qed

section \<open>Properties\<close>

text \<open>
  \<^verbatim>\<open>cbuffCreate\<close> on an object that is not registered yet: when the list is empty or one of the
  numbers 2..16 is free, it returns (its search loop ends), gives the object a number that was free,
  links it at the head of the list, sets it up as an empty buffer of the whole array and leaves every
  other object alone; the registry stays consistent.
\<close>

theorem cbuffCreate_registers:
  assumes "reg_ok r os" "a \<noteq> 0" "a \<notin> set os" "buffer \<noteq> 0" "sizeOfBuffer \<noteq> 0"
    "os = [] \<or> (\<exists>i \<in> {1..<16}. \<not> bit (activeCbuffObjs r) i)"
  shows "\<exists>r' i. cbuffCreate r buffer sizeOfBuffer a = Some (r', 2 ^ i) \<and> i < 16 \<and>
    \<not> bit (activeCbuffObjs r) i \<and> reg_ok r' (a # os) \<and>
    cb_inv (objs r' a) \<and> cb_contents (objs r' a) m = [] \<and> cb_size (objs r' a) = unat sizeOfBuffer \<and>
    (\<forall>b. b \<noteq> a \<longrightarrow> objs r' b = objs r b)"
proof -
  define b where "b i = (setup_obj (objs r a) buffer sizeOfBuffer (startOfCbuffObjs r))\<lparr>bufferNumber := 2 ^ i\<rparr>" for i
  define r' where "r' i = r\<lparr>startOfCbuffObjs := a, activeCbuffObjs := activeCbuffObjs r OR 2 ^ i,
      objs := (objs r)(a := b i)\<rparr>" for i
  have b: "cb_inv (b i)" "cb_contents (b i) m = []" "cb_size (b i) = unat sizeOfBuffer"
      "nextCircBufferObj (b i) = startOfCbuffObjs r" "bufferNumber (b i) = 2 ^ i" for i
    using setup_obj_fields [OF assms(5)] by (simp_all add: b_def cb_contents_Nil)
  have "\<exists>i. cbuffCreate r buffer sizeOfBuffer a = Some (r' i, 2 ^ i) \<and> i < 16 \<and> \<not> bit (activeCbuffObjs r) i"
  proof (cases "os = []")
    case True
    then have "activeCbuffObjs r = 0" "startOfCbuffObjs r = 0" using reg_ok_empty [OF assms(1)] by simp_all
    then have "cbuffCreate r buffer sizeOfBuffer a = Some (r' 0, 2 ^ 0)"
      using assms by (simp add: cbuffCreate_def r'_def b_def)
    then show ?thesis using \<open>activeCbuffObjs r = 0\<close> by (intro exI [of _ 0]) simp
  next
    case False
    then obtain k where k: "k \<in> {1..<16}" "\<not> bit (activeCbuffObjs r) k" using assms(6) by blast
    then have "find (\<lambda>j. \<not> bit (activeCbuffObjs r) j) [1..<16] \<noteq> None" by (auto simp: find_None_iff)
    then obtain i where i: "find (\<lambda>j. \<not> bit (activeCbuffObjs r) j) [1..<16] = Some i" by blast
    then have i': "i < 16" "\<not> bit (activeCbuffObjs r) i" by (auto simp: find_Some_iff)
    have f: "free_number (activeCbuffObjs r) (push_bit 1 1) = Some (2 ^ i)"
      using free_number_search [of 1 "activeCbuffObjs r"] i by simp
    have "(0xFFFF :: u32) = mask 16" by (simp add: mask_eq_exp_minus_1)
    then have "bit (0xFFFF :: u32) k" using k(1) by (simp only: bit_mask_iff) simp
    then have nf: "activeCbuffObjs r \<noteq> 0xFFFF" using k(2) by metis
    have "cbuffCreate r buffer sizeOfBuffer a = Some (r' i, 2 ^ i)"
      using assms(2,4,5) False reg_ok_empty [OF assms(1)] nf f word_exp_nz [of i, where 'a = 32] i'(1)
      by (auto simp: cbuffCreate_def r'_def b_def Let_def)
    then show ?thesis using i' by blast
  qed
  then obtain i where i: "cbuffCreate r buffer sizeOfBuffer a = Some (r' i, 2 ^ i)" "i < 16"
      "\<not> bit (activeCbuffObjs r) i" by blast
  have "reg_ok (r' i) (a # os)"
    unfolding r'_def by (rule reg_ok_link [OF assms(1-3) i(2,3) b(4,5)])
  then show ?thesis using i b by (intro exI [of _ "r' i"] exI [of _ i]) (simp add: r'_def)
qed

definition sample_reg :: cbuff_reg where
  "sample_reg = \<lparr>startOfCbuffObjs = 8, activeCbuffObjs = 1, objs = (\<lambda>_. sample_cbuff)\<rparr>"

lemma sample_reg_ok: "reg_ok sample_reg [8]"
  unfolding reg_ok_def sample_reg_def
  using exp_inj_u32 [of 0] by (auto simp: sample_cbuff_def bit_simps intro: exI [of _ 0])

theorem cbuffCreate_registers_witness:
  "\<exists>r' i. cbuffCreate sample_reg 500 16 12 = Some (r', 2 ^ i) \<and> i < 16 \<and>
    \<not> bit (activeCbuffObjs sample_reg) i \<and> reg_ok r' [12, 8] \<and>
    cb_inv (objs r' 12) \<and> cb_contents (objs r' 12) (\<lambda>_. 0) = [] \<and> cb_size (objs r' 12) = 16 \<and>
    (\<forall>b. b \<noteq> 12 \<longrightarrow> objs r' b = objs sample_reg b)"
proof -
  have "\<exists>i \<in> {1..<16}. \<not> bit (activeCbuffObjs sample_reg) i"
    by (rule bexI [of _ 1]) (simp_all add: sample_reg_def)
  then show ?thesis
    using cbuffCreate_registers [OF sample_reg_ok, of 12 500 16 "\<lambda>_. 0"] by simp
qed

text \<open>
  \<^verbatim>\<open>cbuffDestroy\<close> returns for every number: it reports success exactly when an object of that
  number is in the list, removes that object only, frees its number, and changes nothing in the
  remaining objects but link pointers.
\<close>

theorem cbuffDestroy_unregisters:
  assumes "reg_ok r os"
  shows "\<exists>r'. cbuffDestroy r num =
      Some (r', if \<exists>a \<in> set os. bufferNumber (objs r a) = num then 1 else 0) \<and>
    reg_ok r' (filter (\<lambda>a. bufferNumber (objs r a) \<noteq> num) os) \<and>
    (\<forall>a. \<exists>p. objs r' a = (objs r a)\<lparr>nextCircBufferObj := p\<rparr>)"
proof (cases "\<exists>a \<in> set os. bufferNumber (objs r a) = num")
  case False
  then have f: "filter (\<lambda>a. bufferNumber (objs r a) \<noteq> num) os = os" by (simp add: filter_id_conv)
  have "cbuffDestroy r num = Some (r, 0)"
  proof (cases os)
    case Nil
    then show ?thesis using assms by (simp add: cbuffDestroy_def reg_ok_def)
  next
    case (Cons a as)
    then have "nextCircBufferObj (objs r a) = 0 \<longleftrightarrow> as = []" "chain (objs r) (nextCircBufferObj (objs r a)) as"
      "startOfCbuffObjs r = a" "a \<noteq> 0"
      using assms chain_next_0 by (auto simp: reg_ok_def)
    then show ?thesis
      using False Cons destroy_loop_none [of r "nextCircBufferObj (objs r a)" as num a]
      by (auto simp: cbuffDestroy_def Let_def)
  qed
  then show ?thesis using False f assms by auto
next
  case True
  from split_list_first_prop [OF this]
  obtain as c bs where os: "os = as @ c # bs" and c: "bufferNumber (objs r c) = num"
    and as: "\<forall>a \<in> set as. bufferNumber (objs r a) \<noteq> num"
    by blast
  have ch: "chain (objs r) (startOfCbuffObjs r) (as @ c # bs)" and d: "distinct (as @ c # bs)"
    and dn: "distinct (map (\<lambda>a. bufferNumber (objs r a)) (as @ c # bs))"
    using assms os by (auto simp: reg_ok_def)
  have "num \<notin> (\<lambda>a. bufferNumber (objs r a)) ` set bs" using dn c by simp
  then have "\<forall>a \<in> set bs. bufferNumber (objs r a) \<noteq> num" by blast
  then have f: "filter (\<lambda>a. bufferNumber (objs r a) \<noteq> num) os = as @ bs"
    using os c as by (simp add: filter_id_conv)
  have "\<exists>h s. cbuffDestroy r num = Some (r\<lparr>startOfCbuffObjs := s,
        activeCbuffObjs := activeCbuffObjs r AND NOT (bufferNumber (objs r c)), objs := h\<rparr>, 1) \<and>
      chain h s (as @ bs) \<and> (\<forall>a. \<exists>p. h a = (objs r a)\<lparr>nextCircBufferObj := p\<rparr>)"
    (is "\<exists>h s. ?P h s")
  proof (cases as)
    case Nil
    then show ?thesis using ch c
      by (intro exI [of _ "objs r"] exI [of _ "nextCircBufferObj (objs r c)"]) (auto simp: cbuffDestroy_def)
  next
    case (Cons a as')
    define h where "h = (objs r)(last as := (objs r (last as))\<lparr>nextCircBufferObj := nextCircBufferObj (objs r c)\<rparr>)"
    have s: "startOfCbuffObjs r = a" "a \<noteq> 0" "bufferNumber (objs r a) \<noteq> num"
      and ch': "chain (objs r) (nextCircBufferObj (objs r a)) (as' @ c # bs)"
      using ch as Cons by auto
    have nz: "nextCircBufferObj (objs r a) \<noteq> 0" using chain_next_0 [OF ch'] by simp
    have "destroy_loop r a (nextCircBufferObj (objs r a)) num =
        Some (r\<lparr>activeCbuffObjs := activeCbuffObjs r AND NOT num, objs := h\<rparr>, 1)"
      using destroy_loop_chain [OF ch', of a num] d as c unfolding h_def Cons by auto
    then have "?P h (startOfCbuffObjs r)"
      using s nz c chain_unlink [OF ch d] Cons by (auto simp: cbuffDestroy_def Let_def h_def)
    then show ?thesis by blast
  qed
  then obtain h s where hs: "?P h s" by blast
  have "bufferNumber (h a) = bufferNumber (objs r a)" for a
  proof -
    obtain p where "h a = (objs r a)\<lparr>nextCircBufferObj := p\<rparr>" using hs by blast
    then show ?thesis by simp
  qed
  then show ?thesis
    using hs reg_ok_unlink [OF assms [unfolded os], of h s] True unfolding f
    by (intro exI [of _ "r\<lparr>startOfCbuffObjs := s, activeCbuffObjs := activeCbuffObjs r AND NOT (bufferNumber (objs r c)), objs := h\<rparr>"])
      simp
qed

theorem cbuffDestroy_unregisters_witness:
  "\<exists>r'. cbuffDestroy sample_reg 1 = Some (r', 1) \<and> reg_ok r' [] \<and>
    (\<forall>a. \<exists>p. objs r' a = (objs sample_reg a)\<lparr>nextCircBufferObj := p\<rparr>)"
  using cbuffDestroy_unregisters [OF sample_reg_ok, of 1] by (simp add: sample_reg_def sample_cbuff_def)

lemma open_loop_chain:
  assumes "chain (objs r) loc (as @ c # bs)" "bufferNumber (objs r c) = num"
    "\<forall>a \<in> set as. bufferNumber (objs r a) \<noteq> num"
  shows "open_loop r loc num = (if bit (localFlag (objs r c)) 5 then Some (r, 0)
    else Some (r\<lparr>objs := (objs r)(c := set_flag CBUFF_OPEN (objs r c))\<rparr>, c))"
  using assms
proof (induction as arbitrary: loc)
  case Nil
  then show ?case by (subst open_loop.simps) auto
next
  case (Cons a as)
  have nz: "nextCircBufferObj (objs r a) \<noteq> 0" and ch: "chain (objs r) (nextCircBufferObj (objs r a)) (as @ c # bs)"
    using Cons.prems(1) chain_next_0 [of "objs r" "nextCircBufferObj (objs r a)" "as @ c # bs"] by auto
  have "open_loop r loc num = open_loop r (nextCircBufferObj (objs r a)) num"
    using Cons.prems(1,3) nz by (subst open_loop.simps) auto
  then show ?case using Cons.IH [OF ch] Cons.prems by simp
qed

text \<open>
  Opening a registered, closed buffer by its number returns the handle of exactly that object with
  its open flag set and its contents untouched; opening it again is refused, and closing the handle
  returns the number and gives back the registry as it was, so that it can be opened again.
\<close>

theorem cbuff_open_close:
  assumes "reg_ok r os" "a \<in> set os" "\<not> bit (localFlag (objs r a)) 5"
  shows "\<exists>r1. cbuffOpen r (bufferNumber (objs r a)) = Some (r1, a) \<and> reg_ok r1 os \<and>
    cb_contents (objs r1 a) m = cb_contents (objs r a) m \<and>
    cbuffOpen r1 (bufferNumber (objs r a)) = Some (r1, 0) \<and>
    cbuffClose r1 a = (r, bufferNumber (objs r a))"
proof -
  define num where "num = bufferNumber (objs r a)"
  obtain as bs where os: "os = as @ a # bs" using assms(2) by (meson split_list)
  have ch: "chain (objs r) (startOfCbuffObjs r) (as @ a # bs)"
    and "distinct (map (\<lambda>a. bufferNumber (objs r a)) (as @ a # bs))"
    using assms(1) os by (simp_all add: reg_ok_def)
  then have as: "\<forall>c \<in> set as. bufferNumber (objs r c) \<noteq> num" "startOfCbuffObjs r \<noteq> 0"
    using chain_next_0 [OF ch] by (auto simp: num_def image_iff)
  define b where "b = set_flag CBUFF_OPEN (objs r a)"
  define r1 where "r1 = r\<lparr>objs := (objs r)(a := b)\<rparr>"
  have b: "nextCircBufferObj b = nextCircBufferObj (objs r a)" "bufferNumber b = num" "bit (localFlag b) 5"
      "cb_contents b m = cb_contents (objs r a) m" "clear_flag CBUFF_OPEN b = objs r a"
  proof -
    show "nextCircBufferObj b = nextCircBufferObj (objs r a)" "bufferNumber b = num" "bit (localFlag b) 5"
      by (simp_all add: b_def set_flag_def num_def bit_simps)
    show "cb_contents b m = cb_contents (objs r a) m"
      by (simp add: b_def cb_contents_def cb_fill_def is_full_def is_empty_def set_flag_def bit_simps cb_size_def)
    have "(localFlag (objs r a) OR 0x20) AND NOT 0x20 = localFlag (objs r a)"
      using assms(3) by (intro bit_word_eqI) (auto simp: bit_simps bit_numeral_rec less_Suc_eq numeral_eq_Suc)
    then show "clear_flag CBUFF_OPEN b = objs r a" by (simp add: b_def set_flag_def clear_flag_def)
  qed
  have r1: "objs r1 a = b" "startOfCbuffObjs r1 = startOfCbuffObjs r" "activeCbuffObjs r1 = activeCbuffObjs r"
      "bufferNumber (objs r1 c) = bufferNumber (objs r c)" "nextCircBufferObj (objs r1 c) = nextCircBufferObj (objs r c)"
    for c using b(1,2) by (simp_all add: r1_def num_def)
  have ch1: "chain (objs r1) p cs = chain (objs r) p cs" for p cs by (rule chain_cong) (simp add: r1(5))
  have "cbuffOpen r num = Some (r1, a)"
    using open_loop_chain [OF ch num_def [symmetric] as(1)] as(2) assms(3) by (simp add: cbuffOpen_def r1_def b_def)
  moreover have "reg_ok r1 os" using assms(1) by (simp add: reg_ok_def r1(2-4) ch1)
  moreover have "cbuffOpen r1 num = Some (r1, 0)"
    using open_loop_chain [of r1 "startOfCbuffObjs r" as a bs num] ch as b(2,3) r1(1)
    by (simp add: cbuffOpen_def r1(2,4) ch1 num_def)
  moreover have "cbuffClose r1 a = (r, num)"
    using b by (simp add: cbuffClose_def r1(1)) (simp add: r1_def fun_upd_idem)
  ultimately show ?thesis using b(4) r1(1) unfolding num_def by auto
qed

definition sample_reg_closed :: cbuff_reg where
  "sample_reg_closed = sample_reg\<lparr>objs := (\<lambda>_. sample_cbuff\<lparr>localFlag := 0\<rparr>)\<rparr>"

theorem cbuff_open_close_witness:
  "\<exists>r1. cbuffOpen sample_reg_closed 1 = Some (r1, 8) \<and> reg_ok r1 [8] \<and>
    cb_contents (objs r1 8) (\<lambda>_. 0) = [0, 0] \<and> cbuffOpen r1 1 = Some (r1, 0) \<and>
    cbuffClose r1 8 = (sample_reg_closed, 1)"
proof -
  have f: "bufferNumber (objs sample_reg_closed 8) = 1" "\<not> bit (localFlag (objs sample_reg_closed 8)) 5"
      "cb_contents (objs sample_reg_closed 8) (\<lambda>_. 0) = [0, 0]"
    by (simp_all add: sample_reg_closed_def sample_cbuff_def cb_contents_def cb_fill_def is_full_def is_empty_def
        cb_size_def ring_read_def upt_conv_Cons)
  have "reg_ok sample_reg_closed [8]"
    using sample_reg_ok by (simp add: reg_ok_def sample_reg_closed_def sample_reg_def sample_cbuff_def)
  from cbuff_open_close [OF this _ f(2), of "\<lambda>_. 0"] show ?thesis unfolding f by simp
qed

text \<open>
  With the numbers 2 to 16 in use and number 1 free again, \<^verbatim>\<open>cbuffCreate\<close> links the new object in front
  of the list but reports failure and gives it no number.
\<close>

lemma cbuffCreate_links_but_fails:
  assumes "startOfCbuffObjs r \<noteq> 0" "activeCbuffObjs r = 0xFFFE" "buffer \<noteq> 0" "sizeOfBuffer \<noteq> 0" "a \<noteq> 0"
  shows "\<exists>r'. cbuffCreate r buffer sizeOfBuffer a = Some (r', 0) \<and> startOfCbuffObjs r' = a"
proof -
  have "bit (0xFFFE :: u32) j" if "1 \<le> j" "j < 16" for j
  proof -
    have "(0xFFFE :: u32) = mask 16 AND NOT 1" by (simp add: mask_eq_exp_minus_1)
    then show ?thesis using that by (simp only: bit_and_iff bit_mask_iff bit_not_iff bit_1_iff) simp
  qed
  then have "find (\<lambda>j. \<not> bit (0xFFFE :: u32) j) [1..<16] = None" by (auto simp: find_None_iff)
  then have "free_number 0xFFFE (push_bit 1 1) = Some 0" using free_number_search [of 1 "0xFFFE"] by simp
  then show ?thesis using assms by (simp add: cbuffCreate_def Let_def)
qed

end
