(* ===== verification/Linked_List.thy ===== *)
theory Linked_List
  imports Esp_Prelude "HOL-Library.Monad_Syntax"
begin

text \<open>
  The doubly linked list \<^verbatim>\<open>app_common/util/linked_list.c\<close> on an explicit node heap. An allocated node is
  in the domain of the heap; reading or writing through \<open>NULL\<close> or through a freed node gives \<open>None\<close>, so
  a result \<open>Some\<close> also says that the call made no such access. \<^verbatim>\<open>os_malloc\<close> (SDK) is the parameter
  \<open>alloc\<close>, which chooses an address for the next node.
\<close>

section \<open>Model\<close>

record node =
  item :: addr
  prev :: addr
  nxt :: addr

record linked_list =
  head :: addr
  tail :: addr
  lsize :: int

type_synonym nheap = "addr \<Rightarrow> node option"

definition deref :: "nheap \<Rightarrow> addr \<Rightarrow> node option" where
  "deref h a = (if a = 0 then None else h a)"

definition nupd :: "nheap \<Rightarrow> addr \<Rightarrow> (node \<Rightarrow> node) \<Rightarrow> nheap option" where
  "nupd h a f = (case deref h a of None \<Rightarrow> None | Some n \<Rightarrow> Some (h(a := Some (f n))))"

definition os_free :: "nheap \<Rightarrow> addr \<Rightarrow> nheap" where
  "os_free h a = h(a := None)"

definition list_create_node :: "(nheap \<Rightarrow> addr) \<Rightarrow> nheap \<Rightarrow> addr \<Rightarrow> (nheap \<times> addr) option" where
  "list_create_node alloc h x =
     (if alloc h = 0 then None
      else Some (h(alloc h := Some \<lparr>item = x, prev = 0, nxt = 0\<rparr>), alloc h))"

definition list_add_first ::
  "(nheap \<Rightarrow> addr) \<Rightarrow> linked_list \<Rightarrow> nheap \<Rightarrow> addr \<Rightarrow> (linked_list \<times> nheap) option" where
  "list_add_first alloc l h x = do {
     (h1, newNode) \<leftarrow> list_create_node alloc h x;
     if head l = 0 then Some (l\<lparr>head := newNode, lsize := lsize l + 1\<rparr>, h1)
     else do {
       let lst = (if tail l = 0 then head l else tail l);
       h2 \<leftarrow> nupd h1 newNode (\<lambda>n. n\<lparr>nxt := head l\<rparr>);
       h3 \<leftarrow> nupd h2 (head l) (\<lambda>n. n\<lparr>prev := newNode\<rparr>);
       Some (l\<lparr>head := newNode, tail := lst, lsize := lsize l + 1\<rparr>, h3)
     }
   }"

definition list_add_last ::
  "(nheap \<Rightarrow> addr) \<Rightarrow> linked_list \<Rightarrow> nheap \<Rightarrow> addr \<Rightarrow> (linked_list \<times> nheap) option" where
  "list_add_last alloc l h x = do {
     (h1, newNode) \<leftarrow> list_create_node alloc h x;
     if head l = 0 then Some (l\<lparr>head := newNode, lsize := lsize l + 1\<rparr>, h1)
     else do {
       let lastNode = (if tail l = 0 then head l else tail l);
       h2 \<leftarrow> nupd h1 lastNode (\<lambda>n. n\<lparr>nxt := newNode\<rparr>);
       h3 \<leftarrow> nupd h2 newNode (\<lambda>n. n\<lparr>prev := lastNode\<rparr>);
       Some (l\<lparr>tail := newNode, lsize := lsize l + 1\<rparr>, h3)
     }
   }"

definition list_insert_before :: "nheap \<Rightarrow> addr \<Rightarrow> addr \<Rightarrow> nheap option" where
  "list_insert_before h n newNode = do {
     nd \<leftarrow> deref h n;
     let p = prev nd;
     h1 \<leftarrow> nupd h n (\<lambda>m. m\<lparr>prev := newNode\<rparr>);
     h2 \<leftarrow> nupd h1 newNode (\<lambda>m. m\<lparr>nxt := n\<rparr>);
     h3 \<leftarrow> nupd h2 p (\<lambda>m. m\<lparr>nxt := newNode\<rparr>);
     nupd h3 newNode (\<lambda>m. m\<lparr>prev := p\<rparr>)
   }"

text \<open>The loop \<open>while (i < position) { n = n->next; i++; }\<close>, \<open>k\<close> passes of it.\<close>

fun walk :: "nheap \<Rightarrow> addr \<Rightarrow> nat \<Rightarrow> addr option" where
  "walk h n 0 = Some n"
| "walk h n (Suc k) = do { nd \<leftarrow> deref h n; walk h (nxt nd) k }"

definition list_add ::
  "(nheap \<Rightarrow> addr) \<Rightarrow> linked_list \<Rightarrow> nheap \<Rightarrow> addr \<Rightarrow> int \<Rightarrow> (linked_list \<times> nheap) option" where
  "list_add alloc l h x position =
     (if position > lsize l then Some (l, h)
      else if position = 0 then list_add_first alloc l h x
      else if position = lsize l then list_add_last alloc l h x
      else do {
        n \<leftarrow> walk h (head l) (nat position);
        (h1, newNode) \<leftarrow> list_create_node alloc h x;
        h2 \<leftarrow> list_insert_before h1 n newNode;
        Some (l\<lparr>lsize := lsize l + 1\<rparr>, h2)
      })"

text \<open>The getters return \<open>NULL\<close> (0) when there is no such item.\<close>

definition list_get_first :: "linked_list \<Rightarrow> nheap \<Rightarrow> addr option" where
  "list_get_first l h = (if lsize l = 0 then Some 0 else map_option item (deref h (head l)))"

definition list_get_last :: "linked_list \<Rightarrow> nheap \<Rightarrow> addr option" where
  "list_get_last l h =
     (if lsize l = 0 then Some 0
      else if lsize l = 1 then list_get_first l h
      else map_option item (deref h (tail l)))"

definition list_get :: "linked_list \<Rightarrow> nheap \<Rightarrow> int \<Rightarrow> addr option" where
  "list_get l h position =
     (if lsize l = 0 then Some 0
      else if position \<ge> lsize l then Some 0
      else if position = 0 then list_get_first l h
      else if position + 1 = lsize l then list_get_last l h
      else do { n \<leftarrow> walk h (head l) (nat position); map_option item (deref h n) })"

definition list_remove_node :: "linked_list \<Rightarrow> nheap \<Rightarrow> addr \<Rightarrow> (linked_list \<times> nheap \<times> addr) option" where
  "list_remove_node l h n =
     (if lsize l = 0 then Some (l, h, 0)
      else do {
        nd \<leftarrow> deref h n;
        (l1, h1) \<leftarrow> (if prev nd \<noteq> 0
          then do { h' \<leftarrow> nupd h (prev nd) (\<lambda>m. m\<lparr>nxt := nxt nd\<rparr>); Some (l, h') }
          else Some (l\<lparr>head := nxt nd\<rparr>, h));
        nd1 \<leftarrow> deref h1 n;
        (l2, h2) \<leftarrow> (if nxt nd1 \<noteq> 0
          then do { h' \<leftarrow> nupd h1 (nxt nd1) (\<lambda>m. m\<lparr>prev := prev nd1\<rparr>); Some (l1, h') }
          else Some (l1\<lparr>tail := prev nd1\<rparr>, h1));
        nd2 \<leftarrow> deref h2 n;
        Some (l2\<lparr>lsize := lsize l2 - 1\<rparr>, os_free h2 n, item nd2)
      })"

definition list_remove_first :: "linked_list \<Rightarrow> nheap \<Rightarrow> (linked_list \<times> nheap \<times> addr) option" where
  "list_remove_first l h =
     (if head l = 0 then Some (l, h, 0)
      else do {
        hd \<leftarrow> deref h (head l);
        h1 \<leftarrow> (if nxt hd \<noteq> 0 then nupd h (nxt hd) (\<lambda>m. m\<lparr>prev := 0\<rparr>) else Some h);
        let s = lsize l - 1;
        Some (l\<lparr>head := nxt hd, lsize := s, tail := (if s \<le> 1 then 0 else tail l)\<rparr>, os_free h1 (head l), item hd)
      })"

definition list_remove_last :: "linked_list \<Rightarrow> nheap \<Rightarrow> (linked_list \<times> nheap \<times> addr) option" where
  "list_remove_last l h =
     (if lsize l = 0 then Some (l, h, 0)
      else if lsize l = 1 then list_remove_first l h
      else do {
        tl \<leftarrow> deref h (tail l);
        h1 \<leftarrow> nupd h (prev tl) (\<lambda>m. m\<lparr>nxt := 0\<rparr>);
        let t = (if lsize l > 1 then prev tl else tail l);
        let s = lsize l - 1;
        Some (l\<lparr>tail := (if s \<le> 1 then 0 else t), lsize := s\<rparr>, os_free h1 (tail l), item tl)
      })"

definition list_remove :: "linked_list \<Rightarrow> nheap \<Rightarrow> int \<Rightarrow> (linked_list \<times> nheap \<times> addr) option" where
  "list_remove l h position =
     (if lsize l = 0 then Some (l, h, 0)
      else if position \<ge> lsize l then Some (l, h, 0)
      else if position = 0 then list_remove_first l h
      else if position + 1 = lsize l then list_remove_last l h
      else do {
        n \<leftarrow> walk h (head l) (nat position);
        nd \<leftarrow> deref h n;
        h1 \<leftarrow> nupd h (prev nd) (\<lambda>m. m\<lparr>nxt := nxt nd\<rparr>);
        h2 \<leftarrow> nupd h1 (nxt nd) (\<lambda>m. m\<lparr>prev := prev nd\<rparr>);
        Some (l\<lparr>lsize := lsize l - 1\<rparr>, os_free h2 n, item nd)
      })"

definition init_linked_list :: "linked_list \<Rightarrow> linked_list" where
  "init_linked_list l = l\<lparr>head := 0, tail := 0, lsize := 0\<rparr>"

text \<open>\<^verbatim>\<open>os_malloc\<close> answered \<open>p\<close>, a block holding \<open>junk\<close>; a null pointer is cleared all the same and faults.\<close>

definition create_linked_list :: "addr \<Rightarrow> linked_list \<Rightarrow> (addr \<times> linked_list) option" where
  "create_linked_list p junk = (if p = 0 then None else Some (p, init_linked_list junk))"

section \<open>Doubly linked segments\<close>

type_synonym nlist = "(addr \<times> addr) list"

definition first_addr :: "nlist \<Rightarrow> addr \<Rightarrow> addr" where
  "first_addr as q = (case as of [] \<Rightarrow> q | (a, _) # _ \<Rightarrow> a)"

definition last_addr :: "addr \<Rightarrow> nlist \<Rightarrow> addr" where
  "last_addr p as = (if as = [] then p else fst (last as))"

fun dls :: "nheap \<Rightarrow> addr \<Rightarrow> nlist \<Rightarrow> addr \<Rightarrow> bool" where
  "dls h p [] q = True"
| "dls h p ((a, x) # as) q =
     (a \<noteq> 0 \<and> h a = Some \<lparr>item = x, prev = p, nxt = first_addr as q\<rparr> \<and> dls h a as q)"

text \<open>
  The list \<open>l\<close> in the heap \<open>h\<close> consists of the nodes \<open>as\<close> (address and item); the rest of the heap is
  \<open>h0\<close>. A one-element list may or may not have its tail pointer set.
\<close>

definition ll_rel :: "nheap \<Rightarrow> linked_list \<Rightarrow> nheap \<Rightarrow> nlist \<Rightarrow> bool" where
  "ll_rel h0 l h as \<longleftrightarrow> dls h 0 as 0 \<and> distinct (map fst as) \<and> head l = first_addr as 0 \<and>
     lsize l = int (length as) \<and>
     (if length as = 0 then tail l = 0 else if length as = 1 then tail l = 0 \<or> tail l = last_addr 0 as
      else tail l = last_addr 0 as) \<and>
     (\<forall>b. b \<notin> fst ` set as \<longrightarrow> h b = h0 b) \<and> (\<forall>b \<in> fst ` set as. h0 b = None)"

lemma addr_simps [simp]:
  "first_addr [] q = q" "first_addr ((a, x) # as) q = a" "last_addr p [] = p"
  "last_addr p ((a, x) # as) = last_addr a as" "last_addr p (as @ bs) = last_addr (last_addr p as) bs"
  "first_addr (as @ bs) q = first_addr as (first_addr bs q)"
  by (auto simp: first_addr_def last_addr_def split: list.splits)

lemma dls_append: "dls h p (as @ bs) q \<longleftrightarrow> dls h p as (first_addr bs q) \<and> dls h (last_addr p as) bs q"
  by (induction as arbitrary: p) auto

lemma dls_cong: "(\<And>a. a \<in> fst ` set as \<Longrightarrow> h' a = h a) \<Longrightarrow> dls h' p as q = dls h p as q"
  by (induction as arbitrary: p) auto

lemma dls_upd_out [simp]: "a \<notin> fst ` set as \<Longrightarrow> dls (h(a := v)) p as q = dls h p as q"
  by (rule dls_cong) auto

lemma dls_nz: "dls h p as q \<Longrightarrow> (0, x) \<notin> set as"
  by (induction as arbitrary: p) auto

lemma dls_dom: "dls h p as q \<Longrightarrow> (a, x) \<in> set as \<Longrightarrow> a \<noteq> 0 \<and> (\<exists>n. h a = Some n \<and> item n = x)"
  by (induction as arbitrary: p) auto

lemma dls_first_0: "dls h p as 0 \<Longrightarrow> first_addr as 0 = 0 \<longleftrightarrow> as = []"
  by (cases as) auto

lemma nupd_Some: "a \<noteq> 0 \<Longrightarrow> h a = Some n \<Longrightarrow> nupd h a f = Some (h(a := Some (f n)))"
  by (simp add: nupd_def deref_def)

lemma deref_Some: "a \<noteq> 0 \<Longrightarrow> h a = Some n \<Longrightarrow> deref h a = Some n"
  by (simp add: deref_def)

text \<open>The nodes around a split point: the last node of the first part points to the first of the second.\<close>

lemma dls_snoc:
  "dls h p (as @ [(a, x)]) q \<longleftrightarrow> dls h p as a \<and> a \<noteq> 0 \<and> h a = Some \<lparr>item = x, prev = last_addr p as, nxt = q\<rparr>"
  by (simp add: dls_append)

text \<open>Redirecting the end of a segment, and its start.\<close>

lemma dls_set_next:
  assumes "dls h p (as @ [(a, x)]) q" "a \<notin> fst ` set as"
  shows "dls (h(a := Some \<lparr>item = x, prev = last_addr p as, nxt = r\<rparr>)) p (as @ [(a, x)]) r"
  using assms by (simp add: dls_snoc)

lemma dls_set_prev:
  assumes "dls h p ((a, x) # as) q" "a \<notin> fst ` set as"
  shows "dls (h(a := Some \<lparr>item = x, prev = r, nxt = first_addr as q\<rparr>)) r ((a, x) # as) q"
  using assms by simp

section \<open>The operations on the represented list\<close>

lemma ll_head: "ll_rel h0 l h as \<Longrightarrow> head l = 0 \<longleftrightarrow> as = []"
  by (auto simp: ll_rel_def dls_first_0)

lemma ll_size: "ll_rel h0 l h as \<Longrightarrow> lsize l = int (length as)"
  by (simp add: ll_rel_def)

text \<open>The node the code takes as the last one, with the tail pointer set or not.\<close>

lemma ll_last:
  assumes "ll_rel h0 l h as" "as \<noteq> []"
  shows "(if tail l = 0 then head l else tail l) = last_addr 0 as"
proof (cases as rule: rev_cases)
  case Nil
  then show ?thesis using assms by simp
next
  case (snoc bs b)
  obtain a x where b: "b = (a, x)" by (cases b)
  have "a \<noteq> 0" using assms(1) snoc b by (simp add: ll_rel_def dls_snoc)
  then show ?thesis using assms snoc b by (cases bs) (auto simp: ll_rel_def)
qed

lemma fresh_node:
  assumes "ll_rel h0 l h as" "h a = None"
  shows "a \<notin> fst ` set as" "h0 a = None"
proof -
  show n: "a \<notin> fst ` set as" using assms by (auto simp: ll_rel_def dest: dls_dom)
  show "h0 a = None" using assms n by (simp add: ll_rel_def)
qed

lemma list_add_first_rel:
  assumes "ll_rel h0 l h as" "alloc h \<noteq> 0" "h (alloc h) = None"
  shows "\<exists>l' h'. list_add_first alloc l h x = Some (l', h') \<and> ll_rel h0 l' h' ((alloc h, x) # as)"
proof (cases as)
  case Nil
  then show ?thesis
    using assms fresh_node [OF assms(1,3)]
    by (auto simp: list_add_first_def list_create_node_def ll_rel_def)
next
  case (Cons b bs)
  define a where "a = alloc h"
  obtain c y where b: "b = (c, y)" by (cases b)
  have c: "c \<noteq> 0" "h c = Some \<lparr>item = y, prev = 0, nxt = first_addr bs 0\<rparr>" "head l = c" "c \<notin> fst ` set bs"
    using assms(1) Cons b by (auto simp: ll_rel_def)
  have a: "a \<noteq> 0" "a \<noteq> c" "a \<notin> fst ` set bs" "h0 a = None"
    using fresh_node [OF assms(1,3)] assms(2) Cons b by (auto simp: a_def)
  define h' where "h' = h(a := Some \<lparr>item = x, prev = 0, nxt = c\<rparr>, c := Some \<lparr>item = y, prev = a, nxt = first_addr bs 0\<rparr>)"
  have "list_add_first alloc l h x = Some (l\<lparr>head := a, tail := last_addr 0 as, lsize := lsize l + 1\<rparr>, h')"
    using a c ll_last [OF assms(1)] Cons
    by (simp add: list_add_first_def list_create_node_def a_def [symmetric] nupd_Some h'_def)
  moreover have "ll_rel h0 (l\<lparr>head := a, tail := last_addr 0 as, lsize := lsize l + 1\<rparr>) h' ((a, x) # as)"
    using assms(1) a c Cons b by (auto simp: ll_rel_def h'_def)
  ultimately show ?thesis unfolding a_def [symmetric] by blast
qed

lemma list_add_last_rel:
  assumes "ll_rel h0 l h as" "alloc h \<noteq> 0" "h (alloc h) = None"
  shows "\<exists>l' h'. list_add_last alloc l h x = Some (l', h') \<and> ll_rel h0 l' h' (as @ [(alloc h, x)])"
proof (cases as rule: rev_cases)
  case Nil
  then show ?thesis
    using assms fresh_node [OF assms(1,3)]
    by (auto simp: list_add_last_def list_create_node_def ll_rel_def)
next
  case (snoc bs b)
  define a where "a = alloc h"
  obtain c y where b: "b = (c, y)" by (cases b)
  have c: "c \<noteq> 0" "h c = Some \<lparr>item = y, prev = last_addr 0 bs, nxt = 0\<rparr>" "c \<notin> fst ` set bs" "dls h 0 bs c"
    using assms(1) snoc b by (auto simp: ll_rel_def dls_snoc)
  have a: "a \<noteq> 0" "a \<noteq> c" "a \<notin> fst ` set bs" "h0 a = None"
    using fresh_node [OF assms(1,3)] assms(2) snoc b by (auto simp: a_def)
  have lst: "(if tail l = 0 then head l else tail l) = c" "head l \<noteq> 0"
    using ll_last [OF assms(1)] ll_head [OF assms(1)] snoc b by simp_all
  define h' where "h' = h(a := Some \<lparr>item = x, prev = c, nxt = 0\<rparr>, c := Some \<lparr>item = y, prev = last_addr 0 bs, nxt = a\<rparr>)"
  have "list_add_last alloc l h x = Some (l\<lparr>tail := a, lsize := lsize l + 1\<rparr>, h')"
    using a c lst
    by (simp add: list_add_last_def list_create_node_def a_def [symmetric] nupd_Some h'_def fun_upd_twist Let_def)
  moreover have "ll_rel h0 (l\<lparr>tail := a, lsize := lsize l + 1\<rparr>) h' (as @ [(a, x)])"
    using assms(1) a c snoc b by (auto simp: ll_rel_def h'_def dls_append)
  ultimately show ?thesis unfolding a_def [symmetric] by blast
qed

lemma walk_dls:
  assumes "dls h p (as @ (a, x) # bs) 0"
  shows "walk h (first_addr as a) (length as) = Some a"
  using assms
proof (induction as arbitrary: p)
  case Nil
  then show ?case by simp
next
  case (Cons b as)
  obtain c y where "b = (c, y)" by (cases b)
  then show ?case using Cons.IH [of c] Cons.prems by (simp add: deref_def)
qed

text \<open>The two inner links, at a position with a node on each side.\<close>

lemma insert_between:
  assumes "ll_rel h0 l h (ps @ (p, w) # (n, y) # bs)" "a \<noteq> 0" "h a = None"
  shows "\<exists>h'. list_insert_before (h(a := Some \<lparr>item = x, prev = 0, nxt = 0\<rparr>)) n a = Some h' \<and>
    ll_rel h0 (l\<lparr>lsize := lsize l + 1\<rparr>) h' (ps @ (p, w) # (a, x) # (n, y) # bs)"
proof -
  have f: "a \<noteq> p" "a \<noteq> n" "a \<notin> fst ` set ps" "a \<notin> fst ` set bs" "h0 a = None"
    using fresh_node [OF assms(1,3)] by auto
  have d: "p \<noteq> n" "p \<notin> fst ` set ps" "p \<notin> fst ` set bs" "n \<notin> fst ` set ps" "n \<notin> fst ` set bs" "p \<noteq> 0" "n \<noteq> 0"
    and hp: "h p = Some \<lparr>item = w, prev = last_addr 0 ps, nxt = n\<rparr>"
    and hn: "h n = Some \<lparr>item = y, prev = p, nxt = first_addr bs 0\<rparr>"
    using assms(1) by (auto simp: ll_rel_def dls_append)
  define h' where "h' = h(a := Some \<lparr>item = x, prev = p, nxt = n\<rparr>, n := Some \<lparr>item = y, prev = a, nxt = first_addr bs 0\<rparr>,
      p := Some \<lparr>item = w, prev = last_addr 0 ps, nxt = a\<rparr>)"
  have "list_insert_before (h(a := Some \<lparr>item = x, prev = 0, nxt = 0\<rparr>)) n a = Some h'"
    using f d hp hn assms(2) by (auto simp: list_insert_before_def deref_Some nupd_Some h'_def fun_eq_iff)
  moreover have "ll_rel h0 (l\<lparr>lsize := lsize l + 1\<rparr>) h' (ps @ (p, w) # (a, x) # (n, y) # bs)"
    using assms(1,2) f d by (auto simp: ll_rel_def dls_append h'_def)
  ultimately show ?thesis by blast
qed

lemma ll_rel_remove:
  assumes "ll_rel h0 l h (as @ (n, x) # bs)"
    "dls h' 0 (as @ bs) 0" "\<And>b. b \<notin> fst ` set (as @ (n, x) # bs) \<Longrightarrow> h' b = h b" "h' n = None"
    "head l' = first_addr (as @ bs) 0" "lsize l' = lsize l - 1"
    "if length (as @ bs) = 0 then tail l' = 0 else if length (as @ bs) = 1 then tail l' = 0 \<or> tail l' = last_addr 0 (as @ bs)
      else tail l' = last_addr 0 (as @ bs)"
  shows "ll_rel h0 l' h' (as @ bs)"
proof -
  have "h' b = h0 b" if "b \<notin> fst ` set (as @ bs)" for b
    using that assms(1,3,4) by (cases "b = n") (auto simp: ll_rel_def)
  then show ?thesis using assms unfolding ll_rel_def by auto
qed

lemma remove_between:
  assumes "ll_rel h0 l h (ps @ (p, w) # (n, x) # (q, y) # bs)"
  defines "h' \<equiv> h(p := Some \<lparr>item = w, prev = last_addr 0 ps, nxt = q\<rparr>,
      q := Some \<lparr>item = y, prev = p, nxt = first_addr bs 0\<rparr>, n := None)"
  shows "ll_rel h0 (l\<lparr>lsize := lsize l - 1\<rparr>) h' (ps @ (p, w) # (q, y) # bs)"
proof -
  have "ll_rel h0 (l\<lparr>lsize := lsize l - 1\<rparr>) h' ((ps @ [(p, w)]) @ (q, y) # bs)"
    by (rule ll_rel_remove [of _ l h _ n x])
      (use assms(1) in \<open>auto simp: ll_rel_def dls_append h'_def split: if_splits\<close>)
  then show ?thesis by simp
qed

lemma list_remove_first_rel:
  assumes "ll_rel h0 l h ((n, x) # as)"
  shows "\<exists>l' h'. list_remove_first l h = Some (l', h', x) \<and> ll_rel h0 l' h' as"
proof -
  have n: "n \<noteq> 0" "head l = n" "h n = Some \<lparr>item = x, prev = 0, nxt = first_addr as 0\<rparr>" "n \<notin> fst ` set as"
      "dls h n as 0"
    using assms by (auto simp: ll_rel_def)
  define l' where "l' = l\<lparr>head := first_addr as 0, lsize := lsize l - 1, tail := (if lsize l - 1 \<le> 1 then 0 else tail l)\<rparr>"
  define h' where "h' = (case as of [] \<Rightarrow> h(n := None) | (b, y) # bs \<Rightarrow>
      h(b := Some \<lparr>item = y, prev = 0, nxt = first_addr bs 0\<rparr>, n := None))"
  have "list_remove_first l h = Some (l', h', x)"
    using n by (auto simp: list_remove_first_def deref_Some nupd_Some os_free_def l'_def h'_def Let_def split: list.splits)
  moreover have "ll_rel h0 l' h' ([] @ as)"
    by (rule ll_rel_remove [of _ l h _ n x])
      (use assms n in \<open>cases as; auto simp: ll_rel_def l'_def h'_def split: list.splits if_splits\<close>)+
  ultimately show ?thesis by simp
qed

lemma list_remove_last_rel:
  assumes "ll_rel h0 l h (as @ [(n, x)])"
  shows "\<exists>l' h'. list_remove_last l h = Some (l', h', x) \<and> ll_rel h0 l' h' as"
proof (cases as rule: rev_cases)
  case Nil
  then have "lsize l = 1" "ll_rel h0 l h [(n, x)]" using assms by (simp_all add: ll_size)
  then show ?thesis using list_remove_first_rel [of h0 l h n x "[]"] Nil by (simp add: list_remove_last_def)
next
  case (snoc bs b)
  obtain p w where b: "b = (p, w)" by (cases b)
  have n: "n \<noteq> 0" "tail l = n" "h n = Some \<lparr>item = x, prev = p, nxt = 0\<rparr>" "n \<notin> fst ` set bs" "n \<noteq> p"
    and p: "p \<noteq> 0" "h p = Some \<lparr>item = w, prev = last_addr 0 bs, nxt = n\<rparr>" "p \<notin> fst ` set bs"
    and s: "lsize l = int (length bs) + 2"
    using assms snoc b by (auto simp: ll_rel_def dls_append)
  define l' where "l' = l\<lparr>tail := (if lsize l - 1 \<le> 1 then 0 else p), lsize := lsize l - 1\<rparr>"
  define h' where "h' = h(p := Some \<lparr>item = w, prev = last_addr 0 bs, nxt = 0\<rparr>, n := None)"
  have "list_remove_last l h = Some (l', h', x)"
    using n p s by (simp add: list_remove_last_def deref_Some nupd_Some os_free_def l'_def h'_def Let_def)
  moreover have "ll_rel h0 l' h' (as @ [])"
    by (rule ll_rel_remove [of _ l h _ n x])
      (use assms n p s snoc b in \<open>auto simp: ll_rel_def l'_def h'_def dls_append split: if_splits\<close>)
  ultimately show ?thesis by simp
qed

lemma split_nth: "i < length xs \<Longrightarrow> \<exists>as a x bs. xs = as @ (a, x) # bs \<and> length as = i"
  by (metis id_take_nth_drop length_take min.absorb2 less_imp_le surj_pair)

lemma list_add_rel:
  assumes "ll_rel h0 l h as" "alloc h \<noteq> 0" "h (alloc h) = None" "0 \<le> i" "i \<le> int (length as)"
  shows "\<exists>l' h'. list_add alloc l h x i = Some (l', h') \<and>
    ll_rel h0 l' h' (take (nat i) as @ (alloc h, x) # drop (nat i) as)"
proof -
  consider "i = 0" | "i = int (length as)" "i \<noteq> 0" | "0 < i" "i < int (length as)" using assms(4,5) by linarith
  then show ?thesis
  proof cases
    case 1
    then show ?thesis using list_add_first_rel [of h0 l h as alloc x] assms(1-3) ll_size [OF assms(1)] by (simp add: list_add_def)
  next
    case 2
    then show ?thesis using list_add_last_rel [of h0 l h as alloc x] assms(1-3) ll_size [OF assms(1)] by (simp add: list_add_def)
  next
    case 3
    then have "nat i < length as" by linarith
    then obtain ps' n y bs where sp: "as = ps' @ (n, y) # bs" "length ps' = nat i" using split_nth by blast
    have "ps' \<noteq> []" using sp(2) 3(1) by auto
    then obtain ps b where "ps' = ps @ [b]" by (meson rev_exhaust)
    then obtain p w where ps': "ps' = ps @ [(p, w)]" by (cases b) simp
    then have as: "as = ps @ (p, w) # (n, y) # bs" using sp(1) by simp
    obtain h' where h': "list_insert_before (h(alloc h := Some \<lparr>item = x, prev = 0, nxt = 0\<rparr>)) n (alloc h) = Some h'"
      "ll_rel h0 (l\<lparr>lsize := lsize l + 1\<rparr>) h' (ps @ (p, w) # (alloc h, x) # (n, y) # bs)"
      using insert_between [OF assms(1) [unfolded as] assms(2,3), of x] by blast
    have "dls h 0 (ps' @ (n, y) # bs) 0" "head l = first_addr ps' n" using assms(1) sp(1) by (simp_all add: ll_rel_def)
    then have "walk h (head l) (nat i) = Some n" using walk_dls [of h 0 ps' n y bs] sp(2) by simp
    then have "list_add alloc l h x i = Some (l\<lparr>lsize := lsize l + 1\<rparr>, h')"
      using 3 h'(1) ll_size [OF assms(1)] assms(2) by (simp add: list_add_def list_create_node_def)
    moreover have "take (nat i) as @ (alloc h, x) # drop (nat i) as = ps @ (p, w) # (alloc h, x) # (n, y) # bs"
      unfolding sp(2) [symmetric] sp(1) by (simp, simp add: ps')
    ultimately show ?thesis using h'(2) by simp
  qed
qed

lemma deref_dls: "dls h p (as @ (a, x) # bs) q \<Longrightarrow> map_option item (deref h a) = Some x"
  by (simp add: dls_append deref_def)

lemma list_get_first_rel: "ll_rel h0 l h ((a, x) # as) \<Longrightarrow> list_get_first l h = Some x"
  using deref_dls [of h 0 "[]" a x as 0] by (auto simp: list_get_first_def ll_rel_def)

lemma list_get_last_rel:
  assumes "ll_rel h0 l h (as @ [(a, x)])"
  shows "list_get_last l h = Some x"
proof (cases as)
  case Nil
  then show ?thesis using assms list_get_first_rel [of h0 l h a x "[]"] by (simp add: list_get_last_def ll_size [OF assms])
next
  case (Cons b bs)
  then have "length (as @ [(a, x)]) \<noteq> 0" "length (as @ [(a, x)]) \<noteq> 1" by simp_all
  then have "tail l = last_addr 0 (as @ [(a, x)])" using assms unfolding ll_rel_def by presburger
  then have "tail l = a" by simp
  then show ?thesis using assms Cons deref_dls [of h 0 as a x "[]" 0]
    by (simp add: list_get_last_def ll_size [OF assms]) (simp add: ll_rel_def)
qed

lemma list_get_rel:
  assumes "ll_rel h0 l h as" "0 \<le> i"
  shows "list_get l h i = Some (if nat i < length as then snd (as ! nat i) else 0)"
proof (cases "nat i < length as")
  case False
  then show ?thesis using assms(2) ll_size [OF assms(1)] by (auto simp: list_get_def)
next
  case True
  then obtain cs n y bs where sp: "as = cs @ (n, y) # bs" "length cs = nat i" using split_nth by blast
  have r: "ll_rel h0 l h (cs @ (n, y) # bs)" using assms(1) sp(1) by simp
  then have "dls h 0 (cs @ (n, y) # bs) 0" "head l = first_addr cs n" by (simp_all add: ll_rel_def)
  then have w: "walk h (head l) (nat i) = Some n" "map_option item (deref h n) = Some y"
    using walk_dls [of h 0 cs n y bs] deref_dls [of h 0 cs n y bs 0] sp(2) by simp_all
  have f: "list_get_first l h = Some y" if "i = 0"
    using that sp(2) r list_get_first_rel [of h0 l h n y bs] by simp
  have la: "list_get_last l h = Some y" if "i + 1 = int (length as)"
    using that sp r list_get_last_rel [of h0 l h cs n y] assms(2) by simp
  have "snd (as ! nat i) = y" using sp by (metis nth_append_length snd_conv)
  then show ?thesis
    using True w f la ll_size [OF assms(1)] assms(2) by (auto simp: list_get_def)
qed

lemma list_remove_rel:
  assumes "ll_rel h0 l h as" "0 \<le> i" "nat i < length as"
  shows "\<exists>l' h'. list_remove l h i = Some (l', h', snd (as ! nat i)) \<and>
    ll_rel h0 l' h' (take (nat i) as @ drop (Suc (nat i)) as)"
proof -
  obtain cs n y bs where sp: "as = cs @ (n, y) # bs" "length cs = nat i" using split_nth [OF assms(3)] by blast
  have r: "ll_rel h0 l h (cs @ (n, y) # bs)" using assms(1) sp(1) by simp
  have res: "snd (as ! nat i) = y" "take (nat i) as @ drop (Suc (nat i)) as = cs @ bs"
    using sp by (simp_all add: nth_append)
  have nz: "lsize l \<noteq> 0" "\<not> lsize l \<le> i" using ll_size [OF assms(1)] assms(2,3) by auto
  consider "cs = []" | "cs \<noteq> []" "bs = []" | p w ps q z qs where "cs = ps @ [(p, w)]" "bs = (q, z) # qs"
    by (metis neq_Nil_conv rev_exhaust surj_pair)
  then show ?thesis
  proof cases
    case 1
    then have "i = 0" using sp(2) assms(2) by simp
    then show ?thesis unfolding res using list_remove_first_rel [of h0 l h n y bs] r 1 nz by (simp add: list_remove_def)
  next
    case 2
    then have "i + 1 = lsize l" "i \<noteq> 0" using sp assms(2) ll_size [OF assms(1)] by auto
    then show ?thesis unfolding res using list_remove_last_rel [of h0 l h cs n y] r 2 nz by (simp add: list_remove_def)
  next
    case 3
    have i: "i \<noteq> 0" "i + 1 \<noteq> lsize l" using sp assms(2) 3 ll_size [OF assms(1)] by auto
    have rr: "ll_rel h0 l h (ps @ (p, w) # (n, y) # (q, z) # qs)" using r 3 by simp
    then have hs: "n \<noteq> 0" "p \<noteq> 0" "q \<noteq> 0" "h n = Some \<lparr>item = y, prev = p, nxt = q\<rparr>" "p \<noteq> q"
        "h p = Some \<lparr>item = w, prev = last_addr 0 ps, nxt = n\<rparr>"
        "h q = Some \<lparr>item = z, prev = n, nxt = first_addr qs 0\<rparr>"
      by (auto simp: ll_rel_def dls_append)
    have "dls h 0 (cs @ (n, y) # bs) 0" "head l = first_addr cs n" using r by (simp_all add: ll_rel_def)
    then have "walk h (head l) (nat i) = Some n" using walk_dls [of h 0 cs n y bs] sp(2) by simp
    then show ?thesis unfolding res using i nz hs remove_between [OF rr] 3
      by (simp add: list_remove_def deref_Some nupd_Some os_free_def)
  qed
qed

section \<open>Command sequences against a plain list\<close>

datatype ll_cmd = Add_first addr | Add_last addr | Add addr int | Get_at int | Get_first | Get_last
  | Remove_at int | Remove_first | Remove_last

fun abs_step :: "addr list \<Rightarrow> ll_cmd \<Rightarrow> addr list \<times> addr" where
  "abs_step xs (Add_first x) = (x # xs, 0)"
| "abs_step xs (Add_last x) = (xs @ [x], 0)"
| "abs_step xs (Add x i) = (if i \<le> int (length xs) then take (nat i) xs @ x # drop (nat i) xs else xs, 0)"
| "abs_step xs (Get_at i) = (xs, if nat i < length xs then xs ! nat i else 0)"
| "abs_step xs Get_first = (xs, if xs = [] then 0 else hd xs)"
| "abs_step xs Get_last = (xs, if xs = [] then 0 else last xs)"
| "abs_step xs (Remove_at i) =
     (if nat i < length xs then (take (nat i) xs @ drop (Suc (nat i)) xs, xs ! nat i) else (xs, 0))"
| "abs_step xs Remove_first = (if xs = [] then ([], 0) else (tl xs, hd xs))"
| "abs_step xs Remove_last = (if xs = [] then ([], 0) else (butlast xs, last xs))"

fun ll_step :: "(nheap \<Rightarrow> addr) \<Rightarrow> linked_list \<Rightarrow> nheap \<Rightarrow> ll_cmd \<Rightarrow> (linked_list \<times> nheap \<times> addr) option" where
  "ll_step alloc l h (Add_first x) = map_option (\<lambda>(l, h). (l, h, 0)) (list_add_first alloc l h x)"
| "ll_step alloc l h (Add_last x) = map_option (\<lambda>(l, h). (l, h, 0)) (list_add_last alloc l h x)"
| "ll_step alloc l h (Add x i) = map_option (\<lambda>(l, h). (l, h, 0)) (list_add alloc l h x i)"
| "ll_step alloc l h (Get_at i) = map_option (\<lambda>x. (l, h, x)) (list_get l h i)"
| "ll_step alloc l h Get_first = map_option (\<lambda>x. (l, h, x)) (list_get_first l h)"
| "ll_step alloc l h Get_last = map_option (\<lambda>x. (l, h, x)) (list_get_last l h)"
| "ll_step alloc l h (Remove_at i) = list_remove l h i"
| "ll_step alloc l h Remove_first = list_remove_first l h"
| "ll_step alloc l h Remove_last = list_remove_last l h"

fun abs_run :: "addr list \<Rightarrow> ll_cmd list \<Rightarrow> addr list \<times> addr list" where
  "abs_run xs [] = (xs, [])"
| "abs_run xs (c # cs) = (case abs_step xs c of (xs', x) \<Rightarrow> case abs_run xs' cs of (ys, os) \<Rightarrow> (ys, x # os))"

fun ll_run :: "(nheap \<Rightarrow> addr) \<Rightarrow> linked_list \<Rightarrow> nheap \<Rightarrow> ll_cmd list \<Rightarrow> (linked_list \<times> nheap \<times> addr list) option" where
  "ll_run alloc l h [] = Some (l, h, [])"
| "ll_run alloc l h (c # cs) = do {
     (l1, h1, x) \<leftarrow> ll_step alloc l h c;
     (l2, h2, os) \<leftarrow> ll_run alloc l1 h1 cs;
     Some (l2, h2, x # os)
   }"

fun position_ok :: "ll_cmd \<Rightarrow> bool" where
  "position_ok (Add x i) = (0 \<le> i)"
| "position_ok (Get_at i) = (0 \<le> i)"
| "position_ok (Remove_at i) = (0 \<le> i)"
| "position_ok _ = True"

definition alloc_ok :: "(nheap \<Rightarrow> addr) \<Rightarrow> bool" where
  "alloc_ok alloc \<longleftrightarrow> (\<forall>h. finite (dom h) \<longrightarrow> alloc h \<noteq> 0 \<and> h (alloc h) = None)"

lemma ll_rel_finite: "ll_rel h0 l h as \<Longrightarrow> finite (dom h0) \<Longrightarrow> finite (dom h)"
  by (rule finite_subset [of _ "dom h0 \<union> fst ` set as"]) (auto simp: ll_rel_def)

lemma ll_step_refines:
  assumes "alloc_ok alloc" "finite (dom h0)" "ll_rel h0 l h as" "position_ok c"
  shows "\<exists>l' h' as'. ll_step alloc l h c = Some (l', h', snd (abs_step (map snd as) c)) \<and>
    ll_rel h0 l' h' as' \<and> map snd as' = fst (abs_step (map snd as) c)"
proof -
  have a: "alloc h \<noteq> 0" "h (alloc h) = None"
    using assms(1) ll_rel_finite [OF assms(3,2)] by (simp_all add: alloc_ok_def)
  have sz: "lsize l = int (length as)" using assms(3) by (rule ll_size)
  show ?thesis
  proof (cases c)
    case (Add_first x)
    then show ?thesis using list_add_first_rel [of h0 l h as alloc x] a assms(3) by force
  next
    case (Add_last x)
    then show ?thesis using list_add_last_rel [of h0 l h as alloc x] a assms(3) by force
  next
    case (Add x i)
    show ?thesis
    proof (cases "i \<le> int (length as)")
      case True
      then show ?thesis
        using list_add_rel [of h0 l h as alloc i x] a assms(3,4) Add by (fastforce simp: take_map drop_map)
    next
      case False
      then show ?thesis using Add assms(3) sz by (auto simp: list_add_def)
    qed
  next
    case (Get_at i)
    then show ?thesis using list_get_rel [OF assms(3), of i] assms(3,4) by auto
  next
    case Get_first
    then show ?thesis
      using assms(3) sz list_get_first_rel [of h0 l h] by (cases as) (auto simp: list_get_first_def)
  next
    case Get_last
    have "list_get_last l h = Some (if as = [] then 0 else snd (last as))"
    proof (cases as rule: rev_cases)
      case Nil
      then show ?thesis using sz by (simp add: list_get_last_def)
    next
      case (snoc bs b)
      then show ?thesis using list_get_last_rel [of h0 l h bs "fst b" "snd b"] assms(3) by simp
    qed
    then show ?thesis using Get_last assms(3) by (auto simp: last_map)
  next
    case (Remove_at i)
    show ?thesis
    proof (cases "nat i < length as")
      case True
      then show ?thesis
        using list_remove_rel [OF assms(3), of i] assms(4) Remove_at by (fastforce simp: take_map drop_map)
    next
      case False
      then show ?thesis using Remove_at assms(3,4) sz by (auto simp: list_remove_def)
    qed
  next
    case Remove_first
    then show ?thesis
      using assms(3) ll_head [OF assms(3)] list_remove_first_rel [of h0 l h]
      by (cases as) (fastforce simp: list_remove_first_def)+
  next
    case Remove_last
    then show ?thesis
      using assms(3) sz list_remove_last_rel [of h0 l h]
      by (cases as rule: rev_cases) (fastforce simp: list_remove_last_def)+
  qed
qed

lemma ll_run_refines:
  assumes "alloc_ok alloc" "finite (dom h0)" "ll_rel h0 l h as" "\<forall>c \<in> set cs. position_ok c"
  shows "\<exists>l' h' as'. ll_run alloc l h cs = Some (l', h', snd (abs_run (map snd as) cs)) \<and>
    ll_rel h0 l' h' as' \<and> map snd as' = fst (abs_run (map snd as) cs)"
  using assms(3,4)
proof (induction cs arbitrary: l h as)
  case Nil
  then show ?case by auto
next
  case (Cons c cs)
  obtain l1 h1 as1 where s: "ll_step alloc l h c = Some (l1, h1, snd (abs_step (map snd as) c))"
      "ll_rel h0 l1 h1 as1" "map snd as1 = fst (abs_step (map snd as) c)"
    using ll_step_refines [OF assms(1,2) Cons.prems(1), of c] Cons.prems(2) by auto
  from Cons.IH [OF s(2)] Cons.prems(2) obtain l2 h2 as2 where
      "ll_run alloc l1 h1 cs = Some (l2, h2, snd (abs_run (map snd as1) cs))" "ll_rel h0 l2 h2 as2"
      "map snd as2 = fst (abs_run (map snd as1) cs)"
    by auto
  then show ?case using s by (auto simp: split_beta)
qed

section \<open>Properties\<close>


text \<open>An allocator that satisfies the hypothesis: the successor of the largest address in use.\<close>

definition next_alloc :: "nheap \<Rightarrow> addr" where
  "next_alloc h = Suc (Max (insert 0 (dom h)))"

lemma next_alloc_ok: "alloc_ok next_alloc"
proof -
  have "h (Suc (Max (insert 0 (dom h)))) = None" if "finite (dom h)" for h :: nheap
  proof (rule ccontr)
    assume "h (Suc (Max (insert 0 (dom h)))) \<noteq> None"
    then have "Suc (Max (insert 0 (dom h))) \<in> insert 0 (dom h)" by (auto simp: dom_def)
    with that have "Suc (Max (insert 0 (dom h))) \<le> Max (insert 0 (dom h))" by (intro Max_ge) simp_all
    then show False by (rule Suc_n_not_le_n [THEN notE])
  qed
  then show ?thesis by (simp add: alloc_ok_def next_alloc_def)
qed


text \<open>
  \<^verbatim>\<open>list_remove_node\<close> unlinks any node of the list, first, last or inner, without touching \<open>NULL\<close> or a
  freed node: it returns the node's item, frees that node only, and the remaining items keep their order.
\<close>

theorem list_remove_node_unlinks:
  assumes "ll_rel h0 l h (as @ (n, x) # bs)"
  shows "\<exists>l' h'. list_remove_node l h n = Some (l', h', x) \<and> ll_rel h0 l' h' (as @ bs) \<and> h' n = None"
proof -
  have s: "lsize l = 1 + int (length as) + int (length bs)" using ll_size [OF assms] by simp
  have n: "n \<noteq> 0" "h n = Some \<lparr>item = x, prev = last_addr 0 as, nxt = first_addr bs 0\<rparr>"
    using assms by (auto simp: ll_rel_def dls_append)
  consider "as = []" | p w ps where "as = ps @ [(p, w)]" by (metis rev_exhaust surj_pair)
  then show ?thesis
  proof cases
    case as: 1
    show ?thesis
    proof (cases bs)
      case Nil
      define l' where "l' = l\<lparr>head := 0, tail := 0, lsize := lsize l - 1\<rparr>"
      have "list_remove_node l h n = Some (l', h(n := None), x)"
        using n as Nil s by (simp add: list_remove_node_def deref_Some os_free_def l'_def)
      moreover have "ll_rel h0 l' (h(n := None)) (as @ bs)"
        by (rule ll_rel_remove [OF assms]) (use s as Nil in \<open>simp_all add: l'_def\<close>)
      ultimately show ?thesis by simp
    next
      case (Cons b qs)
      obtain q z where b: "b = (q, z)" by (cases b)
      have q: "q \<noteq> 0" "q \<noteq> n" "h q = Some \<lparr>item = z, prev = n, nxt = first_addr qs 0\<rparr>"
        using assms as Cons b by (auto simp: ll_rel_def)
      define l' where "l' = l\<lparr>head := q, lsize := lsize l - 1\<rparr>"
      define h' where "h' = h(q := Some \<lparr>item = z, prev = 0, nxt = first_addr qs 0\<rparr>, n := None)"
      have "list_remove_node l h n = Some (l', h', x)"
        using n as Cons b s q by (simp add: list_remove_node_def deref_Some nupd_Some os_free_def l'_def h'_def)
      moreover have "ll_rel h0 l' h' (as @ bs)"
        by (rule ll_rel_remove [OF assms])
          (use assms as Cons b q in \<open>auto simp: l'_def h'_def ll_rel_def split: if_splits\<close>)
      ultimately show ?thesis by (simp add: h'_def)
    qed
  next
    case as: 2
    have p: "p \<noteq> 0" "p \<noteq> n" "h p = Some \<lparr>item = w, prev = last_addr 0 ps, nxt = n\<rparr>"
      using assms as by (auto simp: ll_rel_def dls_append)
    show ?thesis
    proof (cases bs)
      case Nil
      define l' where "l' = l\<lparr>tail := p, lsize := lsize l - 1\<rparr>"
      define h' where "h' = h(p := Some \<lparr>item = w, prev = last_addr 0 ps, nxt = 0\<rparr>, n := None)"
      have "list_remove_node l h n = Some (l', h', x)"
        using n as Nil s p by (simp add: list_remove_node_def deref_Some nupd_Some os_free_def l'_def h'_def)
      moreover have "ll_rel h0 l' h' (as @ bs)"
        by (rule ll_rel_remove [OF assms])
          (use assms as Nil p in \<open>auto simp: l'_def h'_def ll_rel_def dls_append split: if_splits\<close>)
      ultimately show ?thesis by (simp add: h'_def)
    next
      case (Cons b qs)
      obtain q z where b: "b = (q, z)" by (cases b)
      have q: "q \<noteq> 0" "q \<noteq> n" "q \<noteq> p" "h q = Some \<lparr>item = z, prev = n, nxt = first_addr qs 0\<rparr>"
        using assms as Cons b by (auto simp: ll_rel_def dls_append)
      have "list_remove_node l h n = Some (l\<lparr>lsize := lsize l - 1\<rparr>,
          h(p := Some \<lparr>item = w, prev = last_addr 0 ps, nxt = q\<rparr>,
            q := Some \<lparr>item = z, prev = p, nxt = first_addr qs 0\<rparr>, n := None), x)"
        using n as Cons b s p q by (simp add: list_remove_node_def deref_Some nupd_Some os_free_def)
      then show ?thesis using remove_between [of h0 l h ps p w n x q z qs] assms as Cons b by simp
    qed
  qed
qed

definition pair_heap :: nheap where
  "pair_heap = [5 \<mapsto> \<lparr>item = 50, prev = 0, nxt = 6\<rparr>, 6 \<mapsto> \<lparr>item = 60, prev = 5, nxt = 0\<rparr>]"

theorem list_remove_node_unlinks_witness:
  "\<exists>l' h'. list_remove_node \<lparr>head = 5, tail = 6, lsize = 2\<rparr> pair_heap 5 = Some (l', h', 50) \<and>
    ll_rel Map.empty l' h' [(6, 60)] \<and> h' 5 = None"
proof -
  have "ll_rel Map.empty \<lparr>head = 5, tail = 6, lsize = 2\<rparr> pair_heap ([] @ (5, 50) # [(6, 60)])"
    by (simp add: ll_rel_def pair_heap_def)
  from list_remove_node_unlinks [OF this] show ?thesis by simp
qed

text \<open>A negative position makes \<^verbatim>\<open>list_add\<close> insert before the head node, whose predecessor is \<open>NULL\<close>.\<close>

lemma list_add_negative_faults:
  assumes "ll_rel h0 l h ((a, y) # as)" "i < 0" "alloc h \<noteq> 0" "h (alloc h) = None"
  shows "list_add alloc l h x i = None"
proof -
  have a: "a \<noteq> 0" "head l = a" "h a = Some \<lparr>item = y, prev = 0, nxt = first_addr as 0\<rparr>" "alloc h \<noteq> a"
    using assms by (auto simp: ll_rel_def)
  have "nupd h' 0 f = None" for h' f by (simp add: nupd_def deref_def)
  then show ?thesis using a assms(2,3) ll_size [OF assms(1)]
    by (simp add: list_add_def list_create_node_def list_insert_before_def deref_Some nupd_Some)
qed

end
