(* ===== verification/Base64.thy ===== *)
theory Base64
  imports Esp_Prelude
begin

text \<open>
  The Base64 codec \<^verbatim>\<open>app_common/util/base64.c\<close> over the flat byte store. Lengths are below \<open>2\<^sup>3\<^sup>1\<close>, so C's
  \<^verbatim>\<open>int\<close> is \<open>int\<close>. The list functions \<open>b64\<close> and \<open>unb64\<close> say what the two routines write.
\<close>

section \<open>Model\<close>

definition pr2six :: "u8 list" where
  "pr2six = [
   64, 64, 64, 64, 64, 64, 64, 64, 64, 64, 64, 64, 64, 64, 64, 64,
   64, 64, 64, 64, 64, 64, 64, 64, 64, 64, 64, 64, 64, 64, 64, 64,
   64, 64, 64, 64, 64, 64, 64, 64, 64, 64, 64, 62, 64, 64, 64, 63,
   52, 53, 54, 55, 56, 57, 58, 59, 60, 61, 64, 64, 64, 64, 64, 64,
   64, 0, 1, 2, 3, 4, 5, 6, 7, 8, 9, 10, 11, 12, 13, 14,
   15, 16, 17, 18, 19, 20, 21, 22, 23, 24, 25, 64, 64, 64, 64, 64,
   64, 26, 27, 28, 29, 30, 31, 32, 33, 34, 35, 36, 37, 38, 39, 40,
   41, 42, 43, 44, 45, 46, 47, 48, 49, 50, 51, 64, 64, 64, 64, 64,
   64, 64, 64, 64, 64, 64, 64, 64, 64, 64, 64, 64, 64, 64, 64, 64,
   64, 64, 64, 64, 64, 64, 64, 64, 64, 64, 64, 64, 64, 64, 64, 64,
   64, 64, 64, 64, 64, 64, 64, 64, 64, 64, 64, 64, 64, 64, 64, 64,
   64, 64, 64, 64, 64, 64, 64, 64, 64, 64, 64, 64, 64, 64, 64, 64,
   64, 64, 64, 64, 64, 64, 64, 64, 64, 64, 64, 64, 64, 64, 64, 64,
   64, 64, 64, 64, 64, 64, 64, 64, 64, 64, 64, 64, 64, 64, 64, 64,
   64, 64, 64, 64, 64, 64, 64, 64, 64, 64, 64, 64, 64, 64, 64, 64,
   64, 64, 64, 64, 64, 64, 64, 64, 64, 64, 64, 64, 64, 64, 64, 64]"

text \<open>The character codes of \<open>A-Z\<close>, \<open>a-z\<close>, \<open>0-9\<close>, \<open>+\<close> and \<open>/\<close>.\<close>

definition basis_64 :: "u8 list" where
  "basis_64 = [
   65, 66, 67, 68, 69, 70, 71, 72, 73, 74, 75, 76, 77, 78, 79, 80,
   81, 82, 83, 84, 85, 86, 87, 88, 89, 90, 97, 98, 99, 100, 101, 102,
   103, 104, 105, 106, 107, 108, 109, 110, 111, 112, 113, 114, 115, 116, 117, 118,
   119, 120, 121, 122, 48, 49, 50, 51, 52, 53, 54, 55, 56, 57, 43, 47]"

abbreviation six :: "u8 \<Rightarrow> u8" where
  "six c \<equiv> pr2six ! unat c"

abbreviation letter :: "u8 \<Rightarrow> u8" where
  "letter v \<equiv> basis_64 ! unat v"

abbreviation (input) "PAD \<equiv> (61 :: u8)"

text \<open>\<open>while (pr2six[*(bufin++)] <= 63);\<close> gives the pointer behind the first other character.\<close>

partial_function (option) pr_scan :: "mem \<Rightarrow> addr \<Rightarrow> addr option" where
  "pr_scan m bufin = (if six (m bufin) \<le> 63 then pr_scan m (bufin + 1) else Some (bufin + 1))"

definition Base64decode_len :: "mem \<Rightarrow> addr \<Rightarrow> int option" where
  "Base64decode_len m bufcoded =
     (case pr_scan m bufcoded of
        None \<Rightarrow> None
      | Some bufin \<Rightarrow>
          let nprbytes = int bufin - int bufcoded - 1;
              nbytesdecoded = (nprbytes + 3) div 4 * 3
          in Some (nbytesdecoded + 1))"

text \<open>The three bytes of a group; each is stored before the next is computed.\<close>

definition dec0 :: "mem \<Rightarrow> addr \<Rightarrow> u8" where
  "dec0 m p = push_bit 2 (six (m p)) OR drop_bit 4 (six (m (p + 1)))"

definition dec1 :: "mem \<Rightarrow> addr \<Rightarrow> u8" where
  "dec1 m p = push_bit 4 (six (m (p + 1))) OR drop_bit 2 (six (m (p + 2)))"

definition dec2 :: "mem \<Rightarrow> addr \<Rightarrow> u8" where
  "dec2 m p = push_bit 6 (six (m (p + 2))) OR six (m (p + 3))"

function decode_loop :: "mem \<Rightarrow> addr \<Rightarrow> addr \<Rightarrow> int \<Rightarrow> mem \<times> addr \<times> addr \<times> int" where
  "decode_loop m bufout bufin nprbytes =
     (if nprbytes > 4 then
        let m1 = m(bufout := dec0 m bufin);
            m2 = m1(bufout + 1 := dec1 m1 bufin);
            m3 = m2(bufout + 2 := dec2 m2 bufin)
        in decode_loop m3 (bufout + 3) (bufin + 4) (nprbytes - 4)
      else (m, bufout, bufin, nprbytes))"
  by pat_completeness auto
termination
  by (relation "measure (\<lambda>(_, _, _, n). nat n)") auto

declare decode_loop.simps [simp del]

definition decode_tail :: "mem \<Rightarrow> addr \<Rightarrow> addr \<Rightarrow> int \<Rightarrow> mem" where
  "decode_tail m bufout bufin nprbytes =
     (let (m1, o1) = (if nprbytes > 1 then (m(bufout := dec0 m bufin), bufout + 1) else (m, bufout));
          (m2, o2) = (if nprbytes > 2 then (m1(o1 := dec1 m1 bufin), o1 + 1) else (m1, o1));
          (m3, o3) = (if nprbytes > 3 then (m2(o2 := dec2 m2 bufin), o2 + 1) else (m2, o2))
      in m3(o3 := 0))"

definition Base64decode :: "mem \<Rightarrow> addr \<Rightarrow> addr \<Rightarrow> (mem \<times> int) option" where
  "Base64decode m bufplain bufcoded =
     (case pr_scan m bufcoded of
        None \<Rightarrow> None
      | Some bufin \<Rightarrow>
          let nprbytes = int bufin - int bufcoded - 1;
              nbytesdecoded = (nprbytes + 3) div 4 * 3
          in (case decode_loop m bufplain bufcoded nprbytes of
                (m1, bufout, p, rest) \<Rightarrow>
                  Some (decode_tail m1 bufout p rest, nbytesdecoded - ((4 - rest) AND 3))))"

definition Base64encode_len :: "int \<Rightarrow> int" where
  "Base64encode_len len = (len + 2) div 3 * 4 + 1"

definition enc0 :: "mem \<Rightarrow> addr \<Rightarrow> u8" where
  "enc0 m s = letter (drop_bit 2 (m s) AND 0x3F)"

definition enc1 :: "mem \<Rightarrow> addr \<Rightarrow> u8" where
  "enc1 m s = letter (push_bit 4 (m s AND 0x3) OR drop_bit 4 (m (s + 1) AND 0xF0))"

definition enc2 :: "mem \<Rightarrow> addr \<Rightarrow> u8" where
  "enc2 m s = letter (push_bit 2 (m (s + 1) AND 0xF) OR drop_bit 6 (m (s + 2) AND 0xC0))"

definition enc3 :: "mem \<Rightarrow> addr \<Rightarrow> u8" where
  "enc3 m s = letter (m (s + 2) AND 0x3F)"

function encode_loop :: "mem \<Rightarrow> addr \<Rightarrow> addr \<Rightarrow> int \<Rightarrow> int \<Rightarrow> mem \<times> addr \<times> int" where
  "encode_loop m p str i len =
     (if i < len - 2 then
        let s = str + nat i;
            m1 = m(p := enc0 m s);
            m2 = m1(p + 1 := enc1 m1 s);
            m3 = m2(p + 2 := enc2 m2 s);
            m4 = m3(p + 3 := enc3 m3 s)
        in encode_loop m4 (p + 4) str (i + 3) len
      else (m, p, i))"
  by pat_completeness auto
termination
  by (relation "measure (\<lambda>(_, _, _, i, len). nat (len - i))") auto

declare encode_loop.simps [simp del]

definition encode_tail :: "mem \<Rightarrow> addr \<Rightarrow> addr \<Rightarrow> int \<Rightarrow> int \<Rightarrow> mem \<times> addr" where
  "encode_tail m p str i len =
     (let s = str + nat i;
          (m1, p1) =
            (if i < len then
               let ma = m(p := enc0 m s) in
               if i = len - 1 then
                 let mb = ma(p + 1 := letter (push_bit 4 (ma s AND 0x3))); mc = mb(p + 2 := PAD)
                 in (mc(p + 3 := PAD), p + 4)
               else
                 let mb = ma(p + 1 := enc1 ma s); mc = mb(p + 2 := letter (push_bit 2 (mb (s + 1) AND 0xF)))
                 in (mc(p + 3 := PAD), p + 4)
             else (m, p))
      in (m1(p1 := 0), p1 + 1))"

definition Base64encode :: "mem \<Rightarrow> addr \<Rightarrow> addr \<Rightarrow> int \<Rightarrow> mem \<times> int" where
  "Base64encode m encoded str len =
     (case encode_loop m encoded str 0 len of (m1, p, i) \<Rightarrow>
        case encode_tail m1 p str i len of (m2, q) \<Rightarrow> (m2, int q - int encoded))"

section \<open>What the routines write\<close>

fun sextets :: "u8 list \<Rightarrow> u8 list" where
  "sextets [] = []"
| "sextets [a] = [drop_bit 2 a, push_bit 4 (take_bit 2 a)]"
| "sextets [a, b] = [drop_bit 2 a, push_bit 4 (take_bit 2 a) OR drop_bit 4 b, push_bit 2 (take_bit 4 b)]"
| "sextets (a # b # c # xs) =
     drop_bit 2 a # (push_bit 4 (take_bit 2 a) OR drop_bit 4 b) # (push_bit 2 (take_bit 4 b) OR drop_bit 6 c) #
     take_bit 6 c # sextets xs"

definition b64 :: "u8 list \<Rightarrow> u8 list" where
  "b64 xs = map letter (sextets xs) @ replicate ((3 - length xs mod 3) mod 3) PAD"

fun octets :: "u8 list \<Rightarrow> u8 list" where
  "octets (a # b # c # d # xs) =
     (push_bit 2 a OR drop_bit 4 b) # (push_bit 4 b OR drop_bit 2 c) # (push_bit 6 c OR d) # octets xs"
| "octets [a, b, c] = [push_bit 2 a OR drop_bit 4 b, push_bit 4 b OR drop_bit 2 c]"
| "octets [a, b] = [push_bit 2 a OR drop_bit 4 b]"
| "octets _ = []"

lemma six_letter: "v < 64 \<Longrightarrow> six (letter v) = v"
proof -
  have "map (\<lambda>c. pr2six ! unat c) basis_64 = map of_nat [0..<64]" by code_simp
  moreover have "length basis_64 = 64" by (simp add: basis_64_def)
  moreover assume "v < 64"
  then have "unat v < 64" by (simp add: word_less_nat_alt)
  ultimately have "map (\<lambda>c. pr2six ! unat c) basis_64 ! unat v = of_nat (unat v)" by simp
  then show ?thesis using \<open>length basis_64 = 64\<close> \<open>unat v < 64\<close> by simp
qed

lemma and_masks:
  fixes x :: u8
  shows "x AND 0x3 = take_bit 2 x" "x AND 0xF = take_bit 4 x" "x AND 0x3F = take_bit 6 x"
    "drop_bit 4 (x AND 0xF0) = drop_bit 4 x" "drop_bit 6 (x AND 0xC0) = drop_bit 6 x"
    "take_bit 6 (drop_bit 2 x) = drop_bit 2 x" "take_bit 4 (drop_bit 4 x) = drop_bit 4 x"
    "take_bit 2 (drop_bit 6 x) = drop_bit 6 x"
proof -
  show "x AND 0x3 = take_bit 2 x" "x AND 0xF = take_bit 4 x" "x AND 0x3F = take_bit 6 x"
    by (simp_all add: take_bit_eq_mask mask_eq_exp_minus_1)
  have n: "(0xF0 :: u8) = NOT (mask 4)" "(0xC0 :: u8) = NOT (mask 6)" by (simp_all add: mask_eq_exp_minus_1)
  show "drop_bit 4 (x AND 0xF0) = drop_bit 4 x" "drop_bit 6 (x AND 0xC0) = drop_bit 6 x"
    unfolding n by (rule bit_word_eqI; auto simp: bit_simps dest: bit_imp_le_length)+
  show "take_bit 6 (drop_bit 2 x) = drop_bit 2 x" "take_bit 4 (drop_bit 4 x) = drop_bit 4 x"
    "take_bit 2 (drop_bit 6 x) = drop_bit 6 x"
    by (rule bit_word_eqI; auto simp: bit_simps dest: bit_imp_le_length)+
qed

lemmas enc_defs = enc0_def enc1_def enc2_def enc3_def and_masks

lemma length_sextets: "length (sextets xs) = (4 * length xs + 2) div 3"
  by (induction xs rule: sextets.induct) simp_all

lemma b64_Cons3:
  "b64 (a # b # c # xs) = letter (drop_bit 2 a) # letter (push_bit 4 (take_bit 2 a) OR drop_bit 4 b) #
     letter (push_bit 2 (take_bit 4 b) OR drop_bit 6 c) # letter (take_bit 6 c) # b64 xs"
proof -
  have "Suc (Suc (Suc n)) mod 3 = n mod 3" for n :: nat by presburger
  then show ?thesis by (simp add: b64_def)
qed

lemma length_b64: "length (b64 xs) = 4 * ((length xs + 2) div 3)"
proof (induction xs rule: sextets.induct)
  case (4 a b c xs)
  have "(length (a # b # c # xs) + 2) div 3 = Suc ((length xs + 2) div 3)" by simp
  then show ?case using 4 by (simp only: b64_Cons3 list.size) simp
qed (simp_all add: b64_def)

lemma addr_Suc: "(p :: addr) + 2 = Suc (Suc p)" "p + 3 = Suc (Suc (Suc p))" "p + 4 = Suc (Suc (Suc (Suc p)))"
  by simp_all

lemma enc_upd:
  "s \<noteq> q \<Longrightarrow> s + 1 \<noteq> q \<Longrightarrow> enc1 (m(q := v)) s = enc1 m s"
  "s + 1 \<noteq> q \<Longrightarrow> s + 2 \<noteq> q \<Longrightarrow> enc2 (m(q := v)) s = enc2 m s"
  "s + 2 \<noteq> q \<Longrightarrow> enc3 (m(q := v)) s = enc3 m s"
  by (simp_all add: enc1_def enc2_def enc3_def)

lemma encode_loop_step:
  assumes "i < len - 2" "s = str + nat i"
    "s \<noteq> p" "s + 1 \<noteq> p" "s + 1 \<noteq> p + 1" "s + 2 \<noteq> p" "s + 2 \<noteq> p + 1" "s + 2 \<noteq> p + 2"
  shows "encode_loop m p str i len =
    encode_loop (m(p := enc0 m s, p + 1 := enc1 m s, p + 2 := enc2 m s, p + 3 := enc3 m s)) (p + 4) str (i + 3) len"
  unfolding encode_loop.simps [of m p str i len] if_P [OF assms(1)] Let_def assms(2) [symmetric]
  using assms(3-8) by (simp add: enc_upd)

lemma encode_from:
  assumes "mem_read m (str + i) (length xs) = xs" "disjnt_blk (str + i) (length xs) p (length (b64 xs) + 1)"
  shows "(case encode_loop m p str (int i) (int (i + length xs)) of (m1, q, j) \<Rightarrow>
      encode_tail m1 q str j (int (i + length xs))) = (mem_write m p (b64 xs @ [0]), p + length (b64 xs) + 1)"
  using assms
proof (induction xs arbitrary: m p i rule: sextets.induct)
  case 1
  then show ?case
    by (subst encode_loop.simps) (simp add: encode_tail_def b64_def mem_write_Cons)
next
  case (2 a)
  have a: "m (str + i) = a" using 2(1) by (simp add: mem_read_Suc)
  have b: "b64 [a] = [letter (drop_bit 2 a), letter (push_bit 4 (take_bit 2 a)), PAD, PAD]"
    by (simp add: b64_def numeral_2_eq_2)
  have "str + i \<noteq> p" using 2(2) by (auto simp: disjnt_blk_def b)
  then show ?case unfolding b using a
    by (subst encode_loop.simps) (simp add: encode_tail_def enc_defs mem_write_Cons Let_def addr_Suc)
next
  case (3 a b)
  have a: "m (str + i) = a" "m (Suc (str + i)) = b" using 3(1) by (simp_all add: mem_read_Suc)
  have e: "b64 [a, b] = [letter (drop_bit 2 a), letter (push_bit 4 (take_bit 2 a) OR drop_bit 4 b),
      letter (push_bit 2 (take_bit 4 b)), PAD]" by (simp add: b64_def)
  have "str + i \<noteq> p" "Suc (str + i) \<noteq> p" "Suc (str + i) \<noteq> Suc p" using 3(2) by (auto simp: disjnt_blk_def e)
  then show ?case unfolding e using a
    by (subst encode_loop.simps) (simp add: encode_tail_def enc_defs mem_write_Cons Let_def addr_Suc)
next
  case (4 a b c xs)
  define s where "s = str + i"
  have abc: "m s = a" "m (s + 1) = b" "m (s + 2) = c" "mem_read m (s + 3) (length xs) = xs"
    using 4(2) by (simp_all add: mem_read_Suc s_def numeral_3_eq_3 numeral_2_eq_2)
  define L where "L = length (b64 xs) + 1"
  have dj: "disjnt_blk s (length xs + 3) p (L + 4)"
    using 4(3) by (simp add: b64_Cons3 s_def L_def numeral_eq_Suc)
  define m4 where "m4 = m(p := enc0 m s, p + 1 := enc1 m s, p + 2 := enc2 m s, p + 3 := enc3 m s)"
  have ne: "s \<noteq> p" "s + 1 \<noteq> p" "s + 1 \<noteq> p + 1" "s + 2 \<noteq> p" "s + 2 \<noteq> p + 1" "s + 2 \<noteq> p + 2" "s \<noteq> p + 1" "s + 1 \<noteq> p + 2"
    using dj by (auto simp: disjnt_blk_def)
  have unf: "encode_loop m p str (int i) (int (i + length (a # b # c # xs))) =
      encode_loop m4 (p + 4) str (int (i + 3)) (int (i + 3 + length xs))"
    using encode_loop_step [of "int i" "int (i + length (a # b # c # xs))" s str p m] ne(1-6)
    by (simp add: s_def m4_def algebra_simps)
  have "mem_read m4 (s + 3) (length xs) = xs"
    by (rule trans [OF mem_read_cong abc(4)]) (use dj in \<open>auto simp: m4_def disjnt_blk_def\<close>)
  moreover have "disjnt_blk (s + 3) (length xs) (p + 4) L" using dj by (auto simp: disjnt_blk_def)
  ultimately have ih: "(case encode_loop m4 (p + 4) str (int (i + 3)) (int (i + 3 + length xs)) of (m1, q, j) \<Rightarrow>
      encode_tail m1 q str j (int (i + 3 + length xs))) = (mem_write m4 (p + 4) (b64 xs @ [0]), p + 4 + length (b64 xs) + 1)"
    using 4(1) [of m4 "i + 3" "p + 4"] by (simp add: s_def L_def add.assoc)
  have m4: "m4 = mem_write m p [letter (drop_bit 2 a), letter (push_bit 4 (take_bit 2 a) OR drop_bit 4 b),
      letter (push_bit 2 (take_bit 4 b) OR drop_bit 6 c), letter (take_bit 6 c)]"
    using abc by (simp add: m4_def enc_defs mem_write_Cons addr_Suc)
  have "mem_write m4 (p + 4) (b64 xs @ [0]) = mem_write m p (b64 (a # b # c # xs) @ [0])"
    unfolding m4 b64_Cons3 by (simp add: mem_write_Cons addr_Suc)
  moreover have ln: "int (i + length (a # b # c # xs)) = int (i + 3 + length xs)" by simp
  moreover have "p + 4 + length (b64 xs) + 1 = p + length (b64 (a # b # c # xs)) + 1" by (simp add: b64_Cons3)
  ultimately show ?case unfolding unf unfolding ln ih by (simp only:)
qed

lemma Base64encode_len_b64: "Base64encode_len (int n) = int (length (b64 (mem_read m str n)) + 1)"
  by (simp add: Base64encode_len_def length_b64 zdiv_int)

lemma Base64encode_writes:
  assumes "disjnt_blk str n encoded (nat (Base64encode_len (int n)))"
  shows "Base64encode m encoded str (int n) =
    (mem_write m encoded (b64 (mem_read m str n) @ [0]), Base64encode_len (int n))"
proof -
  note len = Base64encode_len_b64 [of n m str]
  have "disjnt_blk (str + 0) (length (mem_read m str n)) encoded (length (b64 (mem_read m str n)) + 1)"
    using assms unfolding len nat_int by simp
  from encode_from [OF _ this, of m] show ?thesis
    by (auto simp: Base64encode_def len split: prod.splits)
qed

section \<open>Decoding\<close>

lemma pr_scan_stops:
  assumes "\<forall>i < n. six (m (p + i)) \<le> 63" "\<not> six (m (p + n)) \<le> 63"
  shows "pr_scan m p = Some (p + n + 1)"
  using assms
proof (induction n arbitrary: p)
  case 0
  then show ?case by (subst pr_scan.simps) simp
next
  case (Suc n)
  have "pr_scan m (p + 1) = Some (p + 1 + n + 1)" using Suc.IH [of "p + 1"] Suc.prems by fastforce
  moreover have "six (m p) \<le> 63" using Suc.prems(1) by force
  ultimately show ?case by (subst pr_scan.simps) simp
qed

lemma dec_upd:
  "p + 1 \<noteq> q \<Longrightarrow> p + 2 \<noteq> q \<Longrightarrow> dec1 (m(q := v)) p = dec1 m p"
  "p + 2 \<noteq> q \<Longrightarrow> p + 3 \<noteq> q \<Longrightarrow> dec2 (m(q := v)) p = dec2 m p"
  by (simp_all add: dec1_def dec2_def)

lemma length_octets: "length (octets xs) = 3 * length xs div 4"
  by (induction xs rule: octets.induct) simp_all

lemma decode_tail_writes:
  assumes "n \<le> 4" "xs = map six (mem_read m p n)" "disjnt_blk p n out (length (octets xs) + 1)"
  shows "decode_tail m out p (int n) = mem_write m out (octets xs @ [0])"
proof -
  consider "n = 0" | "n = 1" | "n = 2" | "n = 3" | "n = 4" using assms(1) by linarith
  then show ?thesis
  proof cases
    case 1
    then show ?thesis using assms(2) by (simp add: decode_tail_def mem_write_Cons)
  next
    case 2
    then show ?thesis using assms(2) by (simp add: decode_tail_def mem_write_Cons mem_read_def)
  next
    case 3
    then have xs: "xs = [six (m p), six (m (p + 1))]" using assms(2) by (simp add: mem_read_def upt_conv_Cons)
    then show ?thesis using 3 by (simp add: decode_tail_def mem_write_Cons dec0_def)
  next
    case 4
    then have xs: "xs = [six (m p), six (m (p + 1)), six (m (p + 2))]"
      using assms(2) by (simp add: mem_read_def upt_conv_Cons)
    have "p + 1 \<noteq> out" "p + 2 \<noteq> out" using assms(3) 4 unfolding xs by (auto simp: disjnt_blk_def)
    then show ?thesis using 4 unfolding xs
      by (simp add: decode_tail_def mem_write_Cons dec_upd) (simp add: dec0_def dec1_def)
  next
    case 5
    then have xs: "xs = [six (m p), six (m (p + 1)), six (m (p + 2)), six (m (p + 3))]"
      using assms(2) by (simp add: mem_read_def upt_conv_Cons addr_Suc)
    have "p + 1 \<noteq> out" "p + 2 \<noteq> out" "p + 3 \<noteq> out" "p + 2 \<noteq> out + 1" "p + 3 \<noteq> out + 1"
      using assms(3) 5 unfolding xs by (auto simp: disjnt_blk_def)
    then show ?thesis using 5 unfolding xs
      by (simp add: decode_tail_def mem_write_Cons dec_upd) (simp add: dec0_def dec1_def dec2_def)
  qed
qed

lemma decode_loop_step:
  assumes "n > 4" "p + 1 \<noteq> q" "p + 2 \<noteq> q" "p + 3 \<noteq> q" "p + 2 \<noteq> q + 1" "p + 3 \<noteq> q + 1"
  shows "decode_loop m q p n =
    decode_loop (m(q := dec0 m p, q + 1 := dec1 m p, q + 2 := dec2 m p)) (q + 3) (p + 4) (n - 4)"
  unfolding decode_loop.simps [of m q p n] if_P [OF assms(1)] Let_def
  using assms(2-6) by (simp add: dec_upd)

lemma decode_from:
  assumes "xs = map six (mem_read m p n)" "disjnt_blk p n out (length (octets xs) + 1)"
  shows "(case decode_loop m out p (int n) of (m1, q, r, rest) \<Rightarrow> (decode_tail m1 q r rest, rest)) =
    (mem_write m out (octets xs @ [0]), int (if n = 0 then 0 else (n - 1) mod 4 + 1))"
  using assms
proof (induction n arbitrary: m p out xs rule: less_induct)
  case (less n)
  show ?case
  proof (cases "n \<le> 4")
    case True
    then have lp: "decode_loop m out p (int n) = (m, out, p, int n)" by (subst decode_loop.simps) simp
    show ?thesis unfolding lp using decode_tail_writes [OF True less.prems] True by auto
  next
    case False
    define k where "k = n - 4"
    have n: "n = k + 4" "k < n" "k \<noteq> 0" using False by (simp_all add: k_def)
    define a b c d where "a = six (m p)" and "b = six (m (p + 1))" and "c = six (m (p + 2))" and "d = six (m (p + 3))"
    define ys where "ys = map six (mem_read m (p + 4) k)"
    have xs: "xs = a # b # c # d # ys"
      unfolding less.prems(1) n(1) ys_def a_def b_def c_def d_def
      by (simp add: addr_Suc mem_read_Suc)
    define L where "L = length (octets ys) + 1"
    have dj: "disjnt_blk p (k + 4) out (L + 3)" using less.prems(2) unfolding xs n(1) L_def disjnt_blk_def by auto
    define m3 where "m3 = m(out := dec0 m p, out + 1 := dec1 m p, out + 2 := dec2 m p)"
    have "decode_loop m out p (int n) = decode_loop m3 (out + 3) (p + 4) (int n - 4)"
      unfolding m3_def by (rule decode_loop_step) (use dj n in \<open>auto simp: disjnt_blk_def\<close>)
    moreover have "int n - 4 = int k" using n by simp
    ultimately have unf: "decode_loop m out p (int n) = decode_loop m3 (out + 3) (p + 4) (int k)" by simp
    have "mem_read m3 (p + 4) k = mem_read m (p + 4) k"
      by (rule mem_read_cong) (use dj in \<open>auto simp: m3_def disjnt_blk_def\<close>)
    then have y: "ys = map six (mem_read m3 (p + 4) k)" by (simp add: ys_def)
    have "disjnt_blk (p + 4) k (out + 3) (length (octets ys) + 1)" using dj by (auto simp: disjnt_blk_def L_def)
    from less.IH [OF n(2) y this]
    have ih: "(case decode_loop m3 (out + 3) (p + 4) (int k) of (m1, q, r, rest) \<Rightarrow> (decode_tail m1 q r rest, rest)) =
      (mem_write m3 (out + 3) (octets ys @ [0]), int (if k = 0 then 0 else (k - 1) mod 4 + 1))" .
    have "(n - 1) mod 4 = (k - 1) mod 4" using n by (metis add.commute diff_add_assoc gr0I less_one linorder_not_le mod_add_self2)
    moreover have "mem_write m3 (out + 3) (octets ys @ [0]) = mem_write m out (octets xs @ [0])"
      by (simp add: xs m3_def mem_write_Cons addr_Suc dec0_def dec1_def dec2_def a_def b_def c_def d_def)
    ultimately show ?thesis unfolding unf ih using n by simp
  qed
qed

lemma u8_eqI:
  fixes x y :: u8
  assumes "bit x 0 = bit y 0" "bit x 1 = bit y 1" "bit x 2 = bit y 2" "bit x 3 = bit y 3"
    "bit x 4 = bit y 4" "bit x 5 = bit y 5" "bit x 6 = bit y 6" "bit x 7 = bit y 7"
  shows "x = y"
proof (rule bit_word_eqI)
  fix n assume "n < LENGTH(8)"
  then have "n = 0 \<or> n = 1 \<or> n = 2 \<or> n = 3 \<or> n = 4 \<or> n = 5 \<or> n = 6 \<or> n = 7" by simp linarith
  then show "bit x n = bit y n" using assms by auto
qed

lemma sextet_bits:
  fixes a b c :: u8
  shows "push_bit 2 (drop_bit 2 a) OR drop_bit 4 (push_bit 4 (take_bit 2 a) OR drop_bit 4 b) = a"
    "push_bit 2 (drop_bit 2 a) OR drop_bit 4 (push_bit 4 (take_bit 2 a)) = a"
    "push_bit 4 (push_bit 4 (take_bit 2 a) OR drop_bit 4 b) OR drop_bit 2 (push_bit 2 (take_bit 4 b) OR drop_bit 6 c) = b"
    "push_bit 4 (push_bit 4 (take_bit 2 a) OR drop_bit 4 b) OR drop_bit 2 (push_bit 2 (take_bit 4 b)) = b"
    "push_bit 6 (push_bit 2 (take_bit 4 b) OR drop_bit 6 c) OR take_bit 6 c = c"
  by (rule u8_eqI; simp add: bit_simps)+

lemma octets_sextets: "octets (sextets xs) = xs"
  by (induction xs rule: sextets.induct) (simp_all only: sextets.simps octets.simps sextet_bits)

lemma u8_lt64_iff: "(v :: u8) < 64 \<longleftrightarrow> take_bit 6 v = v"
proof -
  have "v < 64 \<longleftrightarrow> take_bit 6 (unat v) = unat v" by (simp add: word_less_nat_alt take_bit_nat_eq_self_iff)
  then show ?thesis by (metis unsigned_take_bit_eq unsigned_word_eqI)
qed

lemma sextet_small:
  fixes a b :: u8
  shows "drop_bit 2 a < 64" "push_bit 4 (take_bit 2 a) < (64 :: u8)" "push_bit 2 (take_bit 4 a) < (64 :: u8)"
    "push_bit 4 (take_bit 2 a) OR drop_bit 4 b < 64" "push_bit 2 (take_bit 4 a) OR drop_bit 6 b < 64"
    "take_bit 6 a < 64"
  unfolding u8_lt64_iff by (rule u8_eqI; auto simp: bit_simps dest: bit_imp_le_length)+

lemma sextets_small: "\<forall>v \<in> set (sextets xs). v < 64"
  by (induction xs rule: sextets.induct) (simp_all only: sextets.simps list.set ball_simps sextet_small simp_thms)

lemma six_letters: "map six (map letter (sextets xs)) = sextets xs"
  using sextets_small [of xs] by (simp add: map_idI six_letter)

lemma Base64decode_writes:
  assumes "\<forall>i < n. six (m (p + i)) \<le> 63" "\<not> six (m (p + n)) \<le> 63"
    "xs = map six (mem_read m p n)" "disjnt_blk p n out (length (octets xs) + 1)"
  shows "Base64decode m out p = Some (mem_write m out (octets xs @ [0]), int (length (octets xs)))"
proof -
  define r where "r = (if n = 0 then 0 else (n - 1) mod 4 + 1)"
  have np: "int (p + n + 1) - int p - 1 = int n" by simp
  have "(case decode_loop m out p (int n) of (m1, q, r, rest) \<Rightarrow> (decode_tail m1 q r rest, rest)) =
      (mem_write m out (octets xs @ [0]), int r)"
    using decode_from [OF assms(3,4)] by (simp add: r_def)
  then have "Base64decode m out p =
      Some (mem_write m out (octets xs @ [0]), (int n + 3) div 4 * 3 - ((4 - int r) AND 3))"
    unfolding Base64decode_def pr_scan_stops [OF assms(1,2)] np by (auto simp: np split: prod.splits)
  moreover have "(int n + 3) div 4 * 3 - ((4 - int r) AND 3) = int (length (octets xs))"
  proof -
    have len: "length (octets xs) = 3 * n div 4" using assms(3) by (simp add: length_octets)
    define q j where "q = n div 4" and "j = n mod 4"
    have n: "n = 4 * q + j" "j < 4" by (simp_all add: q_def j_def)
    then consider "j = 0" "q = 0" | "j = 0" "q \<noteq> 0" | "j = 1" | "j = 2" | "j = 3" by linarith
    then show ?thesis
    proof cases
      case 2
      then have "(n - 1) mod 4 = 3" using n(1) by (cases q) simp_all
      then show ?thesis using n(1) 2 unfolding len r_def by simp
    next
      case 5
      then have "n - 1 = 2 + q * 4" "3 * n = 1 + (3 * q + 2) * 4" using n(1) by simp_all
      then have "(n - 1) mod 4 = 2" "3 * n div 4 = 3 * q + 2" by (simp_all only: mod_mult_self1 div_mult_self1) simp_all
      then show ?thesis using n(1) 5 unfolding len r_def by simp
    qed (use n(1) in \<open>simp_all add: len r_def\<close>)
  qed
  ultimately show ?thesis by simp
qed

section \<open>Properties\<close>

text \<open>
  C17. Base64 round trip: encoding \<open>n\<close> bytes writes exactly \<^verbatim>\<open>Base64encode_len\<close> bytes (returned as the
  length, with the terminator), and decoding that text returns \<open>n\<close> and restores the \<open>n\<close> bytes followed
  by a terminator, for every \<open>n\<close> and every content, when the three buffers do not overlap.
\<close>

theorem base64_roundtrip:
  assumes "disjnt_blk str n enc (nat (Base64encode_len (int n)))" "disjnt_blk enc (nat (Base64encode_len (int n))) out (n + 1)"
  shows "\<exists>m1. Base64encode m enc str (int n) = (m1, Base64encode_len (int n)) \<and>
    same_outside m m1 enc (nat (Base64encode_len (int n))) \<and>
    Base64decode m1 out enc = Some (mem_write m1 out (mem_read m str n @ [0]), int n)"
proof -
  define xs where "xs = mem_read m str n"
  define ss where "ss = sextets xs"
  define cs where "cs = map letter ss"
  define m1 where "m1 = mem_write m enc (b64 xs @ [0])"
  have L: "nat (Base64encode_len (int n)) = length (b64 xs @ [0])"
    unfolding Base64encode_len_b64 [of n m str] nat_int by (simp add: xs_def)
  have e: "Base64encode m enc str (int n) = (m1, Base64encode_len (int n))"
    unfolding m1_def xs_def by (rule Base64encode_writes [OF assms(1)])
  have bx: "b64 xs = cs @ replicate ((3 - length xs mod 3) mod 3) PAD" by (simp add: b64_def cs_def ss_def)
  have at: "m1 (enc + i) = (b64 xs @ [0]) ! i" if "i < length (b64 xs @ [0])" for i
    unfolding m1_def using that by (rule mem_write_apply_in)
  have rd: "mem_read m1 enc (length cs) = cs"
    by (rule nth_equalityI) (auto simp: at bx nth_append)
  have "six (cs ! i) \<le> 63" if "i < length cs" for i
  proof -
    have "ss ! i < 64" using sextets_small [of xs] that by (simp add: ss_def cs_def)
    moreover have "six (cs ! i) = ss ! i" using six_letter [OF calculation] that by (simp add: cs_def)
    ultimately show ?thesis by (simp add: word_less_nat_alt word_le_nat_alt)
  qed
  then have c1: "\<forall>i < length cs. six (m1 (enc + i)) \<le> 63" by (auto simp: at bx nth_append)
  have "m1 (enc + length cs) = PAD \<or> m1 (enc + length cs) = 0"
    by (auto simp: at bx nth_append nth_Cons split: nat.splits)
  moreover have "\<not> six PAD \<le> 63" "\<not> six 0 \<le> 63" by (simp_all add: pr2six_def)
  ultimately have c2: "\<not> six (m1 (enc + length cs)) \<le> 63" by auto
  have c3: "ss = map six (mem_read m1 enc (length cs))"
    unfolding rd unfolding cs_def ss_def by (rule six_letters [symmetric])
  have oc: "octets ss = xs" by (simp add: ss_def octets_sextets)
  have "disjnt_blk enc (length cs) out (length (octets ss) + 1)"
  proof -
    have "length cs \<le> length (b64 xs)" by (simp add: bx)
    moreover have "length xs = n" by (simp add: xs_def)
    ultimately show ?thesis using assms(2) unfolding L oc by (auto simp: disjnt_blk_def)
  qed
  from Base64decode_writes [OF c1 c2 c3 this]
  have "Base64decode m1 out enc = Some (mem_write m1 out (xs @ [0]), int n)" unfolding oc by (simp add: xs_def)
  moreover have "same_outside m m1 enc (nat (Base64encode_len (int n)))"
    unfolding L m1_def by (rule same_outside_write) simp_all
  ultimately show ?thesis using e unfolding xs_def by blast
qed

theorem base64_roundtrip_witness:
  "\<exists>m1. Base64encode (\<lambda>_. 77) 20 10 4 = (m1, 9) \<and> same_outside (\<lambda>_. 77) m1 20 9 \<and>
    Base64decode m1 40 20 = Some (mem_write m1 40 (mem_read (\<lambda>_. 77) 10 4 @ [0]), 4)"
  using base64_roundtrip [of 10 4 20 40 "\<lambda>_. 77"]
  by (simp add: Base64encode_len_def disjnt_blk_def)

text \<open>
  \<^verbatim>\<open>Base64decode\<close> never overruns the buffer \<^verbatim>\<open>Base64decode_len\<close> asks for, on any text that ends in a
  character outside the alphabet, well-formed or not: both return, the decoder writes only inside that
  many bytes, and the count it returns plus the terminator fits too.
\<close>

theorem Base64decode_within_len:
  assumes "\<forall>i < n. six (m (p + i)) \<le> 63" "\<not> six (m (p + n)) \<le> 63"
    "L = ((n + 3) div 4) * 3 + 1" "disjnt_blk p n out L"
  shows "Base64decode_len m p = Some (int L) \<and>
    (\<exists>m' k. Base64decode m out p = Some (m', int k) \<and> k < L \<and> same_outside m m' out L)"
proof -
  define xs where "xs = map six (mem_read m p n)"
  have len: "length (octets xs) = 3 * n div 4" by (simp add: xs_def length_octets)
  then have lt: "length (octets xs) + 1 \<le> L" using assms(3) by presburger
  then have "disjnt_blk p n out (length (octets xs) + 1)" using assms(4) by (auto simp: disjnt_blk_def)
  then have "Base64decode m out p = Some (mem_write m out (octets xs @ [0]), int (length (octets xs)))"
    by (rule Base64decode_writes [OF assms(1,2) xs_def])
  moreover have "same_outside m (mem_write m out (octets xs @ [0])) out L"
    by (rule same_outside_write) (use lt in simp_all)
  moreover have "Base64decode_len m p = Some (int L)"
    unfolding Base64decode_len_def pr_scan_stops [OF assms(1,2)] using assms(3) by (simp add: zdiv_int)
  ultimately show ?thesis using lt by auto
qed

theorem Base64decode_within_len_witness:
  "Base64decode_len ((\<lambda>_. 65)(13 := 0)) 10 = Some 4 \<and>
    (\<exists>m' k. Base64decode ((\<lambda>_. 65)(13 := 0)) 40 10 = Some (m', int k) \<and> k < 4 \<and>
       same_outside ((\<lambda>_. 65)(13 := 0)) m' 40 4)"
proof -
  define m where "m = ((\<lambda>_. 65)(13 := 0) :: mem)"
  have "\<forall>i < 3. six (m (10 + i)) \<le> 63" "\<not> six (m (10 + 3)) \<le> 63" by (simp_all add: m_def pr2six_def)
  from Base64decode_within_len [OF this, of 4 40] show ?thesis
    unfolding m_def [symmetric] by (simp add: disjnt_blk_def)
qed

end
