(* ===== verification/Bitwise_Utils.thy ===== *)
theory Bitwise_Utils
  imports Esp_Prelude
begin

text \<open>
  The bit utilities of \<^verbatim>\<open>app_common/util/bitwise_utils.c\<close>: the position and the value of the highest bit, the
  number of bits, and the two byte orders.
\<close>

section \<open>Model\<close>

lemma and_pred_less:
  fixes v :: u32
  assumes "v \<noteq> 0"
  shows "unat (v AND (v - 1)) < unat v"
proof -
  have "v AND (v - 1) \<le> v - 1" by (rule word_and_le1)
  then have "unat (v AND (v - 1)) \<le> unat v - 1" using assms by (simp add: word_le_nat_alt unat_minus_one)
  then show ?thesis using assms unat_eq_zero [of v] by linarith
qed

function hibit8_loop :: "u8 \<Rightarrow> u8 \<Rightarrow> u8" where
  "hibit8_loop v out = (let v1 = drop_bit 1 v in if v1 \<noteq> 0 then hibit8_loop v1 (out + 1) else out)"
  by auto

termination
proof (relation "measure (\<lambda>(v, out). unat v)", goal_cases)
  case 1
  then show ?case by simp
next
  case (2 v out v1)
  then have "unat v div 2 \<noteq> 0" by (simp add: drop_bit_eq_div unat_div flip: unat_eq_zero)
  then show ?case using 2 by (simp add: drop_bit_eq_div unat_div)
qed

definition hibit8 :: "u8 \<Rightarrow> u8" where
  "hibit8 v = hibit8_loop v 0"

definition hibit32 :: "u32 \<Rightarrow> u32" where
  "hibit32 n =
     (let n1 = n OR drop_bit 1 n; n2 = n1 OR drop_bit 2 n1; n3 = n2 OR drop_bit 4 n2; n4 = n3 OR drop_bit 8 n3;
          n5 = n4 OR drop_bit 16 n4
      in n5 - drop_bit 1 n5)"

function bits_loop :: "u32 \<Rightarrow> u32 \<Rightarrow> u32" where
  "bits_loop c v = (if v \<noteq> 0 then bits_loop (c + 1) (v AND (v - 1)) else c)"
  by auto

termination by (relation "measure (\<lambda>(c, v). unat v)") (auto simp: and_pred_less)

definition totalBitsSet32 :: "u32 \<Rightarrow> u32" where
  "totalBitsSet32 v = bits_loop 0 v"

declare hibit8_loop.simps [simp del] bits_loop.simps [simp del]

definition bigEndianULong :: "u8 list \<Rightarrow> int \<Rightarrow> u32" where
  "bigEndianULong buf len =
     fold (\<lambda>i n. n OR push_bit (24 - i * 8) (ucast (buf ! i))) [0..<nat (min len 4)] 0"

definition littleEndianULong :: "u8 list \<Rightarrow> int \<Rightarrow> u32" where
  "littleEndianULong buf len =
     fold (\<lambda>i n. n OR push_bit (i * 8) (ucast (buf ! i))) [0..<nat (min len 4)] 0"

section \<open>Number of bits\<close>

lemma and_pred_lowest:
  fixes v :: u32
  assumes "v \<noteq> 0"
  obtains l where "l < 32" "bit v l" "\<And>j. bit (v AND (v - 1)) j \<longleftrightarrow> bit v j \<and> j \<noteq> l"
proof -
  define l where "l = (LEAST i. bit v i)"
  obtain i where "bit v i" using assms by (auto simp: bit_eq_iff)
  then have l: "bit v l" "\<And>j. j < l \<Longrightarrow> \<not> bit v j" unfolding l_def by (auto intro: LeastI dest: not_less_Least)
  then have l32: "l < 32" using bit_imp_possible_bit [OF l(1)] by simp
  define h where "h = v XOR 2 ^ l"
  have hb: "bit h j \<longleftrightarrow> bit v j \<and> j \<noteq> l" for j using l l32 by (auto simp: h_def bit_simps)
  have "h OR 2 ^ l = v" by (rule bit_word_eqI) (use hb l in \<open>auto simp: bit_simps\<close>)
  moreover have "h + 2 ^ l = h OR 2 ^ l" by (rule disjunctive_add) (use hb in \<open>auto simp: bit_simps\<close>)
  ultimately have "v = h + 2 ^ l" by simp
  then have "v - 1 = h + (2 ^ l - 1)" by simp
  also have "\<dots> = h + mask l" by (simp add: mask_eq_exp_minus_1)
  also have "\<dots> = h OR mask l" using hb l by (subst disjunctive_add) (auto simp: bit_simps)
  finally have "v - 1 = h OR mask l" .
  then have "bit (v AND (v - 1)) j \<longleftrightarrow> bit v j \<and> j \<noteq> l" for j using hb l by (auto simp: bit_simps)
  then show thesis using that l(1) l32 by blast
qed

lemma bits_loop_card: "bits_loop c v = c + of_nat (card {i. bit v i})"
proof (induction c v rule: bits_loop.induct)
  case (1 c v)
  show ?case
  proof (cases "v = 0")
    case True
    have "{i. bit (0 :: u32) i} = {}" by simp
    then have "card {i. bit v i} = 0" by (simp only: True card.empty)
    moreover have "bits_loop c v = c" using True by (subst bits_loop.simps) simp
    ultimately show ?thesis by simp
  next
    case False
    obtain l where l: "bit v l" "\<And>j. bit (v AND (v - 1)) j \<longleftrightarrow> bit v j \<and> j \<noteq> l" using and_pred_lowest [OF False] by metis
    have sub: "{i. bit (v AND (v - 1)) i} = {i. bit v i} - {l}" using l(2) by blast
    have fin: "finite {i. bit v i}" by (rule finite_subset [of _ "{..<32}"]) (auto dest: bit_imp_le_length)
    have "card {i. bit v i} = Suc (card {i. bit (v AND (v - 1)) i})"
      unfolding sub by (rule card_Suc_Diff1 [OF fin, symmetric]) (use l(1) in blast)
    moreover have "bits_loop c v = bits_loop (c + 1) (v AND (v - 1))"
      using False by (subst bits_loop.simps) (simp only: simp_thms if_True)
    ultimately show ?thesis using 1 [OF False] by (simp only: of_nat_Suc add.assoc)
  qed
qed

section \<open>Highest bit\<close>

lemma smear:
  fixes a n :: u32
  assumes "\<And>j. bit a j \<longleftrightarrow> (\<exists>i<k. bit n (j + i))"
  shows "bit (a OR drop_bit k a) j \<longleftrightarrow> (\<exists>i<k + k. bit n (j + i))"
proof -
  have "bit (a OR drop_bit k a) j \<longleftrightarrow> (\<exists>i<k. bit n (j + i)) \<or> (\<exists>i<k. bit n (j + (k + i)))"
    using assms by (simp add: bit_simps ac_simps)
  also have "\<dots> \<longleftrightarrow> (\<exists>i<k + k. bit n (j + i))"
  proof
    assume "\<exists>i<k + k. bit n (j + i)"
    then obtain i where "i < k + k" "bit n (j + i)" by blast
    then show "(\<exists>i<k. bit n (j + i)) \<or> (\<exists>i<k. bit n (j + (k + i)))"
      by (cases "i < k") (auto intro: exI [of _ "i - k"])
  next
    assume "(\<exists>i<k. bit n (j + i)) \<or> (\<exists>i<k. bit n (j + (k + i)))"
    then show "\<exists>i<k + k. bit n (j + i)" using add_strict_left_mono trans_less_add1 by blast
  qed
  finally show ?thesis .
qed

text \<open>\<open>hibit32\<close> answers exactly the value of the highest bit, and 0 for 0.\<close>

lemma hibit32_highest:
  assumes "bit n h" "\<And>j. h < j \<Longrightarrow> \<not> bit n j"
  shows "hibit32 n = 2 ^ h"
proof -
  define n1 where "n1 = n OR drop_bit 1 n"
  define n2 where "n2 = n1 OR drop_bit 2 n1"
  define n3 where "n3 = n2 OR drop_bit 4 n2"
  define n4 where "n4 = n3 OR drop_bit 8 n3"
  define n5 where "n5 = n4 OR drop_bit 16 n4"
  have b1: "bit n1 j \<longleftrightarrow> (\<exists>i<2. bit n (j + i))" for j unfolding n1_def using smear [of n 1 n j] by (simp add: numeral_2_eq_2)
  have b2: "bit n2 j \<longleftrightarrow> (\<exists>i<4. bit n (j + i))" for j unfolding n2_def using smear [OF b1, of j] by simp
  have b3: "bit n3 j \<longleftrightarrow> (\<exists>i<8. bit n (j + i))" for j unfolding n3_def using smear [OF b2, of j] by simp
  have b4: "bit n4 j \<longleftrightarrow> (\<exists>i<16. bit n (j + i))" for j unfolding n4_def using smear [OF b3, of j] by simp
  have b5: "bit n5 j \<longleftrightarrow> (\<exists>i<32. bit n (j + i))" for j unfolding n5_def using smear [OF b4, of j] by simp
  have h: "h < 32" using bit_imp_le_length [OF assms(1)] by simp
  have ex: "(\<exists>i<32. bit n (j + i)) \<longleftrightarrow> j \<le> h" for j
  proof
    assume "j \<le> h"
    then show "\<exists>i<32. bit n (j + i)" using assms(1) h by (intro exI [of _ "h - j"]) simp
  next
    assume "\<exists>i<32. bit n (j + i)"
    then show "j \<le> h" using assms(2) by (meson le_add1 le_less_trans not_le)
  qed
  have b: "bit n5 j \<longleftrightarrow> j \<le> h" for j using b5 ex by simp
  have m: "n5 = mask (Suc h)" by (rule bit_word_eqI) (auto simp: b bit_simps)
  have d: "drop_bit 1 n5 = mask h" by (rule bit_word_eqI) (auto simp: b bit_simps)
  have "hibit32 n = n5 - drop_bit 1 n5" 
    unfolding hibit32_def Let_def n5_def n4_def n3_def n2_def n1_def by (rule refl)
  also have "\<dots> = mask (Suc h) - mask h" using d by (simp only: m)
  also have "\<dots> = 2 ^ h" by (simp add: mask_eq_exp_minus_1)
  finally show ?thesis .
qed

lemma hibit8_loop_log:
  assumes "v \<noteq> 0"
  shows "\<exists>p. 2 ^ p \<le> unat v \<and> unat v < 2 ^ Suc p \<and> hibit8_loop v out = out + of_nat p"
  using assms
proof (induction v out rule: hibit8_loop.induct)
  case (1 v out)
  have d: "unat (drop_bit 1 v) = unat v div 2" by (simp add: drop_bit_eq_div unat_div)
  show ?case
  proof (cases "drop_bit 1 v = 0")
    case True
    then have "unat v div 2 = 0" using d by simp
    moreover have "unat v \<noteq> 0" using 1(2) by (simp add: unat_eq_zero)
    ultimately have "unat v = 1" by linarith
    moreover have "hibit8_loop v out = out" using True by (subst hibit8_loop.simps) (simp only: Let_def simp_thms if_False)
    ultimately show ?thesis by (intro exI [of _ 0]) simp
  next
    case False
    obtain p where p: "2 ^ p \<le> unat v div 2" "unat v div 2 < 2 ^ Suc p" "hibit8_loop (drop_bit 1 v) (out + 1) = out + 1 + of_nat p"
      using 1(1) [OF refl False False] d by auto
    moreover have "hibit8_loop v out = hibit8_loop (drop_bit 1 v) (out + 1)"
      using False by (subst hibit8_loop.simps) (simp only: Let_def simp_thms if_True)
    ultimately show ?thesis by (intro exI [of _ "Suc p"]) auto
  qed
qed

section \<open>Properties\<close>

lemma upt_4: "[0..<4] = [0, 1, 2, 3 :: nat]"
  by code_simp

text \<open>The byte orders: byte \<open>k\<close> of four is found again at its place of the number.\<close>

lemma endian_bytes:
  fixes x y z t :: u8
  shows "bigEndianULong [x, y, z, t] 4 = push_bit 24 (ucast x) OR push_bit 16 (ucast y) OR push_bit 8 (ucast z) OR ucast t"
    "littleEndianULong [t, z, y, x] 4 = bigEndianULong [x, y, z, t] 4"
  by (simp_all add: bigEndianULong_def littleEndianULong_def upt_4 ac_simps)

text \<open>
  The bit utilities compute what they are named after: \<open>totalBitsSet32\<close> the number of bits set (with one
  round of its loop per bit), \<open>hibit32\<close> the value of the highest bit set and \<open>hibit8\<close> its position, and the two
  conversions of four bytes agree on reversed arrays.
\<close>

theorem bitwise_utils_correct:
  "totalBitsSet32 v = of_nat (card {i. bit v i}) \<and>
   (bit v h \<and> (\<forall>j>h. \<not> bit v j) \<longrightarrow> hibit32 v = 2 ^ h) \<and>
   (w \<noteq> 0 \<longrightarrow> (\<exists>p. 2 ^ p \<le> unat w \<and> unat w < 2 ^ Suc p \<and> hibit8 w = of_nat p)) \<and>
   littleEndianULong [t, z, y, x] 4 = bigEndianULong [x, y, z, t] 4"
  using bits_loop_card [of 0 v] hibit32_highest [of v h] hibit8_loop_log [of w 0] endian_bytes(2) [of t z y x]
  by (simp add: totalBitsSet32_def hibit8_def)

end
