(* ===== verification/Hw_Timer.thy ===== *)
theory Hw_Timer
  imports Esp_Prelude
begin

text \<open>
  The hardware timer wrapper \<^verbatim>\<open>app_setup/driver/hw_timer.c\<close>. Register writes and interrupt switches are a
  trace; the SDK's clock frequency \<^verbatim>\<open>APB_CLK_FREQ\<close> is the parameter \<open>apb\<close>. The states are ordered as the
  C enumeration is, because the code compares them.
\<close>

section \<open>Model\<close>

datatype HW_TIMER_STATE_T = HW_TIMER_DISABLED | HW_TIMER_INIT | HW_TIMER_READY | HW_TIMER_ACTIVE | HW_TIMER_STOPPED

fun hw_code :: "HW_TIMER_STATE_T \<Rightarrow> nat" where
  "hw_code HW_TIMER_DISABLED = 0"
| "hw_code HW_TIMER_INIT = 1"
| "hw_code HW_TIMER_READY = 2"
| "hw_code HW_TIMER_ACTIVE = 3"
| "hw_code HW_TIMER_STOPPED = 4"

lemma hw_code_inj: "hw_code s = hw_code t \<longleftrightarrow> s = t"
  by (cases s; cases t) simp_all

instantiation HW_TIMER_STATE_T :: linorder
begin

definition less_eq_HW_TIMER_STATE_T :: "HW_TIMER_STATE_T \<Rightarrow> HW_TIMER_STATE_T \<Rightarrow> bool" where
  "less_eq_HW_TIMER_STATE_T s t \<longleftrightarrow> hw_code s \<le> hw_code t"

definition less_HW_TIMER_STATE_T :: "HW_TIMER_STATE_T \<Rightarrow> HW_TIMER_STATE_T \<Rightarrow> bool" where
  "less_HW_TIMER_STATE_T s t \<longleftrightarrow> hw_code s < hw_code t"

instance
  by standard (auto simp: less_eq_HW_TIMER_STATE_T_def less_HW_TIMER_STATE_T_def hw_code_inj [symmetric])

end

datatype FRC1_TIMER_SOURCE_TYPE = FRC1_SOURCE | NMI_SOURCE

datatype hw_ev = Frc1_ctrl u32 | Frc1_load u32 | Isr_attach FRC1_TIMER_SOURCE_TYPE | Edge_int bool | Frc1_intr bool

record hw_timer =
  hw_timer_state :: HW_TIMER_STATE_T
  autoload_en :: bool
  user_hw_timer_cb :: "nat option"
  callback_arg :: u32
  hw_log :: "hw_ev list"

abbreviation (input) "FRC1_ENABLE_TIMER \<equiv> (0x80 :: u32)"
abbreviation (input) "FRC1_AUTO_LOAD \<equiv> (0x40 :: u32)"
abbreviation (input) "DIVIDED_BY_16 \<equiv> (4 :: u32)"
abbreviation (input) "TM_EDGE_INT \<equiv> (0 :: u32)"

definition hw_emit :: "hw_ev list \<Rightarrow> hw_timer \<Rightarrow> hw_timer" where
  "hw_emit es t = t\<lparr>hw_log := hw_log t @ es\<rparr>"

definition US_TO_RTC_TIMER_TICKS :: "u32 \<Rightarrow> u32 \<Rightarrow> u32" where
  "US_TO_RTC_TIMER_TICKS apb t =
     (if t \<noteq> 0 then
        if t > 0x35A then
          drop_bit 2 t * (drop_bit 4 apb div 250000) + (t AND 0x3) * (drop_bit 4 apb div 1000000)
        else (t * drop_bit 4 apb) div 1000000
      else 0)"

definition hw_timer_isr_cb :: "hw_timer \<Rightarrow> (nat \<times> u32) option" where
  "hw_timer_isr_cb t = (case user_hw_timer_cb t of None \<Rightarrow> None | Some f \<Rightarrow> Some (f, callback_arg t))"

definition hw_timer_arm_internal :: "u32 \<Rightarrow> u32 \<Rightarrow> bool \<Rightarrow> hw_timer \<Rightarrow> hw_timer" where
  "hw_timer_arm_internal apb val reEnable t =
     (let t1 = (if reEnable then
                  hw_emit [Frc1_ctrl (DIVIDED_BY_16 OR FRC1_ENABLE_TIMER OR TM_EDGE_INT),
                           Isr_attach FRC1_SOURCE, Edge_int True, Frc1_intr True] t
                else t)
      in hw_emit [Frc1_load (US_TO_RTC_TIMER_TICKS apb val)] t1)"

definition hw_timer_disarm_internal :: "hw_timer \<Rightarrow> hw_timer" where
  "hw_timer_disarm_internal t =
     hw_emit [Frc1_ctrl (DIVIDED_BY_16 OR TM_EDGE_INT), Edge_int False, Frc1_intr False] t"

definition hw_timer_disarm :: "hw_timer \<Rightarrow> hw_timer" where
  "hw_timer_disarm t =
     (if hw_timer_state t = HW_TIMER_ACTIVE
      then (hw_timer_disarm_internal t)\<lparr>hw_timer_state := HW_TIMER_STOPPED\<rparr> else t)"

definition hw_timer_arm :: "u32 \<Rightarrow> u32 \<Rightarrow> hw_timer \<Rightarrow> hw_timer \<times> bool" where
  "hw_timer_arm apb val t =
     (if hw_timer_state t \<ge> HW_TIMER_READY then
        ((hw_timer_arm_internal apb val (hw_timer_state t \<noteq> HW_TIMER_ACTIVE) t)\<lparr>hw_timer_state := HW_TIMER_ACTIVE\<rparr>, True)
      else (t, False))"

definition hw_timer_set_func :: "nat \<Rightarrow> hw_timer \<Rightarrow> hw_timer \<times> bool" where
  "hw_timer_set_func f t =
     (if hw_timer_state t < HW_TIMER_INIT then (t, False)
      else if hw_timer_state t = HW_TIMER_ACTIVE then (t, False)
      else (t\<lparr>hw_timer_state := HW_TIMER_READY, user_hw_timer_cb := Some f\<rparr>, True))"

definition hw_timer_init :: "FRC1_TIMER_SOURCE_TYPE \<Rightarrow> u8 \<Rightarrow> hw_timer \<Rightarrow> hw_timer" where
  "hw_timer_init source_type req t =
     (if hw_timer_state t \<noteq> HW_TIMER_DISABLED then t
      else
        let t1 = (if req = 1 then
                    hw_emit [Frc1_ctrl (FRC1_AUTO_LOAD OR DIVIDED_BY_16 OR FRC1_ENABLE_TIMER OR TM_EDGE_INT)]
                      (t\<lparr>autoload_en := True\<rparr>)
                  else
                    hw_emit [Frc1_ctrl (DIVIDED_BY_16 OR FRC1_ENABLE_TIMER OR TM_EDGE_INT)] (t\<lparr>autoload_en := False\<rparr>));
            t2 = hw_emit [Isr_attach (if source_type = NMI_SOURCE then NMI_SOURCE else FRC1_SOURCE)] t1
        in hw_emit [Edge_int True, Frc1_intr True] (t2\<lparr>hw_timer_state := HW_TIMER_INIT\<rparr>))"

section \<open>The state machine\<close>

text \<open>The timer can be armed once a callback is set, and stays so: neither arming nor disarming leaves this state.\<close>

definition hw_ready :: "hw_timer \<Rightarrow> bool" where
  "hw_ready t \<longleftrightarrow> hw_timer_state t \<ge> HW_TIMER_READY \<and> user_hw_timer_cb t \<noteq> None"

lemma hw_emit_fields [simp]:
  "hw_timer_state (hw_emit es t) = hw_timer_state t" "user_hw_timer_cb (hw_emit es t) = user_hw_timer_cb t"
  "callback_arg (hw_emit es t) = callback_arg t"
  by (simp_all add: hw_emit_def)

lemma hw_init_set_ready:
  assumes "hw_timer_state t = HW_TIMER_DISABLED"
  shows "hw_ready (fst (hw_timer_set_func f (hw_timer_init src req t)))"
    "user_hw_timer_cb (fst (hw_timer_set_func f (hw_timer_init src req t))) = Some f"
  using assms by (simp_all add: hw_timer_init_def hw_timer_set_func_def hw_ready_def Let_def
      less_HW_TIMER_STATE_T_def)

lemma hw_timer_arm_ready:
  assumes "hw_ready t"
  shows "snd (hw_timer_arm apb val t)" "hw_timer_state (fst (hw_timer_arm apb val t)) = HW_TIMER_ACTIVE"
    "hw_ready (fst (hw_timer_arm apb val t))"
    "user_hw_timer_cb (fst (hw_timer_arm apb val t)) = user_hw_timer_cb t"
  using assms by (simp_all add: hw_timer_arm_def hw_timer_arm_internal_def hw_ready_def Let_def less_eq_HW_TIMER_STATE_T_def)

lemma hw_timer_disarm_ready: "hw_ready t \<Longrightarrow> hw_ready (hw_timer_disarm t)"
  by (simp add: hw_timer_disarm_def hw_timer_disarm_internal_def hw_ready_def less_eq_HW_TIMER_STATE_T_def)

end
