(* ===== verification/Crc.thy ===== *)
theory Crc
  imports Esp_Prelude
begin

text \<open>
  The checksums of \<^verbatim>\<open>app_common/util/crc.c\<close>: table-driven CRC-32 and Dallas CRC-8, bitwise CRC-16 and
  CRC-8. The reference is one shift-register step \<open>lfsr_step\<close>, linear and injective; the two tables are
  proved to be eight steps of it.
\<close>

section \<open>Model\<close>

definition crcTable :: "u32 list" where
  "crcTable = [
   0x00000000, 0x77073096, 0xEE0E612C, 0x990951BA, 0x076DC419, 0x706AF48F, 0xE963A535, 0x9E6495A3,
   0x0EDB8832, 0x79DCB8A4, 0xE0D5E91E, 0x97D2D988, 0x09B64C2B, 0x7EB17CBD, 0xE7B82D07, 0x90BF1D91,
   0x1DB71064, 0x6AB020F2, 0xF3B97148, 0x84BE41DE, 0x1ADAD47D, 0x6DDDE4EB, 0xF4D4B551, 0x83D385C7,
   0x136C9856, 0x646BA8C0, 0xFD62F97A, 0x8A65C9EC, 0x14015C4F, 0x63066CD9, 0xFA0F3D63, 0x8D080DF5,
   0x3B6E20C8, 0x4C69105E, 0xD56041E4, 0xA2677172, 0x3C03E4D1, 0x4B04D447, 0xD20D85FD, 0xA50AB56B,
   0x35B5A8FA, 0x42B2986C, 0xDBBBC9D6, 0xACBCF940, 0x32D86CE3, 0x45DF5C75, 0xDCD60DCF, 0xABD13D59,
   0x26D930AC, 0x51DE003A, 0xC8D75180, 0xBFD06116, 0x21B4F4B5, 0x56B3C423, 0xCFBA9599, 0xB8BDA50F,
   0x2802B89E, 0x5F058808, 0xC60CD9B2, 0xB10BE924, 0x2F6F7C87, 0x58684C11, 0xC1611DAB, 0xB6662D3D,
   0x76DC4190, 0x01DB7106, 0x98D220BC, 0xEFD5102A, 0x71B18589, 0x06B6B51F, 0x9FBFE4A5, 0xE8B8D433,
   0x7807C9A2, 0x0F00F934, 0x9609A88E, 0xE10E9818, 0x7F6A0DBB, 0x086D3D2D, 0x91646C97, 0xE6635C01,
   0x6B6B51F4, 0x1C6C6162, 0x856530D8, 0xF262004E, 0x6C0695ED, 0x1B01A57B, 0x8208F4C1, 0xF50FC457,
   0x65B0D9C6, 0x12B7E950, 0x8BBEB8EA, 0xFCB9887C, 0x62DD1DDF, 0x15DA2D49, 0x8CD37CF3, 0xFBD44C65,
   0x4DB26158, 0x3AB551CE, 0xA3BC0074, 0xD4BB30E2, 0x4ADFA541, 0x3DD895D7, 0xA4D1C46D, 0xD3D6F4FB,
   0x4369E96A, 0x346ED9FC, 0xAD678846, 0xDA60B8D0, 0x44042D73, 0x33031DE5, 0xAA0A4C5F, 0xDD0D7CC9,
   0x5005713C, 0x270241AA, 0xBE0B1010, 0xC90C2086, 0x5768B525, 0x206F85B3, 0xB966D409, 0xCE61E49F,
   0x5EDEF90E, 0x29D9C998, 0xB0D09822, 0xC7D7A8B4, 0x59B33D17, 0x2EB40D81, 0xB7BD5C3B, 0xC0BA6CAD,
   0xEDB88320, 0x9ABFB3B6, 0x03B6E20C, 0x74B1D29A, 0xEAD54739, 0x9DD277AF, 0x04DB2615, 0x73DC1683,
   0xE3630B12, 0x94643B84, 0x0D6D6A3E, 0x7A6A5AA8, 0xE40ECF0B, 0x9309FF9D, 0x0A00AE27, 0x7D079EB1,
   0xF00F9344, 0x8708A3D2, 0x1E01F268, 0x6906C2FE, 0xF762575D, 0x806567CB, 0x196C3671, 0x6E6B06E7,
   0xFED41B76, 0x89D32BE0, 0x10DA7A5A, 0x67DD4ACC, 0xF9B9DF6F, 0x8EBEEFF9, 0x17B7BE43, 0x60B08ED5,
   0xD6D6A3E8, 0xA1D1937E, 0x38D8C2C4, 0x4FDFF252, 0xD1BB67F1, 0xA6BC5767, 0x3FB506DD, 0x48B2364B,
   0xD80D2BDA, 0xAF0A1B4C, 0x36034AF6, 0x41047A60, 0xDF60EFC3, 0xA867DF55, 0x316E8EEF, 0x4669BE79,
   0xCB61B38C, 0xBC66831A, 0x256FD2A0, 0x5268E236, 0xCC0C7795, 0xBB0B4703, 0x220216B9, 0x5505262F,
   0xC5BA3BBE, 0xB2BD0B28, 0x2BB45A92, 0x5CB36A04, 0xC2D7FFA7, 0xB5D0CF31, 0x2CD99E8B, 0x5BDEAE1D,
   0x9B64C2B0, 0xEC63F226, 0x756AA39C, 0x026D930A, 0x9C0906A9, 0xEB0E363F, 0x72076785, 0x05005713,
   0x95BF4A82, 0xE2B87A14, 0x7BB12BAE, 0x0CB61B38, 0x92D28E9B, 0xE5D5BE0D, 0x7CDCEFB7, 0x0BDBDF21,
   0x86D3D2D4, 0xF1D4E242, 0x68DDB3F8, 0x1FDA836E, 0x81BE16CD, 0xF6B9265B, 0x6FB077E1, 0x18B74777,
   0x88085AE6, 0xFF0F6A70, 0x66063BCA, 0x11010B5C, 0x8F659EFF, 0xF862AE69, 0x616BFFD3, 0x166CCF45,
   0xA00AE278, 0xD70DD2EE, 0x4E048354, 0x3903B3C2, 0xA7672661, 0xD06016F7, 0x4969474D, 0x3E6E77DB,
   0xAED16A4A, 0xD9D65ADC, 0x40DF0B66, 0x37D83BF0, 0xA9BCAE53, 0xDEBB9EC5, 0x47B2CF7F, 0x30B5FFE9,
   0xBDBDF21C, 0xCABAC28A, 0x53B39330, 0x24B4A3A6, 0xBAD03605, 0xCDD70693, 0x54DE5729, 0x23D967BF,
   0xB3667A2E, 0xC4614AB8, 0x5D681B02, 0x2A6F2B94, 0xB40BBE37, 0xC30C8EA1, 0x5A05DF1B, 0x2D02EF8D]"

fun crc32_loop :: "mem \<Rightarrow> addr \<Rightarrow> nat \<Rightarrow> u32 \<Rightarrow> u32" where
  "crc32_loop m byteBuf 0 crc32 = crc32"
| "crc32_loop m byteBuf (Suc n) crc32 =
     crc32_loop m (byteBuf + 1) n
       (drop_bit 8 crc32 XOR crcTable ! unat ((crc32 XOR ucast (m byteBuf)) AND 0xFF))"

definition Crc32_ComputeBuf :: "u32 \<Rightarrow> mem \<Rightarrow> addr \<Rightarrow> u32 \<Rightarrow> u32" where
  "Crc32_ComputeBuf inCrc32 m buf bufLen =
     crc32_loop m buf (unat bufLen) (inCrc32 XOR 0xFFFFFFFF) XOR 0xFFFFFFFF"

definition crc16_bit :: "u16 \<Rightarrow> u16" where
  "crc16_bit crc = (if crc AND 1 \<noteq> 0 then drop_bit 1 crc XOR 0xA001 else drop_bit 1 crc)"

definition Crc16_update8 :: "u16 \<Rightarrow> u8 \<Rightarrow> u16" where
  "Crc16_update8 crc a = (crc16_bit ^^ 8) (crc XOR ucast a)"

fun crc16_loop :: "mem \<Rightarrow> addr \<Rightarrow> nat \<Rightarrow> u16 \<Rightarrow> u16" where
  "crc16_loop m buf 0 crc = crc"
| "crc16_loop m buf (Suc n) crc = crc16_loop m (buf + 1) n (Crc16_update8 crc (m buf))"

definition Crc16_ComputeBuf :: "u16 \<Rightarrow> mem \<Rightarrow> addr \<Rightarrow> u16 \<Rightarrow> u16" where
  "Crc16_ComputeBuf inCrc16 m buf bufLen = crc16_loop m buf (unat bufLen) inCrc16"

definition crc8_bit :: "u8 \<Rightarrow> u8" where
  "crc8_bit crc = (if crc AND 0x01 \<noteq> 0 then drop_bit 1 crc XOR 0x8C else drop_bit 1 crc)"

fun crc8_loop :: "mem \<Rightarrow> addr \<Rightarrow> nat \<Rightarrow> u8 \<Rightarrow> u8" where
  "crc8_loop m buf 0 crc = crc"
| "crc8_loop m buf (Suc n) crc = crc8_loop m (buf + 1) n ((crc8_bit ^^ 8) (crc XOR m buf))"

definition Crc8_ComputeBuf :: "u8 \<Rightarrow> mem \<Rightarrow> addr \<Rightarrow> u16 \<Rightarrow> u8" where
  "Crc8_ComputeBuf inCrc8 m buf len = crc8_loop m buf (unat len) inCrc8"

definition dscrc_table :: "u8 list" where
  "dscrc_table = [
   0, 94, 188, 226, 97, 63, 221, 131, 194, 156, 126, 32, 163, 253, 31, 65,
   157, 195, 33, 127, 252, 162, 64, 30, 95, 1, 227, 189, 62, 96, 130, 220,
   35, 125, 159, 193, 66, 28, 254, 160, 225, 191, 93, 3, 128, 222, 60, 98,
   190, 224, 2, 92, 223, 129, 99, 61, 124, 34, 192, 158, 29, 67, 161, 255,
   70, 24, 250, 164, 39, 121, 155, 197, 132, 218, 56, 102, 229, 187, 89, 7,
   219, 133, 103, 57, 186, 228, 6, 88, 25, 71, 165, 251, 120, 38, 196, 154,
   101, 59, 217, 135, 4, 90, 184, 230, 167, 249, 27, 69, 198, 152, 122, 36,
   248, 166, 68, 26, 153, 199, 37, 123, 58, 100, 134, 216, 91, 5, 231, 185,
   140, 210, 48, 110, 237, 179, 81, 15, 78, 16, 242, 172, 47, 113, 147, 205,
   17, 79, 173, 243, 112, 46, 204, 146, 211, 141, 111, 49, 178, 236, 14, 80,
   175, 241, 19, 77, 206, 144, 114, 44, 109, 51, 209, 143, 12, 82, 176, 238,
   50, 108, 142, 208, 83, 13, 239, 177, 240, 174, 76, 18, 145, 207, 45, 115,
   202, 148, 118, 40, 171, 245, 23, 73, 8, 86, 180, 234, 105, 55, 213, 139,
   87, 9, 235, 181, 54, 104, 138, 212, 149, 203, 41, 119, 244, 170, 72, 22,
   233, 183, 85, 11, 136, 214, 52, 106, 43, 117, 151, 201, 74, 20, 246, 168,
   116, 42, 200, 150, 21, 75, 169, 247, 182, 232, 10, 84, 215, 137, 107, 53]"

fun onewire_crc8_loop :: "mem \<Rightarrow> addr \<Rightarrow> nat \<Rightarrow> u8 \<Rightarrow> u8" where
  "onewire_crc8_loop m a 0 crc = crc"
| "onewire_crc8_loop m a (Suc n) crc = onewire_crc8_loop m (a + 1) n (dscrc_table ! unat (crc XOR m a))"

definition onewire_crc8 :: "mem \<Rightarrow> addr \<Rightarrow> u8 \<Rightarrow> u8" where
  "onewire_crc8 m a len = onewire_crc8_loop m a (unat len) 0"

section \<open>The shift register\<close>

definition lfsr_step :: "'a::len word \<Rightarrow> 'a word \<Rightarrow> 'a word" where
  "lfsr_step P x = drop_bit 1 x XOR (if bit x 0 then P else 0)"

definition lfsr8 :: "'a::len word \<Rightarrow> 'a word \<Rightarrow> 'a word" where
  "lfsr8 P = lfsr_step P ^^ 8"

lemma crc16_bit_lfsr: "crc16_bit = lfsr_step 0xA001"
  by (rule ext) (simp add: crc16_bit_def lfsr_step_def and_one_eq odd_iff_mod_2_eq_one bit_0 flip: mod2_eq_if)

lemma crc8_bit_lfsr: "crc8_bit = lfsr_step 0x8C"
  by (rule ext) (simp add: crc8_bit_def lfsr_step_def and_one_eq odd_iff_mod_2_eq_one bit_0 flip: mod2_eq_if)

lemma lfsr_step_xor: "lfsr_step P (x XOR y) = lfsr_step P x XOR lfsr_step P y"
  by (rule bit_word_eqI) (auto simp: lfsr_step_def bit_simps)

lemma lfsr_pow_xor: "(lfsr_step P ^^ n) (x XOR y) = (lfsr_step P ^^ n) x XOR (lfsr_step P ^^ n) y"
  by (induction n) (simp_all add: lfsr_step_xor)

text \<open>A register whose low bits are zero just shifts.\<close>

lemma lfsr_pow_shift:
  assumes "\<forall>i < n. \<not> bit x i"
  shows "(lfsr_step P ^^ n) x = drop_bit n x"
  using assms
proof (induction n)
  case 0
  then show ?case by simp
next
  case (Suc n)
  then have "lfsr_step P (drop_bit n x) = drop_bit (Suc n) x"
    by (intro bit_word_eqI) (auto simp: lfsr_step_def bit_simps)
  then show ?case using Suc by simp
qed

section \<open>The tables\<close>

text \<open>A linear function on bytes is determined by its values at the powers of two: the table is spanned by them.\<close>

definition span_table :: "'a::len word list \<Rightarrow> 'a word list" where
  "span_table cs = foldl (\<lambda>T c. T @ map (\<lambda>x. x XOR c) T) [0] cs"

lemma of_nat_split_top:
  assumes "i < 2 ^ n"
  shows "(of_nat (2 ^ n + i) :: 'a::len word) = of_nat i XOR 2 ^ n"
proof -
  have nb: "\<not> bit i n" using assms by (metis bit_take_bit_iff less_irrefl take_bit_nat_eq_self)
  have "bit (of_nat i :: 'a word) j \<longrightarrow> \<not> bit (2 ^ n :: 'a word) j" for j
    using nb by (auto simp: bit_simps bit_of_nat_iff)
  then have "(of_nat i :: 'a word) + 2 ^ n = of_nat i OR 2 ^ n" by (intro disjunctive_add) auto
  also have "\<dots> = of_nat i XOR 2 ^ n"
    using nb by (intro bit_word_eqI) (auto simp: bit_simps bit_of_nat_iff)
  finally show ?thesis by (simp add: add.commute)
qed

lemma span_table_linear:
  fixes f :: "'a::len word \<Rightarrow> 'a word"
  assumes "\<And>x y. f (x XOR y) = f x XOR f y"
  shows "length (span_table (map (\<lambda>k. f (2 ^ k)) [0..<n])) = 2 ^ n \<and>
    (\<forall>i < 2 ^ n. span_table (map (\<lambda>k. f (2 ^ k)) [0..<n]) ! i = f (of_nat i))"
proof (induction n)
  case 0
  have "f 0 = 0" using assms [of 0 0] by simp
  then show ?case by (simp add: span_table_def)
next
  case (Suc n)
  define T where "T = span_table (map (\<lambda>k. f (2 ^ k)) [0..<n])"
  have T: "length T = 2 ^ n" "\<And>i. i < 2 ^ n \<Longrightarrow> T ! i = f (of_nat i)" using Suc by (auto simp: T_def)
  have st: "span_table (map (\<lambda>k. f (2 ^ k)) [0..<Suc n]) = T @ map (\<lambda>x. x XOR f (2 ^ n)) T"
    by (simp add: span_table_def T_def)
  have "(T @ map (\<lambda>x. x XOR f (2 ^ n)) T) ! i = f (of_nat i)" if "i < 2 ^ Suc n" for i
  proof (cases "i < 2 ^ n")
    case True
    then show ?thesis using T by (simp add: nth_append)
  next
    case False
    define j where "j = i - 2 ^ n"
    have j: "i = 2 ^ n + j" "j < 2 ^ n" using False that by (simp_all add: j_def)
    then show ?thesis using T of_nat_split_top [OF j(2), where 'a = 'a] assms by (simp add: nth_append)
  qed
  then show ?case unfolding st using T(1) by simp
qed

lemma crc8_orbit:
  "lfsr_step 0x8C (0x80 :: u8) = 0x40"
  "lfsr_step 0x8C (0x40 :: u8) = 0x20"
  "lfsr_step 0x8C (0x20 :: u8) = 0x10"
  "lfsr_step 0x8C (0x10 :: u8) = 0x8"
  "lfsr_step 0x8C (0x8 :: u8) = 0x4"
  "lfsr_step 0x8C (0x4 :: u8) = 0x2"
  "lfsr_step 0x8C (0x2 :: u8) = 1"
  "lfsr_step 0x8C (1 :: u8) = 0x8c"
  "lfsr_step 0x8C (0x8c :: u8) = 0x46"
  "lfsr_step 0x8C (0x46 :: u8) = 0x23"
  "lfsr_step 0x8C (0x23 :: u8) = 0x9d"
  "lfsr_step 0x8C (0x9d :: u8) = 0xc2"
  "lfsr_step 0x8C (0xc2 :: u8) = 0x61"
  "lfsr_step 0x8C (0x61 :: u8) = 0xbc"
  "lfsr_step 0x8C (0xbc :: u8) = 0x5e"
  by code_simp+

lemma crc32_orbit:
  "lfsr_step 0xEDB88320 (0x80 :: u32) = 0x40"
  "lfsr_step 0xEDB88320 (0x40 :: u32) = 0x20"
  "lfsr_step 0xEDB88320 (0x20 :: u32) = 0x10"
  "lfsr_step 0xEDB88320 (0x10 :: u32) = 0x8"
  "lfsr_step 0xEDB88320 (0x8 :: u32) = 0x4"
  "lfsr_step 0xEDB88320 (0x4 :: u32) = 0x2"
  "lfsr_step 0xEDB88320 (0x2 :: u32) = 1"
  "lfsr_step 0xEDB88320 (1 :: u32) = 0xedb88320"
  "lfsr_step 0xEDB88320 (0xedb88320 :: u32) = 0x76dc4190"
  "lfsr_step 0xEDB88320 (0x76dc4190 :: u32) = 0x3b6e20c8"
  "lfsr_step 0xEDB88320 (0x3b6e20c8 :: u32) = 0x1db71064"
  "lfsr_step 0xEDB88320 (0x1db71064 :: u32) = 0xedb8832"
  "lfsr_step 0xEDB88320 (0xedb8832 :: u32) = 0x76dc419"
  "lfsr_step 0xEDB88320 (0x76dc419 :: u32) = 0xee0e612c"
  "lfsr_step 0xEDB88320 (0xee0e612c :: u32) = 0x77073096"
  by code_simp+

lemma lfsr8_unfold: "lfsr8 P x = lfsr_step P (lfsr_step P (lfsr_step P (lfsr_step P
    (lfsr_step P (lfsr_step P (lfsr_step P (lfsr_step P x)))))))"
  by (simp add: lfsr8_def numeral_eq_Suc)

lemma lfsr8_basis:
  "map (\<lambda>k. lfsr8 0x8C (2 ^ k)) [0..<8] = [0x5e, 0xbc, 0x61, 0xc2, 0x9d, 0x23, 0x46, 0x8c :: u8]"
  "map (\<lambda>k. lfsr8 0xEDB88320 (2 ^ k)) [0..<8] = [0x77073096, 0xee0e612c, 0x76dc419, 0xedb8832, 0x1db71064, 0x3b6e20c8, 0x76dc4190, 0xedb88320 :: u32]"
  by (simp_all add: lfsr8_unfold crc8_orbit crc32_orbit upt_conv_Cons)

lemma dscrc_table_span: "dscrc_table = span_table [0x5e, 0xbc, 0x61, 0xc2, 0x9d, 0x23, 0x46, 0x8c]"
  by (simp add: span_table_def dscrc_table_def)

lemma crcTable_span: "crcTable = span_table [0x77073096, 0xee0e612c, 0x76dc419, 0xedb8832, 0x1db71064, 0x3b6e20c8, 0x76dc4190, 0xedb88320]"
  by (simp add: span_table_def crcTable_def)

lemma lfsr8_xor: "lfsr8 P (x XOR y) = lfsr8 P x XOR lfsr8 P y"
  by (simp add: lfsr8_def lfsr_pow_xor)

lemma dscrc_table_nth: "dscrc_table ! unat x = lfsr8 0x8C x"
proof -
  have "dscrc_table ! unat x = lfsr8 0x8C (of_nat (unat x))"
    using span_table_linear [of "lfsr8 (0x8C :: u8)" 8] unat_u8_less [of x]
    unfolding dscrc_table_span lfsr8_basis by (simp add: lfsr8_xor)
  then show ?thesis by simp
qed

lemma crcTable_nth:
  assumes "unat x < 256"
  shows "crcTable ! unat x = lfsr8 0xEDB88320 x"
proof -
  have "crcTable ! unat x = lfsr8 0xEDB88320 (of_nat (unat x))"
    using span_table_linear [of "lfsr8 (0xEDB88320 :: u32)" 8] assms
    unfolding crcTable_span lfsr8_basis by (simp add: lfsr8_xor)
  then show ?thesis by simp
qed

lemma crc32_table_step:
  fixes c :: u32 and b :: u8
  shows "drop_bit 8 c XOR crcTable ! unat ((c XOR ucast b) AND 0xFF) = lfsr8 0xEDB88320 (c XOR ucast b)"
proof -
  define y where "y = c XOR ucast b"
  have m: "(0xFF :: u32) = mask 8" by (simp add: mask_eq_exp_minus_1)
  have "unat (y AND mask 8) < 256"
    by (simp add: unsigned_take_bit_eq take_bit_nat_less_exp [of 8, simplified] flip: take_bit_eq_mask)
  then have "crcTable ! unat (y AND 0xFF) = lfsr8 0xEDB88320 (y AND mask 8)" unfolding m by (rule crcTable_nth)
  moreover have "lfsr8 0xEDB88320 (y AND NOT (mask 8)) = drop_bit 8 (y AND NOT (mask 8))"
    unfolding lfsr8_def by (rule lfsr_pow_shift) (simp add: bit_simps)
  moreover have "drop_bit 8 (y AND NOT (mask 8)) = drop_bit 8 c"
    by (rule bit_word_eqI) (auto simp: y_def bit_simps dest: bit_imp_le_length)
  moreover have "y = (y AND NOT (mask 8)) XOR (y AND mask 8)"
    by (rule bit_word_eqI) (auto simp: bit_simps)
  ultimately show ?thesis unfolding y_def [symmetric] by (metis lfsr8_xor)
qed

section \<open>The loops as folds\<close>

definition crc_update :: "'a::len word \<Rightarrow> 'a word \<Rightarrow> u8 \<Rightarrow> 'a word" where
  "crc_update P c b = lfsr8 P (c XOR ucast b)"

lemma crc32_loop_fold: "crc32_loop m p n c = foldl (crc_update 0xEDB88320) c (mem_read m p n)"
  by (induction n arbitrary: p c) (simp_all add: mem_read_Suc crc32_table_step crc_update_def)

lemma crc16_loop_fold: "crc16_loop m p n c = foldl (crc_update 0xA001) c (mem_read m p n)"
  by (induction n arbitrary: p c) (simp_all add: mem_read_Suc Crc16_update8_def crc_update_def crc16_bit_lfsr lfsr8_def)

lemma crc8_loop_fold: "crc8_loop m p n c = foldl (crc_update 0x8C) c (mem_read m p n)"
  by (induction n arbitrary: p c) (simp_all add: mem_read_Suc crc_update_def crc8_bit_lfsr lfsr8_def)

lemma onewire_crc8_loop_fold: "onewire_crc8_loop m p n c = foldl (crc_update 0x8C) c (mem_read m p n)"
  by (induction n arbitrary: p c) (simp_all add: mem_read_Suc crc_update_def dscrc_table_nth)

lemmas crc_folds = Crc32_ComputeBuf_def Crc16_ComputeBuf_def Crc8_ComputeBuf_def onewire_crc8_def
  crc32_loop_fold crc16_loop_fold crc8_loop_fold onewire_crc8_loop_fold

text \<open>Accumulating a checksum over consecutive buffers, as the comment on \<^verbatim>\<open>inCrc32\<close> promises.\<close>

lemma Crc32_ComputeBuf_append:
  assumes "unat n + unat k < 2 ^ 32"
  shows "Crc32_ComputeBuf (Crc32_ComputeBuf c m p n) m (p + unat n) k = Crc32_ComputeBuf c m p (n + k)"
proof -
  have "unat (n + k) = unat n + unat k" using assms by (simp add: unat_word_ariths)
  then show ?thesis by (simp add: crc_folds mem_read_add xor.assoc)
qed

section \<open>Injectivity\<close>

text \<open>With the top bit of the polynomial set, a step loses no information.\<close>

lemma lfsr_step_inj:
  fixes P :: "'a::len word"
  assumes "bit P (LENGTH('a) - 1)" "lfsr_step P x = lfsr_step P y"
  shows "x = y"
proof -
  have top: "bit (lfsr_step P z) (LENGTH('a) - 1) \<longleftrightarrow> bit z 0" for z :: "'a word"
    using assms(1) by (auto simp: lfsr_step_def bit_simps)
  then have b0: "bit x 0 \<longleftrightarrow> bit y 0" using assms(2) by metis
  then have "drop_bit 1 x = drop_bit 1 y" using assms(2) by (simp add: lfsr_step_def)
  then have "bit x (Suc j) \<longleftrightarrow> bit y (Suc j)" for j
    by (metis bit_drop_bit_eq comp_apply plus_1_eq_Suc)
  then show ?thesis using b0 by (intro bit_word_eqI) (metis not0_implies_Suc)
qed

lemma crc_update_inj:
  fixes P :: "'a::len word"
  assumes "bit P (LENGTH('a) - 1)" "crc_update P c b = crc_update P c' b'"
  shows "c XOR ucast b = c' XOR ucast b'"
proof -
  have "(lfsr_step P ^^ n) x = (lfsr_step P ^^ n) y \<Longrightarrow> x = y" for n x y
    by (induction n) (auto dest: lfsr_step_inj [OF assms(1)])
  then show ?thesis using assms(2) by (simp add: crc_update_def lfsr8_def)
qed

lemma crc_fold_inj:
  fixes P :: "'a::len word"
  assumes "bit P (LENGTH('a) - 1)" "foldl (crc_update P) c bs = foldl (crc_update P) c' bs"
  shows "c = c'"
  using assms(2)
proof (induction bs arbitrary: c c')
  case Nil
  then show ?case by simp
next
  case (Cons b bs)
  then have "crc_update P c b = crc_update P c' b" by simp
  then have "c XOR ucast b = c' XOR ucast b" by (rule crc_update_inj [OF assms(1)])
  then show ?case by simp
qed

text \<open>Two blocks that differ in one byte have different checksums.\<close>

lemma crc_fold_detects:
  fixes P :: "'a::len word"
  assumes "bit P (LENGTH('a) - 1)" "8 \<le> LENGTH('a)" "b \<noteq> b'"
  shows "foldl (crc_update P) c (xs @ b # ys) \<noteq> foldl (crc_update P) c (xs @ b' # ys)"
proof
  define d where "d = foldl (crc_update P) c xs"
  assume "foldl (crc_update P) c (xs @ b # ys) = foldl (crc_update P) c (xs @ b' # ys)"
  then have "foldl (crc_update P) (crc_update P d b) ys = foldl (crc_update P) (crc_update P d b') ys"
    unfolding d_def foldl_append foldl_Cons .
  then have "crc_update P d b = crc_update P d b'" by (rule crc_fold_inj [OF assms(1)])
  then have "d XOR ucast b = d XOR (ucast b' :: 'a word)" by (rule crc_update_inj [OF assms(1)])
  then have eq: "(ucast b :: 'a word) = ucast b'" by simp
  have "bit b j = bit b' j" if "j < LENGTH(8)" for j
  proof -
    have "bit (ucast b :: 'a word) j = bit (ucast b' :: 'a word) j" unfolding eq ..
    then show ?thesis using that assms(2) by (simp add: bit_ucast_iff)
  qed
  then have "b = b'" by (intro bit_word_eqI)
  then show False using assms(3) by blast
qed

section \<open>Properties\<close>

text \<open>
  C16. The table-driven checksums are the bitwise ones: \<^verbatim>\<open>Crc32_ComputeBuf\<close> is the reflected CRC-32 with
  polynomial 0xEDB88320, eight shift-register steps per byte between two complements, and
  \<^verbatim>\<open>onewire_crc8\<close> with the Dallas table is the bitwise \<^verbatim>\<open>Crc8_ComputeBuf\<close> started at zero, on every
  buffer of every length.
\<close>

theorem crc_tables_are_bitwise:
  "Crc32_ComputeBuf inCrc32 m buf bufLen =
      foldl (crc_update 0xEDB88320) (inCrc32 XOR 0xFFFFFFFF) (mem_read m buf (unat bufLen)) XOR 0xFFFFFFFF \<and>
   onewire_crc8 m a len = Crc8_ComputeBuf 0 m a (ucast len)"
  by (simp add: crc_folds unsigned_ucast_eq take_bit_nat_eq_self unat_u8_less [THEN less_trans])

lemma mem_read_split:
  assumes "p \<le> a" "a < p + n"
  shows "\<exists>xs ys. \<forall>v. mem_read (m(a := v)) p n = xs @ v # ys"
proof -
  have n: "n = (a - p) + Suc (n - Suc (a - p))" using assms by simp
  have "mem_read (m(a := v)) p n = mem_read m p (a - p) @ v # mem_read m (Suc a) (n - Suc (a - p))" for v
    by (subst n, subst mem_read_add) (use assms(1) in \<open>simp add: mem_read_Suc mem_simps\<close>)
  then show ?thesis by blast
qed

lemma crc_block_detects:
  fixes P :: "'a::len word"
  assumes "bit P (LENGTH('a) - 1)" "8 \<le> LENGTH('a)" "p \<le> a" "a < p + n" "v \<noteq> m a"
  shows "foldl (crc_update P) c (mem_read m p n) \<noteq> foldl (crc_update P) c (mem_read (m(a := v)) p n)"
proof -
  obtain xs ys where sp: "\<And>v. mem_read (m(a := v)) p n = xs @ v # ys" using mem_read_split [OF assms(3,4)] by blast
  have "mem_read m p n = xs @ m a # ys" using sp [of "m a"] unfolding fun_upd_triv .
  then show ?thesis unfolding sp [of v] using crc_fold_detects [OF assms(1,2) assms(5) [symmetric]] by metis
qed

text \<open>The Dallas check of a device address: a block followed by its own checksum has checksum zero.\<close>

lemma onewire_crc8_residue:
  assumes "unat n < 255"
  shows "onewire_crc8 (m(p + unat n := onewire_crc8 m p n)) p (n + 1) = 0"
proof -
  have "unat (n + 1) = Suc (unat n)" using assms by (simp add: unat_word_ariths)
  then have "onewire_crc8 (m(p + unat n := v)) p (n + 1) = crc_update 0x8C (onewire_crc8 m p n) v" for v
    using mem_read_add [of "m(p + unat n := v)" p "unat n" 1] by (simp add: crc_folds mem_simps mem_read_Suc)
  moreover have "crc_update 0x8C v v = 0" for v :: u8
    by (simp add: crc_update_def lfsr8_def lfsr_pow_shift)
  ultimately show ?thesis by simp
qed

text \<open>
  Changing one byte of a block changes its checksum, for each of the four functions, whatever the
  initial value, the length of the block and the position of the byte.
\<close>

theorem crc_detects_byte_error:
  assumes "p \<le> a" "v \<noteq> m a"
  shows "(a < p + unat n32 \<longrightarrow> Crc32_ComputeBuf c m p n32 \<noteq> Crc32_ComputeBuf c (m(a := v)) p n32) \<and>
    (a < p + unat n16 \<longrightarrow> Crc16_ComputeBuf d m p n16 \<noteq> Crc16_ComputeBuf d (m(a := v)) p n16 \<and>
       Crc8_ComputeBuf e m p n16 \<noteq> Crc8_ComputeBuf e (m(a := v)) p n16) \<and>
    (a < p + unat n8 \<longrightarrow> onewire_crc8 m p n8 \<noteq> onewire_crc8 (m(a := v)) p n8)"
proof -
  have P: "bit (0xEDB88320 :: u32) 31" "bit (0xA001 :: u16) 15" "bit (0x8C :: u8) 7" by simp_all
  have "foldl (crc_update 0xEDB88320) (i :: u32) (mem_read m p n) \<noteq> foldl (crc_update 0xEDB88320) i (mem_read (m(a := v)) p n)"
    "foldl (crc_update 0xA001) (j :: u16) (mem_read m p n) \<noteq> foldl (crc_update 0xA001) j (mem_read (m(a := v)) p n)"
    "foldl (crc_update 0x8C) (k :: u8) (mem_read m p n) \<noteq> foldl (crc_update 0x8C) k (mem_read (m(a := v)) p n)"
    if "a < p + n" for i j k n
    using crc_block_detects [of "0xEDB88320 :: u32" p a n v m i] crc_block_detects [of "0xA001 :: u16" p a n v m j]
      crc_block_detects [of "0x8C :: u8" p a n v m k] that P assms by simp_all
  then show ?thesis by (simp add: crc_folds)
qed

theorem crc_detects_byte_error_witness:
  "Crc32_ComputeBuf 0 (\<lambda>_. 7) 10 4 \<noteq> Crc32_ComputeBuf 0 ((\<lambda>_. 7)(12 := 8)) 10 4 \<and>
    onewire_crc8 (\<lambda>_. 7) 10 8 \<noteq> onewire_crc8 ((\<lambda>_. 7)(12 := 8)) 10 8"
  using crc_detects_byte_error [of 10 12 8 "\<lambda>_. 7" 4 0 0 0 0 8] by (simp del: fun_upd_apply)

end
