(* ===== verification/Onewire.thy ===== *)
theory Onewire
  imports Hw_Timer Crc "HOL-Library.Monad_Syntax"
begin

text \<open>
  The non-blocking one-wire driver \<^verbatim>\<open>app_setup/driver/onewire_nb.c\<close> for the temperature sensor, with the
  sequences of \<^verbatim>\<open>maxim28.h\<close> and the event handler of \<^verbatim>\<open>setup_event.c\<close> that starts a sequence. Every
  call is one 10 us tick. The level \<open>lv\<close> of the bus is an argument of a call (each call reads the pin at
  most once); what the driver does to the bus and the SDK is a trace. \<open>None\<close> is an access outside an
  array. Parasite power is off (\<^verbatim>\<open>USE_P_PWR\<close> is 0) and the sensor is of family 0x28, as in
  \<^verbatim>\<open>hardware_defs.h\<close>. The static variables of the C functions are fields of the world.
\<close>

section \<open>Data\<close>

abbreviation (input) "OW_SEQ_STATE_INIT \<equiv> (1 :: u8)"
abbreviation (input) "OW_SEQ_STATE_STARTED \<equiv> (2 :: u8)"
abbreviation (input) "OW_SEQ_STATE_TRANSITION \<equiv> (3 :: u8)"
abbreviation (input) "OW_SEQ_STATE_DONE \<equiv> (4 :: u8)"

abbreviation (input) "OW_OP_RESET \<equiv> (1 :: u8)"
abbreviation (input) "OW_OP_READ \<equiv> (2 :: u8)"
abbreviation (input) "OW_OP_WRITE \<equiv> (3 :: u8)"
abbreviation (input) "OW_OP_END \<equiv> (4 :: u8)"

abbreviation (input) "OW_READ_OP_INIT \<equiv> (1 :: u8)"
abbreviation (input) "OW_READ_OP_LINE_LOW \<equiv> (2 :: u8)"
abbreviation (input) "OW_READ_OP_SAMPLE \<equiv> (3 :: u8)"
abbreviation (input) "OW_READ_OP_WAIT_50 \<equiv> (4 :: u8)"
abbreviation (input) "OW_READ_OP_DONE \<equiv> (5 :: u8)"

abbreviation (input) "OW_WRITE_OP_INIT \<equiv> (1 :: u8)"
abbreviation (input) "OW_WRITE_OP_LINE_LOW \<equiv> (2 :: u8)"
abbreviation (input) "OW_WRITE_OP_WRITE_FIRST \<equiv> (3 :: u8)"
abbreviation (input) "OW_WRITE_OP_WAIT_FIRST \<equiv> (4 :: u8)"
abbreviation (input) "OW_WRITE_OP_FINALLY \<equiv> (5 :: u8)"
abbreviation (input) "OW_WRITE_OP_DONE \<equiv> (6 :: u8)"

abbreviation (input) "OW_RESET_OP_INIT \<equiv> (1 :: u8)"
abbreviation (input) "OW_RESET_OP_WAIT_480_LOW \<equiv> (2 :: u8)"
abbreviation (input) "OW_RESET_OP_WAIT_60_RESP \<equiv> (3 :: u8)"
abbreviation (input) "OW_RESET_OP_WAIT_480 \<equiv> (4 :: u8)"
abbreviation (input) "OW_RESET_OP_DONE \<equiv> (5 :: u8)"

abbreviation (input) "OW_ERROR_NONE \<equiv> (0 :: u8)"
abbreviation (input) "OW_ERROR_INVALID_OP \<equiv> (2 :: u8)"
abbreviation (input) "OW_ERROR_RESET_RESP_TIMEOUT \<equiv> (3 :: u8)"

abbreviation (input) "DS_SEQ_UUID_T \<equiv> (1 :: nat)"
abbreviation (input) "DS_SEQ_CONV_T \<equiv> (2 :: nat)"
abbreviation (input) "DS_SEQ_READ_T \<equiv> (3 :: nat)"
abbreviation (input) "DS_SEQ_NEXT_READ_T \<equiv> (4 :: nat)"

abbreviation (input) "DS_FAMILY_CODE \<equiv> (0x28 :: u8)"

definition ds_seqs :: "u8 list list" where
  "ds_seqs = [[],
     [OW_OP_RESET, OW_OP_WRITE, OW_OP_WRITE, OW_OP_READ, OW_OP_END],
     [OW_OP_RESET, OW_OP_WRITE, OW_OP_WRITE, OW_OP_END],
     [OW_OP_RESET, OW_OP_WRITE, OW_OP_WRITE, OW_OP_READ, OW_OP_END]]"

definition ds_seq_args :: "u8 list list" where
  "ds_seq_args = [[], [0, 0x33, 0xBE, 9, 0], [0, 0xCC, 0x44, 0], [0, 0xCC, 0xBE, 9, 0]]"

definition ds_seq_lens :: "u8 list" where
  "ds_seq_lens = [0, 5, 4, 5]"

datatype ow_cb = No_cb | Read_uuid_done_cb | Conv_t_done_cb | Read_temp_done_cb

record onewire_driver =
  seq_arr :: "u8 list"
  arg_arr :: "u8 list"
  seq_len :: u8
  seq_state :: u8
  seq_pos :: u8
  op_type :: u8
  cur_op :: u8
  delay_count :: u8
  ow_error :: u8
  spad_buf :: "u8 list"
  UUID :: "u8 list"
  callback :: ow_cb

record Temperature =
  sign :: char
  val :: u16
  fract :: u16
  available :: u8

datatype ow_ev = Line_set bool | Line_release | Delay_us nat | Os_timer_arm nat | Os_timer_disarm
  | Os_post | Publish char u16 u16 | Gpio_input_mode

record ow_world =
  drv :: onewire_driver
  r_bitMask :: u8
  r_readsLeft :: u8
  r_readCount :: u8
  r_data :: u8
  w_bitMask :: u8
  w_data :: u8
  onewire_timer_arg :: nat
  latest_temp :: Temperature
  hw :: hw_timer
  ow_log :: "ow_ev list"

definition emit :: "ow_ev list \<Rightarrow> ow_world \<Rightarrow> ow_world" where
  "emit es w = w\<lparr>ow_log := ow_log w @ es\<rparr>"

definition on_drv :: "(onewire_driver \<Rightarrow> onewire_driver) \<Rightarrow> ow_world \<Rightarrow> ow_world" where
  "on_drv f w = w\<lparr>drv := f (drv w)\<rparr>"

definition arm_hw :: "u32 \<Rightarrow> ow_world \<Rightarrow> ow_world" where
  "arm_hw apb w = w\<lparr>hw := fst (hw_timer_arm apb 10 (hw w))\<rparr>"

text \<open>Array reads with their bounds.\<close>

definition at :: "u8 list \<Rightarrow> u8 \<Rightarrow> u8 option" where
  "at xs i = (if unat i < length xs then Some (xs ! unat i) else None)"

section \<open>The reset, read and write machines\<close>

definition OW_doit_reset :: "bool \<Rightarrow> ow_world \<Rightarrow> ow_world" where
  "OW_doit_reset lv w =
     (let d = drv w; op = cur_op d in
      if op = OW_RESET_OP_INIT then
        emit [Line_set False] (on_drv (\<lambda>d. d\<lparr>delay_count := 47, cur_op := OW_RESET_OP_WAIT_480_LOW\<rparr>) w)
      else if op = OW_RESET_OP_WAIT_480_LOW then
        let c = delay_count d - 1 in
        if c = 0 then
          emit [Line_release] (on_drv (\<lambda>d. d\<lparr>cur_op := OW_RESET_OP_WAIT_60_RESP, delay_count := 6\<rparr>) w)
        else on_drv (\<lambda>d. d\<lparr>delay_count := c\<rparr>) w
      else if op = OW_RESET_OP_WAIT_60_RESP then
        let c = delay_count d - 1 in
        if \<not> lv then on_drv (\<lambda>d. d\<lparr>delay_count := 47, cur_op := OW_RESET_OP_WAIT_480\<rparr>) w
        else if c = 0 then
          emit [Line_release] (on_drv (\<lambda>d. d\<lparr>delay_count := c, ow_error := OW_ERROR_RESET_RESP_TIMEOUT,
            seq_state := OW_SEQ_STATE_DONE\<rparr>) w)
        else on_drv (\<lambda>d. d\<lparr>delay_count := c\<rparr>) w
      else if op = OW_RESET_OP_WAIT_480 then
        let c = delay_count d - 1 in
        if c = 0 then on_drv (\<lambda>d. d\<lparr>delay_count := c, cur_op := OW_RESET_OP_DONE\<rparr>) w
        else on_drv (\<lambda>d. d\<lparr>delay_count := c\<rparr>) w
      else if op = OW_RESET_OP_DONE then
        on_drv (\<lambda>d. d\<lparr>seq_pos := seq_pos d + 1, seq_state := OW_SEQ_STATE_TRANSITION\<rparr>) w
      else on_drv (\<lambda>d. d\<lparr>ow_error := OW_ERROR_INVALID_OP\<rparr>) w)"

text \<open>The case \<^verbatim>\<open>OW_READ_OP_LINE_LOW\<close>, also the target of both \<^verbatim>\<open>goto again\<close>.\<close>

definition read_line_low :: "ow_world \<Rightarrow> ow_world" where
  "read_line_low w =
     emit [Line_set False, Delay_us 1, Line_release] (on_drv (\<lambda>d. d\<lparr>cur_op := OW_READ_OP_SAMPLE\<rparr>) w)"

definition read_switch :: "bool \<Rightarrow> ow_world \<Rightarrow> ow_world option" where
  "read_switch lv w =
     (let d = drv w; op = cur_op d in
      if op = OW_READ_OP_INIT then
        (case at (arg_arr d) (seq_pos d) of
           None \<Rightarrow> None
         | Some n \<Rightarrow> Some (read_line_low (w\<lparr>r_bitMask := 1, r_readCount := 0, r_data := 0, r_readsLeft := n\<rparr>)))
      else if op = OW_READ_OP_LINE_LOW then Some (read_line_low w)
      else if op = OW_READ_OP_SAMPLE then
        Some (on_drv (\<lambda>d. d\<lparr>delay_count := 4, cur_op := OW_READ_OP_WAIT_50\<rparr>)
          (w\<lparr>r_data := (if lv then r_data w OR r_bitMask w else r_data w), r_bitMask := push_bit 1 (r_bitMask w)\<rparr>))
      else if op = OW_READ_OP_WAIT_50 then
        let c = delay_count d - 1; w1 = on_drv (\<lambda>d. d\<lparr>delay_count := c\<rparr>) w in
        if c = 0 then
          if r_bitMask w = 0 then
            if unat (r_readCount w) < length (spad_buf d) then
              let w2 = (on_drv (\<lambda>d. d\<lparr>spad_buf := (spad_buf d)[unat (r_readCount w) := r_data w]\<rparr>) w1)
                         \<lparr>r_readCount := r_readCount w + 1, r_data := 0, r_bitMask := 1,
                          r_readsLeft := r_readsLeft w - 1\<rparr>
              in Some (if r_readsLeft w2 = 0 then on_drv (\<lambda>d. d\<lparr>cur_op := OW_READ_OP_DONE\<rparr>) w2
                       else read_line_low w2)
            else None
          else Some (read_line_low w1)
        else Some w1
      else Some w)"

definition finish_op :: "u8 \<Rightarrow> ow_world \<Rightarrow> ow_world" where
  "finish_op done_op w =
     (if cur_op (drv w) = done_op
      then on_drv (\<lambda>d. d\<lparr>seq_state := OW_SEQ_STATE_TRANSITION, seq_pos := seq_pos d + 1\<rparr>) w else w)"

definition OW_doit_read :: "bool \<Rightarrow> ow_world \<Rightarrow> ow_world option" where
  "OW_doit_read lv w = map_option (finish_op OW_READ_OP_DONE) (read_switch lv w)"

text \<open>The case \<^verbatim>\<open>OW_WRITE_OP_LINE_LOW\<close>, also the target of \<^verbatim>\<open>goto again\<close>.\<close>

definition write_line_low :: "ow_world \<Rightarrow> ow_world" where
  "write_line_low w =
     emit [Line_set False]
       (on_drv (\<lambda>d. d\<lparr>cur_op := (if w_bitMask w AND w_data w \<noteq> 0 then OW_WRITE_OP_WRITE_FIRST
                                 else OW_WRITE_OP_WAIT_FIRST), delay_count := 6\<rparr>) w)"

definition write_switch :: "ow_world \<Rightarrow> ow_world option" where
  "write_switch w =
     (let d = drv w; op = cur_op d in
      if op = OW_WRITE_OP_INIT then
        (case at (arg_arr d) (seq_pos d) of
           None \<Rightarrow> None
         | Some v \<Rightarrow> Some (on_drv (\<lambda>d. d\<lparr>cur_op := OW_WRITE_OP_LINE_LOW\<rparr>) (w\<lparr>w_data := v, w_bitMask := 1\<rparr>)))
      else if op = OW_WRITE_OP_LINE_LOW then Some (write_line_low w)
      else if op = OW_WRITE_OP_WRITE_FIRST then
        let w1 = (if delay_count d = 6 then emit [Line_set True] w else w); c = delay_count d - 1 in
        Some (on_drv (\<lambda>d. d\<lparr>delay_count := c, cur_op := (if c = 0 then OW_WRITE_OP_FINALLY else cur_op d)\<rparr>) w1)
      else if op = OW_WRITE_OP_WAIT_FIRST then
        let c = delay_count d - 1 in
        Some (if c = 0 then emit [Line_set True] (on_drv (\<lambda>d. d\<lparr>delay_count := c, cur_op := OW_WRITE_OP_FINALLY\<rparr>) w)
              else on_drv (\<lambda>d. d\<lparr>delay_count := c\<rparr>) w)
      else if op = OW_WRITE_OP_FINALLY then
        let w1 = w\<lparr>w_bitMask := push_bit 1 (w_bitMask w)\<rparr> in
        Some (if w_bitMask w1 = 0 then on_drv (\<lambda>d. d\<lparr>cur_op := OW_WRITE_OP_DONE\<rparr>) w1 else write_line_low w1)
      else Some w)"

definition OW_doit_write :: "ow_world \<Rightarrow> ow_world option" where
  "OW_doit_write w = map_option (finish_op OW_WRITE_OP_DONE) (write_switch w)"

section \<open>Sequences and their callbacks\<close>

definition OW_handle_error :: "ow_world \<Rightarrow> ow_world" where
  "OW_handle_error w = (on_drv (\<lambda>d. d\<lparr>ow_error := OW_ERROR_NONE\<rparr>) w)\<lparr>hw := hw_timer_disarm (hw w)\<rparr>"

definition OW_publish_temperature :: "ow_world \<Rightarrow> ow_world" where
  "OW_publish_temperature w = emit [Publish (sign (latest_temp w)) (val (latest_temp w)) (fract (latest_temp w))] w"

definition spad_mem :: "u8 list \<Rightarrow> mem" where
  "spad_mem xs = (\<lambda>i. if i < length xs then xs ! i else 0)"

definition read_temp_done_cb :: "ow_world \<Rightarrow> ow_world" where
  "read_temp_done_cb w0 =
     (let w = w0\<lparr>hw := hw_timer_disarm (hw w0)\<rparr>; sp = spad_buf (drv w) in
      if ow_error (drv w) \<noteq> 0 then OW_handle_error w
      else
        let crc = onewire_crc8 (spad_mem sp) 0 8;
            w1 = (if crc = sp ! 8 then
                    let reading = push_bit 8 (ucast (sp ! 1) :: u16) OR ucast (sp ! 0);
                        neg = reading AND 0x8000 \<noteq> 0;
                        r = (if neg then (reading XOR 0xFFFF) + 1 else reading)
                    in OW_publish_temperature
                         (w\<lparr>latest_temp := \<lparr>sign = (if neg then CHR ''-'' else CHR ''+''), val = drop_bit 4 r,
                            fract = (r AND 0xF) * 100 div 16, available = 1\<rparr>\<rparr>)
                  else w)
        in emit [Os_timer_disarm, Os_timer_arm 2431]
             ((on_drv (\<lambda>d. d\<lparr>spad_buf := replicate 9 0\<rparr>) w1)\<lparr>onewire_timer_arg := DS_SEQ_NEXT_READ_T\<rparr>))"

definition conv_t_done_cb :: "ow_world \<Rightarrow> ow_world" where
  "conv_t_done_cb w =
     (if ow_error (drv w) \<noteq> 0 then OW_handle_error w
      else emit [Os_timer_arm 750] (w\<lparr>onewire_timer_arg := DS_SEQ_CONV_T\<rparr>))"

definition read_uuid_done_cb :: "ow_world \<Rightarrow> ow_world" where
  "read_uuid_done_cb w =
     (if ow_error (drv w) \<noteq> 0 then OW_handle_error w
      else emit [Os_timer_disarm, Os_timer_arm 15]
        ((on_drv (\<lambda>d. d\<lparr>UUID := DS_FAMILY_CODE # take 7 (spad_buf d)\<rparr>) w)\<lparr>onewire_timer_arg := DS_SEQ_UUID_T\<rparr>))"

definition run_callback :: "ow_world \<Rightarrow> ow_world" where
  "run_callback w =
     (case callback (drv w) of
        No_cb \<Rightarrow> w
      | Read_uuid_done_cb \<Rightarrow> read_uuid_done_cb w
      | Conv_t_done_cb \<Rightarrow> conv_t_done_cb w
      | Read_temp_done_cb \<Rightarrow> read_temp_done_cb w)"

text \<open>The first switch of \<^verbatim>\<open>OW_doit\<close>, on the operation, and the second, on the state of the sequence.\<close>

definition begin_op :: "u8 \<Rightarrow> ow_world \<Rightarrow> ow_world" where
  "begin_op init_op w =
     (if seq_state (drv w) = OW_SEQ_STATE_TRANSITION
      then on_drv (\<lambda>d. d\<lparr>seq_state := OW_SEQ_STATE_STARTED, cur_op := init_op\<rparr>) w else w)"

definition doit_op :: "bool \<Rightarrow> ow_world \<Rightarrow> ow_world option" where
  "doit_op lv w =
     (let ty = op_type (drv w) in
      if ty = OW_OP_READ then OW_doit_read lv (begin_op OW_READ_OP_INIT w)
      else if ty = OW_OP_WRITE then OW_doit_write (begin_op OW_WRITE_OP_INIT w)
      else if ty = OW_OP_RESET then Some (OW_doit_reset lv (begin_op OW_RESET_OP_INIT w))
      else Some (on_drv (\<lambda>d. d\<lparr>seq_state := OW_SEQ_STATE_DONE\<rparr>) w))"

definition doit_seq :: "u32 \<Rightarrow> ow_world \<Rightarrow> ow_world option" where
  "doit_seq apb w =
     (let d = drv w; st = seq_state d in
      if st = OW_SEQ_STATE_INIT then Some (arm_hw apb (on_drv (\<lambda>d. d\<lparr>seq_state := OW_SEQ_STATE_STARTED\<rparr>) w))
      else if st = OW_SEQ_STATE_STARTED then Some (arm_hw apb w)
      else if st = OW_SEQ_STATE_TRANSITION then
        if seq_pos d \<ge> seq_len d
        then Some (on_drv (\<lambda>d. d\<lparr>op_type := OW_OP_END, seq_state := OW_SEQ_STATE_DONE\<rparr>) w)
        else (case at (seq_arr d) (seq_pos d) of
                None \<Rightarrow> None
              | Some ty \<Rightarrow> Some (arm_hw apb (on_drv (\<lambda>d. d\<lparr>op_type := ty, cur_op := 0\<rparr>) w)))
      else if st = OW_SEQ_STATE_DONE then Some (run_callback w)
      else Some w)"

definition OW_doit :: "u32 \<Rightarrow> bool \<Rightarrow> ow_world \<Rightarrow> ow_world option" where
  "OW_doit apb lv w = do { w1 \<leftarrow> doit_op lv w; doit_seq apb w1 }"

definition OW_init_seq :: "nat \<Rightarrow> ow_world \<Rightarrow> ow_world option" where
  "OW_init_seq sq w =
     (if sq < 4 then
        let w1 = (on_drv (\<lambda>d. d\<lparr>seq_arr := ds_seqs ! sq, arg_arr := ds_seq_args ! sq, seq_len := ds_seq_lens ! sq,
                       seq_state := OW_SEQ_STATE_INIT, ow_error := OW_ERROR_NONE\<rparr>) w)\<lparr>onewire_timer_arg := sq\<rparr> in
        Some (if sq = DS_SEQ_UUID_T then emit [Os_post] (on_drv (\<lambda>d. d\<lparr>callback := Read_uuid_done_cb\<rparr>) w1)
              else if sq = DS_SEQ_CONV_T then emit [Os_post] (on_drv (\<lambda>d. d\<lparr>callback := Conv_t_done_cb\<rparr>) w1)
              else if sq = DS_SEQ_READ_T then emit [Os_post] (on_drv (\<lambda>d. d\<lparr>callback := Read_temp_done_cb\<rparr>) w1)
              else (on_drv (\<lambda>d. d\<lparr>callback := No_cb\<rparr>) w1)\<lparr>onewire_timer_arg := 0\<rparr>)
      else None)"

definition onewire_seq_timer_cb :: "u32 \<Rightarrow> ow_world \<Rightarrow> ow_world option" where
  "onewire_seq_timer_cb apb w =
     (let ty = onewire_timer_arg w in
      if ty = DS_SEQ_UUID_T then OW_init_seq DS_SEQ_CONV_T w
      else if ty = DS_SEQ_CONV_T then OW_init_seq DS_SEQ_READ_T w
      else if ty = DS_SEQ_READ_T then Some w
      else if ty = DS_SEQ_NEXT_READ_T then map_option (arm_hw apb) (OW_init_seq DS_SEQ_CONV_T w)
      else Some w)"

definition ow_hw_timer_cb :: "ow_world \<Rightarrow> ow_world" where
  "ow_hw_timer_cb w = emit [Os_post] w"

definition zero_driver :: onewire_driver where
  "zero_driver = \<lparr>seq_arr = [], arg_arr = [], seq_len = 0, seq_state = 0, seq_pos = 0, op_type = 0, cur_op = 0,
     delay_count = 0, ow_error = 0, spad_buf = replicate 9 0, UUID = replicate 8 0, callback = No_cb\<rparr>"

definition zero_temp :: Temperature where
  "zero_temp = \<lparr>sign = CHR 0x00, val = 0, fract = 0, available = 0\<rparr>"

definition onewire_nb_init :: "ow_world \<Rightarrow> ow_world option" where
  "onewire_nb_init w =
     (let w1 = emit [Os_timer_disarm, Gpio_input_mode] (w\<lparr>drv := zero_driver, latest_temp := zero_temp\<rparr>);
          w2 = w1\<lparr>hw := fst (hw_timer_set_func 1 (hw_timer_init FRC1_SOURCE 0 (hw w1)))\<rparr>
      in OW_init_seq DS_SEQ_UUID_T w2)"

text \<open>The message \<^verbatim>\<open>MSG_IFACE_ONE_WIRE\<close> in the event task.\<close>

definition one_wire_event :: "u32 \<Rightarrow> bool \<Rightarrow> ow_world \<Rightarrow> ow_world option" where
  "one_wire_event apb lv w =
     (if seq_state (drv w) = OW_SEQ_STATE_INIT then
        (case at (seq_arr (drv w)) 0 of
           None \<Rightarrow> None
         | Some ty \<Rightarrow> OW_doit apb lv
             (on_drv (\<lambda>d. d\<lparr>seq_state := OW_SEQ_STATE_TRANSITION, op_type := ty, cur_op := 0, seq_pos := 0\<rparr>) w))
      else OW_doit apb lv w)"

end
