(* ===== verification/Onewire_Inv.thy ===== *)
theory Onewire_Inv
  imports Onewire
begin

text \<open>
  The invariant of the one-wire driver under any interleaving of its events: the message of the event
  task with any bus level, the sequence timer, and the hardware timer interrupt.
\<close>

section \<open>Events and the invariant\<close>

datatype ow_event = Tick bool | Seq_timer | Hw_fire

fun ow_step :: "u32 \<Rightarrow> ow_world \<Rightarrow> ow_event \<Rightarrow> ow_world option" where
  "ow_step apb w (Tick lv) = one_wire_event apb lv w"
| "ow_step apb w Seq_timer = onewire_seq_timer_cb apb w"
| "ow_step apb w Hw_fire = Some (ow_hw_timer_cb w)"

fun ow_run :: "u32 \<Rightarrow> ow_world \<Rightarrow> ow_event list \<Rightarrow> ow_world option" where
  "ow_run apb w [] = Some w"
| "ow_run apb w (e # es) = do { w1 \<leftarrow> ow_step apb w e; ow_run apb w1 es }"

definition seq_ok :: "onewire_driver \<Rightarrow> bool" where
  "seq_ok d \<longleftrightarrow> (\<exists>sq \<in> {1, 2, 3}. seq_arr d = ds_seqs ! sq \<and> arg_arr d = ds_seq_args ! sq \<and> seq_len d = ds_seq_lens ! sq)"

definition reading_ok :: "ow_world \<Rightarrow> bool" where
  "reading_ok w \<longleftrightarrow> (cur_op (drv w) = OW_READ_OP_SAMPLE \<or> cur_op (drv w) = OW_READ_OP_WAIT_50) \<and>
     0 < unat (r_readsLeft w) \<and> unat (r_readCount w) + unat (r_readsLeft w) = 9"

definition base_ok :: "ow_world \<Rightarrow> bool" where
  "base_ok w \<longleftrightarrow> seq_ok (drv w) \<and> length (spad_buf (drv w)) = 9 \<and> hw_ready (hw w)"

text \<open>Between two events of a running sequence; and inside \<^verbatim>\<open>OW_doit\<close>, after the operation made its step.\<close>

definition active_ok :: "ow_world \<Rightarrow> bool" where
  "active_ok w \<longleftrightarrow> (let d = drv w in
     unat (seq_pos d) < length (seq_arr d) \<and> op_type d = seq_arr d ! unat (seq_pos d) \<and>
     seq_state d \<in> {OW_SEQ_STATE_STARTED, OW_SEQ_STATE_TRANSITION, OW_SEQ_STATE_DONE} \<and>
     (op_type d = OW_OP_READ \<longrightarrow> seq_state d \<noteq> OW_SEQ_STATE_DONE \<and> (seq_state d = OW_SEQ_STATE_STARTED \<longrightarrow> reading_ok w)))"

definition mid_ok :: "ow_world \<Rightarrow> bool" where
  "mid_ok w \<longleftrightarrow> (let d = drv w in
     (seq_state d = OW_SEQ_STATE_TRANSITION \<and> unat (seq_pos d) < length (seq_arr d)) \<or>
     (seq_state d \<noteq> OW_SEQ_STATE_TRANSITION \<and> active_ok w))"

definition ow_inv :: "ow_world \<Rightarrow> bool" where
  "ow_inv w \<longleftrightarrow> base_ok w \<and> (seq_state (drv w) = OW_SEQ_STATE_INIT \<or> active_ok w)"

section \<open>Facts about the sequences\<close>

lemma seq_ok_lengths:
  assumes "seq_ok d"
  shows "length (arg_arr d) = length (seq_arr d)" "unat (seq_len d) = length (seq_arr d)" "length (seq_arr d) \<le> 5"
    "0 < length (seq_arr d)" "at (seq_arr d) 0 = Some OW_OP_RESET" "seq_arr d ! 0 = OW_OP_RESET"
  using assms by (auto simp: seq_ok_def ds_seqs_def ds_seq_args_def ds_seq_lens_def at_def)

lemma seq_ok_next:
  assumes "seq_ok d" "i < length (seq_arr d)" "seq_arr d ! i \<noteq> OW_OP_END"
  shows "Suc i < length (seq_arr d)" "seq_arr d ! i = OW_OP_READ \<Longrightarrow> arg_arr d ! i = 9"
proof -
  have "i < 5" using assms(2) seq_ok_lengths(3) [OF assms(1)] by linarith
  then consider "i = 0" | "i = 1" | "i = 2" | "i = 3" | "i = 4" by linarith
  then show "Suc i < length (seq_arr d)" "seq_arr d ! i = OW_OP_READ \<Longrightarrow> arg_arr d ! i = 9"
    using assms by (cases; auto simp: seq_ok_def ds_seqs_def ds_seq_args_def; fail)+
qed

lemma seq_pos_next:
  assumes "seq_ok d" "unat (seq_pos d) < length (seq_arr d)"
  shows "unat (seq_pos d + 1) = Suc (unat (seq_pos d))"
proof -
  have "unat (seq_pos d) + 1 < 256" using assms seq_ok_lengths(3) [OF assms(1)] by linarith
  then show ?thesis by (simp add: unat_word_ariths)
qed

lemma world_simps [simp]:
  "drv (emit es w) = drv w" "hw (emit es w) = hw w" "r_readsLeft (emit es w) = r_readsLeft w"
  "r_readCount (emit es w) = r_readCount w" "drv (on_drv f w) = f (drv w)" "hw (on_drv f w) = hw w"
  "r_readsLeft (on_drv f w) = r_readsLeft w" "r_readCount (on_drv f w) = r_readCount w"
  "r_bitMask (emit es w) = r_bitMask w" "r_bitMask (on_drv f w) = r_bitMask w"
  "r_data (emit es w) = r_data w" "r_data (on_drv f w) = r_data w"
  "w_bitMask (emit es w) = w_bitMask w" "w_bitMask (on_drv f w) = w_bitMask w"
  "w_data (emit es w) = w_data w" "w_data (on_drv f w) = w_data w"
  "drv (arm_hw apb w) = drv w" "r_readsLeft (arm_hw apb w) = r_readsLeft w" "r_readCount (arm_hw apb w) = r_readCount w"
  "r_bitMask (arm_hw apb w) = r_bitMask w" "r_data (arm_hw apb w) = r_data w"
  "w_bitMask (arm_hw apb w) = w_bitMask w" "w_data (arm_hw apb w) = w_data w"
  "ow_log (emit es w) = ow_log w @ es" "ow_log (on_drv f w) = ow_log w" "ow_log (arm_hw apb w) = ow_log w"
  by (simp_all add: emit_def on_drv_def arm_hw_def)

lemma base_ok_arm [simp]: "base_ok w \<Longrightarrow> base_ok (arm_hw apb w)"
  by (simp add: base_ok_def arm_hw_def hw_timer_arm_ready)

section \<open>Each operation keeps the invariant\<close>

lemma begin_op_facts [simp]:
  "seq_arr (drv (begin_op i w)) = seq_arr (drv w)" "arg_arr (drv (begin_op i w)) = arg_arr (drv w)"
  "seq_len (drv (begin_op i w)) = seq_len (drv w)" "seq_pos (drv (begin_op i w)) = seq_pos (drv w)"
  "op_type (drv (begin_op i w)) = op_type (drv w)" "spad_buf (drv (begin_op i w)) = spad_buf (drv w)"
  "hw (begin_op i w) = hw w" "callback (drv (begin_op i w)) = callback (drv w)"
  by (simp_all add: begin_op_def)

lemma base_ok_cong:
  assumes "base_ok w" "seq_arr (drv w') = seq_arr (drv w)" "arg_arr (drv w') = arg_arr (drv w)"
    "seq_len (drv w') = seq_len (drv w)" "length (spad_buf (drv w')) = 9" "hw w' = hw w"
  shows "base_ok w'"
  using assms by (simp add: base_ok_def seq_ok_def)

text \<open>An operation that is not the last of its sequence either stays in place or moves on by one.\<close>

lemma mid_ok_advance:
  assumes "base_ok w" "active_ok w" "op_type (drv w) \<noteq> OW_OP_END" "seq_arr (drv w') = seq_arr (drv w)"
    "seq_pos (drv w') = seq_pos (drv w) + 1" "seq_state (drv w') = OW_SEQ_STATE_TRANSITION"
  shows "mid_ok w'"
proof -
  have s: "seq_ok (drv w)" "unat (seq_pos (drv w)) < length (seq_arr (drv w))"
    "seq_arr (drv w) ! unat (seq_pos (drv w)) \<noteq> OW_OP_END"
    using assms(1-3) by (auto simp: base_ok_def active_ok_def Let_def)
  then show ?thesis using seq_ok_next(1) [OF s] seq_pos_next [OF s(1,2)] assms(4-6) by (simp add: mid_ok_def Let_def)
qed

lemma mid_ok_stay:
  assumes "active_ok w" "op_type (drv w) \<noteq> OW_OP_READ" "seq_arr (drv w') = seq_arr (drv w)"
    "seq_pos (drv w') = seq_pos (drv w)" "op_type (drv w') = op_type (drv w)"
    "seq_state (drv w') = OW_SEQ_STATE_STARTED \<or> seq_state (drv w') = OW_SEQ_STATE_DONE"
  shows "mid_ok w'"
  using assms by (auto simp: mid_ok_def active_ok_def Let_def)

lemma begin_op_state:
  assumes "active_ok w"
  shows "seq_state (drv (begin_op i w)) = OW_SEQ_STATE_STARTED \<or> seq_state (drv (begin_op i w)) = OW_SEQ_STATE_DONE"
  using assms by (auto simp: begin_op_def active_ok_def Let_def)

lemma OW_doit_reset_progress:
  assumes "seq_state (drv v) = OW_SEQ_STATE_STARTED \<or> seq_state (drv v) = OW_SEQ_STATE_DONE"
  shows "seq_pos (drv (OW_doit_reset lv v)) = seq_pos (drv v) \<and>
      (seq_state (drv (OW_doit_reset lv v)) = OW_SEQ_STATE_STARTED \<or> seq_state (drv (OW_doit_reset lv v)) = OW_SEQ_STATE_DONE) \<or>
    seq_pos (drv (OW_doit_reset lv v)) = seq_pos (drv v) + 1 \<and> seq_state (drv (OW_doit_reset lv v)) = OW_SEQ_STATE_TRANSITION"
  using assms by (simp add: OW_doit_reset_def Let_def)

lemma OW_doit_reset_ok:
  assumes "base_ok w" "active_ok w" "op_type (drv w) = OW_OP_RESET"
    and w'_def: "w' = OW_doit_reset lv (begin_op OW_RESET_OP_INIT w)"
  shows "base_ok w' \<and> mid_ok w'"
proof
  have len: "length (spad_buf (drv w)) = 9" using assms(1) by (simp add: base_ok_def)
  show "base_ok w'"
    unfolding w'_def by (rule base_ok_cong [OF assms(1)]) (simp_all add: OW_doit_reset_def Let_def len)
  have "seq_pos (drv w') = seq_pos (drv w) \<and>
      (seq_state (drv w') = OW_SEQ_STATE_STARTED \<or> seq_state (drv w') = OW_SEQ_STATE_DONE) \<or>
    seq_pos (drv w') = seq_pos (drv w) + 1 \<and> seq_state (drv w') = OW_SEQ_STATE_TRANSITION"
    using OW_doit_reset_progress [OF begin_op_state [OF assms(2)], of lv OW_RESET_OP_INIT] by (simp add: w'_def)
  moreover have "seq_arr (drv w') = seq_arr (drv w)" "op_type (drv w') = op_type (drv w)"
    by (simp_all add: w'_def OW_doit_reset_def Let_def)
  ultimately show "mid_ok w'"
    using mid_ok_stay [OF assms(2), of w'] mid_ok_advance [OF assms(1,2), of w'] assms(3) by auto
qed

definition same_frame :: "ow_world \<Rightarrow> ow_world \<Rightarrow> bool" where
  "same_frame v w \<longleftrightarrow> seq_arr (drv w) = seq_arr (drv v) \<and> arg_arr (drv w) = arg_arr (drv v) \<and>
     seq_len (drv w) = seq_len (drv v) \<and> length (spad_buf (drv w)) = length (spad_buf (drv v)) \<and> hw w = hw v \<and>
     op_type (drv w) = op_type (drv v) \<and> seq_pos (drv w) = seq_pos (drv v) \<and> seq_state (drv w) = seq_state (drv v)"

lemma write_switch_frame:
  assumes "unat (seq_pos (drv v)) < length (arg_arr (drv v))"
  shows "\<exists>w. write_switch v = Some w \<and> same_frame v w"
  using assms by (simp add: write_switch_def Let_def write_line_low_def same_frame_def at_def)

lemma OW_doit_write_ok:
  assumes "base_ok w" "active_ok w" "op_type (drv w) = OW_OP_WRITE"
  shows "\<exists>w'. OW_doit_write (begin_op OW_WRITE_OP_INIT w) = Some w' \<and> base_ok w' \<and> mid_ok w'"
proof -
  define v where "v = begin_op OW_WRITE_OP_INIT w"
  have len: "length (spad_buf (drv w)) = 9" using assms(1) by (simp add: base_ok_def)
  have "unat (seq_pos (drv v)) < length (arg_arr (drv v))"
    using assms(1,2) seq_ok_lengths(1) by (simp add: base_ok_def active_ok_def Let_def v_def)
  from write_switch_frame [OF this] obtain w1 where w1: "write_switch v = Some w1" and f: "same_frame v w1" by blast
  have f': "seq_arr (drv w1) = seq_arr (drv w)" "arg_arr (drv w1) = arg_arr (drv w)" "seq_len (drv w1) = seq_len (drv w)"
      "length (spad_buf (drv w1)) = 9" "hw w1 = hw w" "op_type (drv w1) = op_type (drv w)"
      "seq_pos (drv w1) = seq_pos (drv w)" "seq_state (drv w1) = seq_state (drv v)"
    using f len by (simp_all add: same_frame_def v_def)
  define w' where "w' = finish_op OW_WRITE_OP_DONE w1"
  have "base_ok w'" by (rule base_ok_cong [OF assms(1)]) (simp_all add: w'_def finish_op_def f')
  moreover have "mid_ok w'"
  proof (cases "cur_op (drv w1) = OW_WRITE_OP_DONE")
    case True
    then show ?thesis by (intro mid_ok_advance [OF assms(1,2)]) (simp_all add: w'_def finish_op_def f' assms(3))
  next
    case False
    then show ?thesis using begin_op_state [OF assms(2), of OW_WRITE_OP_INIT]
      by (intro mid_ok_stay [OF assms(2)]) (simp_all add: w'_def finish_op_def f' assms(3) v_def)
  qed
  ultimately show ?thesis using w1 by (simp add: OW_doit_write_def v_def w'_def)
qed

text \<open>The read machine: either the last byte was stored, or the counters still add up to nine.\<close>

lemma read_switch_init:
  assumes "cur_op (drv v) = OW_READ_OP_INIT" "at (arg_arr (drv v)) (seq_pos (drv v)) = Some 9"
  shows "\<exists>w. read_switch lv v = Some w \<and> same_frame v w \<and> reading_ok w"
  using assms by (simp add: read_switch_def Let_def read_line_low_def same_frame_def reading_ok_def)

lemma read_switch_run:
  assumes "reading_ok v" "length (spad_buf (drv v)) = 9"
  shows "\<exists>w. read_switch lv v = Some w \<and> same_frame v w \<and> (cur_op (drv w) = OW_READ_OP_DONE \<or> reading_ok w)"
proof -
  have r: "0 < unat (r_readsLeft v)" "unat (r_readCount v) + unat (r_readsLeft v) = 9" using assms(1) by (simp_all add: reading_ok_def)
  have u: "unat (r_readsLeft v - 1) = unat (r_readsLeft v) - 1"
    using r(1) by (simp add: unat_minus_one unat_gt_0 [symmetric] del: unat_gt_0)
  have "unat (r_readCount v) + 1 < 256" using r by linarith
  then have c: "unat (r_readCount v + 1) = Suc (unat (r_readCount v))" by (simp add: unat_word_ariths)
  have z: "r_readsLeft v - 1 \<noteq> 0 \<Longrightarrow> 0 < unat (r_readsLeft v - 1)" by (simp add: unat_gt_0)
  have lt: "unat (r_readCount v) < 9" using r by linarith
  have sum: "Suc (unat (r_readCount v) + (unat (r_readsLeft v) - 1)) = 9" using r by linarith
  show ?thesis
  proof (cases "cur_op (drv v) = OW_READ_OP_SAMPLE")
    case True
    then show ?thesis using assms r by (simp add: read_switch_def Let_def same_frame_def reading_ok_def)
  next
    case False
    then have "cur_op (drv v) = OW_READ_OP_WAIT_50" using assms(1) by (simp add: reading_ok_def)
    then show ?thesis using assms r u c z lt sum
      by (simp add: read_switch_def Let_def read_line_low_def same_frame_def reading_ok_def)
  qed
qed

lemma OW_doit_read_ok:
  assumes "base_ok w" "active_ok w" "op_type (drv w) = OW_OP_READ"
  shows "\<exists>w'. OW_doit_read lv (begin_op OW_READ_OP_INIT w) = Some w' \<and> base_ok w' \<and> mid_ok w'"
proof -
  define v where "v = begin_op OW_READ_OP_INIT w"
  have len: "length (spad_buf (drv w)) = 9" and sq: "seq_ok (drv w)" using assms(1) by (simp_all add: base_ok_def)
  have a: "unat (seq_pos (drv w)) < length (seq_arr (drv w))" "seq_arr (drv w) ! unat (seq_pos (drv w)) = OW_OP_READ"
      "seq_state (drv w) = OW_SEQ_STATE_TRANSITION \<or> seq_state (drv w) = OW_SEQ_STATE_STARTED \<and> reading_ok w"
    using assms(2,3) by (auto simp: active_ok_def Let_def)
  have st: "seq_state (drv v) = OW_SEQ_STATE_STARTED" using a(3) by (auto simp: v_def begin_op_def)
  have "at (arg_arr (drv w)) (seq_pos (drv w)) = Some 9"
    using seq_ok_next(2) [OF sq a(1)] a(1,2) seq_ok_lengths(1) [OF sq] by (simp add: at_def)
  then obtain w1 where w1: "read_switch lv v = Some w1" and f: "same_frame v w1"
    and r: "cur_op (drv w1) = OW_READ_OP_DONE \<or> reading_ok w1"
    using a(3) read_switch_init [of v lv] read_switch_run [of w lv] len
    by (auto simp: v_def begin_op_def)
  have f': "seq_arr (drv w1) = seq_arr (drv w)" "arg_arr (drv w1) = arg_arr (drv w)" "seq_len (drv w1) = seq_len (drv w)"
      "length (spad_buf (drv w1)) = 9" "hw w1 = hw w" "op_type (drv w1) = op_type (drv w)"
      "seq_pos (drv w1) = seq_pos (drv w)" "seq_state (drv w1) = OW_SEQ_STATE_STARTED"
    using f len st by (simp_all add: same_frame_def v_def)
  define w' where "w' = finish_op OW_READ_OP_DONE w1"
  have "base_ok w'" by (rule base_ok_cong [OF assms(1)]) (simp_all add: w'_def finish_op_def f')
  moreover have "mid_ok w'"
  proof (cases "cur_op (drv w1) = OW_READ_OP_DONE")
    case True
    then show ?thesis by (intro mid_ok_advance [OF assms(1,2)]) (simp_all add: w'_def finish_op_def f' assms(3))
  next
    case False
    then show ?thesis using r a by (simp add: w'_def finish_op_def mid_ok_def active_ok_def Let_def f' assms(3))
  qed
  ultimately show ?thesis using w1 by (simp add: OW_doit_read_def v_def w'_def)
qed

section \<open>The sequence machine and the callbacks\<close>

lemma doit_op_ok:
  assumes "base_ok w" "active_ok w"
  shows "\<exists>w'. doit_op lv w = Some w' \<and> base_ok w' \<and> mid_ok w'"
proof -
  consider "op_type (drv w) = OW_OP_READ" | "op_type (drv w) = OW_OP_WRITE" | "op_type (drv w) = OW_OP_RESET"
    | "op_type (drv w) \<notin> {OW_OP_READ, OW_OP_WRITE, OW_OP_RESET}" by auto
  then show ?thesis
  proof cases
    case 1
    then show ?thesis using OW_doit_read_ok [OF assms] by (simp add: doit_op_def)
  next
    case 2
    then show ?thesis using OW_doit_write_ok [OF assms] by (simp add: doit_op_def)
  next
    case 3
    then show ?thesis using OW_doit_reset_ok [OF assms 3 refl] by (simp add: doit_op_def)
  next
    case 4
    have "base_ok (on_drv (\<lambda>d. d\<lparr>seq_state := OW_SEQ_STATE_DONE\<rparr>) w)"
      by (rule base_ok_cong [OF assms(1)]) (use assms(1) in \<open>simp_all add: base_ok_def\<close>)
    moreover have "mid_ok (on_drv (\<lambda>d. d\<lparr>seq_state := OW_SEQ_STATE_DONE\<rparr>) w)"
      by (rule mid_ok_stay [OF assms(2)]) (use 4 in simp_all)
    ultimately show ?thesis using 4 by (simp add: doit_op_def Let_def)
  qed
qed

text \<open>No callback touches what the invariant of a finished sequence speaks about.\<close>

lemma run_callback_frame:
  "seq_arr (drv (run_callback w)) = seq_arr (drv w)" "arg_arr (drv (run_callback w)) = arg_arr (drv w)"
  "seq_len (drv (run_callback w)) = seq_len (drv w)" "seq_pos (drv (run_callback w)) = seq_pos (drv w)"
  "seq_state (drv (run_callback w)) = seq_state (drv w)" "op_type (drv (run_callback w)) = op_type (drv w)"
  "length (spad_buf (drv w)) = 9 \<Longrightarrow> length (spad_buf (drv (run_callback w))) = 9"
  "hw_ready (hw w) \<Longrightarrow> hw_ready (hw (run_callback w))"
  by (cases "callback (drv w)";
      simp add: run_callback_def read_uuid_done_cb_def conv_t_done_cb_def read_temp_done_cb_def
        OW_handle_error_def OW_publish_temperature_def Let_def hw_timer_disarm_ready)+

lemma run_callback_ok:
  assumes "base_ok w" "active_ok w" "seq_state (drv w) = OW_SEQ_STATE_DONE"
  shows "ow_inv (run_callback w)"
  using assms by (auto simp: ow_inv_def base_ok_def seq_ok_def active_ok_def Let_def run_callback_frame)

lemma doit_seq_ok:
  assumes "base_ok w" "mid_ok w"
  shows "\<exists>w'. doit_seq apb w = Some w' \<and> ow_inv w'"
proof (cases "seq_state (drv w) = OW_SEQ_STATE_TRANSITION")
  case True
  have sq: "seq_ok (drv w)" using assms(1) by (simp add: base_ok_def)
  have p: "unat (seq_pos (drv w)) < length (seq_arr (drv w))" using assms(2) True by (simp add: mid_ok_def Let_def)
  then have "\<not> seq_len (drv w) \<le> seq_pos (drv w)" using seq_ok_lengths(2) [OF sq] by (simp add: word_le_nat_alt)
  moreover define w' where "w' = arm_hw apb (on_drv (\<lambda>d. d\<lparr>op_type := seq_arr (drv w) ! unat (seq_pos (drv w)), cur_op := 0\<rparr>) w)"
  ultimately have "doit_seq apb w = Some w'" using True p by (simp add: doit_seq_def Let_def at_def)
  moreover have "base_ok w'"
    unfolding w'_def by (intro base_ok_arm base_ok_cong [OF assms(1)]) (use assms(1) in \<open>simp_all add: base_ok_def\<close>)
  moreover have "active_ok w'" using p True by (simp add: active_ok_def Let_def w'_def)
  ultimately show ?thesis by (simp add: ow_inv_def)
next
  case False
  then have a: "active_ok w" using assms(2) by (simp add: mid_ok_def Let_def)
  then have "seq_state (drv w) = OW_SEQ_STATE_STARTED \<or> seq_state (drv w) = OW_SEQ_STATE_DONE"
    using False by (auto simp: active_ok_def Let_def)
  then show ?thesis
  proof
    assume st: "seq_state (drv w) = OW_SEQ_STATE_STARTED"
    have "active_ok (arm_hw apb w)" using a by (simp add: active_ok_def Let_def reading_ok_def)
    then show ?thesis using st assms(1) by (simp add: doit_seq_def Let_def ow_inv_def)
  next
    assume st: "seq_state (drv w) = OW_SEQ_STATE_DONE"
    then show ?thesis using run_callback_ok [OF assms(1) a] by (simp add: doit_seq_def Let_def)
  qed
qed

lemma one_wire_event_ok:
  assumes "ow_inv w"
  shows "\<exists>w'. one_wire_event apb lv w = Some w' \<and> ow_inv w'"
proof -
  have doit: "\<exists>w'. OW_doit apb lv v = Some w' \<and> ow_inv w'" if v: "base_ok v" "active_ok v" for v
  proof -
    obtain w1 where "doit_op lv v = Some w1" "base_ok w1" "mid_ok w1" using doit_op_ok [OF v] by blast
    then show ?thesis using doit_seq_ok [of w1 apb] by (simp add: OW_doit_def)
  qed
  show ?thesis
  proof (cases "seq_state (drv w) = OW_SEQ_STATE_INIT")
    case True
    have b: "base_ok w" and sq: "seq_ok (drv w)" using assms by (simp_all add: ow_inv_def base_ok_def)
    define v where "v = on_drv (\<lambda>d. d\<lparr>seq_state := OW_SEQ_STATE_TRANSITION, op_type := OW_OP_RESET, cur_op := 0, seq_pos := 0\<rparr>) w"
    have "base_ok v" unfolding v_def
      by (rule base_ok_cong [OF b]) (use b in \<open>simp_all add: base_ok_def\<close>)
    moreover have "active_ok v" using seq_ok_lengths(4,6) [OF sq] by (simp add: active_ok_def Let_def v_def)
    ultimately show ?thesis using doit [of v] True seq_ok_lengths(5) [OF sq] by (simp add: one_wire_event_def v_def)
  next
    case False
    then show ?thesis using assms doit [of w] by (simp add: ow_inv_def one_wire_event_def)
  qed
qed

lemma OW_init_seq_ok:
  assumes "length (spad_buf (drv w)) = 9" "hw_ready (hw w)" "sq \<in> {1, 2, 3}"
  shows "\<exists>w'. OW_init_seq sq w = Some w' \<and> ow_inv w'"
  using assms by (auto simp: OW_init_seq_def Let_def ow_inv_def base_ok_def seq_ok_def)

lemma ow_step_ok:
  assumes "ow_inv w"
  shows "\<exists>w'. ow_step apb w e = Some w' \<and> ow_inv w'"
proof (cases e)
  case (Tick lv)
  then show ?thesis using one_wire_event_ok [OF assms] by simp
next
  case Seq_timer
  have b: "length (spad_buf (drv w)) = 9" "hw_ready (hw w)" using assms by (simp_all add: ow_inv_def base_ok_def)
  have arm: "ow_inv (arm_hw apb v)" if "ow_inv v" for v
    using that by (auto simp: ow_inv_def active_ok_def Let_def reading_ok_def)
  show ?thesis unfolding Seq_timer ow_step.simps onewire_seq_timer_cb_def Let_def
    using assms OW_init_seq_ok [OF b, of 2] OW_init_seq_ok [OF b, of 3] arm by (auto split: if_splits)
next
  case Hw_fire
  have "ow_inv (ow_hw_timer_cb w)"
    using assms by (simp add: ow_hw_timer_cb_def ow_inv_def base_ok_def active_ok_def Let_def reading_ok_def)
  then show ?thesis using Hw_fire by simp
qed

lemma ow_run_ok: "ow_inv w \<Longrightarrow> \<exists>w'. ow_run apb w es = Some w' \<and> ow_inv w'"
proof (induction es arbitrary: w)
  case Nil
  then show ?case by simp
next
  case (Cons e es)
  obtain w1 where "ow_step apb w e = Some w1" "ow_inv w1" using ow_step_ok [OF Cons.prems] by blast
  then show ?case using Cons.IH [of w1] by simp
qed

section \<open>Properties\<close>

text \<open>
  C18. Safety of the one-wire driver: after \<^verbatim>\<open>onewire_nb_init\<close> with the hardware timer still unused, no
  sequence of events, in any order and with any levels on the bus, ever indexes one of the driver's
  arrays out of range (the sequence and argument tables, the scratchpad buffer), and the hardware
  timer can be armed at all times, so that the state machine never stalls on it.
\<close>

theorem onewire_never_out_of_bounds:
  assumes "hw_timer_state (hw w0) = HW_TIMER_DISABLED"
  shows "\<exists>w w'. onewire_nb_init w0 = Some w \<and> ow_run apb w es = Some w' \<and>
    length (spad_buf (drv w')) = 9 \<and> snd (hw_timer_arm apb 10 (hw w'))"
proof -
  define t where "t = fst (hw_timer_set_func 1 (hw_timer_init FRC1_SOURCE 0 (hw w0)))"
  have "hw_ready t" unfolding t_def by (rule hw_init_set_ready(1) [OF assms])
  then obtain w where w: "onewire_nb_init w0 = Some w" "ow_inv w"
    using OW_init_seq_ok [of "(emit [Os_timer_disarm, Gpio_input_mode] (w0\<lparr>drv := zero_driver, latest_temp := zero_temp\<rparr>))\<lparr>hw := t\<rparr>" 1]
    by (auto simp: onewire_nb_init_def Let_def t_def zero_driver_def)
  obtain w' where "ow_run apb w es = Some w'" "ow_inv w'" using ow_run_ok [OF w(2)] by blast
  then show ?thesis using w(1) hw_timer_arm_ready(1) by (simp add: ow_inv_def base_ok_def)
qed

definition cold_world :: ow_world where
  "cold_world = \<lparr>drv = zero_driver, r_bitMask = 1, r_readsLeft = 0, r_readCount = 0, r_data = 0, w_bitMask = 1,
     w_data = 0, onewire_timer_arg = 0, latest_temp = zero_temp,
     hw = \<lparr>hw_timer_state = HW_TIMER_DISABLED, autoload_en = False, user_hw_timer_cb = None, callback_arg = 0, hw_log = []\<rparr>,
     ow_log = []\<rparr>"

theorem onewire_never_out_of_bounds_witness:
  "\<exists>w w'. onewire_nb_init cold_world = Some w \<and>
    ow_run 80000000 w [Tick True, Hw_fire, Tick False, Seq_timer, Tick True] = Some w' \<and>
    length (spad_buf (drv w')) = 9 \<and> snd (hw_timer_arm 80000000 10 (hw w'))"
  by (rule onewire_never_out_of_bounds) (simp add: cold_world_def)

end
