(* ===== verification/Onewire_Wave.thy ===== *)
theory Onewire_Wave
  imports Onewire_Inv
begin

text \<open>
  What the one-wire driver does on the bus, tick by tick: \<open>ow_trace\<close> runs the event handler on a list of
  bus levels and collects, for every 10 us tick, the line events of that tick. The lemmas follow one
  operation at a time: a written byte, a byte read, the reset pulse with the presence window.
\<close>

section \<open>Traces\<close>

fun ow_trace :: "u32 \<Rightarrow> ow_world \<Rightarrow> bool list \<Rightarrow> (ow_world \<times> ow_ev list list) option" where
  "ow_trace apb w [] = Some (w, [])"
| "ow_trace apb w (lv # lvs) = do {
     w1 \<leftarrow> one_wire_event apb lv w;
     (w2, es) \<leftarrow> ow_trace apb w1 lvs;
     Some (w2, drop (length (ow_log w)) (ow_log w1) # es)
   }"

lemma ow_trace_append:
  "ow_trace apb w (xs @ ys) = do {
     (w1, es) \<leftarrow> ow_trace apb w xs; (w2, fs) \<leftarrow> ow_trace apb w1 ys; Some (w2, es @ fs) }"
  by (induction xs arbitrary: w) (auto simp: split_def bind_assoc split: Option.bind_splits)

lemma ow_trace_appendI:
  assumes "ow_trace apb w xs = Some (w1, es)" "ow_trace apb w1 ys = Some (w2, fs)"
  shows "ow_trace apb w (xs @ ys) = Some (w2, es @ fs)"
  using assms by (simp add: ow_trace_append)

lemma ow_trace_ConsI:
  assumes "one_wire_event apb lv w = Some w1" "ow_log w1 = ow_log w @ e" "ow_trace apb w1 lvs = Some (w2, es)"
  shows "ow_trace apb w (lv # lvs) = Some (w2, e # es)"
  using assms by simp

section \<open>Writing a byte\<close>

text \<open>A slot of seven ticks: a one pulls the line low for one tick, a zero for six.\<close>

definition slot_rest :: "bool \<Rightarrow> ow_ev list list" where
  "slot_rest b = (if b then [Line_set True] # replicate 5 [] else replicate 5 [] @ [[Line_set True]])"

definition write_wave :: "u8 \<Rightarrow> ow_ev list list" where
  "write_wave v = [] # concat (map (\<lambda>j. [Line_set False] # slot_rest (bit v j)) [0..<8]) @ [[]]"

text \<open>The driver in the middle of bit \<open>i\<close> of \<open>v\<close> with \<open>c\<close> ticks to go; \<open>d\<close> is the driver when the operation began.\<close>

definition writing :: "onewire_driver \<Rightarrow> u8 \<Rightarrow> nat \<Rightarrow> u8 \<Rightarrow> u8 \<Rightarrow> ow_world \<Rightarrow> bool" where
  "writing d v i op c w \<longleftrightarrow>
     drv w = d\<lparr>seq_state := OW_SEQ_STATE_STARTED, op_type := OW_OP_WRITE, cur_op := op, delay_count := c\<rparr> \<and>
     w_data w = v \<and> w_bitMask w = 2 ^ i"

definition bit_op :: "u8 \<Rightarrow> nat \<Rightarrow> u8" where
  "bit_op v i = (if bit v i then OW_WRITE_OP_WRITE_FIRST else OW_WRITE_OP_WAIT_FIRST)"

definition next_op :: "onewire_driver \<Rightarrow> onewire_driver" where
  "next_op d = d\<lparr>seq_state := OW_SEQ_STATE_TRANSITION, op_type := seq_arr d ! Suc (unat (seq_pos d)), cur_op := 0,
     seq_pos := seq_pos d + 1\<rparr>"

text \<open>What an operation needs of its surroundings: it is not the last one.\<close>

definition has_next :: "onewire_driver \<Rightarrow> bool" where
  "has_next d \<longleftrightarrow> unat (seq_pos d + 1) = Suc (unat (seq_pos d)) \<and> Suc (unat (seq_pos d)) < length (seq_arr d) \<and>
     unat (seq_len d) = length (seq_arr d)"

lemma write_event:
  assumes "seq_state (drv w) = OW_SEQ_STATE_STARTED" "op_type (drv w) = OW_OP_WRITE"
    "write_switch w = Some w1" "cur_op (drv w1) \<noteq> OW_WRITE_OP_DONE" "seq_state (drv w1) = OW_SEQ_STATE_STARTED"
  shows "one_wire_event apb lv w = Some (arm_hw apb w1)"
  using assms by (simp add: one_wire_event_def OW_doit_def doit_op_def begin_op_def OW_doit_write_def finish_op_def
      doit_seq_def Let_def)

lemma mask_test:
  assumes "i < 8"
  shows "(2 ^ i :: u8) AND v = 0 \<longleftrightarrow> \<not> bit v i"
  using and_exp_eq_0_iff_not_bit [of v i] by (simp add: and.commute)

lemma write_tick:
  assumes "writing d v i (bit_op v i) (of_nat (Suc (Suc k))) w" "k \<le> 4"
  shows "\<exists>w'. one_wire_event apb lv w = Some w' \<and> writing d v i (bit_op v i) (of_nat (Suc k)) w' \<and>
    ow_log w' = ow_log w @ (if bit v i \<and> k = 4 then [Line_set True] else [])"
proof -
  have c: "(of_nat (Suc (Suc k)) :: u8) - 1 = of_nat (Suc k)" by simp
  have nz: "(of_nat (Suc k) :: u8) \<noteq> 0"
  proof
    assume "(of_nat (Suc k) :: u8) = 0"
    then have "unat (of_nat (Suc k) :: u8) = 0" by simp
    then show False using assms(2) unat_of_nat_small [of "Suc k", where 'a = 8] by simp
  qed
  have six: "(of_nat (Suc (Suc k)) :: u8) = 6 \<longleftrightarrow> k = 4"
  proof -
    have "(of_nat (Suc (Suc k)) :: u8) = 6 \<longleftrightarrow> unat (of_nat (Suc (Suc k)) :: u8) = unat (6 :: u8)"
      by (rule word_unat_eq_iff)
    moreover have "unat (of_nat (Suc (Suc k)) :: u8) = Suc (Suc k)"
      by (rule unat_of_nat_small) (use assms(2) in simp)
    ultimately show ?thesis by simp
  qed
  show ?thesis
    using assms(1) nz six unfolding writing_def
    by (intro exI [of _ "arm_hw apb (the (write_switch w))"] conjI)
      (auto simp: bit_op_def write_switch_def Let_def c simp del: of_nat_Suc intro!: write_event split: if_splits)
qed

lemma write_last_tick:
  assumes "writing d v i (bit_op v i) 1 w"
  shows "\<exists>w'. one_wire_event apb lv w = Some w' \<and> writing d v i OW_WRITE_OP_FINALLY 0 w' \<and>
    ow_log w' = ow_log w @ (if bit v i then [] else [Line_set True])"
  using assms unfolding writing_def
  by (intro exI [of _ "arm_hw apb (the (write_switch w))"] conjI)
    (auto simp: bit_op_def write_switch_def Let_def intro!: write_event split: if_splits)

lemma write_slot:
  assumes "writing d v i (bit_op v i) (of_nat (Suc k)) w" "k \<le> 5" "length lvs = Suc k"
  shows "\<exists>w'. ow_trace apb w lvs = Some (w', drop (5 - k) (slot_rest (bit v i))) \<and> writing d v i OW_WRITE_OP_FINALLY 0 w'"
  using assms
proof (induction k arbitrary: w lvs)
  case 0
  then obtain lv where "lvs = [lv]" by (cases lvs) auto
  then show ?case using write_last_tick [of d v i w apb lv] "0.prems"(1)
    by (auto simp: slot_rest_def numeral_eq_Suc)
next
  case (Suc k)
  then obtain lv ls where l: "lvs = lv # ls" "length ls = Suc k" by (cases lvs) auto
  obtain w1 where w1: "one_wire_event apb lv w = Some w1" "writing d v i (bit_op v i) (of_nat (Suc k)) w1"
      "ow_log w1 = ow_log w @ (if bit v i \<and> k = 4 then [Line_set True] else [])"
    using write_tick [OF Suc.prems(1), of apb lv] Suc.prems(2) by auto
  obtain w' where w': "ow_trace apb w1 ls = Some (w', drop (5 - k) (slot_rest (bit v i)))" "writing d v i OW_WRITE_OP_FINALLY 0 w'"
    using Suc.IH [OF w1(2) _ l(2)] Suc.prems(2) by auto
  have "k = 0 \<or> k = 1 \<or> k = 2 \<or> k = 3 \<or> k = 4" using Suc.prems(2) by linarith
  then have "(if bit v i \<and> k = 4 then [Line_set True] else []) # drop (5 - k) (slot_rest (bit v i)) =
      drop (5 - Suc k) (slot_rest (bit v i))"
    by (elim disjE) (simp_all add: slot_rest_def numeral_eq_Suc)
  then show ?case using ow_trace_ConsI [OF w1(1,3) w'(1)] w'(2) l(1) by auto
qed

lemma write_next_bit:
  assumes "writing d v i OW_WRITE_OP_FINALLY 0 w" "i < 7"
  shows "\<exists>w'. one_wire_event apb lv w = Some w' \<and> writing d v (Suc i) (bit_op v (Suc i)) 6 w' \<and>
    ow_log w' = ow_log w @ [Line_set False]"
proof -
  have m: "push_bit 1 (2 ^ i :: u8) = 2 ^ Suc i" by (simp add: push_bit_eq_mult)
  have nz: "(2 ^ Suc i :: u8) \<noteq> 0" by (rule word_exp_nz) (use assms(2) in simp)
  define w1 where "w1 = write_line_low (w\<lparr>w_bitMask := 2 ^ Suc i\<rparr>)"
  have t: "(2 ^ Suc i :: u8) AND v = 0 \<longleftrightarrow> \<not> bit v (Suc i)" by (rule mask_test) (use assms(2) in simp)
  have d1: "drv w1 = d\<lparr>seq_state := OW_SEQ_STATE_STARTED, op_type := OW_OP_WRITE, cur_op := bit_op v (Suc i), delay_count := 6\<rparr>"
    using assms(1) t by (simp add: w1_def write_line_low_def writing_def bit_op_def del: power_Suc)
  have "write_switch w = Some w1"
    using assms(1) nz m by (simp add: write_switch_def Let_def writing_def w1_def del: power_Suc)
  then have "one_wire_event apb lv w = Some (arm_hw apb w1)"
    using assms(1) d1 by (intro write_event) (auto simp: writing_def bit_op_def)
  moreover have "writing d v (Suc i) (bit_op v (Suc i)) 6 (arm_hw apb w1)"
    using assms(1) d1 by (simp add: writing_def w1_def write_line_low_def del: power_Suc)
  moreover have "ow_log (arm_hw apb w1) = ow_log w @ [Line_set False]" by (simp add: w1_def write_line_low_def)
  ultimately show ?thesis by blast
qed

lemma write_done:
  assumes "writing d v 7 OW_WRITE_OP_FINALLY 0 w" "has_next d"
  shows "\<exists>w'. one_wire_event apb lv w = Some w' \<and> drv w' = (next_op d)\<lparr>delay_count := 0\<rparr> \<and> ow_log w' = ow_log w"
proof -
  have m: "push_bit 1 (2 ^ 7 :: u8) = 0" by simp
  have le: "\<not> seq_len d \<le> seq_pos d + 1" using assms(2) by (simp add: has_next_def word_le_nat_alt)
  have "at (seq_arr d) (seq_pos d + 1) = Some (seq_arr d ! Suc (unat (seq_pos d)))"
    using assms(2) by (simp add: has_next_def at_def)
  then show ?thesis
    using assms(1) le m unfolding writing_def
    by (simp add: one_wire_event_def OW_doit_def doit_op_def begin_op_def OW_doit_write_def write_switch_def finish_op_def
        doit_seq_def Let_def next_op_def)
qed

definition wave_from :: "u8 \<Rightarrow> nat \<Rightarrow> ow_ev list list" where
  "wave_from v i = concat (map (\<lambda>j. slot_rest (bit v j) @ [if j < 7 then [Line_set False] else []]) [i..<8])"

lemma write_wave_from: "write_wave v = [] # [Line_set False] # wave_from v 0"
  by (simp add: write_wave_def wave_from_def upt_conv_Cons)

lemma write_bits:
  assumes "writing d v i (bit_op v i) 6 w" "i < 8" "has_next d" "length lvs = 7 * (8 - i)"
  shows "\<exists>w'. ow_trace apb w lvs = Some (w', wave_from v i) \<and> drv w' = (next_op d)\<lparr>delay_count := 0\<rparr>"
  using assms
proof (induction "7 - i" arbitrary: i w lvs)
  case 0
  then have i: "i = 7" by simp
  have ls: "lvs = take 6 lvs @ [lvs ! 6]" "length (take 6 lvs) = Suc 5"
    using 0(5) i by (simp_all add: take_Suc_conv_app_nth [of 6 lvs, symmetric])
  obtain w1 where w1: "ow_trace apb w (take 6 lvs) = Some (w1, slot_rest (bit v i))" "writing d v i OW_WRITE_OP_FINALLY 0 w1"
    using write_slot [of d v i 5 w "take 6 lvs" apb] 0(2) ls(2) by auto
  obtain w2 where w2: "one_wire_event apb (lvs ! 6) w1 = Some w2" "drv w2 = (next_op d)\<lparr>delay_count := 0\<rparr>" "ow_log w2 = ow_log w1"
    using write_done [of d v w1 apb "lvs ! 6"] w1(2) 0(4) i by auto
  have "ow_trace apb w1 [lvs ! 6] = Some (w2, [[]])" using w2 by simp
  then have "ow_trace apb w lvs = Some (w2, slot_rest (bit v i) @ [[]])"
    using ow_trace_appendI [OF w1(1)] ls(1) by metis
  then show ?case using w2(2) i by (simp add: wave_from_def)
next
  case (Suc n)
  then have i: "i < 7" by simp
  have ls: "lvs = take 6 lvs @ lvs ! 6 # drop 7 lvs" "length (take 6 lvs) = Suc 5" "length (drop 7 lvs) = 7 * (8 - Suc i)"
    using Suc.prems(4) i id_take_nth_drop [of 6 lvs] by simp_all
  obtain w1 where w1: "ow_trace apb w (take 6 lvs) = Some (w1, slot_rest (bit v i))" "writing d v i OW_WRITE_OP_FINALLY 0 w1"
    using write_slot [of d v i 5 w "take 6 lvs" apb] Suc.prems(1) ls(2) by auto
  obtain w2 where w2: "one_wire_event apb (lvs ! 6) w1 = Some w2" "writing d v (Suc i) (bit_op v (Suc i)) 6 w2"
      "ow_log w2 = ow_log w1 @ [Line_set False]"
    using write_next_bit [OF w1(2) i] by blast
  obtain w' where w': "ow_trace apb w2 (drop 7 lvs) = Some (w', wave_from v (Suc i))" "drv w' = (next_op d)\<lparr>delay_count := 0\<rparr>"
    using Suc.hyps(1) [of "Suc i" w2 "drop 7 lvs"] w2(2) Suc.hyps(2) Suc.prems(3) ls(3) i by fastforce
  have "ow_trace apb w lvs = Some (w', slot_rest (bit v i) @ [Line_set False] # wave_from v (Suc i))"
    using ow_trace_appendI [OF w1(1) ow_trace_ConsI [OF w2(1,3) w'(1)]] ls(1) by metis
  moreover have "wave_from v i = slot_rest (bit v i) @ [Line_set False] # wave_from v (Suc i)"
    using i by (simp add: wave_from_def upt_conv_Cons)
  ultimately show ?case using w'(2) by simp
qed

lemma write_byte_trace:
  assumes "seq_state (drv w) = OW_SEQ_STATE_TRANSITION" "op_type (drv w) = OW_OP_WRITE"
    "at (arg_arr (drv w)) (seq_pos (drv w)) = Some v" "has_next (drv w)" "length lvs = 58"
  shows "\<exists>w'. ow_trace apb w lvs = Some (w', write_wave v) \<and> drv w' = (next_op (drv w))\<lparr>delay_count := 0\<rparr>"
proof -
  define d where "d = drv w"
  obtain l0 l1 ls where l: "lvs = l0 # l1 # ls" "length ls = 7 * (8 - 0)"
    using assms(5) by (cases lvs; cases "tl lvs") auto
  define w1 where "w1 = arm_hw apb (on_drv (\<lambda>d. d\<lparr>seq_state := OW_SEQ_STATE_STARTED, cur_op := OW_WRITE_OP_LINE_LOW\<rparr>)
      (w\<lparr>w_data := v, w_bitMask := 1\<rparr>))"
  have e0: "one_wire_event apb l0 w = Some w1"
    using assms(1-3)
    by (simp add: one_wire_event_def OW_doit_def doit_op_def begin_op_def OW_doit_write_def write_switch_def finish_op_def
        doit_seq_def Let_def w1_def on_drv_def arm_hw_def)
  define w2 where "w2 = arm_hw apb (write_line_low w1)"
  have b: "(1 :: u8) AND v = 0 \<longleftrightarrow> \<not> bit v 0" using mask_test [of 0 v] by simp
  have e1: "one_wire_event apb l1 w1 = Some w2"
    unfolding w2_def by (rule write_event) (use assms(2) in \<open>simp_all add: w1_def write_switch_def write_line_low_def Let_def\<close>)
  have "writing d v 0 (bit_op v 0) 6 w2"
    using assms(2) b by (simp add: writing_def w2_def w1_def write_line_low_def d_def bit_op_def)
  then obtain w' where w': "ow_trace apb w2 ls = Some (w', wave_from v 0)" "drv w' = (next_op d)\<lparr>delay_count := 0\<rparr>"
    using write_bits [of d v 0 w2 ls apb] assms(4) l(2) by (auto simp: d_def)
  have "ow_log w1 = ow_log w @ []" "ow_log w2 = ow_log w1 @ [Line_set False]"
    by (simp_all add: w1_def w2_def write_line_low_def)
  from ow_trace_ConsI [OF e0 this(1) ow_trace_ConsI [OF e1 this(2) w'(1)]]
  show ?thesis using w'(2) by (simp add: l(1) write_wave_from d_def)
qed

section \<open>Properties\<close>

text \<open>
  C19. Writing a byte: when the sequence reaches a write operation with argument \<open>v\<close>, the next 58 ticks,
  whatever the bus level, put the eight bits of \<open>v\<close> on the bus, least significant first, each in a slot
  of 70 us that pulls the line low for 10 us for a one and for 60 us for a zero; then the driver is at
  the next operation of the sequence and nothing else of it has changed.
\<close>

theorem onewire_write_byte:
  assumes "seq_state (drv w) = OW_SEQ_STATE_TRANSITION" "op_type (drv w) = OW_OP_WRITE"
    "at (arg_arr (drv w)) (seq_pos (drv w)) = Some v" "has_next (drv w)" "length lvs = 58"
  shows "\<exists>w'. ow_trace apb w lvs = Some (w', write_wave v) \<and> drv w' = (next_op (drv w))\<lparr>delay_count := 0\<rparr>"
  using assms by (rule write_byte_trace)

definition conv_world :: ow_world where
  "conv_world = on_drv (\<lambda>d. d\<lparr>seq_arr := ds_seqs ! 2, arg_arr := ds_seq_args ! 2, seq_len := 4,
     seq_state := OW_SEQ_STATE_TRANSITION, seq_pos := 1, op_type := OW_OP_WRITE\<rparr>) cold_world"

theorem onewire_write_byte_witness:
  "\<exists>w'. ow_trace 80000000 conv_world (replicate 58 True) = Some (w', write_wave 0xCC) \<and>
    drv w' = (next_op (drv conv_world))\<lparr>delay_count := 0\<rparr>"
  by (rule onewire_write_byte)
    (simp_all add: conv_world_def at_def has_next_def ds_seqs_def ds_seq_args_def)

end
