(* ===== verification/Onewire_Read.thy ===== *)
theory Onewire_Read
  imports Onewire_Wave
begin

text \<open>
  Reading bytes with the one-wire driver, tick by tick.
\<close>

section \<open>Reading bytes\<close>

text \<open>The events that open a read slot.\<close>

definition slot_open :: "ow_ev list" where
  "slot_open = [Line_set False, Delay_us 1, Line_release]"

text \<open>The driver in a read operation; \<open>d\<close> is the driver when it began, \<open>S\<close> the scratchpad so far.\<close>

definition in_read :: "onewire_driver \<Rightarrow> u8 list \<Rightarrow> u8 \<Rightarrow> u8 \<Rightarrow> u8 \<Rightarrow> u8 \<Rightarrow> nat \<Rightarrow> nat \<Rightarrow> ow_world \<Rightarrow> bool" where
  "in_read d S op c mk dat k n w \<longleftrightarrow>
     drv w = d\<lparr>seq_state := OW_SEQ_STATE_STARTED, op_type := OW_OP_READ, cur_op := op, delay_count := c, spad_buf := S\<rparr> \<and>
     r_bitMask w = mk \<and> r_data w = dat \<and> r_readCount w = of_nat k \<and> r_readsLeft w = of_nat (n - k)"

lemma read_event:
  assumes "seq_state (drv w) = OW_SEQ_STATE_STARTED" "op_type (drv w) = OW_OP_READ"
    "read_switch lv w = Some w1" "cur_op (drv w1) \<noteq> OW_READ_OP_DONE" "seq_state (drv w1) = OW_SEQ_STATE_STARTED"
  shows "one_wire_event apb lv w = Some (arm_hw apb w1)"
  using assms by (simp add: one_wire_event_def OW_doit_def doit_op_def begin_op_def OW_doit_read_def finish_op_def
      doit_seq_def Let_def)

lemma read_sample:
  assumes "in_read d S OW_READ_OP_SAMPLE c mk dat k n w"
  shows "\<exists>w'. one_wire_event apb lv w = Some w' \<and>
    in_read d S OW_READ_OP_WAIT_50 4 (push_bit 1 mk) (if lv then dat OR mk else dat) k n w' \<and> ow_log w' = ow_log w @ []"
  using assms unfolding in_read_def
  by (intro exI [of _ "arm_hw apb (the (read_switch lv w))"] conjI)
    (simp_all add: read_switch_def Let_def read_event)

lemma read_wait:
  assumes "in_read d S OW_READ_OP_WAIT_50 c mk dat k n w" "c \<noteq> 1"
  shows "\<exists>w'. one_wire_event apb lv w = Some w' \<and> in_read d S OW_READ_OP_WAIT_50 (c - 1) mk dat k n w' \<and>
    ow_log w' = ow_log w @ []"
  using assms unfolding in_read_def
  by (intro exI [of _ "arm_hw apb (the (read_switch lv w))"] conjI)
    (simp_all add: read_switch_def Let_def read_event)

lemma read_reopen:
  assumes "in_read d S OW_READ_OP_WAIT_50 1 mk dat k n w" "mk \<noteq> 0"
  shows "\<exists>w'. one_wire_event apb lv w = Some w' \<and> in_read d S OW_READ_OP_SAMPLE 0 mk dat k n w' \<and>
    ow_log w' = ow_log w @ slot_open"
  using assms unfolding in_read_def
  by (intro exI [of _ "arm_hw apb (the (read_switch lv w))"] conjI)
    (simp_all add: read_switch_def Let_def read_event read_line_low_def slot_open_def)

text \<open>Four of the five ticks of a bit: the sample and three waits.\<close>

lemma read_bit_start:
  assumes "in_read d S OW_READ_OP_SAMPLE c mk dat k n w"
  shows "\<exists>w'. ow_trace apb w [lv, a1, a2, a3] = Some (w', [[], [], [], []]) \<and>
    in_read d S OW_READ_OP_WAIT_50 1 (push_bit 1 mk) (if lv then dat OR mk else dat) k n w'"
proof -
  define D where "D = (if lv then dat OR mk else dat)"
  obtain w1 where w1: "one_wire_event apb lv w = Some w1" "in_read d S OW_READ_OP_WAIT_50 4 (push_bit 1 mk) D k n w1"
      "ow_log w1 = ow_log w @ []" using read_sample [OF assms, of apb lv] unfolding D_def by blast
  obtain w2 where w2: "one_wire_event apb a1 w1 = Some w2" "in_read d S OW_READ_OP_WAIT_50 3 (push_bit 1 mk) D k n w2"
      "ow_log w2 = ow_log w1 @ []" using read_wait [OF w1(2), of apb a1] by auto
  obtain w3 where w3: "one_wire_event apb a2 w2 = Some w3" "in_read d S OW_READ_OP_WAIT_50 2 (push_bit 1 mk) D k n w3"
      "ow_log w3 = ow_log w2 @ []" using read_wait [OF w2(2), of apb a2] by auto
  obtain w4 where w4: "one_wire_event apb a3 w3 = Some w4" "in_read d S OW_READ_OP_WAIT_50 1 (push_bit 1 mk) D k n w4"
      "ow_log w4 = ow_log w3 @ []" using read_wait [OF w3(2), of apb a3] by auto
  show ?thesis
    using w4(2) ow_trace_ConsI [OF w1(1,3) ow_trace_ConsI [OF w2(1,3) ow_trace_ConsI [OF w3(1,3)
        ow_trace_ConsI [OF w4(1,3) ow_trace.simps(1)]]]]
    unfolding D_def by blast
qed

lemma read_bit_more:
  assumes "in_read d S OW_READ_OP_SAMPLE c mk dat k n w" "push_bit 1 mk \<noteq> 0"
  shows "\<exists>w'. ow_trace apb w [lv, a1, a2, a3, a4] = Some (w', [[], [], [], [], slot_open]) \<and>
    in_read d S OW_READ_OP_SAMPLE 0 (push_bit 1 mk) (if lv then dat OR mk else dat) k n w'"
proof -
  obtain w1 where w1: "ow_trace apb w [lv, a1, a2, a3] = Some (w1, [[], [], [], []])"
      "in_read d S OW_READ_OP_WAIT_50 1 (push_bit 1 mk) (if lv then dat OR mk else dat) k n w1"
    using read_bit_start [OF assms(1)] by blast
  obtain w2 where w2: "one_wire_event apb a4 w1 = Some w2"
      "in_read d S OW_READ_OP_SAMPLE 0 (push_bit 1 mk) (if lv then dat OR mk else dat) k n w2"
      "ow_log w2 = ow_log w1 @ slot_open"
    using read_reopen [OF w1(2) assms(2)] by blast
  show ?thesis using w2(2) ow_trace_appendI [OF w1(1), of "[a4]" w2 "[slot_open]"] w2(1,3) by auto
qed

text \<open>The levels of one byte: forty ticks, of which every fifth is the sampling tick of a bit.\<close>

definition byte_levels :: "u8 \<Rightarrow> bool list \<Rightarrow> bool" where
  "byte_levels b lvs \<longleftrightarrow> length lvs = 40 \<and> (\<forall>j < 8. lvs ! (5 * j) = bit b j)"

lemma take_bit_step:
  fixes b :: u8
  shows "(if bit b i then take_bit i b OR 2 ^ i else take_bit i b) = take_bit (Suc i) b"
  by (rule bit_word_eqI) (auto simp: bit_simps less_Suc_eq)

lemma list_of_5: "length xs = 5 \<Longrightarrow> \<exists>a b c d e. xs = [a, b, c, d, e]"
  by (auto simp: length_Suc_conv numeral_eq_Suc)

text \<open>Bits \<open>i\<close> to 6 of a byte, every one followed by the opening of the next slot.\<close>

lemma read_bits:
  assumes "in_read d S OW_READ_OP_SAMPLE c (2 ^ i) (take_bit i b) k n w" "i + r = 7"
    "length lvs = 5 * r" "\<forall>j < r. lvs ! (5 * j) = bit b (i + j)"
  shows "\<exists>w' c'. ow_trace apb w lvs = Some (w', concat (replicate r [[], [], [], [], slot_open])) \<and>
    in_read d S OW_READ_OP_SAMPLE c' (2 ^ 7) (take_bit 7 b) k n w'"
  using assms
proof (induction r arbitrary: i w lvs c)
  case 0
  then show ?case by auto
next
  case (Suc r)
  obtain lv a1 a2 a3 a4 ls where l: "lvs = [lv, a1, a2, a3, a4] @ ls" "length ls = 5 * r"
  proof -
    have t: "lvs = take 5 lvs @ drop 5 lvs" "length (take 5 lvs) = 5" "length (drop 5 lvs) = 5 * r"
      using Suc.prems(3) by simp_all
    from list_of_5 [OF t(2)] obtain lv a1 a2 a3 a4 where "take 5 lvs = [lv, a1, a2, a3, a4]" by blast
    then show thesis using that t(1,3) by metis
  qed
  have lv: "lv = bit b i" using Suc.prems(4) l(1) by fastforce
  have m: "push_bit 1 (2 ^ i :: u8) = 2 ^ Suc i" by (simp add: push_bit_eq_mult)
  have nz: "push_bit 1 (2 ^ i :: u8) \<noteq> 0" unfolding m by (rule word_exp_nz) (use Suc.prems(2) in simp)
  obtain w1 where w1: "ow_trace apb w [lv, a1, a2, a3, a4] = Some (w1, [[], [], [], [], slot_open])"
      "in_read d S OW_READ_OP_SAMPLE 0 (2 ^ Suc i) (take_bit (Suc i) b) k n w1"
    using read_bit_more [OF Suc.prems(1) nz, of apb lv a1 a2 a3 a4] take_bit_step [of b i] unfolding lv m by auto
  have "\<forall>j < r. ls ! (5 * j) = bit b (Suc i + j)"
  proof (intro allI impI)
    fix j assume "j < r"
    then have "lvs ! (5 * Suc j) = bit b (i + Suc j)" using Suc.prems(4) by blast
    moreover have "lvs ! (5 * Suc j) = ls ! (5 * j)" by (simp add: l(1) nth_append)
    ultimately show "ls ! (5 * j) = bit b (Suc i + j)" by simp
  qed
  then obtain w' c' where w': "ow_trace apb w1 ls = Some (w', concat (replicate r [[], [], [], [], slot_open]))"
      "in_read d S OW_READ_OP_SAMPLE c' (2 ^ 7) (take_bit 7 b) k n w'"
    using Suc.IH [OF w1(2), of ls] Suc.prems(2) l(2) by auto
  show ?case using w'(2) ow_trace_appendI [OF w1(1) w'(1)] l(1) by auto
qed

lemma readsLeft_step:
  assumes "k < n" "n \<le> 255"
  shows "(of_nat (n - k) :: u8) - 1 = of_nat (n - Suc k)" "(of_nat (n - Suc k) :: u8) = 0 \<longleftrightarrow> Suc k = n"
proof -
  have "n - k = Suc (n - Suc k)" using assms(1) by simp
  then show "(of_nat (n - k) :: u8) - 1 = of_nat (n - Suc k)" by simp
  have "unat (of_nat (n - Suc k) :: u8) = n - Suc k" by (rule unat_of_nat_small) (use assms in simp)
  then have "(of_nat (n - Suc k) :: u8) = 0 \<longleftrightarrow> n - Suc k = 0" by (metis unat_eq_zero)
  then show "(of_nat (n - Suc k) :: u8) = 0 \<longleftrightarrow> Suc k = n" using assms(1) by auto
qed

text \<open>The last tick of a byte stores it; then the next byte begins, or the operation is over.\<close>

lemma read_store_more:
  assumes "in_read d S OW_READ_OP_WAIT_50 1 0 b k n w" "k < length S" "Suc k < n" "n \<le> 255"
  shows "\<exists>w'. one_wire_event apb lv w = Some w' \<and> in_read d (S[k := b]) OW_READ_OP_SAMPLE 0 1 0 (Suc k) n w' \<and>
    ow_log w' = ow_log w @ slot_open"
proof -
  have k: "unat (of_nat k :: u8) = k" by (rule unat_of_nat_small) (use assms in simp)
  have r: "(of_nat (n - k) :: u8) - 1 = of_nat (n - Suc k)" "(of_nat (n - Suc k) :: u8) \<noteq> 0"
    using readsLeft_step [of k n] assms(3,4) by simp_all
  show ?thesis
    using assms(1,2) k r unfolding in_read_def
    by (intro exI [of _ "arm_hw apb (the (read_switch lv w))"] conjI)
      (simp_all add: read_switch_def Let_def read_event read_line_low_def slot_open_def)
qed

lemma read_store_last:
  assumes "in_read d S OW_READ_OP_WAIT_50 1 0 b k n w" "k < length S" "Suc k = n" "n \<le> 255" "has_next d"
  shows "\<exists>w'. one_wire_event apb lv w = Some w' \<and> drv w' = (next_op d)\<lparr>delay_count := 0, spad_buf := S[k := b]\<rparr> \<and>
    ow_log w' = ow_log w @ []"
proof -
  have k: "unat (of_nat k :: u8) = k" by (rule unat_of_nat_small) (use assms in simp)
  have r: "(of_nat (n - k) :: u8) - 1 = 0" using assms(3) by auto
  have le: "\<not> seq_len d \<le> seq_pos d + 1" using assms(5) by (simp add: has_next_def word_le_nat_alt)
  have at: "at (seq_arr d) (seq_pos d + 1) = Some (seq_arr d ! Suc (unat (seq_pos d)))"
    using assms(5) by (simp add: has_next_def at_def)
  show ?thesis
    using assms(1,2) k r le at unfolding in_read_def
    by (simp add: one_wire_event_def OW_doit_def doit_op_def begin_op_def OW_doit_read_def read_switch_def finish_op_def
        doit_seq_def Let_def next_op_def)
qed

definition byte_wave :: "ow_ev list list" where
  "byte_wave = concat (replicate 7 [[], [], [], [], slot_open])"

lemma read_byte_bits:
  assumes "in_read d S OW_READ_OP_SAMPLE c 1 0 k n w" "byte_levels b lvs"
  shows "\<exists>w'. ow_trace apb w (take 39 lvs) = Some (w', byte_wave @ replicate 4 []) \<and> in_read d S OW_READ_OP_WAIT_50 1 0 b k n w'"
proof -
  have len: "length lvs = 40" and lv: "\<And>j. j < 8 \<Longrightarrow> lvs ! (5 * j) = bit b j" using assms(2) by (auto simp: byte_levels_def)
  have "\<forall>j < 7. take 35 lvs ! (5 * j) = bit b (0 + j)" using lv by simp
  then obtain w1 c' where w1: "ow_trace apb w (take 35 lvs) = Some (w1, byte_wave)"
      "in_read d S OW_READ_OP_SAMPLE c' (2 ^ 7) (take_bit 7 b) k n w1"
    using read_bits [of d S c 0 b k n w 7 "take 35 lvs" apb] assms(1) len by (auto simp: byte_wave_def)
  have four: "take 4 (drop 35 lvs) = [lvs ! 35, lvs ! 36, lvs ! 37, lvs ! 38]"
    using len by (simp add: list_eq_iff_nth_eq nth_Cons less_Suc_eq numeral_eq_Suc)
  have m7: "push_bit 1 (2 ^ 7 :: u8) = 0" by simp
  have lv7: "lvs ! 35 = bit b 7" using lv [of 7] by simp
  have b7: "(if bit b 7 then take_bit 7 b OR 2 ^ 7 else take_bit 7 b) = b"
    using take_bit_step [of b 7] by (simp add: take_bit_word_eq_self)
  obtain w2 where w2: "ow_trace apb w1 [lvs ! 35, lvs ! 36, lvs ! 37, lvs ! 38] = Some (w2, [[], [], [], []])"
      "in_read d S OW_READ_OP_WAIT_50 1 0 b k n w2"
    using read_bit_start [OF w1(2), of apb "lvs ! 35" "lvs ! 36" "lvs ! 37" "lvs ! 38"] unfolding lv7 m7 b7 by blast
  have "take 39 lvs = take 35 lvs @ take 4 (drop 35 lvs)" by (simp flip: take_add)
  then show ?thesis using ow_trace_appendI [OF w1(1) w2(1)] w2(2) four by (auto simp: numeral_eq_Suc)
qed

lemma read_bytes:
  assumes "in_read d S OW_READ_OP_SAMPLE c 1 0 k n w" "list_all2 byte_levels bs lss" "bs \<noteq> []"
    "k + length bs = n" "n \<le> length S" "n \<le> 255" "has_next d"
  shows "\<exists>w' es. ow_trace apb w (concat lss) = Some (w', es) \<and>
    drv w' = (next_op d)\<lparr>delay_count := 0, spad_buf := take k S @ bs @ drop n S\<rparr>"
  using assms
proof (induction bs arbitrary: S c k w lss)
  case Nil
  then show ?case by simp
next
  case (Cons b bs)
  obtain lvs lss' where l: "lss = lvs # lss'" "byte_levels b lvs" "list_all2 byte_levels bs lss'"
    using Cons.prems(2) by (auto simp: list_all2_Cons1)
  have len: "lvs = take 39 lvs @ [lvs ! 39]"
    using l(2) take_Suc_conv_app_nth [of 39 lvs] by (simp add: byte_levels_def)
  obtain w1 where w1: "ow_trace apb w (take 39 lvs) = Some (w1, byte_wave @ replicate 4 [])"
      "in_read d S OW_READ_OP_WAIT_50 1 0 b k n w1"
    using read_byte_bits [OF Cons.prems(1) l(2)] by blast
  have k: "k < length S" "k < n" using Cons.prems(4,5) by simp_all
  show ?case
  proof (cases "bs = []")
    case True
    then have n: "Suc k = n" using Cons.prems(4) by simp
    obtain w' where w': "one_wire_event apb (lvs ! 39) w1 = Some w'"
        "drv w' = (next_op d)\<lparr>delay_count := 0, spad_buf := S[k := b]\<rparr>" "ow_log w' = ow_log w1 @ []"
      using read_store_last [OF w1(2) k(1) n Cons.prems(6,7)] by blast
    have "ow_trace apb w1 [lvs ! 39] = Some (w', [[]])" using w' by simp
    then have "ow_trace apb w lvs = Some (w', byte_wave @ replicate 4 [] @ [[]])"
      using ow_trace_appendI [OF w1(1)] len by (metis append.assoc)
    moreover have "S[k := b] = take k S @ [b] @ drop n S" using k n by (simp add: upd_conv_take_nth_drop)
    moreover have "lss' = []" using l(3) True by simp
    ultimately show ?thesis using True w'(2) l(1) by auto
  next
    case False
    then have n: "Suc k < n" using Cons.prems(4) by (cases bs) auto
    obtain w2 where w2: "one_wire_event apb (lvs ! 39) w1 = Some w2"
        "in_read d (S[k := b]) OW_READ_OP_SAMPLE 0 1 0 (Suc k) n w2" "ow_log w2 = ow_log w1 @ slot_open"
      using read_store_more [OF w1(2) k(1) n Cons.prems(6)] by blast
    have "ow_trace apb w1 [lvs ! 39] = Some (w2, [slot_open])" using w2 by simp
    then have t: "ow_trace apb w lvs = Some (w2, (byte_wave @ replicate 4 []) @ [slot_open])"
      using ow_trace_appendI [OF w1(1)] len by metis
    obtain w' es where w': "ow_trace apb w2 (concat lss') = Some (w', es)"
        "drv w' = (next_op d)\<lparr>delay_count := 0, spad_buf := take (Suc k) (S[k := b]) @ bs @ drop n (S[k := b])\<rparr>"
      using Cons.IH [OF w2(2) l(3) False] Cons.prems(4-7) by auto
    have "take (Suc k) (S[k := b]) = take k S @ [b]" "drop n (S[k := b]) = drop n S"
      using k by (simp_all add: take_Suc_conv_app_nth)
    then show ?thesis using w' ow_trace_appendI [OF t w'(1)] l(1) by auto
  qed
qed

lemma read_bytes_trace:
  assumes "seq_state (drv w) = OW_SEQ_STATE_TRANSITION" "op_type (drv w) = OW_OP_READ"
    "at (arg_arr (drv w)) (seq_pos (drv w)) = Some (of_nat n)" "has_next (drv w)"
    "list_all2 byte_levels bs lss" "length bs = n" "0 < n" "n \<le> length (spad_buf (drv w))" "n \<le> 255"
  shows "\<exists>w' es. ow_trace apb w (l0 # concat lss) = Some (w', es) \<and>
    drv w' = (next_op (drv w))\<lparr>delay_count := 0, spad_buf := bs @ drop n (spad_buf (drv w))\<rparr>"
proof -
  define d where "d = drv w"
  define w1 where "w1 = arm_hw apb (read_line_low ((on_drv (\<lambda>d. d\<lparr>seq_state := OW_SEQ_STATE_STARTED, cur_op := OW_READ_OP_INIT\<rparr>) w)
      \<lparr>r_bitMask := 1, r_readCount := 0, r_data := 0, r_readsLeft := of_nat n\<rparr>))"
  have e: "one_wire_event apb l0 w = Some w1"
    using assms(1-3)
    by (simp add: one_wire_event_def OW_doit_def doit_op_def begin_op_def OW_doit_read_def read_switch_def finish_op_def
        doit_seq_def Let_def w1_def read_line_low_def)
  have "in_read d (spad_buf d) OW_READ_OP_SAMPLE (delay_count d) 1 0 0 n w1"
    using assms(2) by (simp add: in_read_def w1_def read_line_low_def d_def)
  moreover have "bs \<noteq> []" "0 + length bs = n" using assms(6,7) by auto
  ultimately obtain w' es where w': "ow_trace apb w1 (concat lss) = Some (w', es)"
      "drv w' = (next_op d)\<lparr>delay_count := 0, spad_buf := take 0 (spad_buf d) @ bs @ drop n (spad_buf d)\<rparr>"
    using read_bytes [OF _ assms(5), of d "spad_buf d" "delay_count d" 0 n w1 apb] assms(4,8,9) unfolding d_def by blast
  then show ?thesis using e by (auto simp: d_def)
qed

section \<open>Properties\<close>

text \<open>
  C20. Reading bytes: when the sequence reaches a read operation of \<open>n\<close> bytes, and at the sampling tick of
  every bit the bus shows that bit of the device's bytes, least significant first, then after
  \<open>1 + 40 n\<close> ticks the scratchpad starts with exactly these bytes, its remaining cells are as before, and
  the driver is at the next operation. The levels at all other ticks do not matter.
\<close>

theorem onewire_read_bytes:
  assumes "seq_state (drv w) = OW_SEQ_STATE_TRANSITION" "op_type (drv w) = OW_OP_READ"
    "at (arg_arr (drv w)) (seq_pos (drv w)) = Some (of_nat n)" "has_next (drv w)"
    "list_all2 byte_levels bs lss" "length bs = n" "0 < n" "n \<le> length (spad_buf (drv w))" "n \<le> 255"
  shows "\<exists>w' es. ow_trace apb w (l0 # concat lss) = Some (w', es) \<and>
    drv w' = (next_op (drv w))\<lparr>delay_count := 0, spad_buf := bs @ drop n (spad_buf (drv w))\<rparr>"
  using assms by (rule read_bytes_trace)

definition read_world :: ow_world where
  "read_world = on_drv (\<lambda>d. d\<lparr>seq_arr := ds_seqs ! 3, arg_arr := (ds_seq_args ! 3)[3 := 1], seq_len := 5,
     seq_state := OW_SEQ_STATE_TRANSITION, seq_pos := 3, op_type := OW_OP_READ\<rparr>) cold_world"

theorem onewire_read_bytes_witness:
  "\<exists>w' es. ow_trace 80000000 read_world (True # concat [replicate 40 True]) = Some (w', es) \<and>
    drv w' = (next_op (drv read_world))\<lparr>delay_count := 0, spad_buf := [0xFF] @ drop 1 (spad_buf (drv read_world))\<rparr>"
proof (rule onewire_read_bytes)
  have "bit (0xFF :: u8) j" if "j < 8" for j
  proof -
    have "(0xFF :: u8) = mask 8" by (simp add: mask_eq_exp_minus_1)
    then show ?thesis using that by (simp only: bit_mask_iff) simp
  qed
  then show "list_all2 byte_levels [0xFF] [replicate 40 True]" by (simp add: byte_levels_def)
qed (simp_all add: read_world_def at_def has_next_def ds_seqs_def ds_seq_args_def cold_world_def zero_driver_def)

end
