(* ===== verification/Onewire_Cycle.thy ===== *)
theory Onewire_Cycle
  imports Onewire_Read
begin

text \<open>
  The reset pulse of the one-wire driver with its presence window, the evaluation of the scratchpad, and
  the measurement cycle they form together.
\<close>

section \<open>The reset pulse\<close>

definition in_reset :: "onewire_driver \<Rightarrow> u8 \<Rightarrow> u8 \<Rightarrow> ow_world \<Rightarrow> bool" where
  "in_reset d op c w \<longleftrightarrow>
     drv w = d\<lparr>seq_state := OW_SEQ_STATE_STARTED, op_type := OW_OP_RESET, cur_op := op, delay_count := c\<rparr>"

lemma reset_event:
  assumes "seq_state (drv w) = OW_SEQ_STATE_STARTED" "op_type (drv w) = OW_OP_RESET"
    "seq_state (drv (OW_doit_reset lv w)) = OW_SEQ_STATE_STARTED"
  shows "one_wire_event apb lv w = Some (arm_hw apb (OW_doit_reset lv w))"
  using assms by (simp add: one_wire_event_def OW_doit_def doit_op_def begin_op_def doit_seq_def Let_def)

lemma count_down:
  assumes "Suc k \<le> 255"
  shows "(of_nat (Suc k) :: u8) - 1 = of_nat k" "(of_nat k :: u8) = 0 \<longleftrightarrow> k = 0"
proof -
  show "(of_nat (Suc k) :: u8) - 1 = of_nat k" by simp
  have "unat (of_nat k :: u8) = k" by (rule unat_of_nat_small) (use assms in simp)
  then show "(of_nat k :: u8) = 0 \<longleftrightarrow> k = 0" by (metis unat_eq_zero)
qed

lemma reset_low_phase:
  assumes "in_reset d OW_RESET_OP_WAIT_480_LOW (of_nat (Suc k)) w" "Suc k \<le> 255" "length lvs = Suc k"
  shows "\<exists>w'. ow_trace apb w lvs = Some (w', replicate k [] @ [[Line_release]]) \<and> in_reset d OW_RESET_OP_WAIT_60_RESP 6 w'"
  using assms
proof (induction k arbitrary: w lvs)
  case 0
  then obtain lv where l: "lvs = [lv]" by (cases lvs) auto
  define w' where "w' = arm_hw apb (OW_doit_reset lv w)"
  have "one_wire_event apb lv w = Some w'"
    unfolding w'_def by (rule reset_event) (use 0 in \<open>simp_all add: in_reset_def OW_doit_reset_def Let_def\<close>)
  moreover have "in_reset d OW_RESET_OP_WAIT_60_RESP 6 w'" "ow_log w' = ow_log w @ [Line_release]"
    using 0(1) by (simp_all add: in_reset_def w'_def OW_doit_reset_def Let_def)
  ultimately show ?case by (simp add: l)
next
  case (Suc k)
  then obtain lv ls where l: "lvs = lv # ls" "length ls = Suc k" by (cases lvs) auto
  note c = count_down [OF Suc.prems(2)]
  define w1 where "w1 = arm_hw apb (OW_doit_reset lv w)"
  have "one_wire_event apb lv w = Some w1"
    unfolding w1_def by (rule reset_event)
      (use Suc.prems(1) c in \<open>simp_all add: in_reset_def OW_doit_reset_def Let_def del: of_nat_Suc\<close>)
  moreover have i1: "in_reset d OW_RESET_OP_WAIT_480_LOW (of_nat (Suc k)) w1" and "ow_log w1 = ow_log w @ []"
    using Suc.prems(1) c by (simp_all add: in_reset_def w1_def OW_doit_reset_def Let_def del: of_nat_Suc)
  moreover obtain w' where "ow_trace apb w1 ls = Some (w', replicate k [] @ [[Line_release]])" "in_reset d OW_RESET_OP_WAIT_60_RESP 6 w'"
    using Suc.IH [OF i1 _ l(2)] Suc.prems(2) by auto
  ultimately show ?case by (auto simp: l(1))
qed

lemma reset_high_phase:
  assumes "in_reset d OW_RESET_OP_WAIT_480 (of_nat (Suc k)) w" "Suc k \<le> 255" "length lvs = Suc k"
  shows "\<exists>w'. ow_trace apb w lvs = Some (w', replicate (Suc k) []) \<and> in_reset d OW_RESET_OP_DONE 0 w'"
  using assms
proof (induction k arbitrary: w lvs)
  case 0
  then obtain lv where l: "lvs = [lv]" by (cases lvs) auto
  define w' where "w' = arm_hw apb (OW_doit_reset lv w)"
  have "one_wire_event apb lv w = Some w'"
    unfolding w'_def by (rule reset_event) (use 0 in \<open>simp_all add: in_reset_def OW_doit_reset_def Let_def\<close>)
  moreover have "in_reset d OW_RESET_OP_DONE 0 w'" "ow_log w' = ow_log w"
    using 0(1) by (simp_all add: in_reset_def w'_def OW_doit_reset_def Let_def)
  ultimately show ?case by (simp add: l)
next
  case (Suc k)
  then obtain lv ls where l: "lvs = lv # ls" "length ls = Suc k" by (cases lvs) auto
  note c = count_down [OF Suc.prems(2)]
  define w1 where "w1 = arm_hw apb (OW_doit_reset lv w)"
  have "one_wire_event apb lv w = Some w1"
    unfolding w1_def by (rule reset_event)
      (use Suc.prems(1) c in \<open>simp_all add: in_reset_def OW_doit_reset_def Let_def del: of_nat_Suc\<close>)
  moreover have i1: "in_reset d OW_RESET_OP_WAIT_480 (of_nat (Suc k)) w1" and "ow_log w1 = ow_log w"
    using Suc.prems(1) c by (simp_all add: in_reset_def w1_def OW_doit_reset_def Let_def del: of_nat_Suc)
  moreover obtain w' where "ow_trace apb w1 ls = Some (w', replicate (Suc k) [])" "in_reset d OW_RESET_OP_DONE 0 w'"
    using Suc.IH [OF i1 _ l(2)] Suc.prems(2) by auto
  ultimately show ?case by (auto simp: l(1))
qed

text \<open>The presence window: the device answers in tick \<open>j\<close>, or not at all.\<close>

lemma reset_window_wait:
  assumes "in_reset d OW_RESET_OP_WAIT_60_RESP (of_nat (Suc (j + k))) w" "j + k < 6"
  shows "\<exists>w'. ow_trace apb w (replicate j True) = Some (w', replicate j []) \<and>
    in_reset d OW_RESET_OP_WAIT_60_RESP (of_nat (Suc k)) w'"
  using assms
proof (induction j arbitrary: w)
  case 0
  then show ?case by simp
next
  case (Suc j)
  have c: "(of_nat (Suc (Suc j + k)) :: u8) - 1 = of_nat (Suc (j + k))" "(of_nat (Suc (j + k)) :: u8) \<noteq> 0"
    using count_down [of "Suc (j + k)"] Suc.prems(2) by simp_all
  define w1 where "w1 = arm_hw apb (OW_doit_reset True w)"
  have "one_wire_event apb True w = Some w1"
    unfolding w1_def by (rule reset_event)
      (use Suc.prems(1) c in \<open>simp_all add: in_reset_def OW_doit_reset_def Let_def del: of_nat_Suc\<close>)
  moreover have i1: "in_reset d OW_RESET_OP_WAIT_60_RESP (of_nat (Suc (j + k))) w1" and "ow_log w1 = ow_log w"
    using Suc.prems(1) c by (simp_all add: in_reset_def w1_def OW_doit_reset_def Let_def del: of_nat_Suc)
  moreover obtain w' where "ow_trace apb w1 (replicate j True) = Some (w', replicate j [])"
      "in_reset d OW_RESET_OP_WAIT_60_RESP (of_nat (Suc k)) w'"
    using Suc.IH [OF i1] Suc.prems(2) by auto
  ultimately show ?case by auto
qed

lemma reset_answer:
  assumes "in_reset d OW_RESET_OP_WAIT_60_RESP c w"
  shows "\<exists>w'. ow_trace apb w [False] = Some (w', [[]]) \<and> in_reset d OW_RESET_OP_WAIT_480 47 w'"
proof -
  define w1 where "w1 = arm_hw apb (OW_doit_reset False w)"
  have "one_wire_event apb False w = Some w1"
    unfolding w1_def by (rule reset_event) (use assms in \<open>simp_all add: in_reset_def OW_doit_reset_def Let_def\<close>)
  moreover have "in_reset d OW_RESET_OP_WAIT_480 47 w1" "ow_log w1 = ow_log w"
    using assms by (simp_all add: in_reset_def w1_def OW_doit_reset_def Let_def)
  ultimately show ?thesis by simp
qed

lemma reset_finish:
  assumes "in_reset d OW_RESET_OP_DONE 0 w" "has_next d"
  shows "\<exists>w'. ow_trace apb w [lv] = Some (w', [[]]) \<and> drv w' = (next_op d)\<lparr>delay_count := 0\<rparr>"
proof -
  have le: "\<not> seq_len d \<le> seq_pos d + 1" using assms(2) by (simp add: has_next_def word_le_nat_alt)
  have "at (seq_arr d) (seq_pos d + 1) = Some (seq_arr d ! Suc (unat (seq_pos d)))"
    using assms(2) by (simp add: has_next_def at_def)
  then show ?thesis
    using assms(1) le unfolding in_reset_def
    by (simp add: one_wire_event_def OW_doit_def doit_op_def begin_op_def OW_doit_reset_def doit_seq_def Let_def next_op_def)
qed

text \<open>A finished sequence with an error: every callback clears it and stops the hardware timer.\<close>

lemma run_callback_error:
  assumes "ow_error (drv w) \<noteq> 0" "callback (drv w) \<noteq> No_cb"
  shows "drv (run_callback w) = (drv w)\<lparr>ow_error := OW_ERROR_NONE\<rparr>" "ow_log (run_callback w) = ow_log w"
    "hw_timer_state (hw (run_callback w)) \<noteq> HW_TIMER_ACTIVE"
  using assms by (cases "callback (drv w)";
      auto simp: run_callback_def read_uuid_done_cb_def conv_t_done_cb_def read_temp_done_cb_def OW_handle_error_def
        hw_timer_disarm_def hw_timer_disarm_internal_def Let_def on_drv_def)+

lemma reset_timeout:
  assumes "in_reset d OW_RESET_OP_WAIT_60_RESP 1 w" "callback d \<noteq> No_cb"
  shows "\<exists>w'. ow_trace apb w [True] = Some (w', [[Line_release]]) \<and>
    drv w' = d\<lparr>seq_state := OW_SEQ_STATE_DONE, op_type := OW_OP_RESET, cur_op := OW_RESET_OP_WAIT_60_RESP,
      delay_count := 0, ow_error := OW_ERROR_NONE\<rparr> \<and> hw_timer_state (hw w') \<noteq> HW_TIMER_ACTIVE"
proof -
  define w1 where "w1 = OW_doit_reset True w"
  have d1: "drv w1 = d\<lparr>seq_state := OW_SEQ_STATE_DONE, op_type := OW_OP_RESET, cur_op := OW_RESET_OP_WAIT_60_RESP,
      delay_count := 0, ow_error := OW_ERROR_RESET_RESP_TIMEOUT\<rparr>" "ow_log w1 = ow_log w @ [Line_release]"
    using assms(1) by (simp_all add: w1_def in_reset_def OW_doit_reset_def Let_def)
  have "one_wire_event apb True w = Some (run_callback w1)"
    using assms(1) d1(1) unfolding w1_def
    by (simp add: one_wire_event_def OW_doit_def doit_op_def begin_op_def doit_seq_def Let_def in_reset_def)
  then show ?thesis using run_callback_error [of w1] d1 assms(2) by simp
qed

lemma reset_begin:
  assumes "seq_state (drv w) = OW_SEQ_STATE_TRANSITION" "op_type (drv w) = OW_OP_RESET"
  shows "\<exists>w'. one_wire_event apb lv w = Some w' \<and> in_reset (drv w) OW_RESET_OP_WAIT_480_LOW 47 w' \<and>
    ow_log w' = ow_log w @ [Line_set False]"
proof -
  define w1 where "w1 = arm_hw apb (OW_doit_reset lv (begin_op OW_RESET_OP_INIT w))"
  have "one_wire_event apb lv w = Some w1"
    using assms by (simp add: one_wire_event_def OW_doit_def doit_op_def begin_op_def doit_seq_def Let_def w1_def OW_doit_reset_def)
  moreover have "in_reset (drv w) OW_RESET_OP_WAIT_480_LOW 47 w1" "ow_log w1 = ow_log w @ [Line_set False]"
    using assms by (simp_all add: in_reset_def w1_def begin_op_def OW_doit_reset_def Let_def)
  ultimately show ?thesis by blast
qed

text \<open>The pulse itself: 480 us low, then the line is released and the presence window of six ticks opens.\<close>

definition reset_pulse :: "ow_ev list list" where
  "reset_pulse = [Line_set False] # replicate 46 [] @ [[Line_release]]"

lemma reset_pulse_trace:
  assumes "seq_state (drv w) = OW_SEQ_STATE_TRANSITION" "op_type (drv w) = OW_OP_RESET" "length pre = 48"
  shows "\<exists>w'. ow_trace apb w pre = Some (w', reset_pulse) \<and> in_reset (drv w) OW_RESET_OP_WAIT_60_RESP 6 w'"
proof -
  obtain lv ls where l: "pre = lv # ls" "length ls = Suc 46" using assms(3) by (cases pre) auto
  obtain w1 where w1: "one_wire_event apb lv w = Some w1" "in_reset (drv w) OW_RESET_OP_WAIT_480_LOW 47 w1"
      "ow_log w1 = ow_log w @ [Line_set False]" using reset_begin [OF assms(1,2)] by blast
  have "in_reset (drv w) OW_RESET_OP_WAIT_480_LOW (of_nat (Suc 46)) w1" using w1(2) by simp
  then obtain w2 where "ow_trace apb w1 ls = Some (w2, replicate 46 [] @ [[Line_release]])"
      "in_reset (drv w) OW_RESET_OP_WAIT_60_RESP 6 w2" using reset_low_phase [OF _ _ l(2)] by fastforce
  then show ?thesis unfolding l(1) reset_pulse_def using ow_trace_ConsI [OF w1(1,3)] by blast
qed

lemma reset_answered_trace:
  assumes "seq_state (drv w) = OW_SEQ_STATE_TRANSITION" "op_type (drv w) = OW_OP_RESET" "length pre = 48"
    "has_next (drv w)" "j < 6" "length post = 48"
  shows "\<exists>w'. ow_trace apb w (pre @ replicate j True @ False # post) = Some (w', reset_pulse @ replicate (j + 49) []) \<and>
    drv w' = (next_op (drv w))\<lparr>delay_count := 0\<rparr>"
proof -
  obtain k where k: "j + k = 5" using assms(5) le_Suc_ex [of j 5] by auto
  obtain w1 where w1: "ow_trace apb w pre = Some (w1, reset_pulse)" "in_reset (drv w) OW_RESET_OP_WAIT_60_RESP 6 w1"
    using reset_pulse_trace [OF assms(1-3)] by blast
  have "in_reset (drv w) OW_RESET_OP_WAIT_60_RESP (of_nat (Suc (j + k))) w1" using w1(2) k by simp
  then obtain w2 where w2: "ow_trace apb w1 (replicate j True) = Some (w2, replicate j [])"
      "in_reset (drv w) OW_RESET_OP_WAIT_60_RESP (of_nat (Suc k)) w2" using reset_window_wait k by fastforce
  obtain w3 where w3: "ow_trace apb w2 [False] = Some (w3, [[]])" "in_reset (drv w) OW_RESET_OP_WAIT_480 47 w3"
    using reset_answer [OF w2(2)] by blast
  obtain ls lv where l: "post = ls @ [lv]" "length ls = Suc 46"
    using assms(6) by (cases post rule: rev_cases) auto
  have "in_reset (drv w) OW_RESET_OP_WAIT_480 (of_nat (Suc 46)) w3" using w3(2) by simp
  then obtain w4 where w4: "ow_trace apb w3 ls = Some (w4, replicate (Suc 46) [])" "in_reset (drv w) OW_RESET_OP_DONE 0 w4"
    using reset_high_phase [OF _ _ l(2)] by fastforce
  obtain w5 where w5: "ow_trace apb w4 [lv] = Some (w5, [[]])" "drv w5 = (next_op (drv w))\<lparr>delay_count := 0\<rparr>"
    using reset_finish [OF w4(2) assms(4)] by blast
  from ow_trace_appendI [OF w1(1) ow_trace_appendI [OF w2(1) ow_trace_appendI [OF w3(1) ow_trace_appendI [OF w4(1) w5(1)]]]]
  have "ow_trace apb w (pre @ replicate j True @ False # post) =
      Some (w5, reset_pulse @ replicate j [] @ replicate 1 [] @ replicate (Suc 46) [] @ replicate 1 [])"
    by (simp add: l(1))
  then show ?thesis using w5(2) by (simp only: replicate_add [symmetric]) simp
qed

lemma reset_silent_trace:
  assumes "seq_state (drv w) = OW_SEQ_STATE_TRANSITION" "op_type (drv w) = OW_OP_RESET" "length pre = 48"
    "callback (drv w) \<noteq> No_cb"
  shows "\<exists>w'. ow_trace apb w (pre @ replicate 6 True) = Some (w', reset_pulse @ replicate 5 [] @ [[Line_release]]) \<and>
    seq_state (drv w') = OW_SEQ_STATE_DONE \<and> ow_error (drv w') = OW_ERROR_NONE \<and> hw_timer_state (hw w') \<noteq> HW_TIMER_ACTIVE"
proof -
  obtain w1 where w1: "ow_trace apb w pre = Some (w1, reset_pulse)" "in_reset (drv w) OW_RESET_OP_WAIT_60_RESP 6 w1"
    using reset_pulse_trace [OF assms(1-3)] by blast
  have "in_reset (drv w) OW_RESET_OP_WAIT_60_RESP (of_nat (Suc (5 + 0))) w1" using w1(2) by simp
  then obtain w2 where w2: "ow_trace apb w1 (replicate 5 True) = Some (w2, replicate 5 [])"
      "in_reset (drv w) OW_RESET_OP_WAIT_60_RESP 1 w2" using reset_window_wait by fastforce
  obtain w3 where w3: "ow_trace apb w2 [True] = Some (w3, [[Line_release]])" "hw_timer_state (hw w3) \<noteq> HW_TIMER_ACTIVE"
      "drv w3 = (drv w)\<lparr>seq_state := OW_SEQ_STATE_DONE, op_type := OW_OP_RESET, cur_op := OW_RESET_OP_WAIT_60_RESP,
        delay_count := 0, ow_error := OW_ERROR_NONE\<rparr>"
    using reset_timeout [OF w2(2) assms(4)] by blast
  have "replicate 6 True = replicate 5 True @ [True]" by (simp add: replicate_append_same numeral_eq_Suc)
  then show ?thesis using ow_trace_appendI [OF w1(1) ow_trace_appendI [OF w2(1) w3(1)]] w3(2,3) by auto
qed

section \<open>The scratchpad as a temperature\<close>

text \<open>
  The sensor's two bytes as a number: two's complement, low byte first, in sixteenths of a degree; and what
  the published text shows of it: the sign, the degrees, and the hundredths rounded down.
\<close>

definition temp_of :: "u8 list \<Rightarrow> int" where
  "temp_of sp = 256 * sint (sp ! 1) + uint (sp ! 0)"

definition shows_temp :: "int \<Rightarrow> Temperature \<Rightarrow> bool" where
  "shows_temp t T \<longleftrightarrow> sign T = (if t < 0 then CHR ''-'' else CHR ''+'') \<and>
     uint (val T) = \<bar>t\<bar> div 16 \<and> uint (fract T) = \<bar>t\<bar> mod 16 * 100 div 16 \<and> available T = 1"

lemma sint_u8:
  fixes h :: u8
  shows "sint h = (if 128 \<le> uint h then uint h - 256 else uint h)"
proof -
  have lt: "uint h < 256" using uint_lt2p [of h] by simp
  have b: "bit h 7 = bit (uint h) 7" by (simp add: bit_uint_iff)
  have "bit (uint h) 7 \<longleftrightarrow> odd (uint h div 128)" by (simp add: bit_iff_odd)
  also have "\<dots> \<longleftrightarrow> 128 \<le> uint h" using lt uint_ge_0 [of h] by presburger
  finally have "bit (uint h) 7 \<longleftrightarrow> 128 \<le> uint h" .
  moreover have "sint h = (if bit (uint h) 7 then uint h - 256 else uint h)"
    by (simp add: sint_uint signed_take_bit_eq_take_bit_minus lt) (simp add: take_bit_int_eq_self_iff lt)
  ultimately show ?thesis by simp
qed

lemma sign_bit_u16:
  fixes x :: u16
  shows "x AND 0x8000 \<noteq> 0 \<longleftrightarrow> 32768 \<le> uint x"
proof -
  have lt: "uint x < 65536" using uint_lt2p [of x] by simp
  have "x AND 0x8000 \<noteq> 0 \<longleftrightarrow> bit (uint x) 15" using and_exp_eq_0_iff_not_bit [of x 15] by (simp add: bit_uint_iff)
  also have "\<dots> \<longleftrightarrow> odd (uint x div 32768)" by (simp add: bit_iff_odd)
  also have "\<dots> \<longleftrightarrow> 32768 \<le> uint x"
    using lt int_div_pos_eq [of "uint x" 32768 1 "uint x - 32768"] by (cases "32768 \<le> uint x") simp_all
  finally show ?thesis .
qed

lemma uint_negate_u16:
  fixes x :: u16
  assumes "x \<noteq> 0"
  shows "uint ((x XOR 0xFFFF) + 1) = 65536 - uint x"
proof -
  have "(0xFFFF :: u16) = -1" by simp
  then have "x XOR 0xFFFF = NOT x" by (simp only: bit.xor_one_right)
  then have e: "(x XOR 0xFFFF) + 1 = - x" by (simp add: minus_eq_not_plus_1)
  have "x + - x = 0" by simp
  then have "(uint x + uint (- x)) mod 65536 = 0" using uint_word_ariths(1) [of x "- x"] by simp
  then obtain q where q: "uint x + uint (- x) = 65536 * q" by auto
  have "uint x < 65536" "uint (- x) < 65536" "uint x \<noteq> 0"
    using uint_lt2p [of x] uint_lt2p [of "- x"] assms by (simp_all add: uint_0_iff)
  then have "q = 1" using q uint_ge_0 [of x] uint_ge_0 [of "- x"] by linarith
  then show ?thesis using q e by simp
qed

lemma reading_magnitude:
  fixes sp
  defines "x \<equiv> push_bit 8 (ucast (sp ! 1)) OR ucast (sp ! 0) :: u16"
  shows "x AND 0x8000 \<noteq> 0 \<longleftrightarrow> temp_of sp < 0"
    "uint (if x AND 0x8000 \<noteq> 0 then (x XOR 0xFFFF) + 1 else x) = \<bar>temp_of sp\<bar>"
proof -
  have "unat x = 256 * unat (sp ! 1) + unat (sp ! 0)" unfolding x_def by (rule unat_be_pair) simp
  then have u: "uint x = 256 * uint (sp ! 1) + uint (sp ! 0)"
    by (metis of_nat_add of_nat_mult of_nat_numeral uint_nat)
  have b: "uint (sp ! 0) < 256" "uint (sp ! 1) < 256" using uint_lt2p [of "sp ! 0"] uint_lt2p [of "sp ! 1"] by simp_all
  have t: "temp_of sp = (if 32768 \<le> uint x then uint x - 65536 else uint x)"
  proof -
    have "128 \<le> uint (sp ! 1) \<longleftrightarrow> 32768 \<le> uint x" using u b uint_ge_0 [of "sp ! 0"] uint_ge_0 [of "sp ! 1"] by linarith
    then show ?thesis unfolding temp_of_def sint_u8 using u by simp
  qed
  have lt: "uint x < 65536" using uint_lt2p [of x] by simp
  show "x AND 0x8000 \<noteq> 0 \<longleftrightarrow> temp_of sp < 0" unfolding sign_bit_u16 t using lt by simp
  show "uint (if x AND 0x8000 \<noteq> 0 then (x XOR 0xFFFF) + 1 else x) = \<bar>temp_of sp\<bar>"
  proof (cases "32768 \<le> uint x")
    case True
    then have "x \<noteq> 0" by auto
    then show ?thesis unfolding sign_bit_u16 t using True lt uint_negate_u16 [of x] by simp
  next
    case False
    then show ?thesis unfolding sign_bit_u16 t by simp
  qed
qed

lemma reading_shown:
  fixes r :: u16
  shows "uint (drop_bit 4 r) = uint r div 16" "uint ((r AND 0xF) * 100 div 16) = uint r mod 16 * 100 div 16"
proof -
  show "uint (drop_bit 4 r) = uint r div 16" by (simp add: drop_bit_eq_div uint_div)
  have m: "r AND 0xF = take_bit 4 r" by (simp add: take_bit_eq_mask mask_eq_exp_minus_1)
  have "uint (r AND 0xF) = uint r mod 16" unfolding m by (simp add: take_bit_eq_mod uint_mod)
  moreover have "uint r mod 16 * 100 < 65536" by (simp add: pos_mod_bound [THEN less_le_trans])
  ultimately have "uint ((r AND 0xF) * 100) = uint r mod 16 * 100" by (simp add: uint_word_ariths)
  then show "uint ((r AND 0xF) * 100 div 16) = uint r mod 16 * 100 div 16" by (simp add: uint_div)
qed

lemma latest_temp_kept [simp]:
  "latest_temp (emit es w) = latest_temp w" "latest_temp (on_drv f w) = latest_temp w"
  by (simp_all add: emit_def on_drv_def)

lemma read_temp_done_good:
  fixes w
  defines "sp \<equiv> spad_buf (drv w)"
  assumes "ow_error (drv w) = OW_ERROR_NONE" "onewire_crc8 (spad_mem sp) 0 8 = sp ! 8"
  shows "\<exists>T. shows_temp (temp_of sp) T \<and> latest_temp (read_temp_done_cb w) = T \<and>
    ow_log (read_temp_done_cb w) = ow_log w @ [Publish (sign T) (val T) (fract T), Os_timer_disarm, Os_timer_arm 2431]"
proof -
  define x :: u16 where "x = push_bit 8 (ucast (sp ! 1)) OR ucast (sp ! 0)"
  define r where "r = (if x AND 0x8000 \<noteq> 0 then (x XOR 0xFFFF) + 1 else x)"
  define T where "T = \<lparr>sign = (if x AND 0x8000 \<noteq> 0 then CHR ''-'' else CHR ''+''), val = drop_bit 4 r,
    fract = (r AND 0xF) * 100 div 16, available = 1\<rparr>"
  note mg = reading_magnitude [of sp, folded x_def, folded r_def]
  have "shows_temp (temp_of sp) T" unfolding shows_temp_def using mg reading_shown [of r] by (simp add: T_def)
  moreover have "latest_temp (read_temp_done_cb w) = T \<and>
      ow_log (read_temp_done_cb w) = ow_log w @ [Publish (sign T) (val T) (fract T), Os_timer_disarm, Os_timer_arm 2431]"
    using assms(2,3) unfolding sp_def x_def r_def T_def
    by (simp add: read_temp_done_cb_def Let_def OW_publish_temperature_def)
  ultimately show ?thesis by blast
qed

section \<open>Properties\<close>


definition reset_world :: ow_world where
  "reset_world = on_drv (\<lambda>d. d\<lparr>seq_arr := ds_seqs ! 2, arg_arr := ds_seq_args ! 2, seq_len := 4,
     seq_state := OW_SEQ_STATE_TRANSITION, seq_pos := 0, op_type := OW_OP_RESET, callback := Conv_t_done_cb\<rparr>) cold_world"


text \<open>
  Evaluation of a reading: when a read sequence has ended without error and the scratchpad's checksum
  matches, the text published shows exactly the temperature of its first two bytes (two's complement,
  sixteenths of a degree, hundredths rounded down); when the checksum does not match nothing is
  published and the last temperature is kept. In both cases the scratchpad is cleared, the hardware
  timer is stopped and the next measurement is scheduled 2431 ms later.
\<close>

theorem read_temp_done_evaluates:
  fixes w
  defines "sp \<equiv> spad_buf (drv w)" and "w' \<equiv> read_temp_done_cb w"
  assumes "ow_error (drv w) = OW_ERROR_NONE"
  shows "spad_buf (drv w') = replicate 9 0 \<and> hw_timer_state (hw w') \<noteq> HW_TIMER_ACTIVE \<and> onewire_timer_arg w' = DS_SEQ_NEXT_READ_T \<and>
    (if onewire_crc8 (spad_mem sp) 0 8 = sp ! 8
     then \<exists>T. shows_temp (temp_of sp) T \<and> latest_temp w' = T \<and>
       ow_log w' = ow_log w @ [Publish (sign T) (val T) (fract T), Os_timer_disarm, Os_timer_arm 2431]
     else latest_temp w' = latest_temp w \<and> ow_log w' = ow_log w @ [Os_timer_disarm, Os_timer_arm 2431])"
proof -
  have "spad_buf (drv w') = replicate 9 0 \<and> onewire_timer_arg w' = DS_SEQ_NEXT_READ_T"
    using assms(3) by (simp add: w'_def read_temp_done_cb_def Let_def emit_def on_drv_def)
  moreover have "hw_timer_state (hw w') \<noteq> HW_TIMER_ACTIVE"
    using assms(3) by (simp add: w'_def read_temp_done_cb_def Let_def hw_timer_disarm_def OW_publish_temperature_def)
  moreover have "latest_temp w' = latest_temp w \<and> ow_log w' = ow_log w @ [Os_timer_disarm, Os_timer_arm 2431]"
    if "onewire_crc8 (spad_mem sp) 0 8 \<noteq> sp ! 8"
    using assms(3) that by (simp add: w'_def sp_def read_temp_done_cb_def Let_def)
  ultimately show ?thesis using read_temp_done_good [OF assms(3), folded sp_def w'_def] by auto
qed

definition frost_world :: ow_world where
  "frost_world = on_drv (\<lambda>d. d\<lparr>spad_buf := [0x5E, 0xFF, 0x4B, 0x46, 0x7F, 0xFF, 0x02, 0x10, 0xB6]\<rparr>) cold_world"

theorem read_temp_done_evaluates_witness:
  "temp_of (spad_buf (drv frost_world)) = -162 \<and>
    (\<exists>T. shows_temp (-162) T \<and> latest_temp (read_temp_done_cb frost_world) = T \<and>
      ow_log (read_temp_done_cb frost_world) = [Publish (sign T) (val T) (fract T), Os_timer_disarm, Os_timer_arm 2431])"
proof -
  have t: "temp_of (spad_buf (drv frost_world)) = -162" by (simp add: frost_world_def temp_of_def)
  have c: "onewire_crc8 (spad_mem (spad_buf (drv frost_world))) 0 8 = spad_buf (drv frost_world) ! 8"
    by code_simp
  have e: "ow_error (drv frost_world) = OW_ERROR_NONE" by (simp add: frost_world_def cold_world_def zero_driver_def)
  have l: "ow_log frost_world = []" by (simp add: frost_world_def cold_world_def)
  show ?thesis using read_temp_done_evaluates [of frost_world] e t c by (simp add: l)
qed

section \<open>A measurement\<close>

text \<open>The first event of a sequence behaves as if the sequence were already at its first operation.\<close>

definition seq_begun :: "ow_world \<Rightarrow> ow_world" where
  "seq_begun w = on_drv (\<lambda>d. d\<lparr>seq_state := OW_SEQ_STATE_TRANSITION, op_type := seq_arr d ! 0, cur_op := 0, seq_pos := 0\<rparr>) w"

lemma ow_trace_init:
  assumes "seq_state (drv w) = OW_SEQ_STATE_INIT" "seq_arr (drv w) \<noteq> []" "lvs \<noteq> []"
  shows "ow_trace apb w lvs = ow_trace apb (seq_begun w) lvs"
proof -
  obtain lv ls where l: "lvs = lv # ls" using assms(3) by (cases lvs) auto
  have "one_wire_event apb lv w = one_wire_event apb lv (seq_begun w)"
    using assms(1,2) by (simp add: one_wire_event_def at_def seq_begun_def on_drv_def)
  moreover have "ow_log (seq_begun w) = ow_log w" by (simp add: seq_begun_def)
  ultimately show ?thesis by (simp add: l)
qed

lemma read_seq_end:
  assumes "seq_state (drv w) = OW_SEQ_STATE_TRANSITION" "op_type (drv w) = OW_OP_END"
    "callback (drv w) = Read_temp_done_cb" "ow_error (drv w) = OW_ERROR_NONE"
    "onewire_crc8 (spad_mem (spad_buf (drv w))) 0 8 = spad_buf (drv w) ! 8"
  shows "\<exists>w' T. ow_trace apb w [lv] = Some (w', [[Publish (sign T) (val T) (fract T), Os_timer_disarm, Os_timer_arm 2431]]) \<and>
    shows_temp (temp_of (spad_buf (drv w))) T \<and> latest_temp w' = T"
proof -
  define w1 where "w1 = on_drv (\<lambda>d. d\<lparr>seq_state := OW_SEQ_STATE_DONE\<rparr>) w"
  have e: "one_wire_event apb lv w = Some (read_temp_done_cb w1)"
    using assms(1-3) by (simp add: one_wire_event_def OW_doit_def doit_op_def doit_seq_def run_callback_def Let_def w1_def)
  have w1: "spad_buf (drv w1) = spad_buf (drv w)" "ow_error (drv w1) = OW_ERROR_NONE" "ow_log w1 = ow_log w"
    using assms(4) by (simp_all add: w1_def)
  obtain T where "shows_temp (temp_of (spad_buf (drv w))) T" "latest_temp (read_temp_done_cb w1) = T"
      "ow_log (read_temp_done_cb w1) = ow_log w @ [Publish (sign T) (val T) (fract T), Os_timer_disarm, Os_timer_arm 2431]"
    using read_temp_done_good [of w1] w1 assms(5) by auto
  then show ?thesis using e by auto
qed

text \<open>The driver at operation \<open>i\<close> of the temperature sequence.\<close>

definition at_op :: "nat \<Rightarrow> u8 list \<Rightarrow> ow_world \<Rightarrow> bool" where
  "at_op i sp w \<longleftrightarrow> seq_arr (drv w) = ds_seqs ! 3 \<and> arg_arr (drv w) = ds_seq_args ! 3 \<and> seq_len (drv w) = 5 \<and>
     seq_state (drv w) = OW_SEQ_STATE_TRANSITION \<and> seq_pos (drv w) = of_nat i \<and> op_type (drv w) = ds_seqs ! 3 ! i \<and>
     callback (drv w) = Read_temp_done_cb \<and> ow_error (drv w) = OW_ERROR_NONE \<and> spad_buf (drv w) = sp"

lemma at_op_has_next:
  assumes "at_op i sp w" "i < 4"
  shows "has_next (drv w)"
proof -
  have "unat (of_nat i :: u8) = i" "unat (of_nat (Suc i) :: u8) = Suc i"
    using assms(2) by (intro unat_of_nat_small; simp)+
  moreover have "unat (5 :: u8) = 5" by simp
  ultimately show ?thesis using assms by (simp add: at_op_def has_next_def ds_seqs_def add.commute del: unat_numeral)
qed

lemma at_op_next:
  assumes "at_op i sp w" "i < 4" "drv w' = (next_op (drv w))\<lparr>delay_count := c, spad_buf := sp'\<rparr>"
  shows "at_op (Suc i) sp' w'"
proof -
  have "unat (of_nat i :: u8) = i" by (rule unat_of_nat_small) (use assms(2) in simp)
  then show ?thesis using assms by (simp add: at_op_def next_op_def add.commute)
qed

lemma at_op_next_same:
  assumes "at_op i sp w" "i < 4" "drv w' = (next_op (drv w))\<lparr>delay_count := c\<rparr>"
  shows "at_op (Suc i) sp w'"
proof (rule at_op_next [OF assms(1,2)])
  show "drv w' = (next_op (drv w))\<lparr>delay_count := c, spad_buf := sp\<rparr>"
    using assms(1,3) by (auto simp: at_op_def next_op_def)
qed

lemma read_sequence_trace:
  assumes "at_op 0 sp w" "length sp = 9" "length pre = 48" "j < 6" "length post = 48" "length wr1 = 58" "length wr2 = 58"
    "list_all2 byte_levels bs lss" "length bs = 9" "onewire_crc8 (spad_mem bs) 0 8 = bs ! 8"
  shows "\<exists>w' es T. ow_trace apb w ((pre @ replicate j True @ False # post) @ wr1 @ wr2 @ (l0 # concat lss) @ [le]) =
      Some (w', (reset_pulse @ replicate (j + 49) []) @ write_wave 0xCC @ write_wave 0xBE @ es @
        [[Publish (sign T) (val T) (fract T), Os_timer_disarm, Os_timer_arm 2431]]) \<and>
    shows_temp (temp_of bs) T \<and> latest_temp w' = T"
proof -
  have op: "op_type (drv v) = ds_seqs ! 3 ! i \<and> seq_state (drv v) = OW_SEQ_STATE_TRANSITION \<and>
      at (arg_arr (drv v)) (seq_pos (drv v)) = Some (ds_seq_args ! 3 ! i)" if "at_op i s v" "i < 5" for i s v
    using that unat_of_nat_small [of i, where 'a = 8] by (simp add: at_op_def at_def ds_seq_args_def)
  obtain w1 where w1: "ow_trace apb w (pre @ replicate j True @ False # post) = Some (w1, reset_pulse @ replicate (j + 49) [])"
      "drv w1 = (next_op (drv w))\<lparr>delay_count := 0\<rparr>"
    using reset_answered_trace [OF _ _ assms(3) at_op_has_next [OF assms(1)] assms(4,5)] op [OF assms(1)]
    by (auto simp: ds_seqs_def)
  have a1: "at_op 1 sp w1" using at_op_next_same [OF assms(1) _ w1(2)] by simp
  obtain w2 where w2: "ow_trace apb w1 wr1 = Some (w2, write_wave 0xCC)" "drv w2 = (next_op (drv w1))\<lparr>delay_count := 0\<rparr>"
    using write_byte_trace [OF _ _ _ at_op_has_next [OF a1] assms(6)] op [OF a1] by (auto simp: ds_seqs_def ds_seq_args_def)
  have a2: "at_op 2 sp w2" using at_op_next_same [OF a1 _ w2(2)] by (simp add: numeral_2_eq_2)
  obtain w3 where w3: "ow_trace apb w2 wr2 = Some (w3, write_wave 0xBE)" "drv w3 = (next_op (drv w2))\<lparr>delay_count := 0\<rparr>"
    using write_byte_trace [OF _ _ _ at_op_has_next [OF a2] assms(7)] op [OF a2] by (auto simp: ds_seqs_def ds_seq_args_def)
  have a3: "at_op 3 sp w3" using at_op_next_same [OF a2 _ w3(2)] by (simp add: numeral_3_eq_3)
  have sp3: "spad_buf (drv w3) = sp" using a3 by (simp add: at_op_def)
  obtain w4 es where w4: "ow_trace apb w3 (l0 # concat lss) = Some (w4, es)"
      "drv w4 = (next_op (drv w3))\<lparr>delay_count := 0, spad_buf := bs @ drop 9 (spad_buf (drv w3))\<rparr>"
    using read_bytes_trace [OF _ _ _ at_op_has_next [OF a3] assms(8,9), of apb l0] op [OF a3] sp3 assms(2)
    by (auto simp: ds_seqs_def ds_seq_args_def)
  have "drv w4 = (next_op (drv w3))\<lparr>delay_count := 0, spad_buf := bs\<rparr>" using w4(2) sp3 assms(2) by simp
  then have a4: "at_op 4 bs w4" using at_op_next [OF a3] by simp
  obtain w5 T where w5: "ow_trace apb w4 [le] = Some (w5, [[Publish (sign T) (val T) (fract T), Os_timer_disarm, Os_timer_arm 2431]])"
      "shows_temp (temp_of bs) T" "latest_temp w5 = T"
    using read_seq_end [of w4 apb le] a4 assms(10) by (auto simp: at_op_def ds_seqs_def simp del: ow_trace.simps)
  show ?thesis
    using ow_trace_appendI [OF w1(1) ow_trace_appendI [OF w2(1) ow_trace_appendI [OF w3(1) ow_trace_appendI [OF w4(1) w5(1)]]]] w5(2,3)
    by blast
qed

text \<open>
  C22. A whole measurement: after \<^verbatim>\<open>OW_init_seq\<close> has started the temperature sequence, if the device answers
  the reset within its window and then sends nine bytes with a matching checksum in the read slots,
  then the driver sends SKIP ROM (0xCC) and READ SCRATCHPAD (0xBE) on the bus and the last tick
  publishes the temperature of the bytes the device sent and schedules the next measurement, whatever
  the levels at the other ticks are.
\<close>

theorem onewire_measurement:
  assumes "OW_init_seq DS_SEQ_READ_T w = Some w0" "length (spad_buf (drv w)) = 9"
    "length pre = 48" "j < 6" "length post = 48" "length wr1 = 58" "length wr2 = 58"
    "list_all2 byte_levels bs lss" "length bs = 9" "onewire_crc8 (spad_mem bs) 0 8 = bs ! 8"
  shows "\<exists>w' es T. ow_trace apb w0 ((pre @ replicate j True @ False # post) @ wr1 @ wr2 @ (l0 # concat lss) @ [le]) =
      Some (w', (reset_pulse @ replicate (j + 49) []) @ write_wave 0xCC @ write_wave 0xBE @ es @
        [[Publish (sign T) (val T) (fract T), Os_timer_disarm, Os_timer_arm 2431]]) \<and>
    shows_temp (temp_of bs) T \<and> latest_temp w' = T"
proof -
  have w0: "seq_state (drv w0) = OW_SEQ_STATE_INIT" "seq_arr (drv w0) = ds_seqs ! 3" "at_op 0 (spad_buf (drv w)) (seq_begun w0)"
    using assms(1) by (auto simp: OW_init_seq_def Let_def seq_begun_def at_op_def ds_seq_lens_def)
  have "seq_arr (drv w0) \<noteq> []" by (simp add: w0(2) ds_seqs_def)
  note i = ow_trace_init [OF w0(1) this]
  show ?thesis using read_sequence_trace [OF w0(3) assms(2-10), of apb l0 le] by (subst i) simp_all
qed

definition frost_levels :: "u8 \<Rightarrow> bool list" where
  "frost_levels b = concat (map (\<lambda>j. bit b j # replicate 4 False) [0..<8])"

lemma frost_levels_byte: "byte_levels b (frost_levels b)"
proof -
  have "frost_levels b ! (5 * j) = bit b j" if "j < 8" for j
    using that by (auto simp: frost_levels_def numeral_eq_Suc less_Suc_eq)
  then show ?thesis by (simp add: byte_levels_def frost_levels_def length_concat comp_def sum_list_triv)
qed

theorem onewire_measurement_witness:
  "\<exists>w0 w' es T. OW_init_seq DS_SEQ_READ_T cold_world = Some w0 \<and>
    ow_trace 80000000 w0 ((replicate 48 True @ replicate 3 True @ False # replicate 48 True) @ replicate 58 True @
      replicate 58 True @ (True # concat (map frost_levels (spad_buf (drv frost_world)))) @ [True]) =
      Some (w', (reset_pulse @ replicate (3 + 49) []) @ write_wave 0xCC @ write_wave 0xBE @ es @
        [[Publish (sign T) (val T) (fract T), Os_timer_disarm, Os_timer_arm 2431]]) \<and>
    shows_temp (-162) T \<and> latest_temp w' = T"
proof -
  obtain w0 where w0: "OW_init_seq DS_SEQ_READ_T cold_world = Some w0" by (simp add: OW_init_seq_def Let_def)
  have t: "temp_of (spad_buf (drv frost_world)) = -162" by (simp add: frost_world_def temp_of_def)
  have c: "onewire_crc8 (spad_mem (spad_buf (drv frost_world))) 0 8 = spad_buf (drv frost_world) ! 8" by code_simp
  have l: "list_all2 byte_levels (spad_buf (drv frost_world)) (map frost_levels (spad_buf (drv frost_world)))"
    by (simp add: list_all2_conv_all_nth frost_levels_byte)
  have s: "length (spad_buf (drv cold_world)) = 9" "length (spad_buf (drv frost_world)) = 9"
    by (simp_all add: cold_world_def zero_driver_def frost_world_def)
  show ?thesis
    using onewire_measurement [OF w0 s(1) _ _ _ _ _ l s(2) c, of "replicate 48 True" 3 "replicate 48 True"
        "replicate 58 True" "replicate 58 True" 80000000 True True] w0 t by (auto simp del: ow_trace.simps)
qed

end
