(* ===== verification/Rboot.thy ===== *)
theory Rboot
  imports Esp_Prelude
begin

text \<open>
  The boot loader: \<^verbatim>\<open>rboot/rboot.c\<close>, \<^verbatim>\<open>rboot/rboot-stage2a.c\<close> and the configuration of \<^verbatim>\<open>rboot/rboot.h\<close>
  (\<^verbatim>\<open>BOOT_CONFIG_CHKSUM\<close>, \<^verbatim>\<open>BOOT_BIG_FLASH\<close>, \<^verbatim>\<open>BOOT_IROM_CHKSUM\<close> and \<^verbatim>\<open>BOOT_CUSTOM_DEFAULT_CONFIG\<close> are defined there;
  the GPIO and RTC options are not and their code is not compiled). The flash functions of the boot ROM
  are not part of the sources: they are a record of functions on an abstract flash state, an argument of
  the definitions. A buffer that C leaves uninitialised is an argument too. The bytes of a struct are
  read at the offsets of its fields, as the casts of the code do; words are little-endian.
\<close>

section \<open>Flash\<close>

record 'f spi =
  SPIRead :: "u32 \<Rightarrow> u32 \<Rightarrow> 'f \<Rightarrow> u8 list option"
  SPIEraseSector :: "u32 \<Rightarrow> 'f \<Rightarrow> 'f"
  SPIWrite :: "u32 \<Rightarrow> u8 list \<Rightarrow> 'f \<Rightarrow> 'f \<times> bool"

definition get32 :: "u8 list \<Rightarrow> nat \<Rightarrow> u32" where
  "get32 b i = ucast (b ! i) OR push_bit 8 (ucast (b ! (i + 1))) OR push_bit 16 (ucast (b ! (i + 2))) OR
     push_bit 24 (ucast (b ! (i + 3)))"

definition bytes32 :: "u32 \<Rightarrow> u8 list" where
  "bytes32 v = [ucast v, ucast (drop_bit 8 v), ucast (drop_bit 16 v), ucast (drop_bit 24 v)]"

text \<open>What a read leaves in a buffer: its first bytes, or the buffer as it was when the read fails.\<close>

definition fill :: "u8 list option \<Rightarrow> u8 list \<Rightarrow> u8 list" where
  "fill r buf = (case r of None \<Rightarrow> buf | Some bs \<Rightarrow> bs @ drop (length bs) buf)"

abbreviation (input) "CHKSUM_INIT \<equiv> (0xEF :: u8)"
abbreviation (input) "SECTOR_SIZE \<equiv> (0x1000 :: u32)"
abbreviation (input) "BOOT_CONFIG_SECTOR \<equiv> (1 :: u32)"
abbreviation (input) "BUFFER_SIZE \<equiv> (0x100 :: u32)"
abbreviation (input) "ROM_MAGIC \<equiv> (0xE9 :: u8)"
abbreviation (input) "ROM_MAGIC_NEW1 \<equiv> (0xEA :: u8)"
abbreviation (input) "ROM_MAGIC_NEW2 \<equiv> (0x04 :: u8)"
abbreviation (input) "BOOT_CONFIG_MAGIC \<equiv> (0xE1 :: u8)"
abbreviation (input) "BOOT_CONFIG_VERSION \<equiv> (0x01 :: u8)"

section \<open>Checking an image\<close>

definition readlen :: "u32 \<Rightarrow> u32" where
  "readlen remaining = (if remaining < BUFFER_SIZE then remaining else BUFFER_SIZE)"

lemma readlen_pos: "remaining > 0 \<Longrightarrow> unat (remaining - readlen remaining) < unat remaining"
  by (auto simp: readlen_def word_less_nat_alt unat_sub word_le_nat_alt)

text \<open>The inner loop of \<^verbatim>\<open>check_image\<close>, over the blocks of a section.\<close>

function check_blocks :: "'f spi \<Rightarrow> 'f \<Rightarrow> u32 \<Rightarrow> u32 \<Rightarrow> u8 \<Rightarrow> (u32 \<times> u8) option" where
  "check_blocks S f remaining readpos chksum =
     (if remaining > 0 then
        case SPIRead S readpos (readlen remaining) f of
          None \<Rightarrow> None
        | Some buffer \<Rightarrow> check_blocks S f (remaining - readlen remaining) (readpos + readlen remaining)
            (foldl (XOR) chksum (take (unat (readlen remaining)) buffer))
      else Some (readpos, chksum))"
  by auto

termination
  by (relation "measure (\<lambda>(S, f, remaining, readpos, chksum). unat remaining)") (auto dest: readlen_pos)

declare check_blocks.simps [simp del]

lemma sectcurrent_up:
  fixes c n :: u8
  shows "c < n \<Longrightarrow> 256 - unat (c + 1) < 256 - unat c"
  using unat_u8_less [of c] by (simp add: unat_succ_less)

text \<open>The loop over the sections; section count 0xFF marks that the next header is still to come.\<close>

function check_sections :: "'f spi \<Rightarrow> 'f \<Rightarrow> u8 \<Rightarrow> u8 \<Rightarrow> u32 \<Rightarrow> u8 \<Rightarrow> (u32 \<times> u8) option" where
  "check_sections S f sectcount sectcurrent readpos chksum =
     (if sectcurrent < sectcount then
        case SPIRead S readpos 8 f of
          None \<Rightarrow> None
        | Some sectn \<Rightarrow>
            (case check_blocks S f (get32 sectn 4) (readpos + 8) chksum of
               None \<Rightarrow> None
             | Some (readpos1, chksum1) \<Rightarrow>
                 if sectcount = 0xFF then
                   (case SPIRead S readpos1 8 f of
                      None \<Rightarrow> None
                    | Some header \<Rightarrow> check_sections S f (header ! 1 + 1) (sectcurrent + 1) (readpos1 + 8) chksum1)
                 else check_sections S f sectcount (sectcurrent + 1) readpos1 chksum1)
      else Some (readpos, chksum))"
  by auto

termination
  by (relation "measure (\<lambda>(S, f, sectcount, sectcurrent, readpos, chksum). 256 - unat sectcurrent)")
    (auto dest: sectcurrent_up)

declare check_sections.simps [simp del]

definition check_image :: "'f spi \<Rightarrow> 'f \<Rightarrow> u32 \<Rightarrow> u32" where
  "check_image S f readpos =
     (if readpos = 0 \<or> readpos = 0xFFFFFFFF then 0
      else case SPIRead S readpos 16 f of
        None \<Rightarrow> 0
      | Some header \<Rightarrow>
          let start = (if header ! 0 = ROM_MAGIC then Some (readpos, header ! 1)
                       else if header ! 0 = ROM_MAGIC_NEW1 \<and> header ! 1 = ROM_MAGIC_NEW2
                       then Some (readpos + get32 header 12 + 16, 0xFF)
                       else None)
          in case start of
               None \<Rightarrow> 0
             | Some (romaddr, sectcount) \<Rightarrow>
                 (case check_sections S f sectcount 0 (readpos + 8) CHKSUM_INIT of
                    None \<Rightarrow> 0
                  | Some (pos, chksum) \<Rightarrow>
                      (case SPIRead S (pos OR 0x0F) 1 f of
                         None \<Rightarrow> 0
                       | Some buffer \<Rightarrow> if buffer ! 0 \<noteq> chksum then 0 else romaddr)))"

section \<open>The second stage loader\<close>

function load_blocks :: "'f spi \<Rightarrow> 'f \<Rightarrow> u32 \<Rightarrow> u32 \<Rightarrow> u32 \<Rightarrow> u8 list \<Rightarrow> mem \<Rightarrow> u32 \<times> u8 list \<times> mem" where
  "load_blocks S f remaining readpos writepos buffer ram =
     (if remaining > 0 then
        let n = readlen remaining; buffer1 = fill (SPIRead S readpos n f) buffer in
        load_blocks S f (remaining - n) (readpos + n) (writepos + n) buffer1
          (mem_write ram (unat writepos) (take (unat n) buffer1))
      else (readpos, buffer, ram))"
  by auto

termination
  by (relation "measure (\<lambda>(S, f, remaining, readpos, writepos, buffer, ram). unat remaining)") (auto dest: readlen_pos)

declare load_blocks.simps [simp del]

fun load_sections :: "'f spi \<Rightarrow> 'f \<Rightarrow> nat \<Rightarrow> u32 \<Rightarrow> u8 list \<Rightarrow> mem \<Rightarrow> mem" where
  "load_sections S f 0 readpos buffer ram = ram"
| "load_sections S f (Suc sectcount) readpos buffer ram =
     (let buffer1 = fill (SPIRead S readpos 8 f) buffer;
          (readpos2, buffer2, ram2) = load_blocks S f (get32 buffer1 4) (readpos + 8) (get32 buffer1 0) buffer1 ram
      in load_sections S f sectcount readpos2 buffer2 ram2)"

definition load_rom :: "'f spi \<Rightarrow> 'f \<Rightarrow> u8 list \<Rightarrow> u32 \<Rightarrow> mem \<Rightarrow> mem \<times> u32" where
  "load_rom S f junk readpos ram =
     (let buffer = fill (SPIRead S readpos 8 f) junk
      in (load_sections S f (unat (buffer ! 1)) (readpos + 8) buffer ram, get32 buffer 4))"

section \<open>The boot configuration\<close>

text \<open>
  The bytes of \<^verbatim>\<open>rboot_config\<close>: \<open>magic\<close> 0, \<open>version\<close> 1, \<open>mode\<close> 2, \<open>current_rom\<close> 3, \<open>gpio_rom\<close> 4, \<open>count\<close> 5,
  \<open>last_main_rom\<close> 6, \<open>last_setup_rom\<close> 7, \<open>roms[4]\<close> 8 to 23, \<open>chksum\<close> 24 and three bytes of alignment.
\<close>

abbreviation (input) "CURRENT_ROM \<equiv> (3 :: nat)"
abbreviation (input) "ROM_COUNT \<equiv> (5 :: nat)"
abbreviation (input) "LAST_MAIN_ROM \<equiv> (6 :: nat)"
abbreviation (input) "LAST_SETUP_ROM \<equiv> (7 :: nat)"
abbreviation (input) "CHKSUM \<equiv> (24 :: nat)"
abbreviation (input) "CONFIG_SIZE \<equiv> (28 :: nat)"

definition calc_chksum :: "u8 list \<Rightarrow> u8" where
  "calc_chksum bs = foldl (XOR) CHKSUM_INIT bs"

definition put32 :: "nat \<Rightarrow> u32 \<Rightarrow> u8 list \<Rightarrow> u8 list" where
  "put32 i v b = take i b @ bytes32 v @ drop (i + 4) b"

text \<open>The element \<^verbatim>\<open>roms[i]\<close>, also where \<open>i\<close> leaves the array: the code does not check the index.\<close>

definition rom_addr :: "u8 list \<Rightarrow> int \<Rightarrow> u32" where
  "rom_addr b i = get32 b (nat (8 + 4 * i))"

definition seal_config :: "u8 list \<Rightarrow> u8 list" where
  "seal_config b = b[CHKSUM := calc_chksum (take CHKSUM b)]"

definition config_bad :: "u8 list \<Rightarrow> bool" where
  "config_bad b \<longleftrightarrow> b ! 0 \<noteq> BOOT_CONFIG_MAGIC \<or> b ! 1 \<noteq> BOOT_CONFIG_VERSION \<or> b ! CHKSUM \<noteq> calc_chksum (take CHKSUM b)"

definition flash_size :: "u8 \<Rightarrow> u32" where
  "flash_size flags2 =
     (let flag = drop_bit 4 flags2 in
      if flag = 0 then 0x80000 else if flag = 1 then 0x40000 else if flag = 2 then 0x100000
      else if flag = 3 then 0x200000 else if flag = 4 then 0x400000 else 0x80000)"

definition default_config :: "u32 \<Rightarrow> u8 list \<Rightarrow> u8 list" where
  "default_config flashsize b =
     put32 20 (flashsize div 2 + SECTOR_SIZE * (BOOT_CONFIG_SECTOR + 1))
       (put32 16 (flashsize div 4 + SECTOR_SIZE * (BOOT_CONFIG_SECTOR + 1))
         (put32 12 (flashsize div 8 + SECTOR_SIZE * (BOOT_CONFIG_SECTOR + 1))
           (put32 8 (SECTOR_SIZE * (BOOT_CONFIG_SECTOR + 1)) (b[ROM_COUNT := 4]))))"

definition fresh_config :: "u32 \<Rightarrow> u8 list \<Rightarrow> u8 list" where
  "fresh_config flashsize b =
     seal_config (default_config flashsize
       ((replicate CONFIG_SIZE 0 @ drop CONFIG_SIZE b)[0 := BOOT_CONFIG_MAGIC, 1 := BOOT_CONFIG_VERSION]))"

definition store_config :: "'f spi \<Rightarrow> u8 list \<Rightarrow> 'f \<Rightarrow> 'f" where
  "store_config S b f = fst (SPIWrite S (BOOT_CONFIG_SECTOR * SECTOR_SIZE) b (SPIEraseSector S BOOT_CONFIG_SECTOR f))"

section \<open>Finding an image\<close>

text \<open>The loop over the previous images; \<open>None\<close> inside the result is the return for no good image.\<close>

partial_function (option) try_roms :: "'f spi \<Rightarrow> 'f \<Rightarrow> u8 list \<Rightarrow> int \<Rightarrow> u32 \<Rightarrow> (int \<times> u32) option option" where
  "try_roms S f romconf romToBoot runAddr =
     (if runAddr = 0 then
        let rom = (if romToBoot - 1 < 0 then uint (romconf ! ROM_COUNT) - 1 else romToBoot - 1) in
        if rom = uint (romconf ! CURRENT_ROM) then Some None
        else try_roms S f romconf rom (check_image S f (rom_addr romconf rom))
      else Some (Some (romToBoot, runAddr)))"

definition find_image :: "'f spi \<Rightarrow> 'f \<Rightarrow> u8 list \<Rightarrow> ('f \<times> u32) option" where
  "find_image S f junk =
     (let buffer0 = fill (SPIRead S 0 8 f) junk;
          flashsize = flash_size (buffer0 ! 3);
          buffer1 = fill (SPIRead S (BOOT_CONFIG_SECTOR * SECTOR_SIZE) SECTOR_SIZE f) buffer0;
          bad = config_bad buffer1;
          buffer2 = (if bad then fresh_config flashsize buffer1 else buffer1);
          f2 = (if bad then store_config S buffer2 f else f);
          inval = buffer2 ! CURRENT_ROM \<ge> buffer2 ! ROM_COUNT;
          romToBoot = (if inval then 0 else uint (buffer2 ! CURRENT_ROM));
          buffer3 = (if inval then buffer2[CURRENT_ROM := 0, LAST_SETUP_ROM := 0] else buffer2);
          runAddr = check_image S f2 (rom_addr buffer3 romToBoot);
          updateConfig = inval \<or> runAddr = 0
      in case try_roms S f2 buffer3 romToBoot runAddr of
           None \<Rightarrow> None
         | Some None \<Rightarrow> Some (f2, 0)
         | Some (Some (rom, addr)) \<Rightarrow>
             Some (if updateConfig then store_config S (seal_config (buffer3[CURRENT_ROM := word_of_int rom])) f2 else f2, addr))"

end
