(* ===== verification/Rboot_Image.thy ===== *)
theory Rboot_Image
  imports Rboot
begin

text \<open>
  The image format the boot loader accepts: what \<open>check_image\<close> computes on an image, with or without
  the library section in front, and what the second stage then loads. The documented behaviour of the
  flash functions is the predicate \<open>nor_flash\<close>: reads inside the chip succeed and return its bytes,
  erasing sets a sector to ones, writing can only clear bits.
\<close>

section \<open>The flash chip\<close>

definition nor_flash :: "'f spi \<Rightarrow> ('f \<Rightarrow> mem) \<Rightarrow> nat \<Rightarrow> bool" where
  "nor_flash S chip fsize \<longleftrightarrow> fsize < 2 ^ 32 \<and>
     (\<forall>f a n. unat a + unat n \<le> fsize \<longrightarrow> SPIRead S a n f = Some (mem_read (chip f) (unat a) (unat n))) \<and>
     (\<forall>f s i. 4096 * unat s + 4096 \<le> fsize \<longrightarrow>
        chip (SPIEraseSector S s f) i = (if i div 4096 = unat s then 0xFF else chip f i)) \<and>
     (\<forall>f a bs. unat a + length bs \<le> fsize \<longrightarrow> snd (SPIWrite S a bs f) \<and>
        (\<forall>i. chip (fst (SPIWrite S a bs f)) i =
           (if unat a \<le> i \<and> i < unat a + length bs then chip f i AND bs ! (i - unat a) else chip f i)))"

lemma flash_read:
  assumes "nor_flash S chip fsize" "a + n \<le> fsize"
  shows "SPIRead S (of_nat a) (of_nat n) f = Some (mem_read (chip f) a n)"
proof -
  have "unat (of_nat a :: u32) = a" "unat (of_nat n :: u32) = n"
    using assms by (intro unat_of_nat_small; simp add: nor_flash_def)+
  then show ?thesis using assms unfolding nor_flash_def by metis
qed

lemma flash_read_num:
  assumes "nor_flash S chip fsize" "a + numeral k \<le> fsize"
  shows "SPIRead S (of_nat a) (numeral k) f = Some (mem_read (chip f) a (numeral k))"
  using flash_read [OF assms] by simp

lemma flash_erase:
  assumes "nor_flash S chip fsize" "4096 * s + 4096 \<le> fsize"
  shows "chip (SPIEraseSector S (of_nat s) f) i = (if i div 4096 = s then 0xFF else chip f i)"
proof -
  have "unat (of_nat s :: u32) = s" using assms by (intro unat_of_nat_small; simp add: nor_flash_def)
  then show ?thesis using assms unfolding nor_flash_def by metis
qed

lemma flash_write:
  assumes "nor_flash S chip fsize" "a + length bs \<le> fsize"
  shows "snd (SPIWrite S (of_nat a) bs f)"
    "chip (fst (SPIWrite S (of_nat a) bs f)) i =
      (if a \<le> i \<and> i < a + length bs then chip f i AND bs ! (i - a) else chip f i)"
proof -
  have u: "unat (of_nat a :: u32) = a" using assms by (intro unat_of_nat_small; simp add: nor_flash_def)
  have "\<forall>f a bs. unat a + length bs \<le> fsize \<longrightarrow> snd (SPIWrite S a bs f) \<and>
      (\<forall>i. chip (fst (SPIWrite S a bs f)) i =
         (if unat a \<le> i \<and> i < unat a + length bs then chip f i AND bs ! (i - unat a) else chip f i))"
    using assms(1) by (simp add: nor_flash_def)
  from this [rule_format, of "of_nat a" bs f] assms(2)
  show "snd (SPIWrite S (of_nat a) bs f)"
    "chip (fst (SPIWrite S (of_nat a) bs f)) i =
      (if a \<le> i \<and> i < a + length bs then chip f i AND bs ! (i - a) else chip f i)"
    unfolding u by simp_all
qed

section \<open>Words as bytes\<close>

lemma length_bytes32 [simp]: "length (bytes32 v) = 4"
  by (simp add: bytes32_def)

lemma bytes32_join:
  "ucast (ucast v :: u8) OR push_bit 8 (ucast (ucast (drop_bit 8 v) :: u8)) OR push_bit 16 (ucast (ucast (drop_bit 16 v) :: u8)) OR
     push_bit 24 (ucast (ucast (drop_bit 24 v) :: u8)) = (v :: u32)" (is "?w = v")
proof (rule bit_word_eqI)
  fix n
  assume "n < LENGTH(32)"
  then consider "n < 8" | "8 \<le> n" "n < 16" | "16 \<le> n" "n < 24" | "24 \<le> n" "n < 32" by fastforce
  then show "bit ?w n = bit v n" by cases (auto simp: bit_simps)
qed

lemma get32_bytes32:
  assumes "length pre = i"
  shows "get32 (pre @ bytes32 v @ post) i = v"
  unfolding get32_def bytes32_def assms [symmetric] using bytes32_join [of v] by (simp add: nth_append)

section \<open>Images\<close>

type_synonym rom_section = "u32 \<times> u8 list"

definition section_bytes :: "rom_section \<Rightarrow> u8 list" where
  "section_bytes s = bytes32 (fst s) @ bytes32 (of_nat (length (snd s))) @ snd s"

definition rom_part :: "u8 \<Rightarrow> u8 \<Rightarrow> u32 \<Rightarrow> rom_section list \<Rightarrow> u8 list" where
  "rom_part flags1 flags2 entry secs =
     [ROM_MAGIC, of_nat (length secs), flags1, flags2] @ bytes32 entry @ concat (map section_bytes secs)"

definition irom_part :: "u8 \<Rightarrow> u8 \<Rightarrow> u32 \<Rightarrow> u32 \<Rightarrow> u8 list \<Rightarrow> u8 list" where
  "irom_part flags1 flags2 entry add irom =
     [ROM_MAGIC_NEW1, ROM_MAGIC_NEW2, flags1, flags2] @ bytes32 entry @ section_bytes (add, irom)"

definition payload :: "rom_section list \<Rightarrow> u8 list" where
  "payload secs = concat (map snd secs)"

lemma readlen_of_nat:
  assumes "r < 2 ^ 32"
  shows "readlen (of_nat r) = of_nat (min r 256)"
proof -
  have "unat (of_nat r :: u32) = r" by (rule unat_of_nat_small) (use assms in simp)
  then show ?thesis by (auto simp: readlen_def word_less_nat_alt min_def)
qed

lemma foldl_xor_append: "foldl (XOR) c (xs @ ys) = foldl (XOR) (foldl (XOR) c xs) ys"
  by simp

lemma of_nat_zero_u32: "r < 2 ^ 32 \<Longrightarrow> (of_nat r :: u32) > 0 \<longleftrightarrow> r > 0"
  using unat_of_nat_small [of r, where 'a = 32] by (simp add: word_less_nat_alt)

lemma check_blocks_ok:
  assumes "nor_flash S chip fsize" "p + r \<le> fsize"
  shows "check_blocks S f (of_nat r) (of_nat p) c = Some (of_nat (p + r), foldl (XOR) c (mem_read (chip f) p r))"
  using assms(2)
proof (induction r arbitrary: p c rule: less_induct)
  case (less r)
  have r: "r < 2 ^ 32" using less.prems assms(1) by (simp add: nor_flash_def)
  show ?case
  proof (cases "r = 0")
    case True
    then show ?thesis by (simp add: check_blocks.simps)
  next
    case False
    define n where "n = min r 256"
    have n: "0 < n" "n \<le> r" "n < 2 ^ 32" using False r by (simp_all add: n_def)
    have rd: "SPIRead S (of_nat p) (of_nat n) f = Some (mem_read (chip f) p n)"
      by (rule flash_read [OF assms(1)]) (use less.prems n(2) in simp)
    have un: "unat (of_nat n :: u32) = n" by (rule unat_of_nat_small) (use n(3) in simp)
    have "check_blocks S f (of_nat r) (of_nat p) c =
        check_blocks S f (of_nat (r - n)) (of_nat (p + n)) (foldl (XOR) c (mem_read (chip f) p n))"
      using False r n(2) rd un
      by (subst check_blocks.simps) (simp add: readlen_of_nat [OF r] of_nat_zero_u32 n_def [symmetric] of_nat_diff)
    also have "\<dots> = Some (of_nat (p + n + (r - n)), foldl (XOR) (foldl (XOR) c (mem_read (chip f) p n)) (mem_read (chip f) (p + n) (r - n)))"
      by (rule less.IH) (use n less.prems in simp_all)
    also have "\<dots> = Some (of_nat (p + r), foldl (XOR) c (mem_read (chip f) p r))"
      using n(2) mem_read_add [of "chip f" p n "r - n"] by (simp flip: foldl_append)
    finally show ?thesis .
  qed
qed

definition stored :: "mem \<Rightarrow> nat \<Rightarrow> u8 list \<Rightarrow> bool" where
  "stored m p bs \<longleftrightarrow> mem_read m p (length bs) = bs"

lemma stored_append [simp]: "stored m p (xs @ ys) \<longleftrightarrow> stored m p xs \<and> stored m (p + length xs) ys"
  by (simp add: stored_def mem_read_add)

lemma stored_read: "stored m p bs \<Longrightarrow> length bs = n \<Longrightarrow> mem_read m p n = bs"
  by (auto simp: stored_def)

lemma length_section_bytes [simp]: "length (section_bytes s) = 8 + length (snd s)"
  by (simp add: section_bytes_def)

text \<open>Reading a section header of an image.\<close>

lemma section_header:
  assumes "stored m p (section_bytes s)"
  shows "mem_read m p 8 = bytes32 (fst s) @ bytes32 (of_nat (length (snd s)))"
    "mem_read m (p + 8) (length (snd s)) = snd s"
proof -
  have "stored m p (bytes32 (fst s) @ bytes32 (of_nat (length (snd s))))" "stored m (p + 8) (snd s)"
    using assms by (simp_all add: section_bytes_def add.assoc)
  then show "mem_read m p 8 = bytes32 (fst s) @ bytes32 (of_nat (length (snd s)))"
    "mem_read m (p + 8) (length (snd s)) = snd s"
    by (auto simp: stored_def simp del: stored_append)
qed

lemma section_get:
  "get32 (bytes32 x @ bytes32 y) 4 = y" "get32 (bytes32 x @ bytes32 y) 0 = x"
  "get32 (bytes32 x @ bytes32 y @ zs) 4 = y" "get32 (bytes32 x @ bytes32 y @ zs) 0 = x"
  using get32_bytes32 [of "bytes32 x" 4 y "[]"] get32_bytes32 [of "[]" 0 x "bytes32 y"]
    get32_bytes32 [of "bytes32 x" 4 y zs] get32_bytes32 [of "[]" 0 x "bytes32 y @ zs"] by simp_all

lemma check_section_step:
  assumes "nor_flash S chip fsize" "stored (chip f) p (section_bytes s)" "p + 8 + length (snd s) \<le> fsize" "cur < sc" "sc \<noteq> 0xFF"
  shows "check_sections S f sc cur (of_nat p) c =
    check_sections S f sc (cur + 1) (of_nat (p + 8 + length (snd s))) (foldl (XOR) c (snd s))"
proof -
  have "SPIRead S (of_nat p) 8 f = Some (mem_read (chip f) p 8)" by (rule flash_read_num [OF assms(1)]) (use assms(3) in simp)
  moreover have "check_blocks S f (of_nat (length (snd s))) (of_nat (p + 8)) c =
      Some (of_nat (p + 8 + length (snd s)), foldl (XOR) c (snd s))"
    using check_blocks_ok [OF assms(1,3)] section_header(2) [OF assms(2)] by simp
  ultimately show ?thesis
    using assms(4,5) section_header(1) [OF assms(2)] by (subst check_sections.simps) (simp add: section_get)
qed

lemma check_sections_ok:
  assumes "nor_flash S chip fsize" "stored (chip f) p (concat (map section_bytes secs))"
    "p + length (concat (map section_bytes secs)) \<le> fsize" "unat cur + length secs = unat sc" "sc \<noteq> 0xFF"
  shows "check_sections S f sc cur (of_nat p) c =
    Some (of_nat (p + length (concat (map section_bytes secs))), foldl (XOR) c (payload secs))"
  using assms(2-4)
proof (induction secs arbitrary: p cur c)
  case Nil
  then show ?case by (subst check_sections.simps) (simp add: word_less_nat_alt payload_def)
next
  case (Cons s secs)
  have lt: "cur < sc" using Cons.prems(3) by (simp add: word_less_nat_alt)
  have h: "stored (chip f) p (section_bytes s)" "stored (chip f) (p + 8 + length (snd s)) (concat (map section_bytes secs))"
    using Cons.prems(1) by (simp_all add: add.assoc)
  have b: "p + 8 + length (snd s) \<le> fsize" "p + 8 + length (snd s) + length (concat (map section_bytes secs)) \<le> fsize"
    using Cons.prems(2) by simp_all
  have "unat (cur + 1) + length secs = unat sc" using Cons.prems(3) unat_succ_less [OF lt] by simp
  from check_section_step [OF assms(1) h(1) b(1) lt assms(5)] Cons.IH [OF h(2) b(2) this]
  show ?case by (simp add: payload_def add.assoc)
qed

text \<open>The library section in front is checked as section 0; it announces the header behind it.\<close>

lemma check_irom_step:
  assumes "nor_flash S chip fsize" "stored (chip f) p (section_bytes s)" "p + 16 + length (snd s) \<le> fsize"
    "mem_read (chip f) (p + 8 + length (snd s)) 8 = hdr"
  shows "check_sections S f 0xFF 0 (of_nat p) c =
    check_sections S f (hdr ! 1 + 1) 1 (of_nat (p + 16 + length (snd s))) (foldl (XOR) c (snd s))"
proof -
  have "SPIRead S (of_nat p) 8 f = Some (mem_read (chip f) p 8)" by (rule flash_read_num [OF assms(1)]) (use assms(3) in simp)
  moreover have "check_blocks S f (of_nat (length (snd s))) (of_nat (p + 8)) c =
      Some (of_nat (p + 8 + length (snd s)), foldl (XOR) c (snd s))"
    using check_blocks_ok [OF assms(1), of "p + 8" "length (snd s)" f c] assms(3) section_header(2) [OF assms(2)] by simp
  moreover have "SPIRead S (of_nat (p + 8 + length (snd s))) 8 f = Some hdr"
    using flash_read_num [OF assms(1), of "p + 8 + length (snd s)" _ f] assms(3,4) by simp
  ultimately show ?thesis
    using section_header(1) [OF assms(2)] by (subst check_sections.simps) (simp add: section_get add.assoc)
qed

lemma check_end:
  assumes "nor_flash S chip fsize" "q OR 0x0F < fsize"
  shows "SPIRead S (of_nat q OR 0x0F) 1 f = Some [chip f (q OR 0x0F)]"
proof -
  have "(of_nat (q OR 0x0F) :: u32) = of_nat q OR 0x0F" by (simp add: of_nat_or_eq)
  then have "SPIRead S (of_nat q OR 0x0F) (of_nat 1) f = Some (mem_read (chip f) (q OR 0x0F) 1)"
    using flash_read [OF assms(1), of "q OR 0x0F" 1 f] assms(2) by (metis Suc_eq_plus1 Suc_leI)
  then show ?thesis by (simp add: mem_read_def)
qed

lemma le_or_15: "q \<le> q OR (0x0F :: nat)"
proof -
  have "int q \<le> int q OR int 0x0F" by (rule or_greater_eq) simp
  then show ?thesis by (metis of_nat_le_iff of_nat_or_eq)
qed

lemma length_rom_part [simp]:
  "length (rom_part f1 f2 entry secs) = 8 + length (concat (map section_bytes secs))"
  by (simp add: rom_part_def)

lemma length_irom_part [simp]: "length (irom_part f1 f2 entry add irom) = 16 + length irom"
  by (simp add: irom_part_def)

lemma header_split:
  assumes "stored m p ([a, b, c, d] @ bytes32 e @ rest)"
  shows "mem_read m p 8 = [a, b, c, d] @ bytes32 e" "stored m (p + 8) rest"
proof -
  have "stored m p (([a, b, c, d] @ bytes32 e) @ rest)" using assms by simp
  then have h: "stored m p ([a, b, c, d] @ bytes32 e)" "stored m (p + length ([a, b, c, d] @ bytes32 e)) rest"
    unfolding stored_append by blast+
  show "mem_read m p 8 = [a, b, c, d] @ bytes32 e" by (rule stored_read [OF h(1)]) simp
  show "stored m (p + 8) rest" using h(2) by simp
qed

lemmas rom_part_split = header_split [OF rom_part_def [THEN arg_cong [where f = "stored m p" for m p], THEN iffD1]]
lemmas irom_part_split = header_split [OF irom_part_def [THEN arg_cong [where f = "stored m p" for m p], THEN iffD1]]

lemma small_rom_addr:
  assumes "nor_flash S chip fsize" "0 < p" "p + 16 \<le> fsize"
  shows "(of_nat p :: u32) \<noteq> 0" "(of_nat p :: u32) \<noteq> 0xFFFFFFFF"
proof -
  have u: "unat (of_nat p :: u32) = p" by (rule unat_of_nat_small) (use assms(1,3) in \<open>simp add: nor_flash_def\<close>)
  show "(of_nat p :: u32) \<noteq> 0" using u assms(2) by (metis unat_0 less_irrefl)
  have "p < 0xFFFFFFFF" using assms(1,3) by (simp add: nor_flash_def)
  moreover have "unat (0xFFFFFFFF :: u32) = 0xFFFFFFFF" by simp
  ultimately show "(of_nat p :: u32) \<noteq> 0xFFFFFFFF" using u by (metis less_irrefl_nat)
qed

lemma check_old_image:
  assumes fl: "nor_flash S chip fsize" and h: "stored (chip f) p (rom_part f1 f2 entry secs)"
    and "0 < p" "p + 16 \<le> fsize" "length secs < 255"
    and q: "q = p + length (rom_part f1 f2 entry secs)" "q OR 0x0F < fsize"
  shows "check_image S f (of_nat p) = (if chip f (q OR 0x0F) = calc_chksum (payload secs) then of_nat p else 0)"
proof -
  have q': "q \<le> fsize" using le_or_15 [of q] q(2) by linarith
  have rd: "SPIRead S (of_nat p) 16 f = Some (mem_read (chip f) p 16)" by (rule flash_read_num [OF fl assms(4)])
  have "mem_read (chip f) p 16 = mem_read (chip f) p 8 @ mem_read (chip f) (p + 8) 8"
    using mem_read_add [of "chip f" p 8 8] by simp
  then have hd: "mem_read (chip f) p 16 ! 0 = ROM_MAGIC" "mem_read (chip f) p 16 ! 1 = of_nat (length secs)"
    using rom_part_split(1) [OF h] by (simp_all add: nth_append)
  have un: "unat (of_nat (length secs) :: u8) = length secs" by (rule unat_of_nat_small) (use assms(5) in simp)
  then have nff: "(of_nat (length secs) :: u8) \<noteq> 0xFF" using assms(5) by (auto dest: arg_cong [of _ _ unat])
  have "check_sections S f (of_nat (length secs)) 0 (of_nat (p + 8)) CHKSUM_INIT = Some (of_nat q, calc_chksum (payload secs))"
    using check_sections_ok [OF fl rom_part_split(2) [OF h], of 0 "of_nat (length secs)" CHKSUM_INIT] un nff q' q(1)
    by (simp add: calc_chksum_def add.assoc)
  then show ?thesis
    using rd hd check_end [OF fl q(2)] small_rom_addr [OF fl assms(3,4)] by (simp add: check_image_def Let_def)
qed

lemma check_new_image:
  assumes fl: "nor_flash S chip fsize"
    and h: "stored (chip f) p (irom_part f1 f2 entry add irom @ rom_part f3 f4 entry' secs)"
    and "0 < p" "length secs < 254"
    and q: "q = p + length (irom_part f1 f2 entry add irom @ rom_part f3 f4 entry' secs)" "q OR 0x0F < fsize"
  shows "check_image S f (of_nat p) =
    (if chip f (q OR 0x0F) = calc_chksum (irom @ payload secs) then of_nat (p + 16 + length irom) else 0)"
proof -
  define r where "r = p + 16 + length irom"
  have q': "q \<le> fsize" "q = r + 8 + length (concat (map section_bytes secs))"
    using le_or_15 [of q] q by (simp_all add: r_def)
  have h1: "stored (chip f) p (irom_part f1 f2 entry add irom)" and h2: "stored (chip f) r (rom_part f3 f4 entry' secs)"
    using h by (simp_all add: r_def add.assoc)
  have rd: "SPIRead S (of_nat p) 16 f = Some (mem_read (chip f) p 16)"
    by (rule flash_read_num [OF fl]) (use q' r_def in linarith)
  have m16: "mem_read (chip f) p 16 = mem_read (chip f) p 8 @ mem_read (chip f) (p + 8) 8"
    using mem_read_add [of "chip f" p 8 8] by simp
  have hd: "mem_read (chip f) p 16 ! 0 = ROM_MAGIC_NEW1" "mem_read (chip f) p 16 ! 1 = ROM_MAGIC_NEW2"
    unfolding m16 irom_part_split(1) [OF h1] by simp_all
  have "mem_read (chip f) p 16 = ([ROM_MAGIC_NEW1, ROM_MAGIC_NEW2, f1, f2] @ bytes32 entry @ bytes32 add) @
      bytes32 (of_nat (length irom)) @ []"
    unfolding m16 irom_part_split(1) [OF h1] section_header(1) [OF irom_part_split(2) [OF h1]] by simp
  then have len: "get32 (mem_read (chip f) p 16) 12 = of_nat (length irom)"
    by (simp only:) (rule get32_bytes32, simp)
  have un: "unat (of_nat (length secs) + 1 :: u8) = Suc (length secs)"
    using unat_of_nat_small [of "Suc (length secs)", where 'a = 8] assms(4) by (simp add: add.commute)
  then have nff: "(of_nat (length secs) + 1 :: u8) \<noteq> 0xFF" using assms(4) by (auto dest: arg_cong [of _ _ unat])
  have "mem_read (chip f) (p + 8 + 8 + length irom) 8 ! 1 = of_nat (length secs)"
    using rom_part_split(1) [OF h2] by (simp add: r_def add.assoc)
  then have "check_sections S f 0xFF 0 (of_nat (p + 8)) CHKSUM_INIT =
      check_sections S f (of_nat (length secs) + 1) 1 (of_nat (r + 8)) (foldl (XOR) CHKSUM_INIT irom)"
    using check_irom_step [OF fl irom_part_split(2) [OF h1] _ refl, of CHKSUM_INIT] q' by (simp add: r_def add.assoc)
  also have "\<dots> = Some (of_nat q, calc_chksum (irom @ payload secs))"
    using check_sections_ok [OF fl rom_part_split(2) [OF h2], of 1 "of_nat (length secs) + 1"] un nff q'
    by (simp add: calc_chksum_def)
  finally show ?thesis
    using rd hd len check_end [OF fl q(2)] small_rom_addr [OF fl assms(3)] q'
    by (simp add: check_image_def Let_def r_def add.assoc)
qed

section \<open>Loading an image\<close>

lemma load_blocks_ok:
  assumes "nor_flash S chip fsize" "p + r \<le> fsize" "w + r < 2 ^ 32"
  shows "\<exists>buf'. load_blocks S f (of_nat r) (of_nat p) (of_nat w) buf ram =
    (of_nat (p + r), buf', mem_write ram w (mem_read (chip f) p r))"
  using assms(2,3)
proof (induction r arbitrary: p w buf ram rule: less_induct)
  case (less r)
  have r: "r < 2 ^ 32" using less.prems(2) by simp
  show ?case
  proof (cases "r = 0")
    case True
    then show ?thesis by (simp add: load_blocks.simps)
  next
    case False
    define n where "n = min r 256"
    have n: "0 < n" "n \<le> r" "n < 2 ^ 32" using False r by (simp_all add: n_def)
    have rd: "SPIRead S (of_nat p) (of_nat n) f = Some (mem_read (chip f) p n)"
      by (rule flash_read [OF assms(1)]) (use less.prems n(2) in simp)
    have un: "unat (of_nat n :: u32) = n" "unat (of_nat w :: u32) = w"
      using n(3) less.prems(2) by (intro unat_of_nat_small; simp)+
    define b1 where "b1 = fill (Some (mem_read (chip f) p n)) buf"
    have t: "take n b1 = mem_read (chip f) p n" by (simp add: b1_def fill_def)
    have "load_blocks S f (of_nat r) (of_nat p) (of_nat w) buf ram =
        load_blocks S f (of_nat (r - n)) (of_nat (p + n)) (of_nat (w + n)) b1 (mem_write ram w (mem_read (chip f) p n))"
      using False r n(2) rd un t
      by (subst load_blocks.simps) (simp add: readlen_of_nat [OF r] of_nat_zero_u32 n_def [symmetric] of_nat_diff Let_def b1_def)
    moreover obtain buf' where "load_blocks S f (of_nat (r - n)) (of_nat (p + n)) (of_nat (w + n)) b1
          (mem_write ram w (mem_read (chip f) p n)) =
        (of_nat (p + n + (r - n)), buf', mem_write (mem_write ram w (mem_read (chip f) p n)) (w + n) (mem_read (chip f) (p + n) (r - n)))"
      using less.IH [of "r - n" "p + n" "w + n" b1 "mem_write ram w (mem_read (chip f) p n)"] n less.prems by auto
    moreover have "mem_write (mem_write ram w (mem_read (chip f) p n)) (w + n) (mem_read (chip f) (p + n) (r - n)) =
        mem_write ram w (mem_read (chip f) p r)"
      using n(2) mem_read_add [of "chip f" p n "r - n"] mem_write_append [of ram w "mem_read (chip f) p n"] by simp
    ultimately show ?thesis using n(2) by simp
  qed
qed

definition place :: "mem \<Rightarrow> rom_section \<Rightarrow> mem" where
  "place ram s = mem_write ram (unat (fst s)) (snd s)"

definition ram_fits :: "rom_section \<Rightarrow> bool" where
  "ram_fits s \<longleftrightarrow> unat (fst s) + length (snd s) < 2 ^ 32"

lemma load_sections_ok:
  assumes "nor_flash S chip fsize" "stored (chip f) p (concat (map section_bytes secs))"
    "p + length (concat (map section_bytes secs)) \<le> fsize" "list_all ram_fits secs"
  shows "load_sections S f (length secs) (of_nat p) buf ram = foldl place ram secs"
  using assms(2-4)
proof (induction secs arbitrary: p buf ram)
  case Nil
  then show ?case by simp
next
  case (Cons s secs)
  have h: "stored (chip f) p (section_bytes s)" "stored (chip f) (p + 8 + length (snd s)) (concat (map section_bytes secs))"
    using Cons.prems(1) by (simp_all add: add.assoc)
  have b: "p + 8 + length (snd s) \<le> fsize" "p + 8 + length (snd s) + length (concat (map section_bytes secs)) \<le> fsize"
    using Cons.prems(2) by simp_all
  have rd: "SPIRead S (of_nat p) 8 f = Some (bytes32 (fst s) @ bytes32 (of_nat (length (snd s))))"
    using flash_read_num [OF assms(1), of p _ f] b(1) section_header(1) [OF h(1)] by simp
  define b1 where "b1 = fill (SPIRead S (of_nat p) 8 f) buf"
  have g: "get32 b1 4 = of_nat (length (snd s))" "get32 b1 0 = of_nat (unat (fst s))"
    by (simp_all add: b1_def rd fill_def section_get)
  obtain b2 where "load_blocks S f (of_nat (length (snd s))) (of_nat (p + 8)) (of_nat (unat (fst s))) b1 ram =
      (of_nat (p + 8 + length (snd s)), b2, mem_write ram (unat (fst s)) (mem_read (chip f) (p + 8) (length (snd s))))"
    using load_blocks_ok [OF assms(1) b(1), of "unat (fst s)" f b1 ram] Cons.prems(3) by (auto simp: ram_fits_def)
  then have "load_blocks S f (get32 b1 4) (of_nat p + 8) (get32 b1 0) b1 ram =
      (of_nat (p + 8 + length (snd s)), b2, place ram s)"
    using section_header(2) [OF h(1)] g by (simp add: place_def)
  then have "load_sections S f (length (s # secs)) (of_nat p) buf ram =
      load_sections S f (length secs) (of_nat (p + 8 + length (snd s))) b2 (place ram s)"
    by (simp add: b1_def [symmetric])
  then show ?case using Cons.IH [OF h(2) b(2)] Cons.prems(3) by simp
qed

lemma load_rom_ok:
  assumes "nor_flash S chip fsize" "stored (chip f) r (rom_part f1 f2 entry secs)"
    "r + length (rom_part f1 f2 entry secs) \<le> fsize" "length secs < 255" "list_all ram_fits secs"
  shows "load_rom S f junk (of_nat r) ram = (foldl place ram secs, entry)"
proof -
  have rd: "SPIRead S (of_nat r) 8 f = Some ([ROM_MAGIC, of_nat (length secs), f1, f2] @ bytes32 entry)"
    using flash_read_num [OF assms(1), of r _ f] assms(3) rom_part_split(1) [OF assms(2)] by simp
  define b where "b = fill (SPIRead S (of_nat r) 8 f) junk"
  have "unat (of_nat (length secs) :: u8) = length secs" by (rule unat_of_nat_small) (use assms(4) in simp)
  then have "unat (b ! 1) = length secs" "get32 b 4 = entry"
    using get32_bytes32 [of "[ROM_MAGIC, of_nat (length secs), f1, f2]" 4 entry] by (simp_all add: b_def rd fill_def)
  then show ?thesis
    using load_sections_ok [OF assms(1) rom_part_split(2) [OF assms(2)] _ assms(5), of b ram] assms(3)
    by (simp add: load_rom_def b_def [symmetric] Let_def add.assoc)
qed

section \<open>Properties\<close>

text \<open>
  C23. An image in flash: let the chip hold at \<open>p\<close> an image of the plain format, or one with a library section
  in front. Then \<^verbatim>\<open>check_image\<close> answers the address of the plain part if the byte at the next address that
  is 15 modulo 16 is the checksum of the library and all section data, and 0 otherwise, and \<^verbatim>\<open>load_rom\<close> at the address answered copies exactly the
  sections checked to their addresses and returns the entry point.
\<close>

theorem rboot_image_check_load:
  assumes "nor_flash S chip fsize"
    "pre = [] \<and> irom = [] \<or> pre = irom_part fa fb ea add irom"
    "stored (chip f) p (pre @ rom_part fc fd entry secs)"
    "0 < p" "p + 16 \<le> fsize" "length secs < 254" "list_all ram_fits secs"
    "q = p + length (pre @ rom_part fc fd entry secs)" "q OR 0x0F < fsize"
  shows "check_image S f (of_nat p) =
      (if chip f (q OR 0x0F) = calc_chksum (irom @ payload secs) then of_nat (p + length pre) else 0) \<and>
    load_rom S f junk (of_nat (p + length pre)) ram = (foldl place ram secs, entry)"
proof
  have "q \<le> fsize" using le_or_15 [of q] assms(9) by linarith
  then show "load_rom S f junk (of_nat (p + length pre)) ram = (foldl place ram secs, entry)"
    by (intro load_rom_ok [OF assms(1), of f _ fc fd]) (use assms in simp_all)
  show "check_image S f (of_nat p) =
      (if chip f (q OR 0x0F) = calc_chksum (irom @ payload secs) then of_nat (p + length pre) else 0)"
    using assms(2)
  proof
    assume "pre = [] \<and> irom = []"
    then show ?thesis
      using check_old_image [OF assms(1), of f p fc fd entry secs q] assms(3-6,8,9) by simp
  next
    assume "pre = irom_part fa fb ea add irom"
    then show ?thesis
      using check_new_image [OF assms(1), of f p fa fb ea add irom fc fd entry secs q] assms(3,4,6,8,9)
      by (simp add: add.assoc)
  qed
qed

text \<open>A chip of the documented behaviour, for the concrete instances.\<close>

definition sim_spi :: "mem spi" where
  "sim_spi = \<lparr>SPIRead = \<lambda>a n f. Some (mem_read f (unat a) (unat n)),
     SPIEraseSector = \<lambda>s f i. if i div 4096 = unat s then 0xFF else f i,
     SPIWrite = \<lambda>a bs f. (\<lambda>i. if unat a \<le> i \<and> i < unat a + length bs then f i AND bs ! (i - unat a) else f i, True)\<rparr>"

lemma sim_spi_flash: "fsize < 2 ^ 32 \<Longrightarrow> nor_flash sim_spi (\<lambda>f. f) fsize"
  by (simp add: nor_flash_def sim_spi_def)

definition sample_flash :: mem where
  "sample_flash = (mem_write (\<lambda>_. 0xFF) 0x2000 (irom_part 0 0 0 0 [1, 2, 3] @ rom_part 0 0 0x40100004 [(0x40100000, [5, 6])]))
     (0x202F := 0xEC)"

theorem rboot_image_check_load_witness:
  "check_image sim_spi sample_flash 0x2000 = 0x2013 \<and>
    load_rom sim_spi sample_flash [] 0x2013 (\<lambda>_. 0) = (foldl place (\<lambda>_. 0) [(0x40100000, [5, 6])], 0x40100004)"
proof -
  define im where "im = irom_part 0 0 0 0 [1, 2, 3] @ rom_part 0 0 0x40100004 [(0x40100000, [5, 6 :: u8])]"
  have len: "length im = 37" "length (irom_part 0 0 0 0 [1, 2, 3]) = 19" by (simp_all add: im_def)
  have "stored (mem_write (\<lambda>_. 0xFF) 0x2000 im) 0x2000 im" by (simp add: stored_def)
  then have h: "stored sample_flash 0x2000 im"
    unfolding stored_def sample_flash_def im_def [symmetric] by (simp add: mem_read_upd_out len(1))
  have o: "(8229 :: nat) OR 0x0F = 8239" by simp
  have c: "sample_flash 8239 = calc_chksum ([1, 2, 3] @ payload [(0x40100000, [5, 6])])"
    by (simp add: sample_flash_def calc_chksum_def payload_def)
  have "check_image sim_spi sample_flash (of_nat 0x2000) =
      (if sample_flash (8229 OR 0x0F) = calc_chksum ([1, 2, 3] @ payload [(0x40100000, [5, 6])])
       then of_nat (0x2000 + length (irom_part 0 0 0 0 [1, 2, 3])) else 0) \<and>
    load_rom sim_spi sample_flash [] (of_nat (0x2000 + length (irom_part 0 0 0 0 [1, 2, 3]))) (\<lambda>_. 0) =
      (foldl place (\<lambda>_. 0) [(0x40100000, [5, 6])], 0x40100004)"
    by (rule rboot_image_check_load [where S = sim_spi and chip = "\<lambda>f. f" and fsize = "0x100000" and fa = 0 and fb = 0 and ea = 0 and add = 0 and fc = 0 and fd = 0])
      (use h len in \<open>simp_all add: im_def ram_fits_def sim_spi_flash\<close>)
  then show ?thesis unfolding o len(2) using c by simp
qed

end
