(* ===== verification/Rboot_Find.thy ===== *)
theory Rboot_Find
  imports Rboot_Image
begin

text \<open>
  Which image \<open>find_image\<close> boots: the configured one, or else the first good one in the cyclic order of
  decreasing numbers; that the search returns whenever the configuration lists an image at all; and what
  it leaves in the configuration sector.
\<close>

section \<open>The configuration sector\<close>

lemma and_ff [simp]: "(0xFF :: u8) AND x = x"
proof -
  have "(0xFF :: u8) = -1" by simp
  then show ?thesis by (simp only: and.left_neutral)
qed

lemma chip_store_config:
  assumes "nor_flash S chip fsize" "0x2000 \<le> fsize" "length b = 4096"
  shows "chip (store_config S b f) = mem_write (chip f) 0x1000 b"
proof
  fix i
  have e: "chip (SPIEraseSector S BOOT_CONFIG_SECTOR f) i = (if i div 4096 = 1 then 0xFF else chip f i)"
    using flash_erase [OF assms(1), of 1 f i] assms(2) by simp
  have "chip (store_config S b f) i = (if 0x1000 \<le> i \<and> i < 0x1000 + length b
      then chip (SPIEraseSector S BOOT_CONFIG_SECTOR f) i AND b ! (i - 0x1000) else chip (SPIEraseSector S BOOT_CONFIG_SECTOR f) i)"
    unfolding store_config_def using flash_write(2) [OF assms(1), of 4096 b _ i] assms(2,3) by simp
  moreover have "i div 4096 = 1 \<longleftrightarrow> 4096 \<le> i \<and> i < 8192" by auto
  ultimately show "chip (store_config S b f) i = mem_write (chip f) 0x1000 b i"
    unfolding e using assms(3) by (simp add: mem_write_def)
qed

lemma length_seal_config [simp]: "length (seal_config b) = length b"
  by (simp add: seal_config_def)

lemma seal_config_good:
  assumes "CHKSUM < length b" "b ! 0 = BOOT_CONFIG_MAGIC" "b ! 1 = BOOT_CONFIG_VERSION"
  shows "\<not> config_bad (seal_config b)"
  using assms by (simp add: config_bad_def seal_config_def)

lemma seal_config_nth [simp]: "i \<noteq> CHKSUM \<Longrightarrow> seal_config b ! i = b ! i"
  by (simp add: seal_config_def)

lemma length_put32 [simp]: "i + 4 \<le> length b \<Longrightarrow> length (put32 i v b) = length b"
  by (simp add: put32_def)

lemma put32_nth: "i + 4 \<le> length b \<Longrightarrow> k < i \<or> i + 4 \<le> k \<Longrightarrow> put32 i v b ! k = b ! k"
  by (auto simp: put32_def nth_append)

lemma length_fresh_config [simp]: "28 \<le> length b \<Longrightarrow> length (fresh_config fs b) = length b"
  by (simp add: fresh_config_def default_config_def)

lemma fresh_config_fields:
  assumes "28 \<le> length b"
  shows "\<not> config_bad (fresh_config fs b)" "fresh_config fs b ! CURRENT_ROM = 0" "fresh_config fs b ! ROM_COUNT = 4"
proof -
  define z where "z = replicate CONFIG_SIZE 0 @ drop CONFIG_SIZE b"
  define b0 where "b0 = default_config fs (z[0 := BOOT_CONFIG_MAGIC, 1 := BOOT_CONFIG_VERSION])"
  have z: "length z = length b" "z ! CURRENT_ROM = 0" using assms by (simp_all add: z_def nth_append)
  then have l: "length b0 = length b" using assms by (simp add: b0_def default_config_def)
  have "0 < length z" using z(1) assms by linarith
  then have n: "b0 ! 0 = BOOT_CONFIG_MAGIC" "b0 ! 1 = BOOT_CONFIG_VERSION" "b0 ! CURRENT_ROM = 0" "b0 ! ROM_COUNT = 4"
    using assms z by (simp_all add: b0_def default_config_def put32_nth nth_list_update)
  have f: "fresh_config fs b = seal_config b0" by (simp add: fresh_config_def b0_def z_def)
  show "\<not> config_bad (fresh_config fs b)" unfolding f by (rule seal_config_good) (use n l assms in simp_all)
  show "fresh_config fs b ! CURRENT_ROM = 0" "fresh_config fs b ! ROM_COUNT = 4" unfolding f using n by simp_all
qed

section \<open>The search\<close>

definition boot_order :: "nat \<Rightarrow> nat \<Rightarrow> nat list" where
  "boot_order cur n = rev [0..<Suc cur] @ rev [Suc cur..<n]"

definition rom_at :: "nat \<Rightarrow> nat \<Rightarrow> nat \<Rightarrow> nat" where
  "rom_at cur n k = (if k \<le> cur then cur - k else cur + n - k)"

lemma boot_order_nth:
  assumes "cur < n"
  shows "boot_order cur n = map (rom_at cur n) [0..<n]"
proof (rule nth_equalityI)
  show "length (boot_order cur n) = length (map (rom_at cur n) [0..<n])" using assms by (simp add: boot_order_def)
  fix i
  assume "i < length (boot_order cur n)"
  then have i: "i < n" using assms by (simp add: boot_order_def)
  then show "boot_order cur n ! i = map (rom_at cur n) [0..<n] ! i"
    using assms by (auto simp: boot_order_def rom_at_def nth_append rev_nth simp del: upt_Suc)
qed

lemma find_boot_order:
  assumes "find P (boot_order cur n) = Some i" "cur < n"
  shows "P i" "i < n"
proof -
  have "P i \<and> i \<in> set (boot_order cur n)" using assms(1) by (auto simp: find_Some_iff)
  then show "P i" "i < n" using assms(2) by (auto simp: boot_order_def)
qed

lemma rom_at_step:
  assumes "cur < n" "k < n"
  shows "(if int (rom_at cur n k) - 1 < 0 then int n - 1 else int (rom_at cur n k) - 1) = int (rom_at cur n (Suc k))"
    "int (rom_at cur n (Suc k)) = int cur \<longleftrightarrow> Suc k = n"
  using assms by (auto simp: rom_at_def)

lemma try_roms_found:
  fixes S f romconf
  defines "n \<equiv> unat (romconf ! ROM_COUNT)" and "cur \<equiv> unat (romconf ! CURRENT_ROM)"
    and "good \<equiv> \<lambda>i. check_image S f (rom_addr romconf (int i))"
  assumes "cur < n" "k < n"
  shows "try_roms S f romconf (int (rom_at cur n k)) (good (rom_at cur n k)) =
    Some (map_option (\<lambda>i. (int i, good i)) (find (\<lambda>i. good i \<noteq> 0) (map (rom_at cur n) [k..<n])))"
  using assms(5)
proof (induction "n - k" arbitrary: k)
  case 0
  then show ?case by simp
next
  case (Suc m)
  have up: "[k..<n] = k # [Suc k..<n]" using Suc.prems by (simp add: upt_conv_Cons)
  show ?case
  proof (cases "good (rom_at cur n k) = 0")
    case False
    then show ?thesis unfolding up by (subst try_roms.simps) simp
  next
    case True
    have nx: "(if int (rom_at cur n k) - 1 < 0 then uint (romconf ! ROM_COUNT) - 1 else int (rom_at cur n k) - 1) = int (rom_at cur n (Suc k))"
    proof -
      have "uint (romconf ! ROM_COUNT) = int n" by (simp add: n_def)
      then show ?thesis using rom_at_step(1) [OF assms(4) Suc.prems] by (simp only:)
    qed
    have cu: "int (rom_at cur n (Suc k)) = uint (romconf ! CURRENT_ROM) \<longleftrightarrow> Suc k = n"
    proof -
      have "uint (romconf ! CURRENT_ROM) = int cur" by (simp add: cur_def)
      then show ?thesis using rom_at_step(2) [OF assms(4) Suc.prems] by (simp only:)
    qed
    have "try_roms S f romconf (int (rom_at cur n k)) (good (rom_at cur n k)) =
        (if Suc k = n then Some None
         else try_roms S f romconf (int (rom_at cur n (Suc k))) (good (rom_at cur n (Suc k))))"
      unfolding True by (subst try_roms.simps) (simp only: Let_def nx cu if_True refl good_def)
    then show ?thesis using Suc.hyps(1) [of "Suc k"] Suc.hyps(2) Suc.prems True unfolding up by auto
  qed
qed

section \<open>The boot decision\<close>

text \<open>The configuration a boot uses: the stored one if it is valid, the default one otherwise.\<close>

definition boot_config :: "mem \<Rightarrow> u8 list" where
  "boot_config m = (let c = mem_read m 0x1000 0x1000 in if config_bad c then fresh_config (flash_size (m 3)) c else c)"

lemma boot_config_good: "\<not> config_bad (boot_config m)" "length (boot_config m) = 4096"
  by (simp_all add: boot_config_def Let_def fresh_config_fields(1))

lemma boot_config_stored: "length b = 4096 \<Longrightarrow> \<not> config_bad b \<Longrightarrow> boot_config (mem_write m 0x1000 b) = b"
  using mem_read_write_same [of m "0x1000" b] by (simp add: boot_config_def Let_def)

lemma rom_addr_upd [simp]: "k < 8 \<Longrightarrow> rom_addr (b[k := v]) (int i) = rom_addr b (int i)"
  by (simp add: rom_addr_def get32_def nat_add_distrib nat_mult_distrib)

lemma find_image_buffers:
  assumes "nor_flash S chip fsize" "0x2000 \<le> fsize" "length junk = 4096"
  shows "fill (SPIRead S 0 8 f) junk ! 3 = chip f 3"
    "fill (SPIRead S (BOOT_CONFIG_SECTOR * SECTOR_SIZE) SECTOR_SIZE f) (fill (SPIRead S 0 8 f) junk) = mem_read (chip f) 0x1000 0x1000"
proof -
  have r: "SPIRead S 0 8 f = Some (mem_read (chip f) 0 8)" "SPIRead S (BOOT_CONFIG_SECTOR * SECTOR_SIZE) SECTOR_SIZE f = Some (mem_read (chip f) 0x1000 0x1000)"
    using flash_read_num [OF assms(1), of 0 _ f] flash_read_num [OF assms(1), of "0x1000" _ f] assms(2) by simp_all
  show "fill (SPIRead S 0 8 f) junk ! 3 = chip f 3" by (simp add: r fill_def nth_append)
  show "fill (SPIRead S (BOOT_CONFIG_SECTOR * SECTOR_SIZE) SECTOR_SIZE f) (fill (SPIRead S 0 8 f) junk) = mem_read (chip f) 0x1000 0x1000"
    unfolding r fill_def using assms(3) by simp
qed

text \<open>The part of \<open>find_image\<close> after the configuration has been read.\<close>

definition pick_rom :: "'f spi \<Rightarrow> 'f \<Rightarrow> u8 list \<Rightarrow> ('f \<times> u32) option" where
  "pick_rom S f b =
     (let inval = b ! CURRENT_ROM \<ge> b ! ROM_COUNT;
          romToBoot = (if inval then 0 else uint (b ! CURRENT_ROM));
          b3 = (if inval then b[CURRENT_ROM := 0, LAST_SETUP_ROM := 0] else b);
          runAddr = check_image S f (rom_addr b3 romToBoot);
          updateConfig = inval \<or> runAddr = 0
      in case try_roms S f b3 romToBoot runAddr of
           None \<Rightarrow> None
         | Some None \<Rightarrow> Some (f, 0)
         | Some (Some (rom, addr)) \<Rightarrow>
             Some (if updateConfig then store_config S (seal_config (b3[CURRENT_ROM := word_of_int rom])) f else f, addr))"

lemma find_image_pick:
  assumes "nor_flash S chip fsize" "0x2000 \<le> fsize" "length junk = 4096"
  shows "find_image S f junk = pick_rom S
    (if config_bad (mem_read (chip f) 0x1000 0x1000) then store_config S (boot_config (chip f)) f else f) (boot_config (chip f))"
  unfolding find_image_def pick_rom_def boot_config_def find_image_buffers [OF assms] Let_def by simp

lemma pick_rom_result:
  fixes S f b
  defines "n \<equiv> unat (b ! ROM_COUNT)"
  assumes "cur = (if unat (b ! CURRENT_ROM) < n then unat (b ! CURRENT_ROM) else 0)" "0 < n" "CHKSUM < length b"
  shows "pick_rom S f b =
    Some (case find (\<lambda>i. check_image S f (rom_addr b (int i)) \<noteq> 0) (boot_order cur n) of
        None \<Rightarrow> (f, 0)
      | Some i \<Rightarrow> (if unat (b ! CURRENT_ROM) = i then f
          else store_config S (seal_config ((if unat (b ! CURRENT_ROM) < n then b else b[LAST_SETUP_ROM := 0])[CURRENT_ROM := of_nat i])) f,
          check_image S f (rom_addr b (int i))))"
proof -
  define inval where "inval \<longleftrightarrow> b ! CURRENT_ROM \<ge> b ! ROM_COUNT"
  have inv: "inval \<longleftrightarrow> \<not> unat (b ! CURRENT_ROM) < n" by (auto simp: inval_def n_def word_le_nat_alt)
  define b3 where "b3 = (if inval then b[CURRENT_ROM := 0, LAST_SETUP_ROM := 0] else b)"
  define good where "good = (\<lambda>i. check_image S f (rom_addr b3 (int i)))"
  have b3: "unat (b3 ! ROM_COUNT) = n" "unat (b3 ! CURRENT_ROM) = cur" "rom_addr b3 (int i) = rom_addr b (int i)" for i
    using assms(2,4) inv by (simp_all add: b3_def n_def)
  have cur: "cur < n" using assms(2,3) by simp
  have r: "(if inval then 0 else uint (b ! CURRENT_ROM)) = int cur" using assms(2) inv by simp
  have "rom_at cur n 0 = cur" by (simp add: rom_at_def)
  then have tr: "try_roms S f b3 (int cur) (good cur) =
      Some (map_option (\<lambda>i. (int i, good i)) (find (\<lambda>i. good i \<noteq> 0) (boot_order cur n)))"
    using try_roms_found [of b3 0 S f, unfolded b3(1,2)] cur boot_order_nth [OF cur] by (simp add: good_def)
  have first: "good cur \<noteq> 0 \<Longrightarrow> find (\<lambda>i. good i \<noteq> 0) (boot_order cur n) = Some cur" by (simp add: boot_order_def)
  have pick: "pick_rom S f b = (case try_roms S f b3 (int cur) (good cur) of
           None \<Rightarrow> None
         | Some None \<Rightarrow> Some (f, 0)
         | Some (Some (rom, addr)) \<Rightarrow>
             Some (if inval \<or> good cur = 0 then store_config S (seal_config (b3[CURRENT_ROM := word_of_int rom])) f else f, addr))"
    unfolding pick_rom_def Let_def inval_def [symmetric] b3_def [symmetric] r good_def by simp
  show ?thesis
  proof (cases "find (\<lambda>i. good i \<noteq> 0) (boot_order cur n)")
    case None
    then show ?thesis unfolding pick tr by (simp add: good_def b3(3))
  next
    case (Some i)
    note gi = find_boot_order [OF Some cur]
    have "unat (b ! CURRENT_ROM) = i \<longleftrightarrow> \<not> (inval \<or> good cur = 0)" using gi first Some inv assms(2) by auto
    then show ?thesis unfolding pick tr using Some inv
      by (auto simp: good_def b3(3) b3_def list_update_swap)
  qed
qed

lemma same_outside_config:
  "length b = 4096 \<Longrightarrow> same_outside m m' 0x1000 0x1000 \<Longrightarrow> same_outside m (mem_write m' 0x1000 b) 0x1000 0x1000"
  by (simp add: same_outside_def mem_write_def)

text \<open>A configuration that lists no image: the search for a replacement never ends.\<close>

lemma try_roms_no_roms:
  assumes "romconf ! ROM_COUNT = 0" "check_image S f (rom_addr romconf (-1)) = 0" "rom < 1"
  shows "try_roms S f romconf rom 0 = None"
proof -
  have "\<not> (a = 0 \<and> r < 1 \<and> b ! ROM_COUNT = 0 \<and> check_image T g (rom_addr b (-1)) = 0)"
    if "try_roms T g b r a = Some y" for T :: "'a spi" and g b r a y
    using that
  proof (rule try_roms.raw_induct [rotated])
    fix try_roms :: "'a spi \<Rightarrow> 'a \<Rightarrow> u8 list \<Rightarrow> int \<Rightarrow> u32 \<Rightarrow> (int \<times> u32) option option" and T g b r a y
    assume IH: "\<And>T g b r a y. try_roms T g b r a = Some y \<Longrightarrow>
          \<not> (a = 0 \<and> r < 1 \<and> b ! ROM_COUNT = 0 \<and> check_image T g (rom_addr b (-1)) = 0)"
      and eq: "(if a = 0 then
          let rom = (if r - 1 < 0 then uint (b ! ROM_COUNT) - 1 else r - 1) in
          if rom = uint (b ! CURRENT_ROM) then Some None else try_roms T g b rom (check_image T g (rom_addr b rom))
        else Some (Some (r, a))) = Some y"
    show "\<not> (a = 0 \<and> r < 1 \<and> b ! ROM_COUNT = 0 \<and> check_image T g (rom_addr b (-1)) = 0)"
    proof
      assume h: "a = 0 \<and> r < 1 \<and> b ! ROM_COUNT = 0 \<and> check_image T g (rom_addr b (-1)) = 0"
      have "(-1 :: int) \<noteq> uint (b ! CURRENT_ROM)" using uint_ge_0 [of "b ! CURRENT_ROM"] by linarith
      then have "try_roms T g b (-1) 0 = Some y" using eq h by (simp add: Let_def)
      then show False using IH [of T g b "-1" 0 y] h by simp
    qed
  qed
  then show ?thesis using assms by (cases "try_roms S f romconf rom 0") auto
qed

lemma find_image_no_roms_hangs:
  assumes "nor_flash S chip fsize" "0x2000 \<le> fsize" "length junk = 4096"
    "cfg = mem_read (chip f) 0x1000 0x1000" "\<not> config_bad cfg" "cfg ! ROM_COUNT = 0"
    "check_image S f (rom_addr cfg 0) = 0" "check_image S f (get32 (cfg[LAST_SETUP_ROM := 0]) 4) = 0"
  shows "find_image S f junk = None"
proof -
  have b: "boot_config (chip f) = cfg" using assms(4,5) by (simp add: boot_config_def)
  define b3 where "b3 = cfg[CURRENT_ROM := 0, LAST_SETUP_ROM := 0]"
  have "get32 b3 4 = get32 (cfg[LAST_SETUP_ROM := 0]) 4" using assms(4) by (simp add: get32_def b3_def)
  then have "try_roms S f b3 0 0 = None"
    using assms(6,8) by (intro try_roms_no_roms) (simp_all add: b3_def rom_addr_def)
  moreover have "rom_addr b3 0 = rom_addr cfg 0" using rom_addr_upd [of _ _ _ 0] by (simp add: b3_def)
  ultimately have "pick_rom S f cfg = None"
    using assms(6,7) by (simp add: pick_rom_def b3_def [symmetric] Let_def)
  then show ?thesis using find_image_pick [OF assms(1-3), of f] assms(4,5) b by simp
qed

lemma rom_addr_seal: "k < 4 \<Longrightarrow> rom_addr (seal_config b) (int k) = rom_addr b (int k)"
  by (simp add: rom_addr_def get32_def seal_config_def nat_add_distrib nat_mult_distrib)

lemma find_image_outcome:
  assumes "nor_flash S chip fsize" "0x2000 \<le> fsize" "length junk = 4096"
    "cfg = boot_config (chip f)" "n = unat (cfg ! ROM_COUNT)" "0 < n"
    "cur = (if unat (cfg ! CURRENT_ROM) < n then unat (cfg ! CURRENT_ROM) else 0)"
  shows "\<exists>f1 f' a. find_image S f junk = Some (f', a) \<and>
    chip f1 = (if config_bad (mem_read (chip f) 0x1000 0x1000) then mem_write (chip f) 0x1000 cfg else chip f) \<and>
    (case find (\<lambda>i. check_image S f1 (rom_addr cfg (int i)) \<noteq> 0) (boot_order cur n) of
       None \<Rightarrow> a = 0 \<and> f' = f1
     | Some i \<Rightarrow> a = check_image S f1 (rom_addr cfg (int i)) \<and> a \<noteq> 0 \<and>
         unat (boot_config (chip f') ! CURRENT_ROM) = i \<and> \<not> config_bad (mem_read (chip f') 0x1000 0x1000) \<and>
         same_outside (chip f) (chip f') 0x1000 0x1000 \<and>
         (\<forall>k<4. rom_addr (boot_config (chip f')) (int k) = rom_addr cfg (int k)))"
proof -
  have cfg: "\<not> config_bad cfg" "length cfg = 4096" using boot_config_good assms(4) by simp_all
  define f1 where "f1 = (if config_bad (mem_read (chip f) 0x1000 0x1000) then store_config S cfg f else f)"
  have c1: "chip f1 = (if config_bad (mem_read (chip f) 0x1000 0x1000) then mem_write (chip f) 0x1000 cfg else chip f)"
    using chip_store_config [OF assms(1,2) cfg(2)] by (simp add: f1_def)
  have so1: "same_outside (chip f) (chip f1) 0x1000 0x1000" using cfg(2) by (simp add: c1 same_outside_config)
  have bc1: "boot_config (chip f1) = cfg" "\<not> config_bad (mem_read (chip f1) 0x1000 0x1000)"
    using cfg boot_config_stored [OF cfg(2,1)] mem_read_write_same [of "chip f" "0x1000" cfg] by (simp_all add: c1 assms(4))
  have "CHKSUM < length cfg" by (simp add: cfg(2))
  note pr = pick_rom_result [OF _ _ this, of cur S f1, folded assms(5), OF assms(7,6)]
  have "find_image S f junk = pick_rom S f1 cfg"
    unfolding f1_def assms(4) by (rule find_image_pick [OF assms(1-3)])
  note fi = this [unfolded pr]
  have cur: "cur < n" using assms(6,7) by simp
  show ?thesis
  proof (cases "find (\<lambda>i. check_image S f1 (rom_addr cfg (int i)) \<noteq> 0) (boot_order cur n)")
    case None
    then show ?thesis using fi c1 by (intro exI [of _ f1] exI [of _ 0]) simp
  next
    case (Some i)
    define b where "b = seal_config ((if unat (cfg ! CURRENT_ROM) < n then cfg else cfg[LAST_SETUP_ROM := 0])[CURRENT_ROM := of_nat i])"
    have lb: "length b = 4096" by (simp add: b_def cfg(2))
    have "\<not> config_bad b" unfolding b_def
      by (rule seal_config_good) (use cfg in \<open>simp_all add: config_bad_def\<close>)
    note st = boot_config_stored [OF lb this] this chip_store_config [OF assms(1,2) lb]
    note i = find_boot_order [OF Some cur]
    have "n < 256" using unat_u8_less [of "cfg ! ROM_COUNT"] assms(5) by simp
    then have "unat (of_nat i :: u8) = i" using i(2) by (intro unat_of_nat_small) simp
    then have "unat (b ! CURRENT_ROM) = i" by (simp add: b_def cfg(2))
    moreover have roms: "rom_addr b (int k) = rom_addr cfg (int k)" if "k < 4" for k
      using that by (simp add: b_def rom_addr_seal)
    moreover define f' where "f' = (if unat (cfg ! CURRENT_ROM) = i then f1 else store_config S b f1)"
    ultimately have "unat (boot_config (chip f') ! CURRENT_ROM) = i" "\<not> config_bad (mem_read (chip f') 0x1000 0x1000)"
      "same_outside (chip f) (chip f') 0x1000 0x1000" "\<forall>k<4. rom_addr (boot_config (chip f')) (int k) = rom_addr cfg (int k)"
      using st bc1 so1 lb roms mem_read_write_same [of "chip f1" "0x1000" b] by (simp_all add: same_outside_config)
    moreover have "find_image S f junk = Some (f', check_image S f1 (rom_addr cfg (int i)))"
      using fi Some by (simp add: f'_def b_def)
    ultimately show ?thesis
      using Some i(1) c1 by (intro exI [of _ f1] exI [of _ f'] exI [of _ "check_image S f1 (rom_addr cfg (int i))"]) simp
  qed
qed

section \<open>Properties\<close>

text \<open>
  C24. The boot decision: whatever the flash holds, if the configuration in use lists at least one image (a
  stored configuration with a wrong magic, version or checksum is first replaced by the default one),
  \<^verbatim>\<open>find_image\<close> returns. It tries the configured image (number 0 if the configured number is out of
  range) and then the others in cyclic descending order, and boots the first that passes the check; it
  returns 0 only when all of them fail, and then leaves the flash as it was. After a successful search
  the configuration sector is valid and names the booted image, so that the next boot starts with it,
  and no byte outside that sector has changed.
\<close>

theorem rboot_find_image:
  assumes "nor_flash S chip fsize" "0x2000 \<le> fsize" "length junk = 4096"
    "cfg = boot_config (chip f)" "n = unat (cfg ! ROM_COUNT)" "0 < n"
    "cur = (if unat (cfg ! CURRENT_ROM) < n then unat (cfg ! CURRENT_ROM) else 0)"
  shows "\<exists>f1 f' a. find_image S f junk = Some (f', a) \<and>
    chip f1 = (if config_bad (mem_read (chip f) 0x1000 0x1000) then mem_write (chip f) 0x1000 cfg else chip f) \<and>
    (case find (\<lambda>i. check_image S f1 (rom_addr cfg (int i)) \<noteq> 0) (boot_order cur n) of
       None \<Rightarrow> a = 0 \<and> f' = f1
     | Some i \<Rightarrow> a = check_image S f1 (rom_addr cfg (int i)) \<and> a \<noteq> 0 \<and>
         unat (boot_config (chip f') ! CURRENT_ROM) = i \<and> \<not> config_bad (mem_read (chip f') 0x1000 0x1000) \<and>
         same_outside (chip f) (chip f') 0x1000 0x1000)"
proof -
  obtain f1 f' a where r: "find_image S f junk = Some (f', a)"
      "chip f1 = (if config_bad (mem_read (chip f) 0x1000 0x1000) then mem_write (chip f) 0x1000 cfg else chip f)"
      "case find (\<lambda>i. check_image S f1 (rom_addr cfg (int i)) \<noteq> 0) (boot_order cur n) of
         None \<Rightarrow> a = 0 \<and> f' = f1
       | Some i \<Rightarrow> a = check_image S f1 (rom_addr cfg (int i)) \<and> a \<noteq> 0 \<and>
           unat (boot_config (chip f') ! CURRENT_ROM) = i \<and> \<not> config_bad (mem_read (chip f') 0x1000 0x1000) \<and>
           same_outside (chip f) (chip f') 0x1000 0x1000 \<and>
           (\<forall>k<4. rom_addr (boot_config (chip f')) (int k) = rom_addr cfg (int k))"
    using find_image_outcome [OF assms] by blast
  then show ?thesis
    by (intro exI [of _ f1] exI [of _ f'] exI [of _ a] conjI r(1,2)) (auto split: option.splits)
qed

lemma rom_addr_fresh:
  assumes "28 \<le> length b"
  shows "rom_addr (fresh_config fs b) 0 = 0x2000"
proof -
  have put: "get32 (put32 i v c) i = v" if "i + 4 \<le> length c" for i v c
    unfolding put32_def using get32_bytes32 [of "take i c" i v] that by simp
  have keep: "get32 (put32 k v c) i = get32 c i" if "k + 4 \<le> length c" "i + 4 \<le> k" for i k v c
    using that by (simp add: get32_def put32_nth)
  have seal: "get32 (seal_config c) 8 = get32 c 8" for c by (simp add: get32_def)
  show ?thesis using assms by (simp add: rom_addr_def fresh_config_def default_config_def seal put keep)
qed

lemma sample_image:
  assumes "same_outside sample_flash f1 0x1000 0x1000"
  shows "check_image sim_spi f1 0x2000 = 0x2013"
proof -
  define im where "im = irom_part 0 0 0 0 [1, 2, 3] @ rom_part 0 0 0x40100004 [(0x40100000, [5, 6 :: u8])]"
  have len: "length im = 37" by (simp add: im_def)
  have fl: "nor_flash sim_spi (\<lambda>f. f) 0x100000" by (rule sim_spi_flash) simp
  have f1: "f1 i = sample_flash i" if "0x2000 \<le> i" for i using assms that by (simp add: same_outside_def)
  have "mem_read f1 0x2000 37 = mem_read sample_flash 0x2000 37" by (rule mem_read_cong) (simp add: f1)
  moreover have "stored (mem_write (\<lambda>_. 0xFF) 0x2000 im) 0x2000 im" by (simp add: stored_def)
  ultimately have h: "stored f1 0x2000 im"
    unfolding stored_def sample_flash_def im_def [symmetric] by (simp add: mem_simps len)
  have c: "f1 (8229 OR 0x0F) = calc_chksum ([1, 2, 3] @ payload [(0x40100000, [5, 6])])"
    by (simp add: f1 sample_flash_def calc_chksum_def payload_def)
  show ?thesis
    using check_new_image [OF fl, of f1 "0x2000" 0 0 0 0 "[1, 2, 3]" 0 0 "0x40100004" "[(0x40100000, [5, 6])]" 8229] h c
    by (simp add: im_def)
qed

theorem rboot_find_image_witness:
  "\<exists>f'. find_image sim_spi sample_flash (replicate 4096 0) = Some (f', 0x2013) \<and>
    boot_config f' ! CURRENT_ROM = 0 \<and> \<not> config_bad (mem_read f' 0x1000 0x1000)"
proof -
  define cfg where "cfg = boot_config sample_flash"
  have bad: "config_bad (mem_read sample_flash 0x1000 0x1000)"
    by (simp add: config_bad_def sample_flash_def mem_write_def)
  have cfg: "cfg ! CURRENT_ROM = 0" "cfg ! ROM_COUNT = 4" "rom_addr cfg 0 = 0x2000" "length cfg = 4096"
    using bad boot_config_good(2) [of sample_flash] unfolding cfg_def boot_config_def Let_def
    by (simp_all add: fresh_config_fields rom_addr_fresh)
  have fl: "nor_flash sim_spi (\<lambda>f. f) 0x100000" by (rule sim_spi_flash) simp
  have ci: "check_image sim_spi (mem_write sample_flash 0x1000 cfg) 0x2000 = 0x2013"
    by (rule sample_image) (simp add: same_outside_config cfg(4))
  obtain f1 f' a where r: "find_image sim_spi sample_flash (replicate 4096 0) = Some (f', a)" "f1 = mem_write sample_flash 0x1000 cfg"
      "case find (\<lambda>i. check_image sim_spi f1 (rom_addr cfg (int i)) \<noteq> 0) (boot_order 0 4) of
        None \<Rightarrow> a = 0 \<and> f' = f1
      | Some i \<Rightarrow> a = check_image sim_spi f1 (rom_addr cfg (int i)) \<and> a \<noteq> 0 \<and>
         unat (boot_config f' ! CURRENT_ROM) = i \<and> \<not> config_bad (mem_read f' 0x1000 0x1000) \<and>
         same_outside sample_flash f' 0x1000 0x1000"
    using rboot_find_image [OF fl, of "replicate 4096 0" cfg sample_flash 4 0] bad cfg by (auto simp: cfg_def)
  have "find (\<lambda>i. check_image sim_spi f1 (rom_addr cfg (int i)) \<noteq> 0) (boot_order 0 4) = Some 0"
    using ci cfg(3) by (simp add: boot_order_def r(2))
  then show ?thesis using r ci cfg(3) by (auto simp: unat_eq_0)
qed

end
