(* ===== verification/Rboot_Api.thy ===== *)
theory Rboot_Api
  imports Rboot_Find
begin

text \<open>
  The application's side of the boot loader, \<^verbatim>\<open>app_common/rboot/rboot-api.c\<close>: reading and writing the boot
  configuration, switching between images, and streaming a new image into flash. The flash functions of
  the SDK are the same kind of record as those of the boot ROM; \<^verbatim>\<open>os_malloc\<close> is a flag, and the contents of
  uninitialised memory are arguments. \<^verbatim>\<open>system_restart\<close> is counted. (\<^verbatim>\<open>BOOT_RTC_ENABLED\<close> is not defined.)
\<close>

section \<open>Configuration\<close>

record api_env =
  malloc_ok :: bool
  junk_conf :: "u8 list"
  junk_buf :: "u8 list"

definition rboot_get_config :: "'f spi \<Rightarrow> api_env \<Rightarrow> 'f \<Rightarrow> u8 list" where
  "rboot_get_config S e f = fill (SPIRead S (BOOT_CONFIG_SECTOR * SECTOR_SIZE) 28 f) (junk_conf e)"

definition rboot_set_config :: "'f spi \<Rightarrow> api_env \<Rightarrow> u8 list \<Rightarrow> 'f \<Rightarrow> 'f \<times> bool" where
  "rboot_set_config S e conf f =
     (if \<not> malloc_ok e then (f, False)
      else
        let conf1 = seal_config conf;
            buffer = fill (SPIRead S (BOOT_CONFIG_SECTOR * SECTOR_SIZE) SECTOR_SIZE f) (junk_buf e);
            buffer1 = conf1 @ drop CONFIG_SIZE buffer
        in (store_config S buffer1 f, True))"

definition rboot_get_current_rom :: "'f spi \<Rightarrow> api_env \<Rightarrow> 'f \<Rightarrow> u8" where
  "rboot_get_current_rom S e f = rboot_get_config S e f ! CURRENT_ROM"

definition rboot_set_current_rom :: "'f spi \<Rightarrow> api_env \<Rightarrow> u8 \<Rightarrow> 'f \<Rightarrow> 'f \<times> bool" where
  "rboot_set_current_rom S e rom f =
     (let conf = rboot_get_config S e f in
      if rom \<ge> conf ! ROM_COUNT then (f, False)
      else
        let conf1 = (if conf ! CURRENT_ROM < 2 then conf[LAST_SETUP_ROM := conf ! CURRENT_ROM]
                     else if conf ! CURRENT_ROM < 4 then conf[LAST_MAIN_ROM := conf ! CURRENT_ROM]
                     else conf)
        in rboot_set_config S e (conf1[CURRENT_ROM := rom]) f)"

record 'f boot_state =
  flash :: 'f
  restartPending :: bool
  restarts :: nat

definition system_restart :: "'f boot_state \<Rightarrow> 'f boot_state" where
  "system_restart s = s\<lparr>restarts := restarts s + 1\<rparr>"

definition rboot_switch :: "'f spi \<Rightarrow> api_env \<Rightarrow> u8 \<Rightarrow> bool \<Rightarrow> 'f boot_state \<Rightarrow> 'f boot_state" where
  "rboot_switch S e slotNo restart s =
     (if restartPending s \<and> \<not> restart then s
      else if slotNo \<ge> 4 then s
      else if rboot_get_current_rom S e (flash s) = slotNo then
        if restartPending s \<and> restart then system_restart s else s
      else
        let (f1, ok) = rboot_set_current_rom S e slotNo (flash s); s1 = s\<lparr>flash := f1\<rparr> in
        if ok then if restart then system_restart s1 else s1\<lparr>restartPending := True\<rparr>
        else s1)"

definition rboot_switch_to_main :: "'f spi \<Rightarrow> api_env \<Rightarrow> 'f boot_state \<Rightarrow> 'f boot_state" where
  "rboot_switch_to_main S e s = rboot_switch S e (rboot_get_config S e (flash s) ! LAST_MAIN_ROM) True s"

definition rboot_switch_to_setup :: "'f spi \<Rightarrow> api_env \<Rightarrow> 'f boot_state \<Rightarrow> 'f boot_state" where
  "rboot_switch_to_setup S e s = rboot_switch S e (rboot_get_config S e (flash s) ! LAST_SETUP_ROM) True s"

section \<open>Writing an image\<close>

record rboot_write_status =
  start_addr :: u32
  start_sector :: u32
  last_sector_erased :: u32
  extra_count :: u8
  extra_bytes :: "u8 list"

definition rboot_write_init :: "u32 \<Rightarrow> rboot_write_status" where
  "rboot_write_init a =
     \<lparr>start_addr = a, start_sector = a div SECTOR_SIZE, last_sector_erased = a div SECTOR_SIZE - 1,
      extra_count = 0, extra_bytes = replicate 4 0\<rparr>"

lemma sint_minus_one:
  assumes "int n \<le> 2 ^ 31"
  shows "sint (of_nat n - 1 :: u32) = int n - 1"
proof -
  have "signed_take_bit 31 (int n - 1) = int n - 1"
    by (rule signed_take_bit_int_eq_self) (use assms in simp_all)
  then have "sint (word_of_int (int n - 1) :: u32) = int n - 1" by (subst signed_of_int) simp
  then show ?thesis by simp
qed

text \<open>The loop that erases the sectors a chunk reaches; the sector numbers are compared as signed integers.\<close>

function erase_sectors :: "'f spi \<Rightarrow> u32 \<Rightarrow> u32 \<Rightarrow> 'f \<Rightarrow> u32 \<times> 'f" where
  "erase_sectors S lastsect lst f =
     (if sint lastsect > sint lst
      then erase_sectors S lastsect (lst + 1) (SPIEraseSector S (lst + 1) f)
      else (lst, f))"
  by auto

termination
proof (relation "measure (\<lambda>(S, lastsect, lst, f). nat (sint lastsect - sint lst))", goal_cases)
  case 1
  then show ?case by simp
next
  case (2 S lastsect lst f)
  have "sint lastsect < 2 ^ 31" using sint_lt [of lastsect] by simp
  then have "sint lst + 1 < 2 ^ 31" "- (2 ^ 31) \<le> sint lst + 1" using 2 sint_ge [of lst] by simp_all
  then have "sint (lst + 1) = sint lst + 1"
    by (simp add: sint_word_ariths signed_take_bit_int_eq_self)
  then show ?case using 2 by simp
qed

declare erase_sectors.simps [simp del]

definition rboot_write_flash :: "'f spi \<Rightarrow> bool \<Rightarrow> rboot_write_status \<Rightarrow> u8 list option \<Rightarrow> u16 \<Rightarrow> 'f \<Rightarrow> rboot_write_status \<times> 'f \<times> bool" where
  "rboot_write_flash S ok status dat len f =
     (case dat of
        None \<Rightarrow> (status, f, True)
      | Some bs \<Rightarrow>
          if len = 0 then (status, f, True)
          else if \<not> ok then (status, f, False)
          else
            let buffer = take (unat (extra_count status)) (extra_bytes status) @ take (unat len) bs;
                len1 = len + ucast (extra_count status);
                extra = ucast (len1 mod 4) :: u8;
                len2 = len1 - ucast extra;
                status1 = status\<lparr>extra_count := extra,
                  extra_bytes := take (unat extra) (drop (unat len2) buffer) @ drop (unat extra) (extra_bytes status)\<rparr>;
                lastsect = (start_addr status + ucast len2 - 1) div SECTOR_SIZE;
                (last1, f1) = erase_sectors S lastsect (last_sector_erased status) f;
                status2 = status1\<lparr>last_sector_erased := last1\<rparr>;
                (f2, res) = SPIWrite S (start_addr status) (take (unat len2) buffer) f1
            in (if res then status2\<lparr>start_addr := start_addr status + ucast len2\<rparr> else status2, f2, res))"

definition rboot_write_end :: "'f spi \<Rightarrow> bool \<Rightarrow> rboot_write_status \<Rightarrow> 'f \<Rightarrow> rboot_write_status \<times> 'f \<times> bool" where
  "rboot_write_end S ok status f =
     (if extra_count status \<noteq> 0 then
        let status1 = status\<lparr>extra_bytes := take (unat (extra_count status)) (extra_bytes status) @
              replicate (4 - unat (extra_count status)) 0xFF\<rparr>
        in rboot_write_flash S ok status1 (Some (extra_bytes status1)) 4 f
      else (status, f, True))"

section \<open>Selecting an image\<close>

lemma get_config_read:
  assumes "nor_flash S chip fsize" "0x2000 \<le> fsize" "length (junk_conf e) = 28"
  shows "rboot_get_config S e f = mem_read (chip f) 0x1000 28"
proof -
  have "SPIRead S (BOOT_CONFIG_SECTOR * SECTOR_SIZE) 28 f = Some (mem_read (chip f) 0x1000 28)"
    using flash_read_num [OF assms(1), of "0x1000" _ f] assms(2) by simp
  then show ?thesis unfolding rboot_get_config_def using assms(3) by (simp only: fill_def) simp
qed

lemma set_config_chip:
  assumes "nor_flash S chip fsize" "0x2000 \<le> fsize" "malloc_ok e" "length (junk_buf e) = 4096" "length conf = 28"
    "rboot_set_config S e conf f = (f', b)"
  shows "b" "chip f' = mem_write (chip f) 0x1000 (seal_config conf @ mem_read (chip f) 0x101C 0xFE4)"
proof -
  have rd: "SPIRead S (BOOT_CONFIG_SECTOR * SECTOR_SIZE) SECTOR_SIZE f = Some (mem_read (chip f) 0x1000 0x1000)"
    using flash_read_num [OF assms(1), of "0x1000" _ f] assms(2) by simp
  have "mem_read (chip f) 0x1000 0x1000 = mem_read (chip f) 0x1000 28 @ mem_read (chip f) 0x101C 0xFE4"
    using mem_read_add [of "chip f" "0x1000" 28 "0xFE4"] by simp
  then have "drop CONFIG_SIZE (fill (Some (mem_read (chip f) 0x1000 0x1000)) (junk_buf e)) = mem_read (chip f) 0x101C 0xFE4"
    using assms(4) by (simp add: fill_def)
  then have r: "rboot_set_config S e conf f = (store_config S (seal_config conf @ mem_read (chip f) 0x101C 0xFE4) f, True)"
    using assms(3) unfolding rboot_set_config_def rd Let_def by simp
  then show "b" using assms(6) by simp
  show "chip f' = mem_write (chip f) 0x1000 (seal_config conf @ mem_read (chip f) 0x101C 0xFE4)"
    using chip_store_config [OF assms(1,2), of "seal_config conf @ mem_read (chip f) 0x101C 0xFE4" f] r assms(5,6) by simp
qed

text \<open>The struct with the new image number: the old number is remembered as the last one of its kind.\<close>

definition chosen_config :: "u8 list \<Rightarrow> u8 \<Rightarrow> u8 list" where
  "chosen_config conf rom =
     (if conf ! CURRENT_ROM < 2 then conf[LAST_SETUP_ROM := conf ! CURRENT_ROM]
      else if conf ! CURRENT_ROM < 4 then conf[LAST_MAIN_ROM := conf ! CURRENT_ROM] else conf)[CURRENT_ROM := rom]"

lemma chosen_config_fields:
  assumes "length conf = 28"
  shows "length (chosen_config conf rom) = 28" "chosen_config conf rom ! CURRENT_ROM = rom"
    "i \<notin> {CURRENT_ROM, LAST_SETUP_ROM, LAST_MAIN_ROM} \<Longrightarrow> chosen_config conf rom ! i = conf ! i"
  using assms by (simp_all add: chosen_config_def)

lemma set_current_rom_eq:
  assumes "rboot_get_config S e f = conf" "rom < conf ! ROM_COUNT"
  shows "rboot_set_current_rom S e rom f = rboot_set_config S e (chosen_config conf rom) f"
  using assms by (simp add: rboot_set_current_rom_def chosen_config_def Let_def not_le [symmetric])

lemma set_current_rom_chip:
  assumes "nor_flash S chip fsize" "0x2000 \<le> fsize" "malloc_ok e" "length (junk_conf e) = 28" "length (junk_buf e) = 4096"
    "rom < chip f 0x1005" "rboot_set_current_rom S e rom f = (f', b)"
  shows "b" "chip f' = mem_write (chip f) 0x1000
    (seal_config (chosen_config (mem_read (chip f) 0x1000 28) rom) @ mem_read (chip f) 0x101C 0xFE4)"
proof -
  have "rboot_set_config S e (chosen_config (mem_read (chip f) 0x1000 28) rom) f = (f', b)"
    using set_current_rom_eq [OF get_config_read [OF assms(1,2,4)], of rom f] assms(6,7) by simp
  note set_config_chip [OF assms(1-3,5) _ this]
  then show "b" "chip f' = mem_write (chip f) 0x1000
    (seal_config (chosen_config (mem_read (chip f) 0x1000 28) rom) @ mem_read (chip f) 0x101C 0xFE4)"
    by (simp_all add: chosen_config_fields)
qed

lemma pick_current:
  assumes "unat (b ! CURRENT_ROM) < unat (b ! ROM_COUNT)" "CHKSUM < length b"
    "check_image S f (rom_addr b (uint (b ! CURRENT_ROM))) \<noteq> 0"
  shows "pick_rom S f b = Some (f, check_image S f (rom_addr b (uint (b ! CURRENT_ROM))))"
proof -
  have "0 < unat (b ! ROM_COUNT)" using assms(1) by linarith
  from pick_rom_result [OF _ this assms(2), of "unat (b ! CURRENT_ROM)" S f] assms(1,3)
  show ?thesis by (simp add: boot_order_def)
qed

lemma chosen_sector:
  fixes m rom
  defines "old \<equiv> mem_read m 0x1000 0x1000"
  defines "b \<equiv> seal_config (chosen_config (mem_read m 0x1000 28) rom) @ mem_read m 0x101C 0xFE4"
  assumes "\<not> config_bad old"
  shows "length b = 4096" "\<not> config_bad b" "b ! CURRENT_ROM = rom" "b ! ROM_COUNT = old ! ROM_COUNT"
    "8 \<le> i \<Longrightarrow> i < CHKSUM \<Longrightarrow> b ! i = old ! i"
proof -
  have c: "length (chosen_config (mem_read m 0x1000 28) rom) = 28" by (simp add: chosen_config_fields)
  show l: "length b = 4096" by (simp add: b_def c)
  have n: "b ! i = old ! i" if "i < CHKSUM" "i \<notin> {CURRENT_ROM, LAST_SETUP_ROM, LAST_MAIN_ROM}" for i
    using that by (simp add: b_def old_def nth_append c chosen_config_fields)
  show "b ! CURRENT_ROM = rom" by (simp add: b_def nth_append c chosen_config_fields)
  show "b ! ROM_COUNT = old ! ROM_COUNT" by (rule n) simp_all
  show "8 \<le> i \<Longrightarrow> i < CHKSUM \<Longrightarrow> b ! i = old ! i" by (rule n) auto
  have "take CHKSUM b = take CHKSUM (chosen_config (mem_read m 0x1000 28) rom)"
    using c by (simp add: b_def seal_config_def)
  moreover have "b ! CHKSUM = calc_chksum (take CHKSUM (chosen_config (mem_read m 0x1000 28) rom))"
    using c by (simp add: b_def seal_config_def nth_append)
  ultimately show "\<not> config_bad b" using assms(3) n [of 0] n [of 1] by (simp add: config_bad_def)
qed

lemma rom_addr_cong:
  assumes "\<And>i. 8 \<le> i \<Longrightarrow> i < CHKSUM \<Longrightarrow> b ! i = c ! i" "k < 4"
  shows "rom_addr b (int k) = rom_addr c (int k)"
  using assms by (simp add: rom_addr_def get32_def nat_add_distrib nat_mult_distrib)

lemma selected_rom_boots:
  assumes "nor_flash S chip fsize" "0x2000 \<le> fsize" "malloc_ok e" "length (junk_conf e) = 28" "length (junk_buf e) = 4096"
    "length junk = 4096" "\<not> config_bad (mem_read (chip f) 0x1000 0x1000)" "rom < chip f 0x1005" "unat rom < 4"
    "a = rom_addr (mem_read (chip f) 0x1000 0x1000) (uint rom)"
  shows "\<exists>f'. rboot_set_current_rom S e rom f = (f', True) \<and> rboot_get_current_rom S e f' = rom \<and>
    \<not> config_bad (mem_read (chip f') 0x1000 0x1000) \<and> same_outside (chip f) (chip f') 0x1000 28 \<and>
    (check_image S f' a = 0 \<or> find_image S f' junk = Some (f', check_image S f' a))"
proof -
  define b where "b = seal_config (chosen_config (mem_read (chip f) 0x1000 28) rom) @ mem_read (chip f) 0x101C 0xFE4"
  obtain f' where f': "rboot_set_current_rom S e rom f = (f', True)" "chip f' = mem_write (chip f) 0x1000 b"
    using set_current_rom_chip [OF assms(1-5,8)] by (metis (full_types) surj_pair b_def)
  note cs = chosen_sector [OF assms(7), where rom = rom, folded b_def]
  have sec: "mem_read (chip f') 0x1000 0x1000 = b" using mem_read_write_same [of "chip f" "0x1000" b] cs(1) f'(2) by simp
  have bc: "boot_config (chip f') = b" using boot_config_stored [OF cs(1,2)] f'(2) by simp
  have "rboot_get_current_rom S e f' = b ! CURRENT_ROM"
    using arg_cong [OF sec, of "\<lambda>xs. xs ! CURRENT_ROM"] by (simp add: rboot_get_current_rom_def get_config_read [OF assms(1,2,4)])
  moreover have "same_outside (chip f) (chip f') 0x1000 28"
    unfolding same_outside_def f'(2) mem_write_def cs(1) by (auto simp: b_def nth_append chosen_config_fields)
  moreover have "find_image S f' junk = Some (f', check_image S f' a)" if "check_image S f' a \<noteq> 0"
  proof -
    have "rom_addr b (int (unat rom)) = rom_addr (mem_read (chip f) 0x1000 0x1000) (int (unat rom))"
      by (rule rom_addr_cong [OF cs(5) assms(9)])
    then have ra: "rom_addr b (uint (b ! CURRENT_ROM)) = a" using cs(3) assms(10) by simp
    have "unat (b ! CURRENT_ROM) < unat (b ! ROM_COUNT)" using cs(3,4) assms(8) by (simp add: word_less_nat_alt)
    then have "pick_rom S f' b = Some (f', check_image S f' a)" using pick_current [of b S f'] cs(1) ra that by simp
    then show ?thesis using find_image_pick [OF assms(1,2,6), of f'] sec bc cs(2) by simp
  qed
  ultimately show ?thesis using f'(1) cs(2,3) sec by blast
qed

text \<open>
  C25. Selecting the image for the next boot, across the application and the boot loader: with a valid stored
  configuration and memory for the sector buffer, \<^verbatim>\<open>rboot_set_current_rom\<close> with a number below the number
  of images succeeds, \<^verbatim>\<open>rboot_get_current_rom\<close> then answers that number, the stored configuration is still
  valid, and nothing outside the 28 bytes of the struct has changed. At the next start \<^verbatim>\<open>find_image\<close> boots
  exactly the selected image, without writing to the flash, whenever that image passes the check.
\<close>

theorem rboot_selected_rom_boots:
  assumes "nor_flash S chip fsize" "0x2000 \<le> fsize" "malloc_ok e" "length (junk_conf e) = 28" "length (junk_buf e) = 4096"
    "length junk = 4096" "\<not> config_bad (mem_read (chip f) 0x1000 0x1000)" "rom < chip f 0x1005" "unat rom < 4"
    "a = rom_addr (mem_read (chip f) 0x1000 0x1000) (uint rom)"
  shows "\<exists>f'. rboot_set_current_rom S e rom f = (f', True) \<and> rboot_get_current_rom S e f' = rom \<and>
    \<not> config_bad (mem_read (chip f') 0x1000 0x1000) \<and> same_outside (chip f) (chip f') 0x1000 28 \<and>
    (check_image S f' a = 0 \<or> find_image S f' junk = Some (f', check_image S f' a))"
  by (rule selected_rom_boots [OF assms])

definition configured_flash :: mem where
  "configured_flash = mem_write sample_flash 0x1000 (fresh_config 0x80000 (replicate 4096 0))"

definition calm_env :: api_env where
  "calm_env = \<lparr>malloc_ok = True, junk_conf = replicate 28 0, junk_buf = replicate 4096 0\<rparr>"

theorem rboot_selected_rom_boots_witness:
  "\<exists>f'. rboot_set_current_rom sim_spi calm_env 0 configured_flash = (f', True) \<and>
    rboot_get_current_rom sim_spi calm_env f' = 0 \<and> same_outside configured_flash f' 0x1000 28 \<and>
    find_image sim_spi f' (replicate 4096 0) = Some (f', 0x2013)"
proof -
  define c where "c = fresh_config 0x80000 (replicate 4096 0)"
  have c: "\<not> config_bad c" "c ! ROM_COUNT = 4" "rom_addr c 0 = 0x2000" "length c = 4096"
    by (simp_all add: c_def fresh_config_fields rom_addr_fresh)
  have sec: "mem_read configured_flash 0x1000 0x1000 = c"
    using mem_read_write_same [of sample_flash "0x1000" c] c(4) by (simp add: configured_flash_def c_def)
  have n: "configured_flash 0x1005 = 4" using c(2,4) by (simp add: configured_flash_def c_def [symmetric] mem_write_def)
  have fl: "nor_flash sim_spi (\<lambda>f. f) 0x100000" by (rule sim_spi_flash) simp
  obtain f' where f': "rboot_set_current_rom sim_spi calm_env 0 configured_flash = (f', True)"
      "rboot_get_current_rom sim_spi calm_env f' = 0" "same_outside configured_flash f' 0x1000 28"
      "check_image sim_spi f' 0x2000 = 0 \<or> find_image sim_spi f' (replicate 4096 0) = Some (f', check_image sim_spi f' 0x2000)"
    using rboot_selected_rom_boots [OF fl, of calm_env "replicate 4096 0" configured_flash 0 "0x2000"] sec c n
    by (auto simp: calm_env_def)
  have "same_outside sample_flash f' 0x1000 0x1000"
    using f'(3) c(4) by (auto simp: same_outside_def configured_flash_def c_def [symmetric] mem_write_def)
  then show ?thesis using f' sample_image [of f'] by simp
qed

end
