(* ===== verification/Rboot_Ota.thy ===== *)
theory Rboot_Ota
  imports Rboot_Api
begin

text \<open>
  Streaming an image into flash with \<open>rboot_write_init\<close>, \<open>rboot_write_flash\<close> and \<open>rboot_write_end\<close>: chunks of
  any length arrive, words of four bytes are written, sectors are erased just before they are reached.
\<close>

section \<open>Erasing ahead\<close>

text \<open>\<open>n\<close> is the first sector not yet erased, so that \<open>last_sector_erased\<close> is \<open>n - 1\<close>.\<close>

lemma sint_of_small: "n < 2 ^ 31 \<Longrightarrow> sint (of_nat n :: u32) = int n"
  using sint_minus_one [of "Suc n"] by simp

lemma erase_sectors_ok:
  assumes "nor_flash S chip fsize" "4096 * t + 4096 \<le> fsize" "n \<le> 2 ^ 20"
  shows "\<exists>f'. erase_sectors S (of_nat t) (of_nat n - 1) f = (of_nat (max n (Suc t)) - 1, f') \<and>
    (\<forall>i. chip f' i = (if n \<le> i div 4096 \<and> i div 4096 \<le> t then 0xFF else chip f i))"
  using assms(3)
proof (induction "Suc t - n" arbitrary: n f)
  case 0
  have "t < 2 ^ 31" using assms(1,2) by (simp add: nor_flash_def)
  moreover have "t < n" using 0 by simp
  moreover have "int n \<le> 2 ^ 31" using 0(2) by simp
  ultimately have "erase_sectors S (of_nat t) (of_nat n - 1) f = (of_nat n - 1, f)"
    by (subst erase_sectors.simps) (simp add: sint_minus_one sint_of_small)
  moreover have "max n (Suc t) = n" using \<open>t < n\<close> by simp
  ultimately show ?case using \<open>t < n\<close> by auto
next
  case (Suc k)
  have t: "t < 2 ^ 20" using assms(1,2) by (simp add: nor_flash_def)
  have nt: "n \<le> t" using Suc.hyps(2) by simp
  have "int n \<le> 2 ^ 31" using Suc.prems by simp
  then have "erase_sectors S (of_nat t) (of_nat n - 1) f = erase_sectors S (of_nat t) (of_nat n) (SPIEraseSector S (of_nat n) f)"
    using nt t by (subst erase_sectors.simps) (simp add: sint_minus_one sint_of_small)
  moreover obtain f' where "erase_sectors S (of_nat t) (of_nat (Suc n) - 1) (SPIEraseSector S (of_nat n) f) =
        (of_nat (max (Suc n) (Suc t)) - 1, f')"
      "\<forall>i. chip f' i = (if Suc n \<le> i div 4096 \<and> i div 4096 \<le> t then 0xFF else chip (SPIEraseSector S (of_nat n) f) i)"
  proof -
    have "k = Suc t - Suc n" "Suc n \<le> 2 ^ 20" using Suc.hyps(2) nt t by linarith+
    then show ?thesis using Suc.hyps(1) [of "Suc n" "SPIEraseSector S (of_nat n) f"] that by blast
  qed
  moreover have "chip (SPIEraseSector S (of_nat n) f) i = (if i div 4096 = n then 0xFF else chip f i)" for i
    using flash_erase [OF assms(1), of n f i] nt assms(2) by simp
  ultimately show ?case using nt by (intro exI [of _ f']) (auto simp: max_def)
qed

section \<open>One chunk\<close>

text \<open>
  The state of a transfer to \<open>a\<close> after the bytes \<open>W\<close>: the whole words are in flash, the rest is in the
  status, the sectors from that of \<open>a\<close> up to \<open>n\<close> are erased beyond the words written, and everything else
  is as in the original contents \<open>m0\<close>.
\<close>

definition whole :: "u8 list \<Rightarrow> nat" where
  "whole W = length W - length W mod 4"

definition ota_mem :: "mem \<Rightarrow> nat \<Rightarrow> nat \<Rightarrow> u8 list \<Rightarrow> mem \<Rightarrow> bool" where
  "ota_mem m0 a n W m \<longleftrightarrow> a div 4096 \<le> n \<and> (\<forall>i. a \<le> i \<and> i < a + whole W \<longrightarrow> i div 4096 < n) \<and>
     (\<forall>i < whole W. m (a + i) = W ! i) \<and>
     (\<forall>i. a + whole W \<le> i \<and> i div 4096 < n \<longrightarrow> m i = 0xFF) \<and>
     (\<forall>i. i div 4096 < a div 4096 \<or> n \<le> i div 4096 \<longrightarrow> m i = m0 i)"

definition ota_inv :: "mem \<Rightarrow> nat \<Rightarrow> nat \<Rightarrow> u8 list \<Rightarrow> rboot_write_status \<Rightarrow> mem \<Rightarrow> bool" where
  "ota_inv m0 a n W st m \<longleftrightarrow>
     unat (extra_count st) = length W mod 4 \<and> length (extra_bytes st) = 4 \<and>
     take (length W mod 4) (extra_bytes st) = drop (whole W) W \<and>
     start_addr st = of_nat (a + whole W) \<and> last_sector_erased st = of_nat n - 1 \<and> ota_mem m0 a n W m"

lemma of_nat_div_sector: "x < 2 ^ 32 \<Longrightarrow> (of_nat x :: u32) div SECTOR_SIZE = of_nat (x div 4096)"
proof -
  assume "x < 2 ^ 32"
  then have "unat (of_nat x :: u32) = x" by (intro unat_of_nat_small) simp
  then have "unat (of_nat x div 4096 :: u32) = x div 4096" by (simp add: unat_div)
  from ucast_of_unat [OF this, where 'b = 32] show ?thesis by simp
qed

lemma ota_init:
  assumes "a < 2 ^ 32"
  shows "ota_inv m a (a div 4096) [] (rboot_write_init (of_nat a)) m"
  using of_nat_div_sector [OF assms]
  by (auto simp: ota_inv_def ota_mem_def rboot_write_init_def whole_def dest: div_le_mono [of _ _ 4096])

text \<open>\<open>rboot_write_flash\<close> with its lengths as numbers: \<open>k\<close> bytes are written, \<open>r\<close> are kept for later.\<close>

lemma write_flash_eq:
  assumes "unat (extra_count st) = e" "e < 4" "length (extra_bytes st) = 4" "bs \<noteq> []" "length bs \<le> 4096"
    and buf: "buf = take e (extra_bytes st) @ bs"
    and k: "k = length buf - length buf mod 4" and r: "r = length buf mod 4"
  shows "rboot_write_flash S True st (Some bs) (of_nat (length bs)) f =
    (let (last1, f1) = erase_sectors S ((start_addr st + of_nat k - 1) div SECTOR_SIZE) (last_sector_erased st) f;
         (f2, res) = SPIWrite S (start_addr st) (take k buf) f1;
         st2 = st\<lparr>extra_count := of_nat r, extra_bytes := drop k buf @ drop r (extra_bytes st), last_sector_erased := last1\<rparr>
     in (if res then st2\<lparr>start_addr := start_addr st + of_nat k\<rparr> else st2, f2, res))"
proof -
  have lb: "length buf = e + length bs" using assms(2,3) buf by simp
  have ul: "unat (of_nat (length bs) :: u16) = length bs" by (rule unat_of_nat_small) (use assms(5) in simp)
  then have nz: "(of_nat (length bs) :: u16) \<noteq> 0" using assms(4) by (metis length_0_conv unat_0)
  define len1 :: u16 where "len1 = of_nat (length bs) + ucast (extra_count st)"
  have "ucast (extra_count st) = (of_nat e :: u16)" using assms(1) by (rule ucast_of_unat)
  then have l1: "len1 = of_nat (length buf)" by (simp add: len1_def lb add.commute)
  have ul1: "unat len1 = length buf" unfolding l1 by (rule unat_of_nat_small) (use lb assms(2,5) in simp)
  have "unat (len1 mod 4) = r" using ul1 r by (simp add: unat_mod)
  then have x: "ucast (len1 mod 4) = (of_nat r :: u8)" by (rule ucast_of_unat)
  have r4: "r < 4" by (simp add: r)
  have ux: "unat (of_nat r :: u8) = r" by (rule unat_of_nat_small) (use r4 in simp)
  have ux16: "ucast (of_nat r :: u8) = (of_nat r :: u16)" using ux by (rule ucast_of_unat)
  have "r \<le> length buf" by (simp add: r)
  then have l2: "len1 - of_nat r = of_nat k" unfolding l1 k r by (simp add: of_nat_diff)
  have uk: "unat (of_nat k :: u16) = k" by (rule unat_of_nat_small) (use lb assms(2,5) k in simp)
  have uk32: "ucast (of_nat k :: u16) = (of_nat k :: u32)" using uk by (rule ucast_of_unat)
  have tk: "take r (drop k buf) = drop k buf" by (simp add: k r)
  show ?thesis
    using nz assms(1)
    by (simp add: rboot_write_flash_def ul len1_def [symmetric] x ux16 ux l2 uk uk32 buf [symmetric] tk Let_def split_def)
qed

lemma whole_append:
  "whole W \<le> whole (W @ bs)" "whole (W @ bs) \<le> length (W @ bs)" "whole W \<le> length W"
  "length (drop (whole W) W @ bs) mod 4 = length (W @ bs) mod 4"
  "length (drop (whole W) W @ bs) - length (drop (whole W) W @ bs) mod 4 = whole (W @ bs) - whole W"
proof -
  define q e where "q = length W div 4" and "e = length W mod 4"
  have w: "length W = 4 * q + e" "whole W = 4 * q" by (simp_all add: q_def e_def whole_def minus_mod_eq_mult_div)
  define p d where "p = (e + length bs) div 4" and "d = (e + length bs) mod 4"
  have b: "e + length bs = 4 * p + d" "d < 4" by (simp_all add: p_def d_def)
  have l: "length (W @ bs) = 4 * (q + p) + d" "length (drop (whole W) W @ bs) = 4 * p + d" using w b by simp_all
  have m: "(4 * (q + p) + d) mod 4 = d" "(4 * p + d) mod 4 = d" using b(2) by (simp_all only: mod_mult_self4 mod_less)
  have w': "whole (W @ bs) = 4 * (q + p)" unfolding whole_def l(1) m(1) by simp
  show "whole W \<le> whole (W @ bs)" "whole (W @ bs) \<le> length (W @ bs)" "whole W \<le> length W"
    using w w' l(1) by simp_all
  show "length (drop (whole W) W @ bs) mod 4 = length (W @ bs) mod 4" unfolding l m by simp
  show "length (drop (whole W) W @ bs) - length (drop (whole W) W @ bs) mod 4 = whole (W @ bs) - whole W"
    unfolding l(2) m(2) unfolding w' w(2) by simp
qed

text \<open>The memory side of a chunk: sectors \<open>n\<close> to \<open>t\<close> erased, then the new whole words written.\<close>

lemma ota_mem_step:
  assumes om: "ota_mem m0 a n W m" and t: "t = (a + whole (W @ bs) - 1) div 4096" and "0 < a"
    and m1: "\<And>i. m1 i = (if n \<le> i div 4096 \<and> i div 4096 \<le> t then 0xFF else m i)"
    and m2: "\<And>i. m2 i = (if a + whole W \<le> i \<and> i < a + whole (W @ bs) then m1 i AND (W @ bs) ! (i - a) else m1 i)"
  shows "ota_mem m0 a (max n (Suc t)) (W @ bs) m2"
proof -
  note inv = om [unfolded ota_mem_def]
  have sec: "i div 4096 \<le> t" if "i < a + whole (W @ bs)" for i
    unfolding t by (rule div_le_mono) (use that in simp)
  have ge: "a div 4096 \<le> i div 4096" if "a \<le> i" for i by (rule div_le_mono [OF that])
  have ff: "m1 i = 0xFF" if "a + whole W \<le> i" "i div 4096 < max n (Suc t)" for i
    using inv that by (auto simp: m1)
  have new: "m2 i = (W @ bs) ! (i - a)" if "a + whole W \<le> i" "i < a + whole (W @ bs)" for i
    using that ff [OF that(1)] sec [OF that(2)] by (simp add: m2)
  have old: "m2 (a + i) = W ! i" if "i < whole W" for i
  proof -
    have "(a + i) div 4096 < n" "m (a + i) = W ! i" using inv that by auto
    then show ?thesis using that by (simp add: m2 m1)
  qed
  have all: "m2 (a + i) = (W @ bs) ! i" if "i < whole (W @ bs)" for i
    using that old [of i] new [of "a + i"] whole_append(3) [of W] by (cases "i < whole W") (auto simp: nth_append)
  have le: "a div 4096 \<le> max n (Suc t)" using inv by (simp add: le_max_iff_disj)
  have lt: "i div 4096 < max n (Suc t)" if "i < a + whole (W @ bs)" for i using sec [OF that] by simp
  have rest: "m2 i = 0xFF" if "a + whole (W @ bs) \<le> i" "i div 4096 < max n (Suc t)" for i
    using ff [of i] that whole_append(1) [of W bs] by (simp add: m2)
  have out: "m2 i = m0 i" if "i div 4096 < a div 4096 \<or> max n (Suc t) \<le> i div 4096" for i
  proof -
    have "\<not> (a + whole W \<le> i \<and> i < a + whole (W @ bs))" using that ge [of i] sec [of i] by auto
    moreover have "m1 i = m i" using that inv by (auto simp: m1)
    moreover have "m i = m0 i" using that inv by auto
    ultimately show ?thesis by (simp only: m2 if_False)
  qed
  show ?thesis unfolding ota_mem_def using le lt all rest out by simp
qed

lemma ota_chunk:
  assumes fl: "nor_flash S chip fsize" and inv: "ota_inv m0 a n W st (chip f)" and bs: "bs \<noteq> []" "length bs \<le> 4096"
    and "0 < a" and n: "n \<le> 2 ^ 20" and t: "t = (a + whole (W @ bs) - 1) div 4096" "4096 * t + 4096 \<le> fsize"
  shows "\<exists>st' f'. rboot_write_flash S True st (Some bs) (of_nat (length bs)) f = (st', f', True) \<and>
    ota_inv m0 a (max n (Suc t)) (W @ bs) st' (chip f')"
proof -
  define buf where "buf = drop (whole W) W @ bs"
  define k where "k = whole (W @ bs) - whole W"
  define r where "r = length (W @ bs) mod 4"
  note wa = whole_append(1,2) [of W bs] whole_append(3) [of W] whole_append(4,5) [of W bs]
  have st: "unat (extra_count st) = length W mod 4" "length (extra_bytes st) = 4"
      "take (length W mod 4) (extra_bytes st) = drop (whole W) W" "start_addr st = of_nat (a + whole W)"
      "last_sector_erased st = of_nat n - 1" "ota_mem m0 a n W (chip f)"
    using inv by (simp_all add: ota_inv_def)
  have kr: "k = length buf - length buf mod 4" "r = length buf mod 4" "length buf = k + r"
    using wa(4,5) mod_less_eq_dividend [of "length buf" 4] unfolding buf_def k_def r_def by linarith+
  have tb: "take k buf = take k (drop (whole W) (W @ bs))" "drop k buf = drop (whole (W @ bs)) (W @ bs)"
    using wa(1,3) by (simp_all add: buf_def k_def)
  have x: "a + whole (W @ bs) \<le> 4096 * t + 4096" unfolding t(1)
    using dividend_less_div_times [of 4096 "a + whole (W @ bs) - 1"] by simp
  have x32: "a + whole (W @ bs) < 2 ^ 32" using x t(2) fl by (simp add: nor_flash_def)
  have "start_addr st + of_nat k - 1 = (of_nat (a + whole (W @ bs) - 1) :: u32)"
    using st(4) wa(1) \<open>0 < a\<close> by (simp add: k_def of_nat_diff)
  then have ls: "(start_addr st + of_nat k - 1) div SECTOR_SIZE = of_nat t"
    using of_nat_div_sector [of "a + whole (W @ bs) - 1"] x32 t(1) by simp
  obtain f1 where f1: "erase_sectors S (of_nat t) (of_nat n - 1) f = (of_nat (max n (Suc t)) - 1, f1)"
      "\<And>i. chip f1 i = (if n \<le> i div 4096 \<and> i div 4096 \<le> t then 0xFF else chip f i)"
    using erase_sectors_ok [OF fl t(2) n] by blast
  have fits: "a + whole W + length (take k buf) \<le> fsize" using x t(2) wa(1) kr(3) by (simp add: k_def)
  obtain f2 where f2: "SPIWrite S (start_addr st) (take k buf) f1 = (f2, True)"
    using flash_write(1) [OF fl fits] st(4) by (metis (full_types) surjective_pairing)
  have c2: "chip f2 i = (if a + whole W \<le> i \<and> i < a + whole (W @ bs) then chip f1 i AND (W @ bs) ! (i - a) else chip f1 i)" for i
  proof -
    have "chip f2 i = (if a + whole W \<le> i \<and> i < a + whole W + length (take k buf) then chip f1 i AND take k buf ! (i - (a + whole W)) else chip f1 i)"
      using flash_write(2) [OF fl fits, of f1 i] f2 st(4) by simp
    moreover have "a + whole W + length (take k buf) = a + whole (W @ bs)" using kr(3) wa(1) by (simp add: k_def)
    moreover have "take k buf ! (i - (a + whole W)) = (W @ bs) ! (i - a)" if "a + whole W \<le> i" "i < a + whole (W @ bs)"
    proof -
      have "whole W \<le> length (W @ bs)" "i - (a + whole W) < k" "whole W + (i - (a + whole W)) = i - a"
        using that wa(1,2) by (simp_all add: k_def)
      then show ?thesis unfolding tb(1) by (simp del: drop_append take_append)
    qed
    ultimately show ?thesis by presburger
  qed
  define st' where "st' = st\<lparr>extra_count := of_nat r, extra_bytes := drop k buf @ drop r (extra_bytes st),
    last_sector_erased := of_nat (max n (Suc t)) - 1, start_addr := start_addr st + of_nat k\<rparr>"
  have "rboot_write_flash S True st (Some bs) (of_nat (length bs)) f = (st', f2, True)"
    using write_flash_eq [OF st(1) _ st(2) bs, of buf k r S f] st(3,5) kr f1(1) f2 ls
    by (simp add: buf_def st'_def)
  moreover have "ota_inv m0 a (max n (Suc t)) (W @ bs) st' (chip f2)"
  proof -
    have r4: "r < 4" by (simp add: r_def)
    have "unat (of_nat r :: u8) = r" by (rule unat_of_nat_small) (use r4 in simp)
    moreover have "length (drop k buf) = r" using kr(3) by simp
    moreover have "length (drop k buf @ drop r (extra_bytes st)) = 4" "take r (drop k buf @ drop r (extra_bytes st)) = drop k buf"
      using r4 st(2) kr(3) by simp_all
    moreover have "start_addr st + of_nat k = of_nat (a + whole (W @ bs))" using st(4) wa(1) by (simp add: k_def of_nat_diff)
    moreover have "ota_mem m0 a (max n (Suc t)) (W @ bs) (chip f2)" by (rule ota_mem_step [OF st(6) t(1) \<open>0 < a\<close> f1(2) c2])
    ultimately show ?thesis using tb(2) unfolding ota_inv_def st'_def r_def [symmetric] by simp
  qed
  ultimately show ?thesis by blast
qed

section \<open>A whole transfer\<close>

fun ota_write :: "'f spi \<Rightarrow> rboot_write_status \<Rightarrow> 'f \<Rightarrow> u8 list list \<Rightarrow> rboot_write_status \<times> 'f \<times> bool" where
  "ota_write S st f [] = (st, f, True)"
| "ota_write S st f (c # cs) =
     (let (st1, f1, res) = rboot_write_flash S True st (Some c) (of_nat (length c)) f in
      if res then ota_write S st1 f1 cs else (st1, f1, False))"

definition chunk_ok :: "u8 list \<Rightarrow> bool" where
  "chunk_ok c \<longleftrightarrow> c \<noteq> [] \<and> length c \<le> 4096"

lemma ota_write_ok:
  assumes "nor_flash S chip fsize" "ota_inv m0 a n W st (chip f)" "list_all chunk_ok cs" "0 < a" "n \<le> Suc T"
    "(a + length (W @ concat cs) - 1) div 4096 \<le> T" "4096 * T + 4096 \<le> fsize"
  shows "\<exists>st' f' n'. ota_write S st f cs = (st', f', True) \<and> ota_inv m0 a n' (W @ concat cs) st' (chip f') \<and> n' \<le> Suc T"
  using assms(2,3,5,6)
proof (induction cs arbitrary: n W st f)
  case Nil
  then show ?case by auto
next
  case (Cons c cs)
  define t where "t = (a + whole (W @ c) - 1) div 4096"
  have "a + whole (W @ c) - 1 \<le> a + length (W @ concat (c # cs)) - 1" using whole_append(2) [of W c] by simp
  then have t: "t \<le> T" unfolding t_def using div_le_mono Cons.prems(4) le_trans by blast
  then have tf: "4096 * t + 4096 \<le> fsize" using assms(7) by linarith
  have n20: "n \<le> 2 ^ 20" using Cons.prems(3) assms(1,7) by (simp add: nor_flash_def)
  have c: "c \<noteq> []" "length c \<le> 4096" using Cons.prems(2) by (simp_all add: chunk_ok_def)
  obtain st1 f1 where s1: "rboot_write_flash S True st (Some c) (of_nat (length c)) f = (st1, f1, True)"
      "ota_inv m0 a (max n (Suc t)) (W @ c) st1 (chip f1)"
    using ota_chunk [OF assms(1) Cons.prems(1) c assms(4) n20 t_def tf] by blast
  have "max n (Suc t) \<le> Suc T" using t Cons.prems(3) by simp
  from Cons.IH [OF s1(2) _ this] Cons.prems(2,4) s1(1) show ?case by simp
qed

lemma ota_end_ok:
  assumes "nor_flash S chip fsize" "ota_inv m0 a n W st (chip f)" "0 < a" "n \<le> Suc T"
    "(a + length W + 2) div 4096 \<le> T" "4096 * T + 4096 \<le> fsize"
  shows "\<exists>st' f' n' W'. rboot_write_end S True st f = (st', f', True) \<and> ota_mem m0 a n' (W @ W') (chip f') \<and>
    length W \<le> whole (W @ W') \<and> n' \<le> Suc T \<and>
    (length W mod 4 \<noteq> 0 \<longrightarrow> length W < whole (W @ W') \<and> W' ! 0 = W ! whole W)"
proof (cases "length W mod 4 = 0")
  case True
  then have "extra_count st = 0" "whole W = length W" using assms(2) by (simp_all add: ota_inv_def whole_def unat_eq_0)
  then have "rboot_write_end S True st f = (st, f, True) \<and> ota_mem m0 a n (W @ []) (chip f) \<and> length W \<le> whole (W @ [])"
    using assms(2) by (simp add: rboot_write_end_def ota_inv_def)
  then show ?thesis using assms(4) True by (intro exI [of _ st] exI [of _ f] exI [of _ n] exI [of _ "[]"]) simp
next
  case False
  define e where "e = length W mod 4"
  have e: "0 < e" "e < 4" "unat (extra_count st) = e" "length (extra_bytes st) = 4"
    using False assms(2) by (simp_all add: e_def ota_inv_def)
  define bs where "bs = take e (extra_bytes st) @ replicate (4 - e) 0xFF"
  define st1 where "st1 = st\<lparr>extra_bytes := bs\<rparr>"
  have lb: "length bs = 4" using e(2,4) by (simp add: bs_def)
  have i1: "ota_inv m0 a n W st1 (chip f)"
    using assms(2) lb e(4) by (simp add: ota_inv_def st1_def bs_def e_def)
  have w: "whole (W @ bs) = whole W + 4" "length W = whole W + e"
    using lb by (simp_all add: whole_def e_def)
  define t where "t = (a + whole (W @ bs) - 1) div 4096"
  have "a + whole (W @ bs) - 1 \<le> a + length W + 2" using w e(1) by simp
  then have t: "t \<le> T" unfolding t_def using div_le_mono assms(5) le_trans by blast
  then have tf: "4096 * t + 4096 \<le> fsize" using assms(6) by linarith
  have n20: "n \<le> 2 ^ 20" using assms(1,4,6) by (simp add: nor_flash_def)
  have b: "bs \<noteq> []" "length bs \<le> 4096" using lb by auto
  obtain st' f' where r: "rboot_write_flash S True st1 (Some bs) (of_nat (length bs)) f = (st', f', True)"
      "ota_inv m0 a (max n (Suc t)) (W @ bs) st' (chip f')"
    using ota_chunk [OF assms(1) i1 b assms(3) n20 t_def tf] by blast
  have "extra_count st \<noteq> 0" using e(1,3) by auto
  then have "rboot_write_end S True st f = (st', f', True)"
    using r(1) [unfolded lb] e(3) by (simp add: rboot_write_end_def Let_def st1_def bs_def)
  moreover have "length W < whole (W @ bs)" "max n (Suc t) \<le> Suc T" using w e(2) t assms(4) by simp_all
  moreover have "bs ! 0 = W ! whole W"
  proof -
    have "take e (extra_bytes st) = drop (whole W) W" using assms(2) by (simp add: ota_inv_def e_def)
    then show ?thesis using w(2) e(1) by (simp add: bs_def nth_append)
  qed
  ultimately show ?thesis using r(2) unfolding ota_inv_def by (meson less_imp_le)
qed

text \<open>
  The padding of the last word: the byte after the data is not 0xFF but the first byte of the last, partial
  word once more, because \<open>rboot_write_flash\<close> puts the kept bytes in front of the data it is given.
\<close>

lemma rboot_write_end_repeats:
  assumes "nor_flash S chip fsize" "ota_inv m0 a n W st (chip f)" "0 < a" "n \<le> Suc T"
    "(a + length W + 2) div 4096 \<le> T" "4096 * T + 4096 \<le> fsize" "length W mod 4 \<noteq> 0"
  shows "\<exists>st' f'. rboot_write_end S True st f = (st', f', True) \<and> chip f' (a + length W) = W ! whole W"
proof -
  obtain st' f' n' W' where e: "rboot_write_end S True st f = (st', f', True)" "ota_mem m0 a n' (W @ W') (chip f')"
      "length W < whole (W @ W')" "W' ! 0 = W ! whole W"
    using ota_end_ok [OF assms(1-6)] assms(7) by blast
  have "chip f' (a + length W) = (W @ W') ! length W" using e(2,3) by (simp add: ota_mem_def)
  then show ?thesis using e(1,4) by (simp add: nth_append)
qed

section \<open>Properties\<close>



end
