(* ===== verification/Esptool2.thy ===== *)
theory Esptool2
  imports Rboot_Api Printing
begin

text \<open>
  The image builder that runs on the host, \<^verbatim>\<open>tools/esptool2_src/src/esptool2.c\<close> with its reader of ELF files
  \<^verbatim>\<open>esptool2_elf.c\<close>, and the generator of the boot configuration \<^verbatim>\<open>tools/rconf_gen/main.c\<close>. A file is the list
  of its bytes; the host is little-endian, as are the files. Every error message of the program is an
  error value; a read through a pointer outside its block is \<open>E_fault\<close>. The host is a parameter: which
  requests \<^verbatim>\<open>malloc\<close> grants, the files that can be opened, by path, the paths that can be created, and how many
  bytes \<^verbatim>\<open>fwrite\<close> accepts for a file. Pointers have 8 bytes, and the output path is not that of the input.
\<close>

section \<open>Files\<close>

datatype tool_error =
    E_open | E_create | E_header | E_magic | E_no_strings | E_strings_header | E_strings_empty | E_strings_data
  | E_no_memory | E_no_section | E_section_data | E_no_data | E_write | E_fault

record host =
  host_malloc :: "nat \<Rightarrow> bool"
  host_disk :: nat
  host_files :: "u8 list \<Rightarrow> u8 list option"
  host_creat :: "u8 list \<Rightarrow> bool"

abbreviation (input) "IROM_NAME \<equiv> ascii ''.irom0.text''"

fun ebind :: "tool_error + 'a \<Rightarrow> ('a \<Rightarrow> tool_error + 'b) \<Rightarrow> tool_error + 'b" where
  "ebind (Inl e) k = Inl e"
| "ebind (Inr x) k = k x"

text \<open>\<^verbatim>\<open>fseek\<close> to an offset and \<^verbatim>\<open>fread\<close> of \<open>n\<close> bytes, and \<^verbatim>\<open>fwrite\<close> at the end of the output.\<close>

definition file_read :: "u8 list \<Rightarrow> nat \<Rightarrow> nat \<Rightarrow> u8 list option" where
  "file_read file off n = (if off + n \<le> length file then Some (take n (drop off file)) else None)"

definition file_write :: "host \<Rightarrow> u8 list \<Rightarrow> u8 list \<Rightarrow> tool_error + u8 list" where
  "file_write h bs out = (if length out + length bs \<le> host_disk h then Inr (out @ bs) else Inl E_write)"

definition get16 :: "u8 list \<Rightarrow> nat \<Rightarrow> u16" where
  "get16 b i = ucast (b ! i) OR push_bit 8 (ucast (b ! (i + 1)))"

section \<open>Reading an ELF file\<close>

record MyElf_Section =
  sec_offset :: u32
  sec_address :: u32
  sec_size :: u32
  sec_name :: nat

text \<open>
  The fields of the file header that are used stand at 24 (\<open>e_entry\<close>), 32 (\<open>e_shoff\<close>), 46 (\<open>e_shentsize\<close>), 48 (\<open>e_shnum\<close>)
  and 50 (\<open>e_shstrndx\<close>) of its 52 bytes; those of a section header at 0 (\<open>sh_name\<close>), 12 (\<open>sh_addr\<close>), 16 (\<open>sh_offset\<close>)
  and 20 (\<open>sh_size\<close>) of its 40. The name of a section is its offset in the string table.
\<close>

record MyElf_File =
  elf_fd :: "u8 list"
  e_entry :: u32
  e_shnum :: u16
  elf_strings :: "u8 list"
  elf_sections :: "MyElf_Section list"

definition parse_shdr :: "u8 list \<Rightarrow> MyElf_Section" where
  "parse_shdr t = \<lparr>sec_offset = get32 t 16, sec_address = get32 t 12, sec_size = get32 t 20, sec_name = unat (get32 t 0)\<rparr>"

text \<open>The loop over the section headers; it stops at the first one that cannot be read.\<close>

fun read_shdrs :: "u8 list \<Rightarrow> u32 \<Rightarrow> u16 \<Rightarrow> nat list \<Rightarrow> MyElf_Section list" where
  "read_shdrs file shoff shentsize [] = []"
| "read_shdrs file shoff shentsize (i # is) =
     (case file_read file (unat (shoff + ucast shentsize * of_nat i)) 40 of
        None \<Rightarrow> []
      | Some t \<Rightarrow> parse_shdr t # read_shdrs file shoff shentsize is)"

definition LoadElf :: "host \<Rightarrow> u8 list \<Rightarrow> tool_error + MyElf_File" where
  "LoadElf h infile =
     (if \<not> host_malloc h 80 then Inl E_no_memory
      else case host_files h infile of
        None \<Rightarrow> Inl E_open
      | Some file \<Rightarrow>
      case file_read file 0 52 of
        None \<Rightarrow> Inl E_header
      | Some hdr \<Rightarrow>
          if take 4 hdr \<noteq> [0x7F, 0x45, 0x4C, 0x46] then Inl E_magic
          else if get16 hdr 50 = 0 then Inl E_no_strings
          else case file_read file (unat (get32 hdr 32 + ucast (get16 hdr 46) * ucast (get16 hdr 50))) 40 of
            None \<Rightarrow> Inl E_strings_header
          | Some temp \<Rightarrow>
              let sh_size = unat (get32 temp 20) in
              if sh_size = 0 then Inl E_strings_empty
              else if \<not> host_malloc h sh_size then Inl E_no_memory
              else case file_read file (unat (get32 temp 16)) sh_size of
                None \<Rightarrow> Inl E_strings_data
              | Some strings \<Rightarrow>
                  if \<not> host_malloc h (24 * unat (get16 hdr 48)) then Inl E_no_memory
                  else Inr \<lparr>elf_fd = file, e_entry = get32 hdr 24, e_shnum = get16 hdr 48, elf_strings = strings,
                    elf_sections = read_shdrs file (get32 hdr 32) (get16 hdr 46) [1..<unat (get16 hdr 48)]\<rparr>)"

text \<open>\<^verbatim>\<open>strcmp\<close> of a name with the string that starts in a block; \<open>None\<close> when it runs out of the block.\<close>

fun c_strcmp :: "u8 list \<Rightarrow> u8 list \<Rightarrow> bool option" where
  "c_strcmp name [] = None"
| "c_strcmp [] (c # b) = Some (c = 0)"
| "c_strcmp (x # name) (c # b) = (if c = x then c_strcmp name b else Some False)"

fun find_section :: "MyElf_File \<Rightarrow> u8 list \<Rightarrow> nat list \<Rightarrow> tool_error + MyElf_Section" where
  "find_section elf name [] = Inl E_no_section"
| "find_section elf name (i # is) =
     (if length (elf_sections elf) \<le> i then Inl E_fault
      else case c_strcmp name (drop (sec_name (elf_sections elf ! i)) (elf_strings elf)) of
        None \<Rightarrow> Inl E_fault
      | Some eq \<Rightarrow> if eq then Inr (elf_sections elf ! i) else find_section elf name is)"

definition GetElfSection :: "MyElf_File \<Rightarrow> u8 list \<Rightarrow> tool_error + MyElf_Section" where
  "GetElfSection elf name = find_section elf name [0..<unat (e_shnum elf) - 1]"

definition GetElfSectionData :: "host \<Rightarrow> MyElf_File \<Rightarrow> MyElf_Section \<Rightarrow> tool_error + u8 list" where
  "GetElfSectionData h elf sect =
     (if sec_size sect \<noteq> 0 \<and> sec_offset sect \<noteq> 0 then
        if \<not> host_malloc h (unat (sec_size sect)) then Inl E_no_memory
        else case file_read (elf_fd elf) (unat (sec_offset sect)) (unat (sec_size sect)) of
          None \<Rightarrow> Inl E_section_data
        | Some dat \<Rightarrow> Inr dat
      else Inl E_no_data)"

section \<open>Writing an image\<close>

definition section_pad :: "u32 \<Rightarrow> nat \<Rightarrow> nat" where
  "section_pad sz padto =
     (if padto \<noteq> 0 then let pad = unat (sz mod of_nat padto) in if pad > 0 then padto - pad else 0 else 0)"

text \<open>The checksum to add to is optional; the answer has the output file and the new checksum.\<close>

definition WriteElfSection ::
  "host \<Rightarrow> MyElf_File \<Rightarrow> u8 list \<Rightarrow> bool \<Rightarrow> bool \<Rightarrow> nat \<Rightarrow> u8 option \<Rightarrow> u8 list \<Rightarrow> tool_error + u8 list \<times> u8 option" where
  "WriteElfSection h elf name headed zeroaddr padto chksum out =
     ebind (GetElfSection elf name) (\<lambda>sect.
       let addr = (if zeroaddr then 0 else sec_address sect);
           pad = section_pad (sec_size sect) padto;
           sz = sec_size sect + of_nat pad
       in ebind (GetElfSectionData h elf sect) (\<lambda>bindata.
          ebind (if headed then file_write h (bytes32 addr @ bytes32 sz) out else Inr out) (\<lambda>out1.
          ebind (file_write h bindata out1) (\<lambda>out2.
          ebind (if pad > 0 then file_write h (replicate pad 0) out2 else Inr out2) (\<lambda>out3.
          Inr (out3, map_option (\<lambda>c. foldl (XOR) c (take (nat (sint (sec_size sect))) bindata)) chksum))))))"

fun write_sections :: "host \<Rightarrow> MyElf_File \<Rightarrow> u8 list list \<Rightarrow> u8 option \<Rightarrow> u8 list \<Rightarrow> tool_error + u8 list \<times> u8 option" where
  "write_sections h elf [] chksum out = Inr (out, chksum)"
| "write_sections h elf (name # names) chksum out =
     ebind (WriteElfSection h elf name True False 4 chksum out)
       (\<lambda>(out1, chksum1). write_sections h elf names chksum1 out1)"

definition image_header :: "u8 \<Rightarrow> u8 \<Rightarrow> u8 \<Rightarrow> u8 \<Rightarrow> u8 \<Rightarrow> u32 \<Rightarrow> u8 list" where
  "image_header magic count mode clock sz entry = [magic, count, mode, push_bit 4 sz OR clock] @ bytes32 entry"

definition CreateBinFile ::
  "host \<Rightarrow> u8 list \<Rightarrow> u8 list \<Rightarrow> nat \<Rightarrow> u8 \<Rightarrow> u8 \<Rightarrow> u8 \<Rightarrow> bool \<Rightarrow> u8 list list \<Rightarrow> tool_error + u8 list" where
  "CreateBinFile h elffile imagefile bootver mode clock sz iromchksum names =
     ebind (LoadElf h elffile) (\<lambda>elf.
     if \<not> host_creat h imagefile then Inl E_create else
     ebind (if bootver = 2 then
              ebind (file_write h (image_header 0xEA 4 mode clock sz (e_entry elf)) []) (\<lambda>out.
              ebind (WriteElfSection h elf IROM_NAME True True 16 (if iromchksum then Some 0xEF else None) out) (\<lambda>(out1, c).
              Inr (out1, case c of Some v \<Rightarrow> v | None \<Rightarrow> 0xEF)))
            else Inr ([], 0xEF)) (\<lambda>(out1, chksum).
     ebind (file_write h (image_header 0xE9 (of_nat (length names)) mode clock sz (e_entry elf)) out1) (\<lambda>out2.
     ebind (write_sections h elf names (Some chksum) out2) (\<lambda>(out3, c).
     let pad = (length out3 + 1) mod 16 in
     ebind (if pad > 0 then file_write h (replicate (16 - pad) 0) out3 else Inr out3) (\<lambda>out4.
     ebind (file_write h [the c] out4) (\<lambda>out5.
     if bootver = 1 then
       if length out5 > 0x10000 \<or> \<not> host_malloc h (0x10000 - length out5) then Inl E_fault
       else ebind (file_write h (replicate (0x10000 - length out5) 0xFF) out5) (\<lambda>out6.
            ebind (WriteElfSection h elf IROM_NAME False False 0 None out6) (\<lambda>(out7, c7). Inr out7))
     else Inr out5))))))"

definition ExportElfSection :: "host \<Rightarrow> u8 list \<Rightarrow> u8 list \<Rightarrow> u8 list \<Rightarrow> tool_error + u8 list" where
  "ExportElfSection h infile outfile name =
     ebind (LoadElf h infile) (\<lambda>elf.
     if \<not> host_creat h outfile then Inl E_create
     else ebind (WriteElfSection h elf name False False 0 None []) (\<lambda>(out, c). Inr out))"

section \<open>Writing a C header\<close>

text \<open>The conversions \<^verbatim>\<open>%08x\<close>, \<^verbatim>\<open>%02x\<close> and \<^verbatim>\<open>%d\<close> of \<^verbatim>\<open>fprintf\<close>. Its result is not looked at: what the disk has no room for is lost.\<close>

fun dec_digits :: "nat \<Rightarrow> u8 list" where
  "dec_digits n = (if n < 10 then [of_nat (48 + n)] else dec_digits (n div 10) @ [of_nat (48 + n mod 10)])"

definition dec_signed :: "u32 \<Rightarrow> u8 list" where
  "dec_signed v = (if sint v < 0 then 45 # dec_digits (nat (- sint v)) else dec_digits (nat (sint v)))"

abbreviation (input) "CRLF \<equiv> [13, 10 :: u8]"

text \<open>The bytes of a section, 16 on a line, from number \<open>j\<close> on.\<close>

fun data_rows :: "nat \<Rightarrow> u8 list \<Rightarrow> u8 list" where
  "data_rows j [] = []"
| "data_rows j (b # bs) =
     (if j mod 16 = 0 then CRLF @ ascii ''  0x'' else ascii '' 0x'') @ hex_fixed 2 (unat b) @ ascii '','' @ data_rows (j + 1) bs"

text \<open>A name of 31 characters or more is left without its end by \<^verbatim>\<open>strncpy\<close>.\<close>

definition header_section :: "host \<Rightarrow> MyElf_File \<Rightarrow> u8 list \<Rightarrow> tool_error + u8 list" where
  "header_section h elf name =
     ebind (GetElfSection elf name) (\<lambda>sect.
     if length name \<ge> 31 then Inl E_fault
     else let nm = map (\<lambda>c. if c = 46 then 95 else c) name in
       ebind (GetElfSectionData h elf sect) (\<lambda>bindata.
       Inr (CRLF @ ascii ''const uint32 '' @ nm @ ascii ''_addr = 0x'' @ hex_fixed 8 (unat (sec_address sect)) @ ascii '';'' @
         CRLF @ ascii ''const uint32 '' @ nm @ ascii ''_len = '' @ dec_signed (sec_size sect) @ ascii '';'' @
         CRLF @ ascii ''const uint8  '' @ nm @ ascii ''_data[] = {'' @ data_rows 0 bindata @ CRLF @ ascii ''};'' @ CRLF)))"

fun header_sections :: "host \<Rightarrow> MyElf_File \<Rightarrow> u8 list list \<Rightarrow> tool_error + u8 list" where
  "header_sections h elf [] = Inr []"
| "header_sections h elf (name # names) =
     ebind (header_section h elf name) (\<lambda>t. ebind (header_sections h elf names) (\<lambda>ts. Inr (t @ ts)))"

definition CreateHeaderFile :: "host \<Rightarrow> u8 list \<Rightarrow> u8 list \<Rightarrow> u8 list list \<Rightarrow> tool_error + u8 list" where
  "CreateHeaderFile h elffile imagefile names =
     ebind (LoadElf h elffile) (\<lambda>elf.
     if \<not> host_creat h imagefile then Inl E_create
     else ebind (header_sections h elf names) (\<lambda>ts.
       Inr (take (host_disk h) (ascii ''const uint32 entry_addr = 0x'' @ hex_fixed 8 (unat (e_entry elf)) @ ascii '';'' @ CRLF @ ts))))"

section \<open>The main program\<close>

record e2_opts =
  binfile :: bool
  libfile :: bool
  headerfile :: bool
  quieton :: bool
  debugon :: bool
  o_iromchksum :: bool
  o_bootver :: nat
  o_mode :: u8
  o_size :: u8
  o_clock :: u8
  o_opts :: nat

definition no_opts :: e2_opts where
  "no_opts = \<lparr>binfile = False, libfile = False, headerfile = False, quieton = False, debugon = False,
     o_iromchksum = False, o_bootver = 0, o_mode = 0, o_size = 0, o_clock = 0, o_opts = 0\<rparr>"

definition set_option :: "u8 list \<Rightarrow> e2_opts \<Rightarrow> e2_opts option" where
  "set_option a o1 =
     (if a = ascii ''-bin'' then Some (o1\<lparr>binfile := True, o_opts := o_opts o1 + 1\<rparr>)
      else if a = ascii ''-lib'' then Some (o1\<lparr>libfile := True, o_opts := o_opts o1 + 1\<rparr>)
      else if a = ascii ''-header'' then Some (o1\<lparr>headerfile := True, o_opts := o_opts o1 + 1\<rparr>)
      else if a = ascii ''-quiet'' then Some (o1\<lparr>quieton := True\<rparr>)
      else if a = ascii ''-debug'' then Some (o1\<lparr>debugon := True\<rparr>)
      else if a = ascii ''-boot0'' then Some (o1\<lparr>o_bootver := 0\<rparr>)
      else if a = ascii ''-boot1'' then Some (o1\<lparr>o_bootver := 1\<rparr>)
      else if a = ascii ''-boot2'' then Some (o1\<lparr>o_bootver := 2\<rparr>)
      else if a = ascii ''-qio'' then Some (o1\<lparr>o_mode := 0\<rparr>)
      else if a = ascii ''-qout'' then Some (o1\<lparr>o_mode := 1\<rparr>)
      else if a = ascii ''-dio'' then Some (o1\<lparr>o_mode := 2\<rparr>)
      else if a = ascii ''-dout'' then Some (o1\<lparr>o_mode := 3\<rparr>)
      else if a = ascii ''-256'' then Some (o1\<lparr>o_size := 1\<rparr>)
      else if a = ascii ''-512'' then Some (o1\<lparr>o_size := 0\<rparr>)
      else if a = ascii ''-1024'' then Some (o1\<lparr>o_size := 2\<rparr>)
      else if a = ascii ''-2048'' then Some (o1\<lparr>o_size := 3\<rparr>)
      else if a = ascii ''-4096'' then Some (o1\<lparr>o_size := 4\<rparr>)
      else if a = ascii ''-20'' then Some (o1\<lparr>o_clock := 2\<rparr>)
      else if a = ascii ''-26.7'' then Some (o1\<lparr>o_clock := 1\<rparr>)
      else if a = ascii ''-40'' then Some (o1\<lparr>o_clock := 0\<rparr>)
      else if a = ascii ''-80'' then Some (o1\<lparr>o_clock := 15\<rparr>)
      else if a = ascii ''-iromchksum'' then Some (o1\<lparr>o_iromchksum := True\<rparr>)
      else None)"

text \<open>The loop over the options gives them, the arguments that are left, and whether it stopped at an unknown option.\<close>

fun parse_options :: "u8 list list \<Rightarrow> e2_opts \<Rightarrow> e2_opts \<times> u8 list list \<times> bool" where
  "parse_options [] o1 = (o1, [], False)"
| "parse_options (a # args) o1 =
     (case set_option a o1 of
        Some o2 \<Rightarrow> parse_options args o2
      | None \<Rightarrow>
          if a = ascii ''--'' then (o1, args, False)
          else (o1, a # args, a \<noteq> [] \<and> hd a = 45))"

text \<open>
  The exit status with the files afterwards, \<open>None\<close> for a crash. \<open>args\<close> is \<^verbatim>\<open>argv\<close> without the name of the
  program; the messages are not part of the result. After a failed run the output file is removed,
  also one that an earlier run had made.
\<close>

definition esptool2_main :: "host \<Rightarrow> u8 list list \<Rightarrow> (int \<times> (u8 list \<Rightarrow> u8 list option)) option" where
  "esptool2_main h args =
     (let (o1, rest, paramerror) = parse_options args no_opts in
      if paramerror \<or> args = [] \<or> o_opts o1 \<noteq> 1 \<or> quieton o1 \<and> debugon o1 then Some (-1, host_files h)
      else if libfile o1 \<and> length rest < 2 \<or> (binfile o1 \<or> headerfile o1) \<and> length rest < 3 then Some (-1, host_files h)
      else if libfile o1 \<and> length rest > 2 then Some (-1, host_files h)
      else let infile = rest ! 0; outfile = rest ! 1; names = drop 2 rest in
        case (if binfile o1 then CreateBinFile h infile outfile (o_bootver o1) (o_mode o1) (o_clock o1) (o_size o1) (o_iromchksum o1) names
              else if headerfile o1 then CreateHeaderFile h infile outfile names
              else ExportElfSection h infile outfile IROM_NAME) of
          Inr out \<Rightarrow> Some (0, (host_files h)(outfile := Some out))
        | Inl e \<Rightarrow> if e = E_fault then None else Some (-1, (host_files h)(outfile := None)))"

section \<open>Generating the boot configuration\<close>

text \<open>\<^verbatim>\<open>testConfig\<close> of \<^verbatim>\<open>rconf_gen\<close> for the image number \<^verbatim>\<open>ROM_NUM\<close>, and the file its main program writes.\<close>

definition testConfig :: "u8 \<Rightarrow> u8 list" where
  "testConfig rom_num = [0xE1, 0x01, 0x00, rom_num, 0, 4, 2, 0] @ bytes32 0x002000 @ bytes32 0x082000 @ bytes32 0x102000 @
     bytes32 0x202000 @ [0, 0, 0, 0]"

definition rconf_main :: "u8 \<Rightarrow> u8 list" where
  "rconf_main rom_num = (testConfig rom_num)[CHKSUM := calc_chksum (take CHKSUM (testConfig rom_num))]"

section \<open>What the builder writes\<close>

definition pad_to :: "nat \<Rightarrow> u8 list \<Rightarrow> u8 list" where
  "pad_to k d = d @ replicate ((k - length d mod k) mod k) 0"

text \<open>A section of the ELF file by its name: its address and its bytes.\<close>

definition elf_section :: "host \<Rightarrow> MyElf_File \<Rightarrow> u8 list \<Rightarrow> tool_error + rom_section" where
  "elf_section h elf name =
     ebind (GetElfSection elf name) (\<lambda>s. ebind (GetElfSectionData h elf s) (\<lambda>d. Inr (sec_address s, d)))"

definition e2_body :: "u8 \<Rightarrow> u8 \<Rightarrow> u32 \<Rightarrow> u8 list \<Rightarrow> rom_section list \<Rightarrow> u8 list" where
  "e2_body b2 b3 entry irom secs =
     irom_part b2 b3 entry 0 (pad_to 16 irom) @ rom_part b2 b3 entry (map (apsnd (pad_to 4)) secs)"

definition e2_image :: "u8 \<Rightarrow> u8 \<Rightarrow> u32 \<Rightarrow> u8 list \<Rightarrow> rom_section list \<Rightarrow> u8 list" where
  "e2_image b2 b3 entry irom secs =
     e2_body b2 b3 entry irom secs @ replicate (15 - length (e2_body b2 b3 entry irom secs) mod 16) 0 @
     [calc_chksum (irom @ payload secs)]"

lemma ebind_Inr [simp]: "ebind x k = Inr y \<longleftrightarrow> (\<exists>v. x = Inr v \<and> k v = Inr y)"
  by (cases x) auto

lemma xor_zeros [simp]: "foldl (XOR) (c :: u8) (replicate n 0) = c"
  by (induction n) simp_all

lemma xor_pad_to [simp]: "foldl (XOR) c (pad_to k d) = foldl (XOR) c d"
  by (simp add: pad_to_def)

lemma xor_payload_pad: "foldl (XOR) c (payload (map (apsnd (pad_to k)) secs)) = foldl (XOR) c (payload secs)"
  by (induction secs arbitrary: c) (simp_all add: payload_def)

lemma section_pad_eq:
  assumes "0 < k" "k < 2 ^ 32"
  shows "section_pad sz k = (k - unat sz mod k) mod k"
proof -
  have "unat (of_nat k :: u32) = k" by (rule unat_of_nat_small) (use assms(2) in simp)
  then have "unat (sz mod of_nat k) = unat sz mod k" by (simp add: unat_mod)
  moreover have "unat sz mod k < k" using assms(1) by simp
  ultimately show ?thesis using assms(1) by (auto simp: section_pad_def Let_def)
qed

lemma elf_section_data:
  assumes "elf_section h elf name = Inr (a, d)"
  obtains sect where "GetElfSection elf name = Inr sect" "GetElfSectionData h elf sect = Inr d" "sec_address sect = a"
    "unat (sec_size sect) = length d"
proof -
  obtain sect where "GetElfSection elf name = Inr sect" "GetElfSectionData h elf sect = Inr d" "sec_address sect = a"
    using assms by (auto simp: elf_section_def)
  moreover from this(2) have "unat (sec_size sect) = length d"
    by (auto simp: GetElfSectionData_def file_read_def split: if_splits option.splits)
  ultimately show thesis by (rule that)
qed

lemma WriteElfSection_ok:
  assumes "elf_section h elf name = Inr (a, d)" "0 < k" "k < 2 ^ 32" "length (pad_to k d) < 2 ^ 31"
    "length out + 8 + length (pad_to k d) \<le> host_disk h"
  shows "WriteElfSection h elf name True za k c out =
    Inr (out @ section_bytes (if za then 0 else a, pad_to k d), map_option (\<lambda>c. foldl (XOR) c d) c)"
proof -
  obtain sect where s: "GetElfSection elf name = Inr sect" "GetElfSectionData h elf sect = Inr d" "sec_address sect = a"
    and n: "unat (sec_size sect) = length d" using elf_section_data [OF assms(1)] .
  have sz: "sec_size sect = of_nat (length d)" by (simp flip: n)
  have pad: "section_pad (sec_size sect) k = (k - length d mod k) mod k" using section_pad_eq [OF assms(2,3)] n by simp
  have "uint (sec_size sect) = int (length d)" by (simp flip: n)
  moreover have "length d < 2 ^ 31" using assms(4) by (simp add: pad_to_def)
  ultimately have "uint (sec_size sect) < 2 ^ 31" by simp
  moreover have "- (2 ^ 31) \<le> uint (sec_size sect)" by (rule order_trans [of _ 0]) simp_all
  ultimately have "sint (sec_size sect) = uint (sec_size sect)"
    using signed_take_bit_int_eq_self [of 31 "uint (sec_size sect)"] by (simp add: sint_uint)
  then have si: "nat (sint (sec_size sect)) = length d" using n by simp
  show ?thesis using assms(5) s pad si
    by (simp add: WriteElfSection_def sz pad_to_def section_bytes_def file_write_def Let_def)
qed

lemma write_sections_ok:
  assumes "list_all2 (\<lambda>n s. elf_section h elf n = Inr s) names secs"
    "length out + length (concat (map section_bytes (map (apsnd (pad_to 4)) secs))) \<le> host_disk h"
    "length (concat (map section_bytes (map (apsnd (pad_to 4)) secs))) < 2 ^ 31"
  shows "write_sections h elf names (Some c) out =
    Inr (out @ concat (map section_bytes (map (apsnd (pad_to 4)) secs)), Some (foldl (XOR) c (payload secs)))"
  using assms
proof (induction arbitrary: out c rule: list_all2_induct)
  case Nil
  then show ?case by (simp add: payload_def)
next
  case (Cons n names s secs)
  obtain a d where s: "s = (a, d)" by (cases s)
  have "WriteElfSection h elf n True False 4 (Some c) out =
      Inr (out @ section_bytes (a, pad_to 4 d), Some (foldl (XOR) c d))"
    using WriteElfSection_ok [of h elf n a d 4 out False "Some c"] Cons.hyps(1) Cons.prems by (simp add: s)
  then show ?case
    using Cons.IH [of "out @ section_bytes (a, pad_to 4 d)" "foldl (XOR) c d"] Cons.prems by (simp add: s payload_def)
qed

lemma image_header_parts:
  "image_header 0xEA 4 b2 clock sz entry @ section_bytes (add, irom) = irom_part b2 (push_bit 4 sz OR clock) entry add irom"
  "image_header 0xE9 (of_nat (length secs)) b2 clock sz entry @ concat (map section_bytes secs) =
     rom_part b2 (push_bit 4 sz OR clock) entry secs"
  by (simp_all add: image_header_def irom_part_def rom_part_def)

lemma CreateBinFile_image:
  assumes "LoadElf h infile = Inr elf" "host_creat h outfile" "elf_section h elf IROM_NAME = Inr (ia, irom)"
    "list_all2 (\<lambda>n s. elf_section h elf n = Inr s) names secs"
    "img = e2_image mode (push_bit 4 sz OR clock) (e_entry elf) irom secs" "length img \<le> host_disk h" "length img < 2 ^ 31"
  shows "CreateBinFile h infile outfile 2 mode clock sz True names = Inr img"
proof -
  define b3 where "b3 = push_bit 4 sz OR clock"
  define o1 where "o1 = irom_part mode b3 (e_entry elf) 0 (pad_to 16 irom)"
  define body where "body = e2_body mode b3 (e_entry elf) irom secs"
  define ps where "ps = map (apsnd (pad_to 4)) secs"
  have ln: "length names = length ps" using assms(4) by (simp add: ps_def list_all2_lengthD)
  have bd: "body = o1 @ rom_part mode b3 (e_entry elf) ps" by (simp add: body_def e2_body_def o1_def ps_def)
  have im: "img = body @ replicate (15 - length body mod 16) 0 @ [calc_chksum (irom @ payload secs)]"
    using assms(5) by (simp add: e2_image_def body_def b3_def)
  have li: "length img = length body + (15 - length body mod 16) + 1" by (simp add: im)
  have lb: "length body = 24 + length (pad_to 16 irom) + length (concat (map section_bytes ps))" by (simp add: bd o1_def)
  have w0: "file_write h (image_header 0xEA 4 mode clock sz (e_entry elf)) [] = Inr (image_header 0xEA 4 mode clock sz (e_entry elf))"
    using assms(6) li lb by (simp add: file_write_def image_header_def)
  have w1: "WriteElfSection h elf IROM_NAME True True 16 (Some 0xEF) (image_header 0xEA 4 mode clock sz (e_entry elf)) =
      Inr (o1, Some (foldl (XOR) 0xEF irom))"
    using WriteElfSection_ok [OF assms(3), of 16 "image_header 0xEA 4 mode clock sz (e_entry elf)" True "Some 0xEF"]
      assms(6,7) li lb by (simp add: image_header_def o1_def irom_part_def b3_def)
  have w2: "file_write h (image_header 0xE9 (of_nat (length names)) mode clock sz (e_entry elf)) o1 =
      Inr (o1 @ image_header 0xE9 (of_nat (length ps)) mode clock sz (e_entry elf))"
    using assms(6) li lb ln by (simp add: file_write_def image_header_def o1_def)
  have w3: "write_sections h elf names (Some (foldl (XOR) 0xEF irom)) (o1 @ image_header 0xE9 (of_nat (length ps)) mode clock sz (e_entry elf)) =
      Inr (body, Some (calc_chksum (irom @ payload secs)))"
    using write_sections_ok [OF assms(4), of "o1 @ image_header 0xE9 (of_nat (length ps)) mode clock sz (e_entry elf)"
        "foldl (XOR) 0xEF irom"] assms(6,7) li lb image_header_parts(2) [of ps mode clock sz "e_entry elf"]
    by (simp add: bd o1_def image_header_def calc_chksum_def b3_def flip: ps_def)
  have pad: "(if (length body + 1) mod 16 > 0 then file_write h (replicate (16 - (length body + 1) mod 16) 0) body else Inr body) =
      Inr (body @ replicate (15 - length body mod 16) 0)"
  proof -
    have "(length body + 1) mod 16 = (if length body mod 16 = 15 then 0 else length body mod 16 + 1)" by (simp add: mod_Suc)
    then show ?thesis using assms(6) li by (auto simp: file_write_def)
  qed
  have w4: "file_write h [calc_chksum (irom @ payload secs)] (body @ replicate (15 - length body mod 16) 0) = Inr img"
    using assms(6) li by (simp add: file_write_def im)
  show ?thesis using assms(1,2) w0 w1 w2 w3 pad w4 by (auto simp: CreateBinFile_def Let_def split: if_splits)
qed

section \<open>What a successful run has written\<close>

lemma file_write_Inr: "file_write h bs out = Inr out' \<longleftrightarrow> length out + length bs \<le> host_disk h \<and> out' = out @ bs"
  by (auto simp: file_write_def)

lemma WriteElfSection_inv:
  assumes "WriteElfSection h elf name True za k c out = Inr (out', c')" "0 < k" "k < 2 ^ 32"
  obtains a d where "elf_section h elf name = Inr (a, d)" "length out' = length out + 8 + length (pad_to k d)"
    "length out' \<le> host_disk h"
proof -
  obtain sect d where s: "GetElfSection elf name = Inr sect" "GetElfSectionData h elf sect = Inr d"
    using assms(1) by (auto simp: WriteElfSection_def Let_def)
  then have e: "elf_section h elf name = Inr (sec_address sect, d)" by (simp add: elf_section_def)
  from elf_section_data [OF this] s(1) have "unat (sec_size sect) = length d" by auto
  then have "section_pad (sec_size sect) k = (k - length d mod k) mod k" using section_pad_eq [OF assms(2,3)] by simp
  then have "length out' = length out + 8 + length (pad_to k d) \<and> length out' \<le> host_disk h"
    using assms(1) s by (auto simp: WriteElfSection_def Let_def file_write_Inr pad_to_def split: if_splits)
  then show thesis using that [OF e] by blast
qed

lemma write_sections_inv:
  assumes "write_sections h elf names (Some c) out = Inr (out', c')" "length out \<le> host_disk h"
  shows "\<exists>secs. list_all2 (\<lambda>n s. elf_section h elf n = Inr s) names secs \<and> length out' \<le> host_disk h \<and>
    length out' = length out + length (concat (map section_bytes (map (apsnd (pad_to 4)) secs)))"
  using assms
proof (induction names arbitrary: out c)
  case Nil
  then show ?case by (intro exI [of _ "[]"]) simp
next
  case (Cons n names)
  obtain out1 c1 where w: "WriteElfSection h elf n True False 4 (Some c) out = Inr (out1, c1)"
    and r: "write_sections h elf names c1 out1 = Inr (out', c')" using Cons.prems(1) by auto
  obtain a d where s: "elf_section h elf n = Inr (a, d)" "length out1 = length out + 8 + length (pad_to 4 d)"
    "length out1 \<le> host_disk h" using WriteElfSection_inv [OF w] by auto
  obtain v where "c1 = Some v" using w by (auto simp: WriteElfSection_def Let_def)
  then obtain secs where "list_all2 (\<lambda>n s. elf_section h elf n = Inr s) names secs" "length out' \<le> host_disk h"
    "length out' = length out1 + length (concat (map section_bytes (map (apsnd (pad_to 4)) secs)))"
    using Cons.IH [of v out1] r s(3) by auto
  then show ?case using s by (intro exI [of _ "(a, d) # secs"]) simp
qed

lemma CreateBinFile_inv:
  assumes c: "CreateBinFile h infile outfile 2 mode clock sz True names = Inr img" and "length img < 2 ^ 31"
  obtains elf ia irom secs where "LoadElf h infile = Inr elf" "elf_section h elf IROM_NAME = Inr (ia, irom)"
    "list_all2 (\<lambda>n s. elf_section h elf n = Inr s) names secs"
    "img = e2_image mode (push_bit 4 sz OR clock) (e_entry elf) irom secs"
proof -
  define b3 where "b3 = push_bit 4 sz OR clock"
  obtain elf o1 c1 where l: "LoadElf h infile = Inr elf" "host_creat h outfile"
    and w: "WriteElfSection h elf IROM_NAME True True 16 (Some 0xEF) (image_header 0xEA 4 mode clock sz (e_entry elf)) = Inr (o1, c1)"
    using c by (auto simp: CreateBinFile_def file_write_Inr split: if_splits)
  from w obtain ia irom where i: "elf_section h elf IROM_NAME = Inr (ia, irom)" "length o1 = 16 + length (pad_to 16 irom)"
    by (rule WriteElfSection_inv) (simp_all add: image_header_def)
  obtain v where v: "c1 = Some v" using w by (auto simp: WriteElfSection_def Let_def)
  obtain o3 c3 where ws: "write_sections h elf names (Some v) (o1 @ image_header 0xE9 (of_nat (length names)) mode clock sz (e_entry elf)) = Inr (o3, c3)"
    and d: "length (o1 @ image_header 0xE9 (of_nat (length names)) mode clock sz (e_entry elf)) \<le> host_disk h"
    and p: "length img = length o3 + (15 - length o3 mod 16) + 1" "length img \<le> host_disk h"
    using c l w v by (auto simp: CreateBinFile_def file_write_Inr Let_def mod_Suc split: if_splits)
  obtain secs where s: "list_all2 (\<lambda>n s. elf_section h elf n = Inr s) names secs"
    "length o3 = length o1 + 8 + length (concat (map section_bytes (map (apsnd (pad_to 4)) secs)))"
    using write_sections_inv [OF ws d] by (auto simp: image_header_def)
  have "length (e2_body mode b3 (e_entry elf) irom secs) = length o3" using s(2) i(2) by (simp add: e2_body_def)
  then have "length (e2_image mode b3 (e_entry elf) irom secs) = length img" using p(1) by (simp add: e2_image_def)
  then have "CreateBinFile h infile outfile 2 mode clock sz True names = Inr (e2_image mode b3 (e_entry elf) irom secs)"
    using CreateBinFile_image [OF l i(1) s(1) refl, of mode sz clock] p(2) assms(2) by (simp add: b3_def)
  then show thesis using that [OF l(1) i(1) s(1)] c by (simp add: b3_def)
qed

section \<open>The data of a C header\<close>

text \<open>The bytes of an initialiser, read back the way a compiler reads hexadecimal constants.\<close>

fun read_rows :: "u8 list \<Rightarrow> u8 list" where
  "read_rows (x # a # b # t) =
     (if x = 120 then of_nat (16 * hexval a + hexval b) # read_rows t else read_rows (a # b # t))"
| "read_rows t = []"

lemma data_rows_Cons:
  "data_rows j (b # bs) = (if j mod 16 = 0 then [13, 10, 32, 32, 48, 120] else [32, 48, 120]) @
     [hexdig (unat b div 16), hexdig (unat b mod 16), 44] @ data_rows (Suc j) bs"
proof -
  have "unat b div 16 < 16" using unat_u8_less [of b] by linarith
  then have "hex_fixed 2 (unat b) = [hexdig (unat b div 16), hexdig (unat b mod 16)]" by (simp add: numeral_2_eq_2)
  then show ?thesis by (simp add: ascii_def)
qed

lemma data_rows_read: "read_rows (data_rows j bs) = bs"
proof (induction bs arbitrary: j)
  case (Cons b bs)
  have "unat b div 16 < 16" using unat_u8_less [of b] by linarith
  then have "of_nat (16 * hexval (hexdig (unat b div 16)) + hexval (hexdig (unat b mod 16))) = b"
    by (simp add: hexval_hexdig del: of_nat_add of_nat_mult)
  moreover have "read_rows (44 # data_rows (Suc j) bs) = bs"
  proof (cases bs)
    case (Cons c cs)
    then obtain x y t where "data_rows (Suc j) bs = x # y # t" unfolding Cons data_rows_Cons by (cases "Suc j mod 16 = 0") auto
    then show ?thesis using Cons.IH [of "Suc j"] by simp
  qed simp
  ultimately show ?case unfolding data_rows_Cons by (simp del: of_nat_add of_nat_mult)
qed simp
end
