(* ===== verification/Esptool2_Boot.thy ===== *)
theory Esptool2_Boot
  imports Esptool2
begin

text \<open>
  The build tools and the boot loader together: the images of \<^verbatim>\<open>esptool2\<close> and the configuration of \<^verbatim>\<open>rconf_gen\<close> are
  what \<^verbatim>\<open>rboot.c\<close> accepts.
\<close>

section \<open>An image in the flash\<close>

lemma or_15: "q OR 0x0F = 16 * (q div 16) + (15 :: nat)"
proof -
  have m: "(15 :: nat) = mask 4" by (simp add: mask_eq_exp_minus_1)
  have "take_bit 4 (q OR 15) = (15 :: nat)" by (simp only: m, rule bit_eqI) (auto simp: bit_simps)
  moreover have "drop_bit 4 (q OR 15) = drop_bit 4 q" by (simp only: m, rule bit_eqI) (auto simp: bit_simps)
  moreover have "push_bit 4 (drop_bit 4 (q OR 15)) + take_bit 4 (q OR 15) = q OR 15" by (rule bits_ident)
  ultimately show ?thesis by (simp add: drop_bit_eq_div push_bit_eq_mult)
qed

lemma stored_last:
  assumes "stored m p (xs @ [x])"
  shows "m (p + length xs) = x"
  using arg_cong [OF assms [unfolded stored_def], of "\<lambda>b. b ! length xs"] by simp

lemma e2_image_boots:
  assumes fl: "nor_flash S chip fsize" and "0 < p" "p mod 16 = 0" "length secs < 254"
    and h: "stored (chip f) p (e2_image b2 b3 entry irom secs)" and sz: "p + length (e2_image b2 b3 entry irom secs) \<le> fsize"
  shows "check_image S f (of_nat p) = of_nat (p + 16 + length (pad_to 16 irom))"
    "list_all (ram_fits \<circ> apsnd (pad_to 4)) secs \<Longrightarrow>
      load_rom S f junk (of_nat (p + 16 + length (pad_to 16 irom))) ram = (foldl place ram (map (apsnd (pad_to 4)) secs), entry)"
proof -
  define body where "body = e2_body b2 b3 entry irom secs"
  define ps where "ps = map (apsnd (pad_to 4)) secs"
  have im: "e2_image b2 b3 entry irom secs = (body @ replicate (15 - length body mod 16) 0) @ [calc_chksum (irom @ payload secs)]"
    by (simp add: e2_image_def body_def)
  have bd: "body = irom_part b2 b3 entry 0 (pad_to 16 irom) @ rom_part b2 b3 entry ps" by (simp add: body_def e2_body_def ps_def)
  have sb: "stored (chip f) p body" using h unfolding im by simp
  have c: "calc_chksum (pad_to 16 irom @ payload ps) = calc_chksum (irom @ payload secs)"
    by (simp add: calc_chksum_def ps_def xor_payload_pad)
  have q: "(p + length body) OR 0x0F = p + (length body + (15 - length body mod 16))"
  proof -
    have "(p + length body) mod 16 = length body mod 16" using assms(3) by (metis mod_add_left_eq add_0)
    moreover have "16 * ((p + length body) div 16) + (p + length body) mod 16 = p + length body" by (rule mult_div_mod_eq)
    moreover have "length body mod 16 < 16" by simp
    ultimately show ?thesis unfolding or_15 by linarith
  qed
  have l: "p + (length body + (15 - length body mod 16)) < fsize" using sz unfolding im by simp
  have "chip f ((p + length body) OR 0x0F) = calc_chksum (pad_to 16 irom @ payload ps)"
    using stored_last [OF h [unfolded im]] unfolding q c by simp
  then show "check_image S f (of_nat p) = of_nat (p + 16 + length (pad_to 16 irom))"
    using check_new_image [OF fl sb [unfolded bd] assms(2), of "p + length body"] assms(4) q l by (simp add: bd ps_def)
  show "load_rom S f junk (of_nat (p + 16 + length (pad_to 16 irom))) ram = (foldl place ram (map (apsnd (pad_to 4)) secs), entry)"
    if "list_all (ram_fits \<circ> apsnd (pad_to 4)) secs"
    using load_rom_ok [OF fl, of f "p + 16 + length (pad_to 16 irom)" b2 b3 entry ps junk ram] sb l assms(4) that
    by (simp add: bd ps_def add.assoc list.pred_map)
qed
section \<open>The generated configuration\<close>

lemma length_testConfig: "length (testConfig k) = 28"
  by (simp add: testConfig_def)

lemma rconf_main_sealed: "rconf_main k = seal_config (testConfig k)"
  by (simp add: rconf_main_def seal_config_def)

lemma config_bad_append:
  assumes "CHKSUM < length b"
  shows "config_bad (b @ rest) \<longleftrightarrow> config_bad b"
  using assms by (auto simp: config_bad_def nth_append)

abbreviation (input) "ROM_ADDRS \<equiv> [0x2000, 0x82000, 0x102000, 0x202000 :: nat]"

lemma rconf_rom_addr:
  assumes "i < 4"
  shows "rom_addr (rconf_main k) (int i) = of_nat (ROM_ADDRS ! i)"
proof -
  have "rom_addr (rconf_main k) (int i) = rom_addr (testConfig k) (int i)"
    by (rule rom_addr_cong [OF _ assms]) (simp add: rconf_main_sealed)
  moreover have "rom_addr (testConfig k) (int i) = of_nat (ROM_ADDRS ! i)"
  proof -
    define pre where "pre = [0xE1, 0x01, 0x00, k, 0, 4, 2, 0 :: u8]"
    note g = get32_bytes32 [of pre 8] get32_bytes32 [of "pre @ bytes32 0x002000" 12]
      get32_bytes32 [of "pre @ bytes32 0x002000 @ bytes32 0x082000" 16]
      get32_bytes32 [of "pre @ bytes32 0x002000 @ bytes32 0x082000 @ bytes32 0x102000" 20]
    have t: "testConfig k = pre @ bytes32 0x002000 @ bytes32 0x082000 @ bytes32 0x102000 @ bytes32 0x202000 @ [0, 0, 0, 0]"
      by (simp add: testConfig_def pre_def)
    have l: "length pre = 8" by (simp add: pre_def)
    consider "i = 0" | "i = 1" | "i = 2" | "i = 3" using assms by linarith
    then show ?thesis by cases (use g l in \<open>simp_all add: rom_addr_def t\<close>)
  qed
  ultimately show ?thesis by simp
qed

lemma rconf_sector:
  assumes "stored m 0x1000 (rconf_main k)" "k < 4"
  shows "\<not> config_bad (mem_read m 0x1000 0x1000)" "boot_config m ! CURRENT_ROM = k" "boot_config m ! ROM_COUNT = 4"
    "rom_addr (boot_config m) (uint k) = of_nat (ROM_ADDRS ! unat k)"
proof -
  have l: "length (rconf_main k) = 28" by (simp add: rconf_main_sealed length_testConfig)
  obtain rest where s: "mem_read m 0x1000 0x1000 = rconf_main k @ rest"
    using mem_read_add [of m "0x1000" 28 "0xFE4"] assms(1) l by (simp add: stored_def)
  have "\<not> config_bad (rconf_main k)"
    unfolding rconf_main_sealed by (rule seal_config_good) (simp_all add: length_testConfig, simp_all add: testConfig_def)
  then show g: "\<not> config_bad (mem_read m 0x1000 0x1000)" using config_bad_append [of "rconf_main k" rest] l by (simp add: s)
  then have b: "boot_config m = rconf_main k @ rest" by (simp add: boot_config_def s)
  show "boot_config m ! CURRENT_ROM = k" "boot_config m ! ROM_COUNT = 4"
    using l by (simp_all add: b nth_append rconf_main_sealed) (simp_all add: testConfig_def)
  have k: "unat k < 4" using assms(2) by (simp add: word_less_nat_alt)
  have "rom_addr (rconf_main k @ rest) (int (unat k)) = rom_addr (rconf_main k) (int (unat k))"
    by (rule rom_addr_cong [OF _ k]) (simp add: nth_append l)
  then show "rom_addr (boot_config m) (uint k) = of_nat (ROM_ADDRS ! unat k)" using rconf_rom_addr [OF k] b by simp
qed

section \<open>Properties\<close>

text \<open>The options of a build for this boot loader, as the Makefile passes them.\<close>

definition rboot_build :: "e2_opts \<Rightarrow> bool" where
  "rboot_build o1 \<longleftrightarrow> binfile o1 \<and> \<not> libfile o1 \<and> o_opts o1 = 1 \<and> \<not> (quieton o1 \<and> debugon o1) \<and> o_bootver o1 = 2 \<and> o_iromchksum o1"

definition built_image :: "e2_opts \<Rightarrow> MyElf_File \<Rightarrow> u8 list \<Rightarrow> rom_section list \<Rightarrow> u8 list" where
  "built_image o1 elf irom secs = e2_image (o_mode o1) (push_bit 4 (o_size o1) OR o_clock o1) (e_entry elf) irom secs"

lemma esptool2_main_builds:
  assumes "parse_options args no_opts = (o1, infile # outfile # names, False)" "rboot_build o1" "names \<noteq> []"
    "LoadElf h infile = Inr elf" "host_creat h outfile" "elf_section h elf IROM_NAME = Inr (ia, irom)"
    "list_all2 (\<lambda>n s. elf_section h elf n = Inr s) names secs"
    "length (built_image o1 elf irom secs) \<le> host_disk h" "length (built_image o1 elf irom secs) < 2 ^ 31"
  shows "esptool2_main h args = Some (0, (host_files h)(outfile := Some (built_image o1 elf irom secs)))"
proof -
  have "args \<noteq> []" using assms(1) by auto
  then show ?thesis
    using assms(1-3) CreateBinFile_image [OF assms(4-7) built_image_def assms(8,9)] by (simp add: esptool2_main_def rboot_build_def)
qed

text \<open>
  C27. From the linker's output to a running image: with the options of the Makefile for rBoot images
  (\<^verbatim>\<open>-bin -boot2 -iromchksum\<close> and the flash settings), an ELF file that loads and has \<^verbatim>\<open>.irom0.text\<close> and the named
  sections, and room for the output, \<^verbatim>\<open>esptool2\<close> exits with 0 and writes an image that the boot loader accepts
  wherever it is stored at a multiple of 16: \<^verbatim>\<open>check_image\<close> answers the address behind the library section, and the
  second stage copies every named section, filled up with zeros to a multiple of 4, to its address and starts at the
  entry point of the ELF file. Without \<^verbatim>\<open>-iromchksum\<close> the checksums of the two sides differ in general.
\<close>

theorem esptool2_image_boots:
  assumes "parse_options args no_opts = (o1, infile # outfile # names, False)" "rboot_build o1" "names \<noteq> []" "length names < 254"
    "LoadElf h infile = Inr elf" "host_creat h outfile" "elf_section h elf IROM_NAME = Inr (ia, irom)"
    "list_all2 (\<lambda>n s. elf_section h elf n = Inr s) names secs" "list_all (ram_fits \<circ> apsnd (pad_to 4)) secs"
    "img = built_image o1 elf irom secs" "length img \<le> host_disk h" "length img < 2 ^ 31"
    "nor_flash S chip fsize" "0 < p" "p mod 16 = 0" "p + length img \<le> fsize" "stored (chip f) p img"
    "r = of_nat (p + 16 + length (pad_to 16 irom))"
  shows "esptool2_main h args = Some (0, (host_files h)(outfile := Some img)) \<and> check_image S f (of_nat p) = r \<and>
    load_rom S f junk r ram = (foldl place ram (map (apsnd (pad_to 4)) secs), e_entry elf)"
proof -
  have n: "length secs < 254" using assms(4,8) by (simp add: list_all2_lengthD)
  note b = e2_image_boots [OF assms(13-15) n assms(17,16) [unfolded assms(10) built_image_def]]
  show ?thesis
    using esptool2_main_builds [OF assms(1-3,5-8) assms(11,12) [unfolded assms(10)]] b(1) b(2) [OF assms(9)]
    unfolding assms(10,18) by simp
qed

definition sample_ehdr :: "u8 list" where
  "sample_ehdr = [0x7F, 0x45, 0x4C, 0x46] @ replicate 20 0 @ bytes32 0x40100004 @ replicate 4 0 @ bytes32 76 @ replicate 10 0 @
     [40, 0, 4, 0, 3, 0]"

definition sample_shdr :: "u32 \<Rightarrow> u32 \<Rightarrow> u32 \<Rightarrow> u32 \<Rightarrow> u8 list" where
  "sample_shdr name addr off n = bytes32 name @ replicate 8 0 @ bytes32 addr @ bytes32 off @ bytes32 n @ replicate 16 0"

definition sample_strings :: "u8 list" where
  "sample_strings = 0 # ascii ''.irom0.text'' @ 0 # ascii ''.text'' @ [0]"

definition sample_elf :: "u8 list" where
  "sample_elf = sample_ehdr @ [1, 2, 3] @ [5, 6] @ sample_strings @ replicate 40 0 @ sample_shdr 1 0x40202010 52 3 @
     sample_shdr 13 0x40100000 55 2 @ sample_shdr 0 0 57 19"

definition sample_host :: host where
  "sample_host = \<lparr>host_malloc = (\<lambda>n. n \<le> 0x10000), host_disk = 0x10000,
     host_files = (\<lambda>path. if path = ascii ''app.out'' then Some sample_elf else None), host_creat = (\<lambda>path. True)\<rparr>"

definition sample_args :: "u8 list list" where
  "sample_args = map ascii [''-bin'', ''-boot2'', ''-iromchksum'', ''-4096'', ''-qio'', ''-80'', ''app.out'', ''rom2.bin'', ''.text'']"

definition sample_opts :: e2_opts where
  "sample_opts = no_opts\<lparr>binfile := True, o_opts := 1, o_bootver := 2, o_iromchksum := True, o_size := 4, o_mode := 0, o_clock := 15\<rparr>"

definition sample_e2_image :: "u8 list" where
  "sample_e2_image = irom_part 0 0x4F 0x40100004 0 ([1, 2, 3] @ replicate 13 0) @
     rom_part 0 0x4F 0x40100004 [(0x40100000, [5, 6] @ replicate 2 0)] @ replicate 11 0 @ [0xEC]"

definition loaded_elf :: MyElf_File where
  "loaded_elf = \<lparr>elf_fd = sample_elf, e_entry = 0x40100004, e_shnum = 4,
     elf_strings = sample_strings,
     elf_sections = [\<lparr>sec_offset = 52, sec_address = 0x40202010, sec_size = 3, sec_name = 1\<rparr>,
       \<lparr>sec_offset = 55, sec_address = 0x40100000, sec_size = 2, sec_name = 13\<rparr>,
       \<lparr>sec_offset = 57, sec_address = 0, sec_size = 19, sec_name = 0\<rparr>]\<rparr>"

lemma sample_build:
  "parse_options sample_args no_opts = (sample_opts, ascii ''app.out'' # ascii ''rom2.bin'' # [ascii ''.text''], False)"
  "rboot_build sample_opts"
  by code_simp+

lemma sample_shdr_fields:
  "length (sample_shdr name addr off n) = 40"
  "parse_shdr (sample_shdr name addr off n) = \<lparr>sec_offset = off, sec_address = addr, sec_size = n, sec_name = unat name\<rparr>"
  "get32 (sample_shdr name addr off n) 16 = off" "get32 (sample_shdr name addr off n) 20 = n"
proof -
  show "length (sample_shdr name addr off n) = 40" by (simp add: sample_shdr_def)
  have g: "get32 (sample_shdr name addr off n) 0 = name" "get32 (sample_shdr name addr off n) 12 = addr"
    "get32 (sample_shdr name addr off n) 16 = off" "get32 (sample_shdr name addr off n) 20 = n"
    using get32_bytes32 [of "[]" 0 name] get32_bytes32 [of "bytes32 name @ replicate 8 0" 12 addr]
      get32_bytes32 [of "bytes32 name @ replicate 8 0 @ bytes32 addr" 16 off]
      get32_bytes32 [of "bytes32 name @ replicate 8 0 @ bytes32 addr @ bytes32 off" 20 n]
    by (simp_all add: sample_shdr_def)
  then show "get32 (sample_shdr name addr off n) 16 = off" "get32 (sample_shdr name addr off n) 20 = n"
    "parse_shdr (sample_shdr name addr off n) = \<lparr>sec_offset = off, sec_address = addr, sec_size = n, sec_name = unat name\<rparr>"
    by (simp_all add: parse_shdr_def)
qed

lemma sample_lengths [simp]: "length sample_ehdr = 52" "length sample_strings = 19"
  by (simp_all add: sample_ehdr_def sample_strings_def ascii_def)

lemma sample_reads:
  "file_read sample_elf 0 52 = Some sample_ehdr"
  "file_read sample_elf 52 3 = Some [1, 2, 3]" "file_read sample_elf 55 2 = Some [5, 6]"
  "file_read sample_elf 57 19 = Some sample_strings"
  "file_read sample_elf 116 40 = Some (sample_shdr 1 0x40202010 52 3)"
  "file_read sample_elf 156 40 = Some (sample_shdr 13 0x40100000 55 2)"
  "file_read sample_elf 196 40 = Some (sample_shdr 0 0 57 19)"
  by (simp_all add: file_read_def sample_elf_def sample_shdr_fields)

lemma sample_ehdr_fields:
  "take 4 sample_ehdr = [0x7F, 0x45, 0x4C, 0x46]" "get32 sample_ehdr 24 = 0x40100004" "get32 sample_ehdr 32 = 76"
  "get16 sample_ehdr 46 = 40" "get16 sample_ehdr 48 = 4" "get16 sample_ehdr 50 = 3"
  by (simp_all add: sample_ehdr_def get32_def get16_def bytes32_def nth_append)

lemma sample_load: "LoadElf sample_host (ascii ''app.out'') = Inr loaded_elf"
  by (simp add: LoadElf_def sample_host_def sample_reads sample_ehdr_fields sample_shdr_fields loaded_elf_def upt_rec)

lemma sample_sections:
  "elf_section sample_host loaded_elf IROM_NAME = Inr (0x40202010, [1, 2, 3])"
  "elf_section sample_host loaded_elf (ascii ''.text'') = Inr (0x40100000, [5, 6])"
  by (simp_all add: elf_section_def GetElfSection_def GetElfSectionData_def loaded_elf_def sample_host_def sample_reads
      sample_strings_def ascii_def upt_rec)

lemma sample_built: "built_image sample_opts loaded_elf [1, 2, 3] [(0x40100000, [5, 6])] = sample_e2_image"
  by (simp add: built_image_def e2_image_def e2_body_def sample_opts_def no_opts_def loaded_elf_def sample_e2_image_def
      pad_to_def rom_part_def payload_def calc_chksum_def)

lemma sample_e2_length: "length sample_e2_image = 64"
  by (simp add: sample_e2_image_def)

theorem esptool2_image_boots_witness:
  "esptool2_main sample_host sample_args = Some (0, (host_files sample_host)(ascii ''rom2.bin'' := Some sample_e2_image)) \<and>
    check_image sim_spi (mem_write (\<lambda>_. 0xFF) 0x102000 sample_e2_image) 0x102000 = 0x102020 \<and>
    snd (load_rom sim_spi (mem_write (\<lambda>_. 0xFF) 0x102000 sample_e2_image) (replicate 256 0) 0x102020 (\<lambda>_. 0)) = 0x40100004"
proof -
  have st: "stored (mem_write (\<lambda>_. 0xFF) 0x102000 sample_e2_image) 0x102000 sample_e2_image" by (simp add: stored_def)
  have fl: "nor_flash sim_spi (\<lambda>f. f) 0x400000" by (rule sim_spi_flash) simp
  have e: "e_entry loaded_elf = 0x40100004" by (simp add: loaded_elf_def)
  have d: "host_creat sample_host (ascii ''rom2.bin'')" "host_disk sample_host = 0x10000" by (simp_all add: sample_host_def)
  show ?thesis
    using esptool2_image_boots [OF sample_build _ _ sample_load d(1) sample_sections(1),
        of "[(0x40100000, [5, 6])]" sample_e2_image sim_spi "\<lambda>f. f" "0x400000" "0x102000"
          "mem_write (\<lambda>_. 0xFF) 0x102000 sample_e2_image" "0x102020" "replicate 256 0" "\<lambda>_. 0"]
      sample_sections(2) st fl d(2) e
    by (simp add: sample_built sample_e2_length pad_to_def ram_fits_def)
qed

text \<open>
  C28. A device flashed with the files of the build boots: the configuration of \<^verbatim>\<open>rconf_gen\<close> for image \<open>k\<close> stands in
  sector 1, and the file that a successful run of \<^verbatim>\<open>esptool2\<close> with the rBoot options has left stands at the address of
  that image. Then the boot loader starts it without changing the flash: the configuration is valid and selects the
  image, \<^verbatim>\<open>find_image\<close> finds it good, and the second stage puts the sections of the ELF file, filled up to a multiple
  of 4, at their addresses and jumps to its entry point.
\<close>

theorem flashed_device_boots:
  assumes "parse_options args no_opts = (o1, infile # outfile # names, False)" "rboot_build o1"
    "esptool2_main h args = Some (0, files)" "files outfile = Some img" "length img < 2 ^ 31" "length names < 254"
    "nor_flash S chip fsize" "0x2000 \<le> fsize" "stored (chip f) 0x1000 (rconf_main k)" "k < 4"
    "p = ROM_ADDRS ! unat k" "stored (chip f) p img" "p + length img \<le> fsize" "length junk = 4096"
  shows "\<exists>elf secs r. LoadElf h infile = Inr elf \<and> list_all2 (\<lambda>n s. elf_section h elf n = Inr s) names secs \<and>
    find_image S f junk = Some (f, r) \<and> r \<noteq> 0 \<and>
    (list_all (ram_fits \<circ> apsnd (pad_to 4)) secs \<longrightarrow>
      load_rom S f junk' r ram = (foldl place ram (map (apsnd (pad_to 4)) secs), e_entry elf))"
proof -
  have "CreateBinFile h infile outfile 2 (o_mode o1) (o_clock o1) (o_size o1) True names = Inr img"
    using assms(1-4) by (auto simp: esptool2_main_def rboot_build_def split: sum.splits if_splits)
  from this assms(5) obtain elf ia irom secs where e: "LoadElf h infile = Inr elf" "elf_section h elf IROM_NAME = Inr (ia, irom)"
    "list_all2 (\<lambda>n s. elf_section h elf n = Inr s) names secs"
    "img = e2_image (o_mode o1) (push_bit 4 (o_size o1) OR o_clock o1) (e_entry elf) irom secs" by (rule CreateBinFile_inv)
  have n: "length secs < 254" using assms(6) e(3) by (simp add: list_all2_lengthD)
  have k: "unat k < 4" using assms(10) by (simp add: word_less_nat_alt)
  then consider "unat k = 0" | "unat k = 1" | "unat k = 2" | "unat k = 3" by linarith
  then have p: "0 < p" "p mod 16 = 0" by (cases; simp add: assms(11))+
  note b = e2_image_boots [OF assms(7) p n assms(12,13) [unfolded e(4)]]
  define r where "r = p + 16 + length (pad_to 16 irom)"
  have "r < fsize" using assms(13) by (simp add: e(4) e2_image_def e2_body_def r_def)
  then have r0: "(of_nat r :: u32) \<noteq> 0" using assms(7) of_nat_zero_u32 [of r] by (simp add: nor_flash_def r_def)
  note rs = rconf_sector [OF assms(9,10)]
  have "pick_rom S f (boot_config (chip f)) = Some (f, of_nat r)"
    using pick_current [of "boot_config (chip f)" S f] rs(2-4) b(1) r0 k boot_config_good(2) [of "chip f"]
    by (simp add: assms(11) r_def)
  then have "find_image S f junk = Some (f, of_nat r)" using find_image_pick [OF assms(7,8,14), of f] rs(1) by simp
  then show ?thesis using e(1,3) b(2) r0 by (fastforce simp: r_def)
qed

definition flashed_device :: mem where
  "flashed_device = mem_write (mem_write (\<lambda>_. 0xFF) 0x1000 (rconf_main 2)) 0x102000 sample_e2_image"

theorem flashed_device_boots_witness:
  "\<exists>elf r. LoadElf sample_host (ascii ''app.out'') = Inr elf \<and> r \<noteq> 0 \<and>
    find_image sim_spi flashed_device (replicate 4096 0) = Some (flashed_device, r)"
proof -
  define files where "files = (host_files sample_host)(ascii ''rom2.bin'' := Some sample_e2_image)"
  have "esptool2_main sample_host sample_args = Some (0, files)"
    using esptool2_main_builds [OF sample_build _ sample_load _ sample_sections(1), of "[(0x40100000, [5, 6])]"] sample_sections(2)
    by (simp add: sample_built sample_e2_length files_def sample_host_def)
  moreover have "files (ascii ''rom2.bin'') = Some sample_e2_image" by (simp add: files_def)
  moreover have "length (rconf_main 2) = 28" by (simp add: rconf_main_sealed length_testConfig)
  then have "stored flashed_device 0x1000 (rconf_main 2)" "stored flashed_device 0x102000 sample_e2_image"
    unfolding stored_def flashed_device_def by (simp_all add: mem_simps disjnt_blk_def)
  moreover have "nor_flash sim_spi (\<lambda>f. f) 0x400000" by (rule sim_spi_flash) simp
  ultimately show ?thesis
    using flashed_device_boots [OF sample_build, of sample_host files sample_e2_image sim_spi "\<lambda>f. f" "0x400000" flashed_device 2
        "0x102000" "replicate 4096 0"] by (auto simp: sample_e2_length)
qed

end
