(* ===== verification/Flash_Access.thy ===== *)
theory Flash_Access
  imports Rboot_Find
begin

text \<open>
  Byte access to the flash, \<^verbatim>\<open>app_common/platform/common.c\<close> and the flash functions of \<^verbatim>\<open>platform.c\<close>, with the three
  functions of \<^verbatim>\<open>app_common/spiffs/spiffs.c\<close> through which the file system reaches them and its formatting. The chip is
  read and written in units of 4 bytes at addresses divisible by 4, from and to RAM at such addresses; these functions
  take any address and length. RAM is the flat store; the array \<^verbatim>\<open>tmpdata\<close> on the stack stands at the address \<open>tmp\<close>.
  The functions of the SDK are parameters: the flash functions, whether erasing succeeds, which requests \<^verbatim>\<open>c_malloc\<close>
  grants, and the initial contents of the array \<^verbatim>\<open>back\<close>. The sector size is defined and the units are 4 bytes
  (\<^verbatim>\<open>cpu_esp8266.h\<close>), and the chip has 4 MByte (\<^verbatim>\<open>FLASH_4M\<close>).
\<close>

record 'f hal =
  hal_spi :: "'f spi"
  hal_erase_ok :: "u16 \<Rightarrow> 'f \<Rightarrow> bool"
  hal_malloc :: "u32 \<Rightarrow> bool"
  hal_back :: "u8 list"

abbreviation (input) "INTERNAL_FLASH_MAPPED_ADDRESS \<equiv> (0x40200000 :: u32)"
abbreviation (input) "FLASH_SEC_NUM \<equiv> (0x400 :: u32)"

section \<open>Sectors\<close>

text \<open>The number of the sector with its first and its last address.\<close>

definition flashh_find_sector :: "u32 \<Rightarrow> u32 \<times> u32 \<times> u32" where
  "flashh_find_sector address =
     (let sect_id = address div SECTOR_SIZE in (sect_id, sect_id * SECTOR_SIZE, (sect_id + 1) * SECTOR_SIZE - 1))"

definition platform_flash_get_sector_of_address :: "u32 \<Rightarrow> u32" where
  "platform_flash_get_sector_of_address address = fst (flashh_find_sector address)"

definition platform_flash_get_num_sectors :: u32 where
  "platform_flash_get_num_sectors = ((FLASH_SEC_NUM - 4) * SECTOR_SIZE) div SECTOR_SIZE"

text \<open>\<open>cache_ctrl\<close> is the contents of the register \<^verbatim>\<open>CACHE_FLASH_CTRL_REG\<close>.\<close>

definition platform_flash_mapped2phys :: "u32 \<Rightarrow> u32 \<Rightarrow> u32" where
  "platform_flash_mapped2phys cache_ctrl mapped_addr =
     (if cache_ctrl AND 0x00000100 = 0 then - 1
      else let b0 = (if cache_ctrl AND 0x02000000 \<noteq> 0 then 1 else 0);
               b1 = (if cache_ctrl AND 0x00010000 \<noteq> 0 then 1 else 0);
               meg = push_bit 1 b1 OR b0
           in mapped_addr - INTERNAL_FLASH_MAPPED_ADDRESS + meg * 0x100000)"

text \<open>The address with the number of the sector it is in; \<open>used_end\<close> is the symbol \<^verbatim>\<open>_flash_used_end\<close> of the linker.\<close>

definition platform_flash_get_first_free_block_address :: "u32 \<Rightarrow> u32 \<Rightarrow> u32 \<times> u32" where
  "platform_flash_get_first_free_block_address cache_ctrl used_end =
     (if used_end > 0 then
        case flashh_find_sector (platform_flash_mapped2phys cache_ctrl (used_end - 1)) of
          (sect, start, end_addr) \<Rightarrow> (end_addr + 1, sect + 1)
      else case flashh_find_sector 0 of (sect, start, end_addr) \<Rightarrow> (start, sect))"

section \<open>Aligned access\<close>

definition platform_s_flash_write :: "'f hal \<Rightarrow> addr \<Rightarrow> u32 \<Rightarrow> u32 \<Rightarrow> mem \<Rightarrow> 'f \<Rightarrow> 'f \<times> u32" where
  "platform_s_flash_write H from_addr toaddr n m f =
     (if (from_addr mod 4 \<noteq> 0 \<or> from_addr \<ge> unat INTERNAL_FLASH_MAPPED_ADDRESS) \<and> \<not> hal_malloc H n then (f, 0)
      else case SPIWrite (hal_spi H) toaddr (mem_read m from_addr (unat n)) f of
        (f1, ok) \<Rightarrow> (f1, if ok then n else 0))"

definition platform_s_flash_read :: "'f hal \<Rightarrow> addr \<Rightarrow> u32 \<Rightarrow> u32 \<Rightarrow> mem \<Rightarrow> 'f \<Rightarrow> mem \<times> u32" where
  "platform_s_flash_read H to_addr fromaddr n m f =
     (if n = 0 then (m, 0)
      else if to_addr mod 4 \<noteq> 0 then
        let size2 = n - 4; to2 = to_addr - to_addr mod 4 + 4 in
        case SPIRead (hal_spi H) fromaddr size2 f of
          None \<Rightarrow> (m, 0)
        | Some bs \<Rightarrow>
            let m1 = mem_write m to2 bs;
                m2 = mem_write m1 to_addr (mem_read m1 to2 (unat size2));
                r = SPIRead (hal_spi H) (fromaddr + size2) 4 f;
                m3 = mem_write m2 (to_addr + unat size2) (case r of Some back \<Rightarrow> back | None \<Rightarrow> hal_back H)
            in (m3, if r = None then 0 else n)
      else case SPIRead (hal_spi H) fromaddr n f of
          None \<Rightarrow> (m, 0)
        | Some bs \<Rightarrow> (mem_write m to_addr bs, n))"

definition platform_flash_erase_sector :: "'f hal \<Rightarrow> u32 \<Rightarrow> 'f \<Rightarrow> 'f \<times> bool" where
  "platform_flash_erase_sector H sector_id f =
     (SPIEraseSector (hal_spi H) (ucast (ucast sector_id :: u16)) f, hal_erase_ok H (ucast sector_id) f)"

section \<open>Access to any address\<close>

text \<open>The loops that copy to and from \<^verbatim>\<open>tmpdata\<close>: at most \<open>room\<close> bytes, and no more than \<open>n\<close>; they leave the rest of \<open>n\<close>.\<close>

fun copy_bytes :: "mem \<Rightarrow> addr \<Rightarrow> addr \<Rightarrow> nat \<Rightarrow> u32 \<Rightarrow> mem \<times> addr \<times> addr \<times> u32" where
  "copy_bytes m dst src 0 n = (m, dst, src, n)"
| "copy_bytes m dst src (Suc room) n =
     (if n = 0 then (m, dst, src, n) else copy_bytes (m(dst := m src)) (Suc dst) (Suc src) room (n - 1))"

definition write_from_aligned :: "'f hal \<Rightarrow> addr \<Rightarrow> addr \<Rightarrow> u32 \<Rightarrow> u32 \<Rightarrow> mem \<Rightarrow> 'f \<Rightarrow> mem \<times> 'f" where
  "write_from_aligned H tmp pfrom toaddr n m f =
     (let rest = n AND 3;
          temp = n AND NOT 3;
          f1 = (if temp \<noteq> 0 then fst (platform_s_flash_write H pfrom toaddr temp m f) else f);
          toaddr1 = toaddr + temp;
          pfrom1 = pfrom + unat temp
      in if rest \<noteq> 0 then
           let m1 = fst (platform_s_flash_read H tmp toaddr1 4 m f1);
               m2 = fst (copy_bytes m1 tmp pfrom1 (unat rest) n)
           in (m2, fst (platform_s_flash_write H tmp toaddr1 4 m2 f1))
         else (m, f1))"

definition platform_flash_write :: "'f hal \<Rightarrow> addr \<Rightarrow> addr \<Rightarrow> u32 \<Rightarrow> u32 \<Rightarrow> mem \<Rightarrow> 'f \<Rightarrow> mem \<times> 'f \<times> u32" where
  "platform_flash_write H tmp from_addr toaddr n m f =
     (if toaddr AND 3 \<noteq> 0 then
        let rest = toaddr AND 3;
            temp = toaddr AND NOT 3;
            m1 = fst (platform_s_flash_read H tmp temp 4 m f)
        in case copy_bytes m1 (tmp + unat rest) from_addr (4 - unat rest) n of
          (m2, dst, pfrom, n1) \<Rightarrow>
            let f1 = fst (platform_s_flash_write H tmp temp 4 m2 f) in
            if n1 = 0 then (m2, f1, n)
            else case write_from_aligned H tmp pfrom (temp + 4) n1 m2 f1 of (m3, f2) \<Rightarrow> (m3, f2, n)
      else case write_from_aligned H tmp from_addr toaddr n m f of (m1, f1) \<Rightarrow> (m1, f1, n))"

definition read_from_aligned :: "'f hal \<Rightarrow> addr \<Rightarrow> addr \<Rightarrow> u32 \<Rightarrow> u32 \<Rightarrow> mem \<Rightarrow> 'f \<Rightarrow> mem" where
  "read_from_aligned H tmp pto fromaddr n m f =
     (let rest = n AND 3;
          temp = n AND NOT 3;
          m1 = (if temp \<noteq> 0 then fst (platform_s_flash_read H pto fromaddr temp m f) else m);
          fromaddr1 = fromaddr + temp;
          pto1 = pto + unat temp
      in if rest \<noteq> 0 then
           let m2 = fst (platform_s_flash_read H tmp fromaddr1 4 m1 f)
           in fst (copy_bytes m2 pto1 tmp (unat rest) n)
         else m1)"

definition platform_flash_read :: "'f hal \<Rightarrow> addr \<Rightarrow> addr \<Rightarrow> u32 \<Rightarrow> u32 \<Rightarrow> mem \<Rightarrow> 'f \<Rightarrow> mem \<times> u32" where
  "platform_flash_read H tmp to_addr fromaddr n m f =
     (if fromaddr AND 3 \<noteq> 0 then
        let rest = fromaddr AND 3;
            temp = fromaddr AND NOT 3;
            m1 = fst (platform_s_flash_read H tmp temp 4 m f)
        in case copy_bytes m1 to_addr (tmp + unat rest) (4 - unat rest) n of
          (m2, pto, src, n1) \<Rightarrow>
            if n1 = 0 then (m2, n) else (read_from_aligned H tmp pto (temp + 4) n1 m2 f, n)
      else (read_from_aligned H tmp to_addr fromaddr n m f, n))"

section \<open>The file system's access\<close>

abbreviation (input) "SPIFFS_OK \<equiv> (0 :: int)"
abbreviation (input) "SPIFFS_ERR_INTERNAL \<equiv> (-10050 :: int)"

definition my_spiffs_read :: "'f hal \<Rightarrow> addr \<Rightarrow> u32 \<Rightarrow> u32 \<Rightarrow> addr \<Rightarrow> mem \<Rightarrow> 'f \<Rightarrow> mem \<times> int" where
  "my_spiffs_read H tmp address n dst m f = (fst (platform_flash_read H tmp dst address n m f), SPIFFS_OK)"

definition my_spiffs_write :: "'f hal \<Rightarrow> addr \<Rightarrow> u32 \<Rightarrow> u32 \<Rightarrow> addr \<Rightarrow> mem \<Rightarrow> 'f \<Rightarrow> mem \<times> 'f \<times> int" where
  "my_spiffs_write H tmp address n src m f =
     (case platform_flash_write H tmp src address n m f of (m1, f1, r) \<Rightarrow> (m1, f1, SPIFFS_OK))"

text \<open>The loop over sectors, which formatting has too; it ends with whether every sector was erased.\<close>

partial_function (option) erase_range :: "'f hal \<Rightarrow> u32 \<Rightarrow> u32 \<Rightarrow> 'f \<Rightarrow> ('f \<times> bool) option" where
  "erase_range H sect_first sect_last f =
     (if sect_first \<le> sect_last then
        case platform_flash_erase_sector H sect_first f of
          (f1, ok) \<Rightarrow> if ok then erase_range H (sect_first + 1) sect_last f1 else Some (f1, False)
      else Some (f, True))"

definition my_spiffs_erase :: "'f hal \<Rightarrow> u32 \<Rightarrow> u32 \<Rightarrow> 'f \<Rightarrow> ('f \<times> int) option" where
  "my_spiffs_erase H address n f =
     (let sect_first = platform_flash_get_sector_of_address address in
      map_option (\<lambda>(f1, ok). (f1, if ok then SPIFFS_OK else SPIFFS_ERR_INTERNAL)) (erase_range H sect_first sect_first f))"

datatype fs_type = statfs | dynfs

text \<open>
  The fixed places of the two file systems (\<^verbatim>\<open>spiffs_config.h\<close>). Formatting unmounts, erases and mounts again; what
  \<^verbatim>\<open>SPIFFS_unmount\<close> and \<^verbatim>\<open>myspiffs_mount\<close> do with the flash is an argument.
\<close>

definition fs_location :: "fs_type \<Rightarrow> u32 \<times> u32" where
  "fs_location t = (case t of statfs \<Rightarrow> (0x302000, 0x10000) | dynfs \<Rightarrow> (0x312000, 0x50000))"

definition myspiffs_format :: "'f hal \<Rightarrow> (fs_type \<Rightarrow> 'f \<Rightarrow> 'f) \<Rightarrow> (fs_type \<Rightarrow> 'f \<Rightarrow> 'f) \<Rightarrow> fs_type \<Rightarrow> 'f \<Rightarrow> ('f \<times> int) option" where
  "myspiffs_format H unmount mount t f =
     (let f1 = unmount t f;
          sect_first = platform_flash_get_sector_of_address (fst (fs_location t));
          sect_last = sect_first + platform_flash_get_sector_of_address (snd (fs_location t)) - 1
      in map_option (\<lambda>(f2, ok). if ok then (mount t f2, 1) else (f2, 0)) (erase_range H sect_first sect_last f1))"

section \<open>Alignment\<close>

lemma three_mask: "(3 :: u32) = mask 2"
  by (simp add: mask_eq_exp_minus_1)

lemma of_nat_and_3: "(of_nat a :: u32) AND 3 = of_nat (a mod 4)"
proof -
  have "(of_nat (take_bit 2 a) :: u32) = take_bit 2 (of_nat a)" by (rule of_nat_take_bit)
  then show ?thesis unfolding three_mask take_bit_eq_mask [symmetric] by (simp add: take_bit_eq_mod)
qed

lemma of_nat_and_not_3: "(of_nat a :: u32) AND NOT 3 = of_nat (4 * (a div 4))"
proof -
  define w :: u32 where "w = of_nat a"
  have "w AND NOT 3 = w - (w AND 3)"
  proof -
    have "NOT w AND (w AND 3) = 0" by (rule bit_word_eqI) (auto simp: bit_simps)
    then have "w - (w AND 3) = w AND NOT (w AND 3)" by (rule disjunctive_diff_eq_and_not)
    also have "\<dots> = w AND NOT 3" by (rule bit_word_eqI) (auto simp: bit_simps)
    finally show ?thesis by simp
  qed
  also have "\<dots> = of_nat (a - a mod 4)" unfolding w_def of_nat_and_3 by (simp add: of_nat_diff)
  also have "a - a mod 4 = 4 * (a div 4)" by (simp add: minus_mod_eq_mult_div)
  finally show ?thesis by (simp add: w_def)
qed

section \<open>Writing to the chip\<close>

text \<open>What writing bytes to flash cells does: it can only clear bits.\<close>

definition nor_write :: "mem \<Rightarrow> nat \<Rightarrow> u8 list \<Rightarrow> mem" where
  "nor_write c a bs = (\<lambda>i. if a \<le> i \<and> i < a + length bs then c i AND bs ! (i - a) else c i)"

lemma nor_write_Nil [simp]: "nor_write c a [] = c"
  by (rule ext) (auto simp: nor_write_def)

lemma nor_write_append: "nor_write c a (xs @ ys) = nor_write (nor_write c a xs) (a + length xs) ys"
  by (rule ext) (auto simp: nor_write_def nth_append)

text \<open>Writing back what was read around new bytes only writes the new bytes.\<close>

lemma nor_write_same: "nor_write c a (mem_read c a n) = c"
  by (rule ext) (auto simp: nor_write_def)

lemma nor_write_around:
  assumes "r + length bs \<le> n"
  shows "nor_write c a (mem_read (mem_write (mem_write m t (mem_read c a n)) (t + r) bs) t n) = nor_write c (a + r) bs"
proof
  fix i
  show "nor_write c a (mem_read (mem_write (mem_write m t (mem_read c a n)) (t + r) bs) t n) i = nor_write c (a + r) bs i"
    using assms by (auto simp: nor_write_def mem_write_def)
qed

definition hal_ok :: "'f hal \<Rightarrow> ('f \<Rightarrow> mem) \<Rightarrow> nat \<Rightarrow> bool" where
  "hal_ok H chip fsize \<longleftrightarrow> nor_flash (hal_spi H) chip fsize \<and> fsize mod 4 = 0 \<and> (\<forall>n. hal_malloc H n)"

lemma hal_read:
  assumes "hal_ok H chip fsize" "a + n \<le> fsize"
  shows "SPIRead (hal_spi H) (of_nat a) (of_nat n) f = Some (mem_read (chip f) a n)"
  using assms flash_read by (metis hal_ok_def)

lemma s_flash_write_ok:
  assumes "hal_ok H chip fsize" "a + n \<le> fsize"
  shows "chip (fst (platform_s_flash_write H src (of_nat a) (of_nat n) m f)) = nor_write (chip f) a (mem_read m src n)"
    "snd (platform_s_flash_write H src (of_nat a) (of_nat n) m f) = of_nat n"
proof -
  have fl: "nor_flash (hal_spi H) chip fsize" using assms(1) by (simp add: hal_ok_def)
  have n: "unat (of_nat n :: u32) = n" by (rule unat_of_nat_small) (use assms(2) fl in \<open>simp add: nor_flash_def\<close>)
  have len: "a + length (mem_read m src n) \<le> fsize" using assms(2) by simp
  obtain f1 ok where w: "SPIWrite (hal_spi H) (of_nat a) (mem_read m src n) f = (f1, ok)" by fastforce
  have "ok" "chip f1 i = nor_write (chip f) a (mem_read m src n) i" for i
    using flash_write [OF fl len, of f] w by (simp_all add: nor_write_def)
  then show "chip (fst (platform_s_flash_write H src (of_nat a) (of_nat n) m f)) = nor_write (chip f) a (mem_read m src n)"
    "snd (platform_s_flash_write H src (of_nat a) (of_nat n) m f) = of_nat n"
    using assms(1) n w by (auto simp: platform_s_flash_write_def hal_ok_def)
qed

text \<open>The detour for an unaligned destination has the effect of a direct read.\<close>

lemma s_flash_read_ok:
  assumes "hal_ok H chip fsize" "a + n \<le> fsize" "4 \<le> n"
  shows "platform_s_flash_read H dst (of_nat a) (of_nat n) m f = (mem_write m dst (mem_read (chip f) a n), of_nat n)"
proof -
  have n: "n < 2 ^ 32" using assms(1,2) by (simp add: hal_ok_def nor_flash_def)
  have s2: "(of_nat n - 4 :: u32) = of_nat (n - 4)" using assms(3) by (simp add: of_nat_diff)
  have u: "unat (of_nat (n - 4) :: u32) = n - 4" by (rule unat_of_nat_small) (use n in simp)
  have nz: "(of_nat n :: u32) \<noteq> 0" using of_nat_zero_u32 [of n] n assms(3) by simp
  have r: "SPIRead (hal_spi H) (of_nat a) (of_nat (n - 4)) f = Some (mem_read (chip f) a (n - 4))"
    "SPIRead (hal_spi H) (of_nat a + of_nat (n - 4)) 4 f = Some (mem_read (chip f) (a + (n - 4)) 4)"
    "SPIRead (hal_spi H) (of_nat a) (of_nat n) f = Some (mem_read (chip f) a n)"
    using assms(2,3) hal_read [OF assms(1), of a "n - 4" f] hal_read [OF assms(1), of "a + (n - 4)" 4 f]
      hal_read [OF assms(1), of a n f] by (simp_all del: of_nat_diff add_diff_assoc)
  show ?thesis
  proof (cases "dst mod 4 = 0")
    case True
    then show ?thesis using nz r(3) by (simp add: platform_s_flash_read_def)
  next
    case False
    define to2 where "to2 = dst - dst mod 4 + 4"
    have t: "dst < to2" "to2 \<le> dst + 4" using False by (simp_all add: to2_def)
    have "mem_write (mem_write (mem_write m to2 (mem_read (chip f) a (n - 4))) dst (mem_read (chip f) a (n - 4))) (dst + (n - 4))
        (mem_read (chip f) (a + (n - 4)) 4) = mem_write m dst (mem_read (chip f) a n)"
    proof
      fix i
      show "mem_write (mem_write (mem_write m to2 (mem_read (chip f) a (n - 4))) dst (mem_read (chip f) a (n - 4))) (dst + (n - 4))
        (mem_read (chip f) (a + (n - 4)) 4) i = mem_write m dst (mem_read (chip f) a n) i"
        using t assms(3) by (auto simp: mem_write_def)
    qed
    then show ?thesis using False nz r(1,2) u
      by (simp add: platform_s_flash_read_def s2 to2_def [symmetric] mem_read_write_eq)
  qed
qed

lemma copy_bytes_ok:
  assumes "disjnt_blk dst j src j" "j = min k (unat n)"
  shows "copy_bytes m dst src k n = (mem_write m dst (mem_read m src j), dst + j, src + j, n - of_nat j)"
  using assms
proof (induction k arbitrary: m dst src n j)
  case 0
  then show ?case by simp
next
  case (Suc k)
  show ?case
  proof (cases "n = 0")
    case True
    then show ?thesis using Suc.prems(2) by simp
  next
    case False
    then have u: "unat n = Suc (unat (n - 1))" by (metis Suc_pred' unat_gt_0 unat_minus_one)
    define i where "i = min k (unat (n - 1))"
    have j: "j = Suc i" using Suc.prems(2) u by (simp add: i_def)
    have d: "disjnt_blk (Suc dst) i (Suc src) i" "dst < src \<or> src + i < dst"
      using Suc.prems(1) by (auto simp: disjnt_blk_def j)
    have "mem_read (m(dst := m src)) (Suc src) i = mem_read m (Suc src) i" using d(2) by (intro mem_read_upd_out) auto
    note r = Suc.IH [OF d(1) i_def, of "m(dst := m src)", unfolded this]
    show ?thesis unfolding j using False by (simp add: r mem_read_Suc mem_write_Cons diff_diff_eq) (simp add: fun_upd_def)
  qed
qed

section \<open>Writing any bytes\<close>

lemma unat_u32_bound:
  assumes "hal_ok H chip fsize" "n \<le> fsize"
  shows "unat (of_nat n :: u32) = n" "(of_nat n :: u32) = 0 \<longleftrightarrow> n = 0"
proof -
  have n: "n < 2 ^ 32" using assms by (simp add: hal_ok_def nor_flash_def)
  then show "unat (of_nat n :: u32) = n" by (intro unat_of_nat_small) simp
  show "(of_nat n :: u32) = 0 \<longleftrightarrow> n = 0" using of_nat_zero_u32 [OF n] by (auto simp: word_gt_0)
qed

text \<open>A word of the chip is read to \<^verbatim>\<open>tmpdata\<close>, patched, and written back.\<close>

lemma patch_word:
  assumes "hal_ok H chip fsize" "a + 4 \<le> fsize" "r + length bs \<le> 4"
    "m1 = mem_write (mem_write m tmp (mem_read (chip f) a 4)) (tmp + r) bs"
  shows "chip (fst (platform_s_flash_write H tmp (of_nat a) 4 m1 f)) = nor_write (chip f) (a + r) bs"
    "same_outside m m1 tmp 4"
proof -
  show "chip (fst (platform_s_flash_write H tmp (of_nat a) 4 m1 f)) = nor_write (chip f) (a + r) bs"
    using s_flash_write_ok(1) [OF assms(1,2), of tmp m1 f] nor_write_around [OF assms(3), of "chip f" a m tmp] assms(4) by simp
  show "same_outside m m1 tmp 4" using assms(3,4) by (auto simp: same_outside_def mem_write_def)
qed

lemma write_from_aligned_ok:
  assumes "hal_ok H chip fsize" "a mod 4 = 0" "a + n \<le> fsize" "disjnt_blk src n tmp 4"
    "write_from_aligned H tmp src (of_nat a) (of_nat n) m f = (m', f')"
  shows "chip f' = nor_write (chip f) a (mem_read m src n)" "same_outside m m' tmp 4"
proof -
  define t where "t = 4 * (n div 4)"
  define r where "r = n mod 4"
  have n: "n = t + r" "r < 4" by (simp_all add: t_def r_def)
  have fs: "fsize mod 4 = 0" using assms(1) by (simp add: hal_ok_def)
  have an: "(of_nat n :: u32) AND 3 = of_nat r" "(of_nat n :: u32) AND NOT 3 = of_nat t"
    by (simp_all only: of_nat_and_3 of_nat_and_not_3 r_def t_def)
  have "r \<le> fsize" "t \<le> fsize" "n \<le> fsize" using assms(3) n(1) by linarith+
  then have u: "unat (of_nat r :: u32) = r" "unat (of_nat t :: u32) = t" "(of_nat r :: u32) = 0 \<longleftrightarrow> r = 0"
      "(of_nat t :: u32) = 0 \<longleftrightarrow> t = 0" "unat (of_nat n :: u32) = n"
    using unat_u32_bound [OF assms(1)] by blast+
  define f1 where "f1 = (if t \<noteq> 0 then fst (platform_s_flash_write H src (of_nat a) (of_nat t) m f) else f)"
  have c1: "chip f1 = nor_write (chip f) a (mem_read m src t)"
    using s_flash_write_ok(1) [OF assms(1), of a t src m f] assms(3) n(1) by (simp add: f1_def)
  define m1 where "m1 = mem_write m tmp (mem_read (chip f1) (a + t) 4)"
  define m2 where "m2 = fst (copy_bytes (fst (platform_s_flash_read H tmp (of_nat (a + t)) 4 m f1)) tmp (src + t) r (of_nat n))"
  have w: "write_from_aligned H tmp src (of_nat a) (of_nat n) m f =
      (if r \<noteq> 0 then (m2, fst (platform_s_flash_write H tmp (of_nat (a + t)) 4 m2 f1)) else (m, f1))"
    by (simp only: write_from_aligned_def Let_def an u m2_def f1_def of_nat_add)
  have split: "mem_read m src n = mem_read m src t @ mem_read m (src + t) r" by (simp add: n(1) mem_read_add)
  show "chip f' = nor_write (chip f) a (mem_read m src n)" "same_outside m m' tmp 4"
  proof (atomize(full), cases "r = 0")
    case True
    then have "(m', f') = (m, f1)" using assms(5) w by simp
    then show "chip f' = nor_write (chip f) a (mem_read m src n) \<and> same_outside m m' tmp 4" using c1 True n(1) by simp
  next
    case False
    have b: "a + t + 4 \<le> fsize" using assms(2,3) fs n False unfolding t_def r_def by presburger
    have rd: "platform_s_flash_read H tmp (of_nat (a + t)) 4 m f1 = (m1, 4)"
      using s_flash_read_ok [OF assms(1) b, of tmp m f1] by (simp add: m1_def)
    have "disjnt_blk tmp r (src + t) r" using assms(4) n by (auto simp: disjnt_blk_def)
    then have "m2 = mem_write m1 tmp (mem_read m1 (src + t) r)"
      using copy_bytes_ok [of tmp r "src + t" r "of_nat n" m1] u(5) n(1) rd by (simp add: m2_def)
    moreover have "mem_read m1 (src + t) r = mem_read m (src + t) r"
      unfolding m1_def by (rule mem_read_write_disjnt) (use assms(4) n in \<open>auto simp: disjnt_blk_def\<close>)
    ultimately have "m2 = mem_write m1 (tmp + 0) (mem_read m (src + t) r)" by simp
    note pw = patch_word [OF assms(1) b _ this [unfolded m1_def]]
    have "(m', f') = (m2, fst (platform_s_flash_write H tmp (of_nat (a + t)) 4 m2 f1))" using assms(5) False w by auto
    then show "chip f' = nor_write (chip f) a (mem_read m src n) \<and> same_outside m m' tmp 4"
      using pw n(2) c1 nor_write_append [of "chip f" a "mem_read m src t" "mem_read m (src + t) r"] by (simp add: split)
  qed
qed

lemma platform_flash_write_ok:
  assumes "hal_ok H chip fsize" "a + n \<le> fsize" "disjnt_blk src n tmp 4"
    "platform_flash_write H tmp src (of_nat a) (of_nat n) m f = (m', f', ret)"
  shows "chip f' = nor_write (chip f) a (mem_read m src n)" "same_outside m m' tmp 4" "ret = of_nat n"
proof -
  define t where "t = 4 * (a div 4)"
  define r where "r = a mod 4"
  have a: "a = t + r" "r < 4" "t mod 4 = 0" by (simp_all add: t_def r_def)
  have fs: "fsize mod 4 = 0" using assms(1) by (simp add: hal_ok_def)
  have an: "(of_nat a :: u32) AND 3 = of_nat r" "(of_nat a :: u32) AND NOT 3 = of_nat t"
    by (simp_all only: of_nat_and_3 of_nat_and_not_3 r_def t_def)
  have "r \<le> fsize" "n \<le> fsize" using assms(2) a(1) by linarith+
  then have u: "unat (of_nat r :: u32) = r" "(of_nat r :: u32) = 0 \<longleftrightarrow> r = 0" "unat (of_nat n :: u32) = n"
    using unat_u32_bound [OF assms(1)] by blast+
  show "ret = of_nat n" using assms(4) by (auto simp: platform_flash_write_def Let_def split: if_splits prod.splits)
  show "chip f' = nor_write (chip f) a (mem_read m src n)" "same_outside m m' tmp 4"
  proof (atomize(full), cases "r = 0")
    case True
    then have "write_from_aligned H tmp src (of_nat a) (of_nat n) m f = (m', f')"
      using assms(4) an u by (simp add: platform_flash_write_def split: prod.splits)
    then show "chip f' = nor_write (chip f) a (mem_read m src n) \<and> same_outside m m' tmp 4"
      using write_from_aligned_ok [OF assms(1) _ assms(2,3)] True by (simp add: r_def)
  next
    case False
    define j where "j = min (4 - r) n"
    define m1 where "m1 = mem_write m tmp (mem_read (chip f) t 4)"
    define m2 where "m2 = mem_write m1 (tmp + r) (mem_read m src j)"
    define f1 where "f1 = fst (platform_s_flash_write H tmp (of_nat t) 4 m2 f)"
    have b: "t + 4 \<le> fsize" using assms(2) fs False unfolding t_def r_def by presburger
    have rd: "platform_s_flash_read H tmp (of_nat t) 4 m f = (m1, 4)"
      using s_flash_read_ok [OF assms(1) b, of tmp m f] by (simp add: m1_def)
    have d: "disjnt_blk (src + j) (n - j) tmp 4" "disjnt_blk src j tmp 4" "disjnt_blk (tmp + r) j src j"
      using assms(3) a(2) by (auto simp: disjnt_blk_def j_def)
    have "mem_read m1 src j = mem_read m src j" unfolding m1_def by (rule mem_read_write_disjnt) (use d(2) in simp)
    moreover have "copy_bytes m1 (tmp + r) src (4 - r) (of_nat n) =
        (mem_write m1 (tmp + r) (mem_read m1 src j), tmp + r + j, src + j, of_nat n - of_nat j)"
      by (rule copy_bytes_ok [OF d(3)]) (simp add: j_def u(3))
    ultimately have cp: "copy_bytes m1 (tmp + r) src (4 - r) (of_nat n) = (m2, tmp + r + j, src + j, of_nat (n - j))"
      by (simp add: m2_def j_def of_nat_diff)
    have "r + length (mem_read m src j) \<le> 4" using a(2) by (simp add: j_def)
    note pw = patch_word [OF assms(1) b this m2_def [unfolded m1_def], folded f1_def]
    have z: "(of_nat (n - j) :: u32) = 0 \<longleftrightarrow> j = n"
      using unat_u32_bound(2) [OF assms(1), of "n - j"] assms(2) by (simp add: j_def) linarith
    have pf: "platform_flash_write H tmp src (of_nat a) (of_nat n) m f =
        (if j = n then (m2, f1, of_nat n)
         else case write_from_aligned H tmp (src + j) (of_nat t + 4) (of_nat (n - j)) m2 f1 of (m3, f2) \<Rightarrow> (m3, f2, of_nat n))"
      using False by (simp only: platform_flash_write_def Let_def an u rd cp z f1_def fst_conv prod.case if_True not_False_eq_True)
    show "chip f' = nor_write (chip f) a (mem_read m src n) \<and> same_outside m m' tmp 4"
    proof (cases "j = n")
      case True
      then show ?thesis using pf assms(4) pw a(1) by simp
    next
      case ne: False
      then have j: "j = 4 - r" "j < n" by (auto simp: j_def)
      then have "write_from_aligned H tmp (src + j) (of_nat (t + 4)) (of_nat (n - j)) m2 f1 = (m', f')"
        using pf assms(4) ne by (simp split: prod.splits)
      note wa = write_from_aligned_ok [OF assms(1) _ _ d(1) this]
      have "mem_read m2 (src + j) (n - j) = mem_read m (src + j) (n - j)"
        by (rule same_outside_read [OF pw(2) d(1)])
      moreover have "mem_read m src n = mem_read m src j @ mem_read m (src + j) (n - j)"
        using mem_read_add [of m src j "n - j"] j(2) by simp
      ultimately show ?thesis
        using wa a j assms(2) pw nor_write_append [of "chip f" a "mem_read m src j"] same_outside_trans [OF pw(2)] by simp
    qed
  qed
qed
section \<open>Reading any bytes\<close>

lemma read_of_written:
  assumes "q + r \<le> n"
  shows "mem_read (mem_write m t (mem_read c b n)) (t + q) r = mem_read c (b + q) r"
  by (rule nth_equalityI) (use assms in \<open>auto simp: mem_write_def add.assoc\<close>)

text \<open>A word of the chip is read to \<^verbatim>\<open>tmpdata\<close> and a part of it copied behind what has been read already.\<close>

lemma copy_part:
  assumes "q + r \<le> 4" "same_outside (mem_write m dst A) m1 tmp 4"
    "m2 = mem_write (mem_write m1 tmp (mem_read c b 4)) (dst + length A) (mem_read c (b + q) r)"
  shows "same_outside (mem_write m dst (A @ mem_read c (b + q) r)) m2 tmp 4"
  using assms unfolding mem_write_append by (auto simp: same_outside_def mem_write_def)

lemma read_from_aligned_ok:
  assumes "hal_ok H chip fsize" "a mod 4 = 0" "a + n \<le> fsize" "disjnt_blk dst n tmp 4"
  shows "same_outside (mem_write m dst (mem_read (chip f) a n)) (read_from_aligned H tmp dst (of_nat a) (of_nat n) m f) tmp 4"
proof -
  define t where "t = 4 * (n div 4)"
  define r where "r = n mod 4"
  have n: "n = t + r" "r < 4" by (simp_all add: t_def r_def)
  have fs: "fsize mod 4 = 0" using assms(1) by (simp add: hal_ok_def)
  have an: "(of_nat n :: u32) AND 3 = of_nat r" "(of_nat n :: u32) AND NOT 3 = of_nat t"
    by (simp_all only: of_nat_and_3 of_nat_and_not_3 r_def t_def)
  have "r \<le> fsize" "t \<le> fsize" "n \<le> fsize" using assms(3) n(1) by linarith+
  then have u: "unat (of_nat r :: u32) = r" "unat (of_nat t :: u32) = t" "(of_nat r :: u32) = 0 \<longleftrightarrow> r = 0"
      "(of_nat t :: u32) = 0 \<longleftrightarrow> t = 0" "unat (of_nat n :: u32) = n"
    using unat_u32_bound [OF assms(1)] by blast+
  define m1 where "m1 = (if t \<noteq> 0 then fst (platform_s_flash_read H dst (of_nat a) (of_nat t) m f) else m)"
  have m1: "m1 = mem_write m dst (mem_read (chip f) a t)"
  proof (cases "t = 0")
    case False
    then have "4 \<le> t" by (simp add: t_def)
    then show ?thesis using s_flash_read_ok [OF assms(1), of a t dst m f] assms(3) n(1) False by (simp add: m1_def)
  qed (simp add: m1_def)
  have w: "read_from_aligned H tmp dst (of_nat a) (of_nat n) m f =
      (if r \<noteq> 0 then fst (copy_bytes (fst (platform_s_flash_read H tmp (of_nat (a + t)) 4 m1 f)) (dst + t) tmp r (of_nat n)) else m1)"
    by (simp only: read_from_aligned_def Let_def an u m1_def of_nat_add)
  show ?thesis
  proof (cases "r = 0")
    case True
    then show ?thesis using w m1 n(1) by simp
  next
    case False
    have b: "a + t + 4 \<le> fsize" using assms(2,3) fs n False unfolding t_def r_def by presburger
    define m2 where "m2 = mem_write m1 tmp (mem_read (chip f) (a + t) 4)"
    have rd: "platform_s_flash_read H tmp (of_nat (a + t)) 4 m1 f = (m2, 4)"
      using s_flash_read_ok [OF assms(1) b, of tmp m1 f] by (simp add: m2_def)
    have "disjnt_blk (dst + t) r tmp r" using assms(4) n by (auto simp: disjnt_blk_def)
    then have "fst (copy_bytes m2 (dst + t) tmp r (of_nat n)) = mem_write m2 (dst + t) (mem_read (chip f) (a + t) r)"
      using copy_bytes_ok [of "dst + t" r tmp r "of_nat n" m2] u(5) n read_of_written [of 0 r 4 m1 tmp "chip f" "a + t"]
      by (simp add: m2_def)
    then show ?thesis
      using copy_part [of 0 r m dst "mem_read (chip f) a t" m1 tmp _ "chip f" "a + t", OF _ _ refl] w rd False n m1
      by (simp add: m2_def mem_read_add)
  qed
qed

lemma platform_flash_read_ok:
  assumes "hal_ok H chip fsize" "a + n \<le> fsize" "disjnt_blk dst n tmp 4"
    "platform_flash_read H tmp dst (of_nat a) (of_nat n) m f = (m', ret)"
  shows "same_outside (mem_write m dst (mem_read (chip f) a n)) m' tmp 4" "ret = of_nat n"
proof -
  define t where "t = 4 * (a div 4)"
  define r where "r = a mod 4"
  have a: "a = t + r" "r < 4" "t mod 4 = 0" by (simp_all add: t_def r_def)
  have fs: "fsize mod 4 = 0" using assms(1) by (simp add: hal_ok_def)
  have an: "(of_nat a :: u32) AND 3 = of_nat r" "(of_nat a :: u32) AND NOT 3 = of_nat t"
    by (simp_all only: of_nat_and_3 of_nat_and_not_3 r_def t_def)
  have "r \<le> fsize" "n \<le> fsize" using assms(2) a(1) by linarith+
  then have u: "unat (of_nat r :: u32) = r" "(of_nat r :: u32) = 0 \<longleftrightarrow> r = 0" "unat (of_nat n :: u32) = n"
    using unat_u32_bound [OF assms(1)] by blast+
  show "ret = of_nat n" using assms(4) by (auto simp: platform_flash_read_def Let_def split: if_splits prod.splits)
  show "same_outside (mem_write m dst (mem_read (chip f) a n)) m' tmp 4"
  proof (cases "r = 0")
    case True
    then have "read_from_aligned H tmp dst (of_nat a) (of_nat n) m f = m'"
      using assms(4) an u by (auto simp: platform_flash_read_def)
    then show ?thesis using read_from_aligned_ok [OF assms(1) _ assms(2,3)] True by (auto simp: r_def)
  next
    case False
    define j where "j = min (4 - r) n"
    define m1 where "m1 = mem_write m tmp (mem_read (chip f) t 4)"
    define m2 where "m2 = mem_write m1 dst (mem_read (chip f) a j)"
    have b: "t + 4 \<le> fsize" using assms(2) fs False unfolding t_def r_def by presburger
    have rd: "platform_s_flash_read H tmp (of_nat t) 4 m f = (m1, 4)"
      using s_flash_read_ok [OF assms(1) b, of tmp m f] by (simp add: m1_def)
    have d: "disjnt_blk (dst + j) (n - j) tmp 4" "disjnt_blk dst j (tmp + r) j"
      using assms(3) a(2) by (auto simp: disjnt_blk_def j_def)
    have jr: "r + j \<le> 4" using a(2) by (simp add: j_def)
    have "copy_bytes m1 dst (tmp + r) (4 - r) (of_nat n) =
        (mem_write m1 dst (mem_read m1 (tmp + r) j), dst + j, tmp + r + j, of_nat n - of_nat j)"
      by (rule copy_bytes_ok [OF d(2)]) (simp add: j_def u(3))
    then have cp: "copy_bytes m1 dst (tmp + r) (4 - r) (of_nat n) = (m2, dst + j, tmp + r + j, of_nat (n - j))"
      using read_of_written [OF jr, of m tmp "chip f" t] a(1) by (simp add: m1_def m2_def j_def of_nat_diff)
    have so: "same_outside (mem_write m dst (mem_read (chip f) a j)) m2 tmp 4"
      using copy_part [OF jr, of m dst "[]" m tmp m2 "chip f" t] a(1) by (simp add: m2_def m1_def)
    have z: "(of_nat (n - j) :: u32) = 0 \<longleftrightarrow> j = n"
      using unat_u32_bound(2) [OF assms(1), of "n - j"] assms(2) by (simp add: j_def) linarith
    have pf: "platform_flash_read H tmp dst (of_nat a) (of_nat n) m f =
        (if j = n then (m2, of_nat n) else (read_from_aligned H tmp (dst + j) (of_nat t + 4) (of_nat (n - j)) m2 f, of_nat n))"
      using False by (simp only: platform_flash_read_def Let_def an u rd cp z fst_conv prod.case if_True not_False_eq_True)
    show ?thesis
    proof (cases "j = n")
      case True
      then show ?thesis using pf assms(4) so by simp
    next
      case ne: False
      then have j: "j = 4 - r" "j < n" by (auto simp: j_def)
      have m': "m' = read_from_aligned H tmp (dst + j) (of_nat (t + 4)) (of_nat (n - j)) m2 f" using pf assms(4) ne by simp
      have "same_outside (mem_write m2 (dst + j) (mem_read (chip f) (t + 4) (n - j))) m' tmp 4"
        unfolding m' by (rule read_from_aligned_ok [OF assms(1) _ _ d(1)]) (use a j assms(2) in simp_all)
      moreover have "mem_read (chip f) a n = mem_read (chip f) a j @ mem_read (chip f) (t + 4) (n - j)"
        using mem_read_add [of "chip f" a j "n - j"] j a by simp
      ultimately show ?thesis using so unfolding same_outside_def by (simp add: mem_write_append) (auto simp: mem_write_def)
    qed
  qed
qed
section \<open>Erasing\<close>

lemma erase_range_ok:
  assumes "nor_flash (hal_spi H) chip fsize" "\<And>k f. hal_erase_ok H k f" "4096 * s \<le> fsize" "4096 * (l + 1) \<le> fsize" "l < 65535"
  shows "\<exists>f'. erase_range H (of_nat s) (of_nat l) f = Some (f', True) \<and>
    (\<forall>i. chip f' i = (if 4096 * s \<le> i \<and> i < 4096 * (l + 1) then 0xFF else chip f i))"
  using assms(3)
proof (induction "l + 1 - s" arbitrary: s f)
  case 0
  have "s < 2 ^ 32" using 0(2) assms(1) by (simp add: nor_flash_def)
  then have "unat (of_nat s :: u32) = s" "unat (of_nat l :: u32) = l" using assms(5) by (intro unat_of_nat_small; simp)+
  then have "\<not> (of_nat s :: u32) \<le> of_nat l" using 0(1) by (simp add: word_le_nat_alt)
  then show ?case using 0(1) by (subst erase_range.simps) auto
next
  case (Suc d)
  have sl: "s \<le> l" using Suc.hyps(2) by simp
  have "unat (of_nat s :: u32) = s" "unat (of_nat l :: u32) = l" using assms(5) sl by (intro unat_of_nat_small; simp)+
  then have le: "(of_nat s :: u32) \<le> of_nat l" using sl by (simp add: word_le_nat_alt)
  define f1 where "f1 = SPIEraseSector (hal_spi H) (of_nat s) f"
  have "take_bit 32 s = s" "take_bit 16 s = s" using assms(5) sl by (intro take_bit_nat_eq_self; simp)+
  then have s16: "(ucast (ucast (of_nat s :: u32) :: u16) :: u32) = of_nat s" by (simp add: unsigned_of_nat)
  have c1: "chip f1 i = (if i div 4096 = s then 0xFF else chip f i)" for i
    unfolding f1_def by (rule flash_erase [OF assms(1)]) (use assms(4) sl in simp)
  have "d = l + 1 - Suc s" "4096 * Suc s \<le> fsize" using Suc.hyps(2) assms(4) sl by simp_all
  then obtain f' where f': "erase_range H (of_nat (Suc s)) (of_nat l) f1 = Some (f', True)"
    "\<And>i. chip f' i = (if 4096 * Suc s \<le> i \<and> i < 4096 * (l + 1) then 0xFF else chip f1 i)"
    using Suc.hyps(1) [of "Suc s" f1] by blast
  have "erase_range H (of_nat s) (of_nat l) f = Some (f', True)"
    using le f'(1) assms(2) by (subst erase_range.simps) (simp add: platform_flash_erase_sector_def s16 f1_def add.commute)
  moreover have "chip f' i = (if 4096 * s \<le> i \<and> i < 4096 * (l + 1) then 0xFF else chip f i)" for i
  proof -
    have "i div 4096 = s \<longleftrightarrow> 4096 * s \<le> i \<and> i < 4096 * Suc s" by auto
    then show ?thesis using f'(2) [of i] c1 [of i] sl by auto
  qed
  ultimately show ?case by blast
qed

lemma sector_of_nat:
  assumes "a < 2 ^ 32"
  shows "platform_flash_get_sector_of_address (of_nat a) = of_nat (a div 4096)"
proof -
  have "unat (of_nat a :: u32) = a" by (rule unat_of_nat_small) (use assms in simp)
  then have "unat ((of_nat a :: u32) div SECTOR_SIZE) = a div 4096" by (simp add: unat_div_distrib)
  then have "(of_nat (unat ((of_nat a :: u32) div SECTOR_SIZE)) :: u32) = of_nat (a div 4096)" by (simp only:)
  then show ?thesis by (simp add: platform_flash_get_sector_of_address_def flashh_find_sector_def Let_def)
qed

text \<open>The hook with which the file system erases a block: it erases the sector of the address, whatever the length.\<close>

lemma my_spiffs_erase_sector:
  assumes "nor_flash (hal_spi H) chip fsize" "\<And>k f. hal_erase_ok H k f" "4096 * (a div 4096 + 1) \<le> fsize" "a div 4096 < 65535"
  shows "\<exists>f'. my_spiffs_erase H (of_nat a) n f = Some (f', SPIFFS_OK) \<and>
    (\<forall>i. chip f' i = (if i div 4096 = a div 4096 then 0xFF else chip f i))"
proof -
  have "a < 4096 + 4096 * (a div 4096)" by (rule dividend_less_times_div) simp
  then have "a < 2 ^ 32" using assms(1,3) by (simp add: nor_flash_def)
  then have "platform_flash_get_sector_of_address (of_nat a) = of_nat (a div 4096)" by (rule sector_of_nat)
  moreover have "4096 * (a div 4096) \<le> fsize" using assms(3) by simp
  ultimately obtain f' where "my_spiffs_erase H (of_nat a) n f = Some (f', SPIFFS_OK)"
    "\<And>i. chip f' i = (if 4096 * (a div 4096) \<le> i \<and> i < 4096 * (a div 4096 + 1) then 0xFF else chip f i)"
    using erase_range_ok [OF assms(1,2) _ assms(3,4), of "a div 4096" f] by (auto simp: my_spiffs_erase_def)
  moreover have "i div 4096 = k \<longleftrightarrow> 4096 * k \<le> i \<and> i < 4096 * (k + 1)" for i k :: nat by auto
  ultimately show ?thesis by simp
qed

section \<open>Properties\<close>


definition sim_hal :: "mem hal" where
  "sim_hal = \<lparr>hal_spi = sim_spi, hal_erase_ok = (\<lambda>k f. True), hal_malloc = (\<lambda>n. True), hal_back = replicate 4 0\<rparr>"

lemma sim_hal_ok: "fsize < 2 ^ 32 \<Longrightarrow> fsize mod 4 = 0 \<Longrightarrow> hal_ok sim_hal (\<lambda>f. f) fsize"
  by (simp add: hal_ok_def sim_hal_def sim_spi_flash)


text \<open>
  Formatting a file system erases its area and nothing else: if the chip erases, \<^verbatim>\<open>myspiffs_format\<close> returns 1 with every
  byte of the area of the chosen file system set to ones when the file system is mounted again, and every other
  byte of the chip, in particular the boot loader, its configuration, all images and the other file system, as it was
  after unmounting.
\<close>

theorem myspiffs_format_erases:
  assumes "nor_flash (hal_spi H) chip 0x400000" "\<And>k f. hal_erase_ok H k f" "fs_location t = (loc, n)"
  shows "\<exists>f'. myspiffs_format H unmount mount t f = Some (mount t f', 1) \<and>
    (\<forall>i. chip f' i = (if unat loc \<le> i \<and> i < unat loc + unat n then 0xFF else chip (unmount t f) i))"
proof -
  define s where "s = unat loc div 4096"
  define l where "l = s + unat n div 4096 - 1"
  have v: "loc = of_nat (4096 * s) \<and> unat loc = 4096 * s \<and> unat loc + unat n = 4096 * (l + 1) \<and> 4096 * (l + 1) \<le> 0x400000 \<and>
      platform_flash_get_sector_of_address loc = of_nat s \<and>
      platform_flash_get_sector_of_address loc + platform_flash_get_sector_of_address n - 1 = of_nat l"
    using assms(3) by (cases t)
      (auto simp: fs_location_def s_def l_def platform_flash_get_sector_of_address_def flashh_find_sector_def)
  then have "4096 * s \<le> 0x400000" "4096 * (l + 1) \<le> 0x400000" "l < 65535" using assms(3) by (auto simp: l_def)
  from erase_range_ok [OF assms(1,2) this, of "unmount t f"] v assms(3) show ?thesis
    by (auto simp: myspiffs_format_def)
qed

theorem myspiffs_format_erases_witness:
  "\<exists>f'. myspiffs_format sim_hal (\<lambda>t f. f) (\<lambda>t f. f) statfs (\<lambda>_. 0) = Some (f', 1) \<and>
    f' 0x301FFF = 0 \<and> f' 0x302000 = 0xFF \<and> f' 0x311FFF = 0xFF \<and> f' 0x312000 = 0"
proof -
  have "nor_flash (hal_spi sim_hal) (\<lambda>f. f) 0x400000" by (simp add: sim_hal_def sim_spi_flash)
  from myspiffs_format_erases [OF this, of statfs "0x302000" "0x10000" "\<lambda>t f. f" "\<lambda>t f. f" "\<lambda>_. 0"]
  show ?thesis by (auto simp: sim_hal_def fs_location_def)
qed

text \<open>The results of the word accesses are not looked at: a write for which there is no memory is reported as done.\<close>

lemma flash_write_lost:
  assumes "\<And>n. \<not> hal_malloc H n" "src mod 4 \<noteq> 0" "toaddr AND 3 = 0" "n AND 3 = 0"
  shows "platform_flash_write H tmp src toaddr n m f = (m, f, n)"
  using assms by (simp add: platform_flash_write_def write_from_aligned_def platform_s_flash_write_def Let_def)

end
