(* ===== verification/Rboot_Bigflash.thy ===== *)
theory Rboot_Bigflash
  imports Esptool2_Boot Flash_Access
begin

text \<open>
  Mapping of the flash for an application, \<^verbatim>\<open>app_common/rboot/rboot-bigflash.c\<close>. The processor sees one megabyte
  of the flash at 0x40200000; \<^verbatim>\<open>Cache_Read_Enable_New\<close> replaces a function of the SDK and selects the megabyte of the
  image in use, which it takes from the boot configuration at the first call and keeps in two variables. The function
  \<^verbatim>\<open>Cache_Read_Enable\<close> of the boot ROM is a parameter, a function on the contents of the cache control register.
  (\<^verbatim>\<open>BOOT_BIG_FLASH\<close> is defined in \<^verbatim>\<open>rboot.h\<close>, \<^verbatim>\<open>BOOT_RTC_ENABLED\<close> is not.)
\<close>

record mmap =
  rBoot_mmap_1 :: u8
  rBoot_mmap_2 :: u8

definition mmap_init :: mmap where
  "mmap_init = \<lparr>rBoot_mmap_1 = 0xff, rBoot_mmap_2 = 0xff\<rparr>"

type_synonym cache_rom = "u32 \<Rightarrow> u32 \<Rightarrow> u32 \<Rightarrow> u32 \<Rightarrow> u32"

text \<open>\<open>None\<close>: the index \<^verbatim>\<open>current_rom\<close> is outside the array \<^verbatim>\<open>roms\<close>. \<open>junk_conf\<close> is the uninitialised struct.\<close>

definition Cache_Read_Enable_New :: "'f spi \<Rightarrow> api_env \<Rightarrow> cache_rom \<Rightarrow> 'f \<Rightarrow> mmap \<Rightarrow> u32 \<Rightarrow> (mmap \<times> u32) option" where
  "Cache_Read_Enable_New S e Cache_Read_Enable f mm reg =
     map_option (\<lambda>mm1. (mm1, Cache_Read_Enable (ucast (rBoot_mmap_1 mm1)) (ucast (rBoot_mmap_2 mm1)) 1 reg))
       (if rBoot_mmap_1 mm = 0xff then
          let conf = fill (SPIRead S (BOOT_CONFIG_SECTOR * SECTOR_SIZE) 28 f) (junk_conf e) in
          if unat (conf ! CURRENT_ROM) < 4 then
            let val = rom_addr conf (uint (conf ! CURRENT_ROM)) div 0x100000
            in Some (mm\<lparr>rBoot_mmap_2 := ucast (val div 2), rBoot_mmap_1 := ucast (val mod 2)\<rparr>)
          else None
        else Some mm)"

text \<open>
  What is documented of the ROM function: it turns the cache on, its first argument selects the odd or the even
  megabyte and its second one the upper or the lower two megabytes.
\<close>

definition cache_rom_ok :: "cache_rom \<Rightarrow> bool" where
  "cache_rom_ok R \<longleftrightarrow> (\<forall>b0\<in>{0, 1}. \<forall>b1\<in>{0, 1}. \<forall>reg.
     R b0 b1 1 reg AND 0x00000100 \<noteq> 0 \<and>
     (R b0 b1 1 reg AND 0x02000000 \<noteq> 0 \<longleftrightarrow> b0 = 1) \<and>
     (R b0 b1 1 reg AND 0x00010000 \<noteq> 0 \<longleftrightarrow> b1 = 1))"

lemma u32_below_four:
  assumes "unat (v :: u32) < 4"
  shows "v \<in> {0, 1, 2, 3}"
  using assms by (simp add: word_unat_eq_iff) linarith

lemma mapped_megabyte:
  assumes "cache_rom_ok R" "unat (v :: u32) < 4"
  shows "platform_flash_mapped2phys (R (ucast (ucast (v mod 2) :: u8)) (ucast (ucast (v div 2) :: u8)) 1 reg)
    (INTERNAL_FLASH_MAPPED_ADDRESS + off) = v * 0x100000 + off"
proof -
  have R: "R b0 b1 1 reg AND 0x00000100 \<noteq> 0" "(R b0 b1 1 reg AND 0x02000000 \<noteq> 0) = (b0 = 1)"
    "(R b0 b1 1 reg AND 0x00010000 \<noteq> 0) = (b1 = 1)" if "b0 \<in> {0, 1}" "b1 \<in> {0, 1}" for b0 b1
    using assms(1) that by (auto simp: cache_rom_ok_def)
  have m: "v = push_bit 1 (v div 2) OR (v mod 2)" "v mod 2 \<in> {0, 1}" "v div 2 \<in> {0, 1}"
    "ucast (ucast (v mod 2) :: u8) = v mod 2" "ucast (ucast (v div 2) :: u8) = v div 2"
    using u32_below_four [OF assms(2)] by auto
  have "(if v mod 2 = 1 then 1 else 0) = v mod 2" "(if v div 2 = 1 then 1 else 0) = v div 2" using m(2,3) by auto
  then show ?thesis
    unfolding platform_flash_mapped2phys_def Let_def m(4,5) R(2,3) [OF m(2,3)] using R(1) [OF m(2,3)] m(1) by simp
qed

section \<open>The image that was booted is the image that is mapped\<close>

lemma mapping_follows_config:
  assumes "nor_flash S chip fsize" "0x2000 \<le> fsize" "length (junk_conf e) = 28"
    "\<not> config_bad (mem_read (chip f) 0x1000 0x1000)" "unat (boot_config (chip f) ! CURRENT_ROM) = i" "i < 4"
    "val = rom_addr (boot_config (chip f)) (int i) div 0x100000"
  shows "Cache_Read_Enable_New S e R f mmap_init reg =
    Some (\<lparr>rBoot_mmap_1 = ucast (val mod 2), rBoot_mmap_2 = ucast (val div 2)\<rparr>,
      R (ucast (ucast (val mod 2) :: u8)) (ucast (ucast (val div 2) :: u8)) 1 reg)"
proof -
  define conf where "conf = mem_read (chip f) 0x1000 28"
  have b: "boot_config (chip f) = mem_read (chip f) 0x1000 0x1000" using assms(4) by (simp add: boot_config_def)
  have n: "boot_config (chip f) ! k = conf ! k" if "k < 28" for k using that by (simp add: b conf_def)
  have c: "unat (conf ! CURRENT_ROM) = i" using n [of CURRENT_ROM] assms(5) by simp
  have u: "uint (conf ! CURRENT_ROM) = int i" by (simp add: c [symmetric])
  have "rom_addr conf (int i) = rom_addr (boot_config (chip f)) (int i)"
    by (rule rom_addr_cong [OF _ assms(6)]) (simp add: n)
  moreover have "fill (SPIRead S (BOOT_CONFIG_SECTOR * SECTOR_SIZE) 28 f) (junk_conf e) = conf"
    using get_config_read [OF assms(1-3), of f] by (simp add: rboot_get_config_def conf_def)
  ultimately show ?thesis
    using assms(6,7) c u unfolding Cache_Read_Enable_New_def by (simp add: mmap_init_def Let_def)
qed

text \<open>
  C29. Boot loader and application agree on the image: when \<^verbatim>\<open>find_image\<close> boots an image, be it the configured one, a
  replacement for a bad one or one of the default configuration, then \<^verbatim>\<open>Cache_Read_Enable_New\<close> in the application, at its
  first call, maps exactly the megabyte that holds this image, so that \<^verbatim>\<open>platform_flash_mapped2phys\<close> translates every
  address of the window to the byte of that megabyte; and every later call maps the same megabyte again, whatever
  has become of the configuration.
\<close>

theorem booted_image_is_mapped:
  assumes "nor_flash S chip fsize" "0x2000 \<le> fsize" "length junk = 4096" "length (junk_conf e) = 28"
    "cfg = boot_config (chip f)" "n = unat (cfg ! ROM_COUNT)" "0 < n" "n \<le> 4"
    "\<forall>i<n. unat (rom_addr cfg (int i)) < 0x400000" "cache_rom_ok R"
    "find_image S f junk = Some (f', a)" "a \<noteq> 0"
  shows "\<exists>i f1 mm reg'. i < n \<and> a = check_image S f1 (rom_addr cfg (int i)) \<and>
    chip f1 = (if config_bad (mem_read (chip f) 0x1000 0x1000) then mem_write (chip f) 0x1000 cfg else chip f) \<and>
    Cache_Read_Enable_New S e R f' mmap_init reg = Some (mm, reg') \<and>
    (\<forall>off. platform_flash_mapped2phys reg' (INTERNAL_FLASH_MAPPED_ADDRESS + off) =
       rom_addr cfg (int i) div 0x100000 * 0x100000 + off) \<and>
    (\<forall>g reg2. \<exists>reg3. Cache_Read_Enable_New S e R g mm reg2 = Some (mm, reg3) \<and>
       (\<forall>off. platform_flash_mapped2phys reg3 (INTERNAL_FLASH_MAPPED_ADDRESS + off) =
          rom_addr cfg (int i) div 0x100000 * 0x100000 + off))"
proof -
  define cur where "cur = (if unat (cfg ! CURRENT_ROM) < n then unat (cfg ! CURRENT_ROM) else 0)"
  obtain f1 where r: "chip f1 = (if config_bad (mem_read (chip f) 0x1000 0x1000) then mem_write (chip f) 0x1000 cfg else chip f)"
      "case find (\<lambda>i. check_image S f1 (rom_addr cfg (int i)) \<noteq> 0) (boot_order cur n) of
         None \<Rightarrow> a = 0 \<and> f' = f1
       | Some i \<Rightarrow> a = check_image S f1 (rom_addr cfg (int i)) \<and> a \<noteq> 0 \<and>
           unat (boot_config (chip f') ! CURRENT_ROM) = i \<and> \<not> config_bad (mem_read (chip f') 0x1000 0x1000) \<and>
           same_outside (chip f) (chip f') 0x1000 0x1000 \<and>
           (\<forall>k<4. rom_addr (boot_config (chip f')) (int k) = rom_addr cfg (int k))"
    using find_image_outcome [OF assms(1-3,5-7) cur_def] assms(11) by auto
  obtain i where fi: "find (\<lambda>i. check_image S f1 (rom_addr cfg (int i)) \<noteq> 0) (boot_order cur n) = Some i"
    using r(2) assms(12) by (auto split: option.splits)
  note r2 = r(2) [unfolded fi option.case]
  have "cur < n" using assms(7) by (simp add: cur_def)
  then have i: "i < n" using find_boot_order [OF fi] by simp
  then have i4: "i < 4" using assms(8) by simp
  define val where "val = rom_addr cfg (int i) div 0x100000"
  have ra: "rom_addr (boot_config (chip f')) (int i) = rom_addr cfg (int i)" using r2 i4 by blast
  have "unat (rom_addr cfg (int i)) < 0x400000" using assms(9) i by blast
  then have v4: "unat val < 4" by (simp add: val_def unat_div div_less_iff_less_mult)
  note mm = mapped_megabyte [OF assms(10) v4]
  define mm1 where "mm1 = \<lparr>rBoot_mmap_1 = ucast (val mod 2), rBoot_mmap_2 = ucast (val div 2)\<rparr>"
  have first: "Cache_Read_Enable_New S e R f' mmap_init reg = Some (mm1,
      R (ucast (ucast (val mod 2) :: u8)) (ucast (ucast (val div 2) :: u8)) 1 reg)"
    using mapping_follows_config [OF assms(1,2,4), of f' i val] r2 i4 ra by (simp add: val_def mm1_def)
  have "ucast (val mod 2) \<noteq> (0xff :: u8)" using u32_below_four [OF v4] by auto
  then have later: "Cache_Read_Enable_New S e R g mm1 reg2 = Some (mm1,
      R (ucast (ucast (val mod 2) :: u8)) (ucast (ucast (val div 2) :: u8)) 1 reg2)" for g reg2
    by (simp add: Cache_Read_Enable_New_def mm1_def)
  show ?thesis
    by (rule exI [of _ i], rule exI [of _ f1], rule exI [of _ mm1],
        rule exI [of _ "R (ucast (ucast (val mod 2) :: u8)) (ucast (ucast (val div 2) :: u8)) 1 reg"], fold val_def)
       (use i r(1) r2 first later mm in simp)
qed

definition sim_cache :: cache_rom where
  "sim_cache b0 b1 x reg = 0x100 + b0 * 0x02000000 + b1 * 0x00010000"

lemma sim_cache_ok: "cache_rom_ok sim_cache"
  by (simp add: cache_rom_ok_def sim_cache_def)

lemma rconf_roms:
  assumes "stored m 0x1000 (rconf_main k)" "k < 4" "i < 4"
  shows "rom_addr (boot_config m) (int i) = of_nat (ROM_ADDRS ! i)"
proof -
  have l: "length (rconf_main k) = 28" by (simp add: rconf_main_sealed length_testConfig)
  obtain rest where "mem_read m 0x1000 0x1000 = rconf_main k @ rest"
    using mem_read_add [of m "0x1000" 28 "0xFE4"] assms(1) l by (simp add: stored_def)
  then have b: "boot_config m = rconf_main k @ rest" using rconf_sector(1) [OF assms(1,2)] by (simp add: boot_config_def)
  have "rom_addr (boot_config m) (int i) = rom_addr (rconf_main k) (int i)"
    by (rule rom_addr_cong [OF _ assms(3)]) (simp add: b nth_append l)
  then show ?thesis using rconf_rom_addr [of i k] assms(3) by simp
qed

lemma flashed_device_config:
  "stored flashed_device 0x1000 (rconf_main 2)" "stored flashed_device 0x102000 sample_e2_image"
  unfolding stored_def flashed_device_def
  by (simp_all add: mem_simps disjnt_blk_def rconf_main_sealed length_testConfig)

lemma flashed_device_found:
  "find_image sim_spi flashed_device (replicate 4096 0) = Some (flashed_device, 0x102020)"
proof -
  have fl: "nor_flash sim_spi (\<lambda>f. f) 0x400000" by (rule sim_spi_flash) simp
  note rs = rconf_sector [OF flashed_device_config(1)]
  have "check_image sim_spi flashed_device (of_nat 0x102000) = of_nat (0x102000 + 16 + length (pad_to 16 [1, 2, 3 :: u8]))"
    by (rule e2_image_boots(1) [OF fl, of "0x102000" "[(0x40100000, [5, 6])]" flashed_device 0 "0x4F" "0x40100004" "[1, 2, 3]"])
       (use flashed_device_config(2) sample_built sample_e2_length in \<open>simp_all add: built_image_def sample_opts_def no_opts_def loaded_elf_def\<close>)
  then have ci: "check_image sim_spi flashed_device 0x102000 = 0x102020" by (simp add: pad_to_def)
  have "pick_rom sim_spi flashed_device (boot_config flashed_device) = Some (flashed_device, 0x102020)"
    using pick_current [of "boot_config flashed_device" sim_spi flashed_device] rs ci boot_config_good(2) [of flashed_device] by simp
  then show ?thesis using find_image_pick [OF fl, of "replicate 4096 0" flashed_device] rs(1) by simp
qed

theorem booted_image_is_mapped_witness:
  "\<exists>i mm reg'. i < 4 \<and>
    Cache_Read_Enable_New sim_spi calm_env sim_cache flashed_device mmap_init 0 = Some (mm, reg') \<and>
    platform_flash_mapped2phys reg' 0x40202010 = of_nat (ROM_ADDRS ! i) div 0x100000 * 0x100000 + 0x2010"
proof -
  have fl: "nor_flash sim_spi (\<lambda>f. f) 0x400000" by (rule sim_spi_flash) simp
  note rs = rconf_sector [OF flashed_device_config(1)] and rr = rconf_roms [OF flashed_device_config(1)]
  have "unat (rom_addr (boot_config flashed_device) (int i)) < 0x400000" if "i < 4" for i
  proof -
    from that consider "i = 0" | "i = 1" | "i = 2" | "i = 3" by linarith
    then show ?thesis unfolding rr [OF _ that, simplified] by (cases) simp_all
  qed
  then obtain i mm reg' where i: "i < 4"
    "Cache_Read_Enable_New sim_spi calm_env sim_cache flashed_device mmap_init 0 = Some (mm, reg')"
    "\<forall>off. platform_flash_mapped2phys reg' (INTERNAL_FLASH_MAPPED_ADDRESS + off) =
       rom_addr (boot_config flashed_device) (int i) div 0x100000 * 0x100000 + off"
    using booted_image_is_mapped [OF fl _ _ _ refl refl _ _ _ sim_cache_ok flashed_device_found, of calm_env 0] rs
    by (auto simp: calm_env_def)
  have "platform_flash_mapped2phys reg' (INTERNAL_FLASH_MAPPED_ADDRESS + 0x2010) =
      of_nat (ROM_ADDRS ! i) div 0x100000 * 0x100000 + 0x2010"
    using spec [OF i(3), of "0x2010"] rr [of i] i(1) by simp
  then have "platform_flash_mapped2phys reg' 0x40202010 = of_nat (ROM_ADDRS ! i) div 0x100000 * 0x100000 + 0x2010"
    by simp
  then show ?thesis using i(1,2) by blast
qed

end
