(* ===== verification/Flash_Api.thy ===== *)
theory Flash_Api
  imports Flash_Access
begin

text \<open>
  The size and speed of the flash chip, \<^verbatim>\<open>app_common/platform/flash_api.c\<close>: what the header of the boot loader at address
  0 says, changing it, and finding the real size by looking for the place where the chip's contents repeat. The
  flash functions of the SDK depend on the size it assumes, \<^verbatim>\<open>flashchip->chip_size\<close>: they are the parameter \<open>sdk\<close>, a
  function of that size. The static variables are the state, with the chip.
\<close>

record 'f flash_state =
  flash_chip :: 'f
  chip_size :: u32
  rom_flash_size :: u32
  safe_flash_size :: u32

abbreviation (input) "FLASH_SIZE_256KBYTE \<equiv> (0x40000 :: u32)"
abbreviation (input) "FLASH_SIZE_16MBYTE \<equiv> (0x1000000 :: u32)"
abbreviation (input) "SPI_FLASH_SEC_SIZE \<equiv> (0x1000 :: u32)"

section \<open>The header\<close>

text \<open>
  The structure \<^verbatim>\<open>SPIFlashInfo\<close> is its 16 bytes: the mode is byte 2, the speed the lower and the size the upper half of
  byte 3. \<open>junk\<close> is what the structure holds when the read fails.
\<close>

definition flash_rom_getinfo :: "(u32 \<Rightarrow> 'f spi) \<Rightarrow> u8 list \<Rightarrow> 'f flash_state \<Rightarrow> u8 list" where
  "flash_rom_getinfo sdk junk s = fill (SPIRead (sdk (chip_size s)) 0 16 (flash_chip s)) junk"

definition info_mode :: "u8 list \<Rightarrow> u8" where
  "info_mode info = info ! 2"

definition info_speed :: "u8 list \<Rightarrow> u8" where
  "info_speed info = info ! 3 AND 0x0F"

definition info_size :: "u8 list \<Rightarrow> u8" where
  "info_size info = drop_bit 4 (info ! 3)"

definition flash_rom_get_size_type :: "(u32 \<Rightarrow> 'f spi) \<Rightarrow> u8 list \<Rightarrow> 'f flash_state \<Rightarrow> u8" where
  "flash_rom_get_size_type sdk junk s = info_size (flash_rom_getinfo sdk junk s)"

definition size_of_type :: "u8 \<Rightarrow> u32" where
  "size_of_type t =
     (if t = 1 then 256 * 1024
      else if t = 0 then 512 * 1024
      else if t = 2 then 1 * 1024 * 1024
      else if t = 3 then 2 * 1024 * 1024
      else if t = 4 then 4 * 1024 * 1024
      else if t = 5 then 2 * 1024 * 1024
      else if t = 6 then 4 * 1024 * 1024
      else 512 * 1024)"

definition flash_rom_get_size_byte :: "(u32 \<Rightarrow> 'f spi) \<Rightarrow> u8 list \<Rightarrow> 'f flash_state \<Rightarrow> 'f flash_state \<times> u32" where
  "flash_rom_get_size_byte sdk junk s =
     (let s1 = (if rom_flash_size s = 0 then s\<lparr>rom_flash_size := size_of_type (info_size (flash_rom_getinfo sdk junk s))\<rparr> else s)
      in (s1, rom_flash_size s1))"

definition flash_rom_get_sec_num :: "(u32 \<Rightarrow> 'f spi) \<Rightarrow> u8 list \<Rightarrow> 'f flash_state \<Rightarrow> 'f flash_state \<times> u16" where
  "flash_rom_get_sec_num sdk junk s =
     (case flash_rom_get_size_byte sdk junk s of (s1, v) \<Rightarrow> (s1, ucast (v div SPI_FLASH_SEC_SIZE)))"

definition flash_rom_get_mode :: "(u32 \<Rightarrow> 'f spi) \<Rightarrow> u8 list \<Rightarrow> 'f flash_state \<Rightarrow> u8" where
  "flash_rom_get_mode sdk junk s = info_mode (flash_rom_getinfo sdk junk s)"

definition flash_rom_get_speed :: "(u32 \<Rightarrow> 'f spi) \<Rightarrow> u8 list \<Rightarrow> 'f flash_state \<Rightarrow> u32" where
  "flash_rom_get_speed sdk junk s =
     (let v = info_speed (flash_rom_getinfo sdk junk s) in
      if v = 0 then 40000000 else if v = 1 then 26700000 else if v = 2 then 20000000 else if v = 15 then 80000000 else 0)"

text \<open>Both setters read the first sector, change a field, erase the sector and write it back.\<close>

definition rewrite_header :: "(u32 \<Rightarrow> 'f spi) \<Rightarrow> (u8 \<Rightarrow> u8) \<Rightarrow> 'f flash_state \<Rightarrow> 'f flash_state" where
  "rewrite_header sdk change s =
     (let S = sdk (chip_size s) in
      case SPIRead S 0 SPI_FLASH_SEC_SIZE (flash_chip s) of
        None \<Rightarrow> s
      | Some dat \<Rightarrow> s\<lparr>flash_chip := fst (SPIWrite S 0 (dat[3 := change (dat ! 3)]) (SPIEraseSector S 0 (flash_chip s)))\<rparr>)"

definition flash_rom_set_size_type :: "(u32 \<Rightarrow> 'f spi) \<Rightarrow> u8 \<Rightarrow> 'f flash_state \<Rightarrow> 'f flash_state \<times> bool" where
  "flash_rom_set_size_type sdk t s = (rewrite_header sdk (\<lambda>b. b AND 0x0F OR push_bit 4 t) s, True)"

definition flash_rom_set_size_byte :: "(u32 \<Rightarrow> 'f spi) \<Rightarrow> u32 \<Rightarrow> 'f flash_state \<Rightarrow> 'f flash_state \<times> bool" where
  "flash_rom_set_size_byte sdk v s =
     (if v = 256 * 1024 then (fst (flash_rom_set_size_type sdk 1 s), True)
      else if v = 512 * 1024 then (fst (flash_rom_set_size_type sdk 0 s), True)
      else if v = 1 * 1024 * 1024 then (fst (flash_rom_set_size_type sdk 2 s), True)
      else if v = 2 * 1024 * 1024 then (fst (flash_rom_set_size_type sdk 3 s), True)
      else if v = 4 * 1024 * 1024 then (fst (flash_rom_set_size_type sdk 4 s), True)
      else (s, False))"

definition flash_rom_set_speed :: "(u32 \<Rightarrow> 'f spi) \<Rightarrow> u32 \<Rightarrow> 'f flash_state \<Rightarrow> 'f flash_state \<times> bool" where
  "flash_rom_set_speed sdk speed s =
     (let speed_type = (if speed < 26700000 then 2 else if speed < 40000000 then 1 else if speed < 80000000 then 0
                        else if speed \<ge> 80000000 then 15 else 0)
      in (rewrite_header sdk (\<lambda>b. b AND 0xF0 OR speed_type) s, True))"

section \<open>Access beyond the size the SDK assumes\<close>

text \<open>\<^verbatim>\<open>FLASH_SAFEMODE_LEAVE\<close> asks for the size of the header while the assumed size is still 16 MByte.\<close>

definition FLASH_SAFEMODE_LEAVE :: "(u32 \<Rightarrow> 'f spi) \<Rightarrow> u8 list \<Rightarrow> 'f flash_state \<Rightarrow> 'f flash_state" where
  "FLASH_SAFEMODE_LEAVE sdk junk s = (case flash_rom_get_size_byte sdk junk s of (s1, v) \<Rightarrow> s1\<lparr>chip_size := v\<rparr>)"

definition flash_safe_read :: "(u32 \<Rightarrow> 'f spi) \<Rightarrow> u8 list \<Rightarrow> u32 \<Rightarrow> u32 \<Rightarrow> 'f flash_state \<Rightarrow> 'f flash_state \<times> u8 list option" where
  "flash_safe_read sdk junk src n s =
     (let s1 = s\<lparr>chip_size := FLASH_SIZE_16MBYTE\<rparr>;
          result = SPIRead (sdk (chip_size s1)) src n (flash_chip s1)
      in (FLASH_SAFEMODE_LEAVE sdk junk s1, result))"

definition flash_safe_write :: "(u32 \<Rightarrow> 'f spi) \<Rightarrow> u8 list \<Rightarrow> u32 \<Rightarrow> u8 list \<Rightarrow> 'f flash_state \<Rightarrow> 'f flash_state \<times> bool" where
  "flash_safe_write sdk junk des bs s =
     (let s1 = s\<lparr>chip_size := FLASH_SIZE_16MBYTE\<rparr> in
      case SPIWrite (sdk (chip_size s1)) des bs (flash_chip s1) of
        (f1, result) \<Rightarrow> (FLASH_SAFEMODE_LEAVE sdk junk (s1\<lparr>flash_chip := f1\<rparr>), result))"

definition flash_safe_erase_sector :: "(u32 \<Rightarrow> 'f spi) \<Rightarrow> (u16 \<Rightarrow> 'f \<Rightarrow> bool) \<Rightarrow> u8 list \<Rightarrow> u16 \<Rightarrow> 'f flash_state \<Rightarrow> 'f flash_state \<times> bool" where
  "flash_safe_erase_sector sdk erase_ok junk sec s =
     (let s1 = s\<lparr>chip_size := FLASH_SIZE_16MBYTE\<rparr>;
          f1 = SPIEraseSector (sdk (chip_size s1)) (ucast sec) (flash_chip s1)
      in (FLASH_SAFEMODE_LEAVE sdk junk (s1\<lparr>flash_chip := f1\<rparr>), erase_ok sec (flash_chip s1)))"

section \<open>The size of the chip\<close>

partial_function (option) detect_loop :: "(u32 \<Rightarrow> 'f spi) \<Rightarrow> u8 list \<Rightarrow> u8 list \<Rightarrow> u32 \<Rightarrow> 'f flash_state \<Rightarrow> ('f flash_state \<times> u32) option" where
  "detect_loop sdk junk data_orig dummy_size s =
     (if dummy_size < FLASH_SIZE_16MBYTE then
        case flash_safe_read sdk junk dummy_size 32 s of
          (s1, None) \<Rightarrow> Some (s1, dummy_size)
        | (s1, Some data_new) \<Rightarrow>
            if data_orig \<noteq> data_new then detect_loop sdk junk data_orig (dummy_size * 2) s1 else Some (s1, dummy_size)
      else Some (s, dummy_size))"

definition flash_detect_size_byte :: "(u32 \<Rightarrow> 'f spi) \<Rightarrow> u8 list \<Rightarrow> 'f flash_state \<Rightarrow> ('f flash_state \<times> u32) option" where
  "flash_detect_size_byte sdk junk s =
     (case flash_safe_read sdk junk 0 32 s of
        (s1, None) \<Rightarrow> Some (s1, FLASH_SIZE_256KBYTE)
      | (s1, Some data_orig) \<Rightarrow> detect_loop sdk junk data_orig FLASH_SIZE_256KBYTE s1)"

definition flash_safe_get_size_byte :: "(u32 \<Rightarrow> 'f spi) \<Rightarrow> u8 list \<Rightarrow> 'f flash_state \<Rightarrow> ('f flash_state \<times> u32) option" where
  "flash_safe_get_size_byte sdk junk s =
     (if safe_flash_size s = 0 then
        map_option (\<lambda>(s1, v). (s1\<lparr>safe_flash_size := v\<rparr>, v)) (flash_detect_size_byte sdk junk s)
      else Some (s, safe_flash_size s))"

definition flash_safe_get_sec_num :: "(u32 \<Rightarrow> 'f spi) \<Rightarrow> u8 list \<Rightarrow> 'f flash_state \<Rightarrow> ('f flash_state \<times> u16) option" where
  "flash_safe_get_sec_num sdk junk s =
     map_option (\<lambda>(s1, v). (s1, ucast (v div SPI_FLASH_SEC_SIZE))) (flash_safe_get_size_byte sdk junk s)"

section \<open>Arrays in the flash\<close>

text \<open>The flash that is mapped to memory is read in aligned words only.\<close>

definition load32 :: "mem \<Rightarrow> addr \<Rightarrow> u32" where
  "load32 m a = get32 (mem_read m a 4) 0"

definition byte_of_aligned_array :: "mem \<Rightarrow> addr \<Rightarrow> u32 \<Rightarrow> u8" where
  "byte_of_aligned_array m a i =
     (if a mod 4 \<noteq> 0 then 0
      else let v = load32 m (a + 4 * unat (i div 4)) in bytes32 v ! unat (i mod 4))"

definition word_of_aligned_array :: "mem \<Rightarrow> addr \<Rightarrow> u32 \<Rightarrow> u16" where
  "word_of_aligned_array m a i =
     (if a mod 4 \<noteq> 0 then 0
      else let v = load32 m (a + 4 * unat (i div 2)) in
        if i mod 2 = 0 then ucast v else ucast (drop_bit 16 v))"
section \<open>Reading and changing the header\<close>

lemma getinfo_bytes:
  assumes "nor_flash (sdk (chip_size s)) chip fsize" "16 \<le> fsize"
  shows "flash_rom_getinfo sdk junk s ! 3 = chip (flash_chip s) 3"
  using flash_read_num [OF assms(1), of 0 "num.Bit0 (num.Bit0 (num.Bit0 (num.Bit0 num.One)))" "flash_chip s"] assms(2)
  by (simp add: flash_rom_getinfo_def fill_def nth_append)

lemma rewrite_header_chip:
  assumes "nor_flash (sdk (chip_size s)) chip fsize" "0x1000 \<le> fsize"
  shows "chip (flash_chip (rewrite_header sdk change s)) = (chip (flash_chip s))(3 := change (chip (flash_chip s) 3))"
    "chip_size (rewrite_header sdk change s) = chip_size s"
proof -
  define f where "f = flash_chip s"
  define S where "S = sdk (chip_size s)"
  note fl = assms(1) [folded S_def]
  define d where "d = (mem_read (chip f) 0 4096)[3 := change (chip f 3)]"
  have rd: "SPIRead S 0 SPI_FLASH_SEC_SIZE f = Some (mem_read (chip f) 0 4096)"
    using flash_read [OF fl, of 0 4096 f] assms(2) by simp
  have w: "rewrite_header sdk change s = s\<lparr>flash_chip := fst (SPIWrite S 0 d (SPIEraseSector S 0 f))\<rparr>"
    using rd by (simp add: rewrite_header_def S_def f_def d_def Let_def)
  then show "chip_size (rewrite_header sdk change s) = chip_size s" by simp
  show "chip (flash_chip (rewrite_header sdk change s)) = (chip (flash_chip s))(3 := change (chip (flash_chip s) 3))"
  proof
    fix i
    have "chip (SPIEraseSector S 0 f) i = (if i div 4096 = 0 then 0xFF else chip f i)"
      using flash_erase [OF fl, of 0 f i] assms(2) by simp
    moreover have "chip (fst (SPIWrite S 0 d (SPIEraseSector S 0 f))) i =
        (if i < 4096 then chip (SPIEraseSector S 0 f) i AND d ! i else chip (SPIEraseSector S 0 f) i)"
      using flash_write(2) [OF fl, of 0 d "SPIEraseSector S 0 f" i] assms(2) by (simp add: d_def)
    ultimately have "chip (flash_chip (rewrite_header sdk change s)) i = (if i < 4096 then d ! i else chip f i)"
      using w by (auto simp: div_eq_0_iff)
    then show "chip (flash_chip (rewrite_header sdk change s)) i = ((chip (flash_chip s))(3 := change (chip (flash_chip s) 3))) i"
      by (auto simp: d_def f_def nth_list_update)
  qed
qed

lemma header_nibbles:
  fixes b :: u8
  shows "drop_bit 4 (push_bit 4 t) = t \<Longrightarrow> drop_bit 4 (b AND 0x0F OR push_bit 4 t) = t"
    "(b AND 0x0F OR push_bit 4 t) AND 0x0F = b AND 0x0F"
proof -
  have m: "(0x0F :: u8) = mask 4" by (simp add: mask_eq_exp_minus_1)
  have "drop_bit 4 (b AND 0x0F) = 0" unfolding m by (rule bit_word_eqI) (auto simp: bit_simps)
  then show "drop_bit 4 (push_bit 4 t) = t \<Longrightarrow> drop_bit 4 (b AND 0x0F OR push_bit 4 t) = t" by (simp add: drop_bit_or)
  show "(b AND 0x0F OR push_bit 4 t) AND 0x0F = b AND 0x0F"
    unfolding m by (rule bit_word_eqI) (auto simp: bit_simps)
qed

section \<open>Properties\<close>

text \<open>
  The size of the chip in the header of the boot loader, across the application and the boot loader: for the five
  sizes it knows, \<^verbatim>\<open>flash_rom_set_size_byte\<close> succeeds and changes nothing in the chip but byte 3 of it; after the restart it
  asks for, \<^verbatim>\<open>flash_rom_get_size_byte\<close> answers that size, the boot loader derives the same size for its default
  configuration, and the speed is what it was. Any other size is refused and the chip stays as it is.
\<close>

theorem flash_size_roundtrip:
  assumes "nor_flash (sdk (chip_size s)) chip fsize" "0x1000 \<le> fsize" "flash_rom_set_size_byte sdk v s = (s1, ok)"
    "flash_chip s2 = flash_chip s1" "rom_flash_size s2 = 0" "nor_flash (sdk (chip_size s2)) chip fsize"
  shows "(ok \<longleftrightarrow> v \<in> {0x40000, 0x80000, 0x100000, 0x200000, 0x400000}) \<and> (\<not> ok \<longrightarrow> s1 = s) \<and>
    (\<forall>i. i \<noteq> 3 \<longrightarrow> chip (flash_chip s1) i = chip (flash_chip s) i) \<and>
    flash_rom_get_speed sdk junk s2 = flash_rom_get_speed sdk junk s \<and>
    (ok \<longrightarrow> snd (flash_rom_get_size_byte sdk junk s2) = v \<and> flash_size (chip (flash_chip s1) 3) = v)"
proof -
  have g: "flash_rom_getinfo sdk junk s ! 3 = chip (flash_chip s) 3" "flash_rom_getinfo sdk junk s2 ! 3 = chip (flash_chip s1) 3"
    using getinfo_bytes [of sdk s chip fsize junk] getinfo_bytes [of sdk s2 chip fsize junk] assms(1,2,4,6) by simp_all
  have set: "chip (flash_chip (fst (flash_rom_set_size_type sdk t s))) =
      (chip (flash_chip s))(3 := chip (flash_chip s) 3 AND 0x0F OR push_bit 4 t)" for t
    using rewrite_header_chip(1) [of sdk s chip fsize] assms(1,2) by (simp add: flash_rom_set_size_type_def)
  have d: "drop_bit 4 (push_bit 4 t) = t" if "t \<in> {0, 1, 2, 3, 4}" for t :: u8 using that by auto
  consider t where "t \<in> {0, 1, 2, 3, 4}" "s1 = fst (flash_rom_set_size_type sdk t s)" "ok" "size_of_type t = v" "flash_size (push_bit 4 t) = v"
      "v \<in> {0x40000, 0x80000, 0x100000, 0x200000, 0x400000}"
    | "s1 = s" "\<not> ok" "v \<notin> {0x40000, 0x80000, 0x100000, 0x200000, 0x400000}"
    using assms(3) by (fastforce simp: flash_rom_set_size_byte_def size_of_type_def flash_size_def split: if_splits)
  then show ?thesis
  proof cases
    case (1 t)
    have c: "chip (flash_chip s1) = (chip (flash_chip s))(3 := chip (flash_chip s) 3 AND 0x0F OR push_bit 4 t)" using set 1(2) by simp
    have n: "drop_bit 4 (chip (flash_chip s1) 3) = t" "chip (flash_chip s1) 3 AND 0x0F = chip (flash_chip s) 3 AND 0x0F"
      using header_nibbles(1) [OF d [OF 1(1)]] header_nibbles(2) by (simp_all add: c)
    have "flash_size (chip (flash_chip s1) 3) = v" using 1(5) n(1) d [OF 1(1)] by (simp add: flash_size_def)
    then show ?thesis using 1 c g n assms(5)
      by (simp add: flash_rom_get_speed_def info_speed_def flash_rom_get_size_byte_def info_size_def Let_def)
  next
    case 2
    then show ?thesis using g assms(4) by (simp add: flash_rom_get_speed_def info_speed_def)
  qed
qed

definition sim_state :: "mem \<Rightarrow> mem flash_state" where
  "sim_state f = \<lparr>flash_chip = f, chip_size = 0x80000, rom_flash_size = 0, safe_flash_size = 0\<rparr>"

theorem flash_size_roundtrip_witness:
  "\<exists>s1. flash_rom_set_size_byte (\<lambda>c. sim_spi) 0x400000 (sim_state (\<lambda>_. 0)) = (s1, True) \<and>
    snd (flash_rom_get_size_byte (\<lambda>c. sim_spi) [] (sim_state (flash_chip s1))) = 0x400000 \<and> flash_size (flash_chip s1 3) = 0x400000"
proof -
  obtain s1 ok where s1: "flash_rom_set_size_byte (\<lambda>c. sim_spi) 0x400000 (sim_state (\<lambda>_. 0)) = (s1, ok)" by fastforce
  have "nor_flash sim_spi (\<lambda>f. f) 0x100000" by (rule sim_spi_flash) simp
  then show ?thesis
    using flash_size_roundtrip [of "\<lambda>c. sim_spi" "sim_state (\<lambda>_. 0)" "\<lambda>f. f" "0x100000" "0x400000" s1 ok "sim_state (flash_chip s1)" "[]"] s1
    by (simp add: sim_state_def)
qed
section \<open>Detecting the size\<close>

text \<open>
  A chip of \<open>n\<close> bytes ignores the upper bits of an address: where the SDK assumes 16 MByte, its contents repeat.
\<close>

definition mirrored_flash :: "(u32 \<Rightarrow> 'f spi) \<Rightarrow> ('f \<Rightarrow> mem) \<Rightarrow> nat \<Rightarrow> bool" where
  "mirrored_flash sdk chip n \<longleftrightarrow>
     (\<forall>f a k. unat a + unat k \<le> 0x1000000 \<longrightarrow>
        SPIRead (sdk FLASH_SIZE_16MBYTE) a k f = Some (mem_read (\<lambda>i. chip f (i mod n)) (unat a) (unat k)))"

lemma safe_leave_chip: "flash_chip (FLASH_SAFEMODE_LEAVE sdk junk s) = flash_chip s" "safe_flash_size (FLASH_SAFEMODE_LEAVE sdk junk s) = safe_flash_size s"
  by (simp_all add: FLASH_SAFEMODE_LEAVE_def flash_rom_get_size_byte_def Let_def)

lemma safe_read_mirrored:
  assumes "mirrored_flash sdk chip n" "a + 32 \<le> 0x1000000"
  obtains s1 where "flash_safe_read sdk junk (of_nat a) 32 s = (s1, Some (mem_read (\<lambda>i. chip (flash_chip s) (i mod n)) a 32))"
    "flash_chip s1 = flash_chip s" "safe_flash_size s1 = safe_flash_size s"
proof -
  have "unat (of_nat a :: u32) = a" by (rule unat_of_nat_small) (use assms(2) in simp)
  then have "SPIRead (sdk FLASH_SIZE_16MBYTE) (of_nat a) 32 (flash_chip s) = Some (mem_read (\<lambda>i. chip (flash_chip s) (i mod n)) a 32)"
    using assms unfolding mirrored_flash_def by simp
  then show thesis using that by (simp add: flash_safe_read_def Let_def safe_leave_chip)
qed

lemma mirrored_block:
  assumes "a + 32 \<le> n"
  shows "mem_read (\<lambda>i. c (i mod n)) a 32 = mem_read c a 32" "mem_read (\<lambda>i. c (i mod n)) n 32 = mem_read c 0 32"
  using assms by (auto intro!: nth_equalityI)
lemma detect_loop_finds:
  assumes m: "mirrored_flash sdk chip (2 ^ k)" and "18 \<le> j" "j \<le> k" "k \<le> 24"
    "\<And>i. j \<le> i \<Longrightarrow> i < k \<Longrightarrow> mem_read (chip (flash_chip s)) (2 ^ i) 32 \<noteq> mem_read (chip (flash_chip s)) 0 32"
  shows "\<exists>s1. detect_loop sdk junk (mem_read (chip (flash_chip s)) 0 32) (of_nat (2 ^ j)) s = Some (s1, of_nat (2 ^ k)) \<and>
    flash_chip s1 = flash_chip s \<and> safe_flash_size s1 = safe_flash_size s"
  using assms(2,3,5)
proof (induction "k - j" arbitrary: j s)
  case 0
  then have jk: "j = k" by simp
  have p: "(2 :: nat) ^ k \<le> 2 ^ 24" using assms(4) by (rule power_increasing) simp
  show ?case
  proof (cases "k = 24")
    case True
    then show ?thesis unfolding jk by (subst detect_loop.simps) simp
  next
    case False
    then have "(2 :: nat) ^ k \<le> 2 ^ 23" using assms(4) by (intro power_increasing) simp_all
    then have b: "2 ^ k + 32 \<le> (0x1000000 :: nat)" by simp
    have u: "unat (of_nat (2 ^ k) :: u32) = 2 ^ k" by (rule unat_of_nat_small) (use p in simp)
    have "(32 :: nat) \<le> 2 ^ 18" by simp
    also have "\<dots> \<le> 2 ^ k" using 0(2) jk by (intro power_increasing) simp_all
    finally have n: "0 + 32 \<le> (2 :: nat) ^ k" by simp
    obtain s1 where "flash_safe_read sdk junk (of_nat (2 ^ k)) 32 s =
        (s1, Some (mem_read (\<lambda>i. chip (flash_chip s) (i mod 2 ^ k)) (2 ^ k) 32))" "flash_chip s1 = flash_chip s" "safe_flash_size s1 = safe_flash_size s"
      using safe_read_mirrored [OF m b] .
    then show ?thesis using u mirrored_block(2) [OF n] b unfolding jk
      by (subst detect_loop.simps) (simp add: word_less_nat_alt)
  qed
next
  case (Suc d)
  then have j: "j < k" by simp
  have "(2 :: nat) ^ j \<le> 2 ^ 23" using j assms(4) by (intro power_increasing) simp_all
  then have b: "2 ^ j + 32 \<le> (0x1000000 :: nat)" by simp
  have u: "unat (of_nat (2 ^ j) :: u32) = 2 ^ j" by (rule unat_of_nat_small) (use b in simp)
  have "(32 :: nat) \<le> 2 ^ j" using power_increasing [OF Suc.prems(1), of "2 :: nat"] by simp
  then have "2 ^ j + 32 \<le> (2 :: nat) ^ Suc j" by simp
  also have "\<dots> \<le> 2 ^ k" using j by (intro power_increasing) simp_all
  finally have n: "2 ^ j + 32 \<le> (2 :: nat) ^ k" .
  obtain s1 where r: "flash_safe_read sdk junk (of_nat (2 ^ j)) 32 s = (s1, Some (mem_read (chip (flash_chip s)) (2 ^ j) 32))"
    "flash_chip s1 = flash_chip s" "safe_flash_size s1 = safe_flash_size s"
    using safe_read_mirrored [OF m b, of junk s] mirrored_block(1) [OF n] by metis
  have ne: "mem_read (chip (flash_chip s)) 0 32 \<noteq> mem_read (chip (flash_chip s)) (2 ^ j) 32" using Suc.prems(3) [of j] j by simp
  have "d = k - Suc j" using Suc.hyps(2) by simp
  then obtain s2 where "detect_loop sdk junk (mem_read (chip (flash_chip s1)) 0 32) (of_nat (2 ^ Suc j)) s1 = Some (s2, of_nat (2 ^ k))"
    "flash_chip s2 = flash_chip s1" "safe_flash_size s2 = safe_flash_size s1"
    using Suc.hyps(1) [of "Suc j" s1] Suc.prems j r(2) by auto
  then show ?case using r ne u b
    by (subst detect_loop.simps) (simp add: word_less_nat_alt mult.commute)
qed

text \<open>
  Detecting the chip: for a chip of 256 KByte to 16 MByte that repeats its contents beyond its end, whose first
  bytes occur at no smaller power of two, \<^verbatim>\<open>flash_safe_get_size_byte\<close> returns the size of the chip whatever its header
  says, without changing the chip; it is remembered, and \<^verbatim>\<open>flash_safe_get_sec_num\<close> gives the number of its sectors.
\<close>

theorem flash_size_detected:
  assumes "mirrored_flash sdk chip (2 ^ k)" "18 \<le> k" "k \<le> 24" "safe_flash_size s = 0"
    "\<forall>i. 18 \<le> i \<and> i < k \<longrightarrow> mem_read (chip (flash_chip s)) (2 ^ i) 32 \<noteq> mem_read (chip (flash_chip s)) 0 32"
  shows "\<exists>s1. flash_safe_get_size_byte sdk junk s = Some (s1, 2 ^ k) \<and> flash_chip s1 = flash_chip s \<and>
    flash_safe_get_size_byte sdk junk s1 = Some (s1, 2 ^ k) \<and> flash_safe_get_sec_num sdk junk s1 = Some (s1, 2 ^ (k - 12))"
proof -
  have n: "0 + 32 \<le> (2 :: nat) ^ k" using power_increasing [OF assms(2), of "2 :: nat"] by simp
  obtain s0 where s0: "flash_safe_read sdk junk 0 32 s = (s0, Some (mem_read (chip (flash_chip s)) 0 32))"
    "flash_chip s0 = flash_chip s" "safe_flash_size s0 = safe_flash_size s"
    using safe_read_mirrored [OF assms(1), of 0 junk s] mirrored_block(1) [OF n] by auto
  obtain s1 where s1: "detect_loop sdk junk (mem_read (chip (flash_chip s0)) 0 32) (of_nat (2 ^ 18)) s0 = Some (s1, of_nat (2 ^ k))"
    "flash_chip s1 = flash_chip s0"
    using detect_loop_finds [OF assms(1) order_refl assms(2,3), of s0 junk] assms(5) s0(2) by auto
  define s2 where "s2 = s1\<lparr>safe_flash_size := 2 ^ k\<rparr>"
  have "flash_safe_get_size_byte sdk junk s = Some (s2, 2 ^ k)"
    using s0 s1(1) assms(4) by (simp add: flash_safe_get_size_byte_def flash_detect_size_byte_def s2_def)
  moreover have "(2 ^ k :: u32) \<noteq> 0 \<and> (ucast ((2 ^ k :: u32) div SPI_FLASH_SEC_SIZE) :: u16) = 2 ^ (k - 12)"
  proof -
    have "k \<in> {18, 19, 20, 21, 22, 23, 24}" using assms(2,3) by auto
    then show ?thesis by auto
  qed
  ultimately show ?thesis using s0(2) s1(2)
    by (intro exI [of _ s2]) (simp add: flash_safe_get_sec_num_def flash_safe_get_size_byte_def s2_def)
qed

text \<open>A chip of 512 KByte with an erased header, whose bytes are those of their addresses, behind a header that says 256 KByte.\<close>

definition mirror_sdk :: "u32 \<Rightarrow> mem spi" where
  "mirror_sdk c = sim_spi\<lparr>SPIRead := \<lambda>a n f. Some (mem_read (\<lambda>i. f (i mod 2 ^ 19)) (unat a) (unat n))\<rparr>"

theorem flash_size_detected_witness:
  "\<exists>s1. flash_safe_get_size_byte mirror_sdk [] (sim_state (\<lambda>i. of_nat (i div 0x10000))) = Some (s1, 0x80000) \<and>
    flash_safe_get_sec_num mirror_sdk [] s1 = Some (s1, 128)"
proof -
  define f :: mem where "f = (\<lambda>i. of_nat (i div 0x10000))"
  have "mirrored_flash mirror_sdk (\<lambda>f. f) (2 ^ 19)" by (simp add: mirrored_flash_def mirror_sdk_def)
  moreover have "mem_read f (2 ^ i) 32 \<noteq> mem_read f 0 32" if "18 \<le> i \<and> i < 19" for i
  proof
    assume "mem_read f (2 ^ i) 32 = mem_read f 0 32"
    then have "mem_read f (2 ^ i) 32 ! 0 = mem_read f 0 32 ! 0" by simp
    moreover have "i = 18" using that by simp
    ultimately show False by (simp add: f_def)
  qed
  ultimately show ?thesis
    using flash_size_detected [of mirror_sdk "\<lambda>f. f" 19 "sim_state f" "[]"] by (auto simp: sim_state_def f_def)
qed

section \<open>Aligned arrays\<close>

lemma u8_no_bit: "8 \<le> n \<Longrightarrow> \<not> bit (b :: u8) n"
  using bit_imp_le_length [of b n] by auto

lemma bytes32_get32: "bytes32 (get32 [b0, b1, b2, b3] 0) = [b0, b1, b2, b3]"
  unfolding get32_def bytes32_def by (auto intro!: bit_word_eqI simp: bit_simps u8_no_bit less_imp_diff_less)

lemma mem_read_4: "mem_read m a 4 = [m a, m (a + 1), m (a + 2), m (a + 3)]"
  by (simp add: mem_read_def numeral_eq_Suc upt_rec)

lemma byte_of_aligned_array_nth:
  assumes "a mod 4 = 0"
  shows "byte_of_aligned_array m a i = m (a + unat i)"
proof -
  define b where "b = a + 4 * (unat i div 4)"
  have u: "unat (i div 4) = unat i div 4" "unat (i mod 4) = unat i mod 4" by (simp_all add: unat_div_distrib unat_mod_distrib)
  have "bytes32 (load32 m b) = mem_read m b 4" unfolding load32_def mem_read_4 by (rule bytes32_get32)
  moreover have "b + unat i mod 4 = a + unat i" by (simp add: b_def)
  ultimately show ?thesis using assms by (simp add: byte_of_aligned_array_def u b_def [symmetric])
qed

lemma word_of_aligned_array_nth:
  assumes "a mod 4 = 0"
  shows "word_of_aligned_array m a i = ucast (m (a + 2 * unat i)) OR push_bit 8 (ucast (m (a + 2 * unat i + 1)))"
proof -
  define b where "b = a + 4 * (unat i div 2)"
  have u: "unat (i div 2) = unat i div 2" "unat (i mod 2) = unat i mod 2" by (simp_all add: unat_div_distrib unat_mod_distrib)
  have z: "i mod 2 = 0 \<longleftrightarrow> unat i mod 2 = 0" by (metis u(2) unat_eq_zero)
  have h: "ucast (load32 m b) = ucast (m b) OR push_bit 8 (ucast (m (b + 1)) :: u16)"
    "ucast (drop_bit 16 (load32 m b)) = ucast (m (b + 2)) OR push_bit 8 (ucast (m (b + 3)) :: u16)"
    unfolding load32_def mem_read_4 get32_def by (auto intro!: bit_word_eqI simp: bit_simps u8_no_bit less_imp_diff_less)
  show ?thesis
  proof (cases "unat i mod 2 = 0")
    case True
    then have "b = a + 2 * unat i" by (auto simp: b_def)
    then show ?thesis using h(1) z True assms by (simp add: word_of_aligned_array_def u b_def [symmetric])
  next
    case False
    then have e: "a + 2 * unat i = b + 2" unfolding b_def by presburger
    show ?thesis unfolding e using h(2) z False assms
      by (simp add: word_of_aligned_array_def u b_def [symmetric] numeral_3_eq_3)
  qed
qed

end
