(* ===== verification/Flash_Fs.thy ===== *)
theory Flash_Fs
  imports Crc
begin

text \<open>
  The list of files over both file systems, \<^verbatim>\<open>app_common/platform/flash_fs.c\<close>, with the wrappers of
  \<^verbatim>\<open>app_common/spiffs/spiffs.c\<close> that it calls. The functions of SPIFFS are parameters: a record of functions on an
  abstract state of both file systems, numbered 0 and 1. The entries \<^verbatim>\<open>struct fs_file_st\<close> live in a map from addresses, and
  the list \<^verbatim>\<open>fs_file_list\<close> is the list of their addresses. \<^verbatim>\<open>os_malloc\<close> is a parameter, too; its result is not checked by
  the code, and an access through a null pointer is \<open>None\<close>. A name is the list of its characters.
\<close>

section \<open>SPIFFS\<close>

record 'f spiffs =
  SPIFFS_open :: "int \<Rightarrow> u8 list \<Rightarrow> u16 \<Rightarrow> 'f \<Rightarrow> 'f \<times> int"
  SPIFFS_close :: "int \<Rightarrow> int \<Rightarrow> 'f \<Rightarrow> 'f \<times> int"
  SPIFFS_read :: "int \<Rightarrow> int \<Rightarrow> nat \<Rightarrow> 'f \<Rightarrow> 'f \<times> int \<times> u8 list"
  SPIFFS_write :: "int \<Rightarrow> int \<Rightarrow> u8 list \<Rightarrow> 'f \<Rightarrow> 'f \<times> int"
  SPIFFS_lseek :: "int \<Rightarrow> int \<Rightarrow> u32 \<Rightarrow> 'f \<Rightarrow> 'f \<times> int"
  SPIFFS_fstat :: "int \<Rightarrow> int \<Rightarrow> 'f \<Rightarrow> 'f \<times> int \<times> u32 \<times> u16"
  SPIFFS_fremove :: "int \<Rightarrow> int \<Rightarrow> 'f \<Rightarrow> 'f \<times> int"
  SPIFFS_rename :: "int \<Rightarrow> u8 list \<Rightarrow> u8 list \<Rightarrow> 'f \<Rightarrow> 'f \<times> int"
  SPIFFS_errno :: "int \<Rightarrow> 'f \<Rightarrow> int"
  SPIFFS_clearerr :: "int \<Rightarrow> 'f \<Rightarrow> 'f"
  SPIFFS_check :: "int \<Rightarrow> 'f \<Rightarrow> 'f"
  SPIFFS_info :: "int \<Rightarrow> 'f \<Rightarrow> int \<times> u32 \<times> u32"
  SPIFFS_dir :: "int \<Rightarrow> 'f \<Rightarrow> (u8 list \<times> u32 \<times> u16) list"

abbreviation (input) "SPIFFS_ERR_NOT_FOUND \<equiv> (-10002 :: int)"
abbreviation (input) "SPIFFS_ERR_DELETED \<equiv> (-10004 :: int)"
abbreviation (input) "FS_RDWR \<equiv> (0x18 :: u16)"
abbreviation (input) "FS_APPEND \<equiv> (0x01 :: u16)"
abbreviation (input) "FS_TRUNC \<equiv> (0x02 :: u16)"
abbreviation (input) "FS_CREAT \<equiv> (0x04 :: u16)"

text \<open>The wrappers; a negative \<^verbatim>\<open>size_t\<close> comes back as a negative \<^verbatim>\<open>int\<close> in the callers.\<close>

definition myspiffs_close :: "'f spiffs \<Rightarrow> int \<Rightarrow> int \<Rightarrow> 'f \<Rightarrow> 'f" where
  "myspiffs_close P t fd f = fst (SPIFFS_close P t fd f)"

definition myspiffs_write :: "'f spiffs \<Rightarrow> int \<Rightarrow> int \<Rightarrow> u8 list \<Rightarrow> 'f \<Rightarrow> 'f \<times> int" where
  "myspiffs_write P t fd bs f = (case SPIFFS_write P t fd bs f of (f1, res) \<Rightarrow> (f1, if res < 0 then 0 else res))"

definition myspiffs_read :: "'f spiffs \<Rightarrow> int \<Rightarrow> int \<Rightarrow> nat \<Rightarrow> 'f \<Rightarrow> 'f \<times> int \<times> u8 list" where
  "myspiffs_read P t fd n f = (case SPIFFS_read P t fd n f of (f1, res, bs) \<Rightarrow> (f1, if res < 0 then - 1 else res, bs))"

definition myspiffs_fremove :: "'f spiffs \<Rightarrow> int \<Rightarrow> int \<Rightarrow> 'f \<Rightarrow> 'f \<times> int" where
  "myspiffs_fremove P t fd f =
     (case SPIFFS_fremove P t fd f of
        (f1, res) \<Rightarrow>
          case (if res \<ge> 0 then SPIFFS_close P t fd f1 else (f1, res)) of
            (f2, res1) \<Rightarrow>
              if res \<ge> 0 \<and> res1 \<ge> 0 then (f2, 1)
              else if SPIFFS_errno P t f2 = SPIFFS_ERR_NOT_FOUND \<or> SPIFFS_errno P t f2 = SPIFFS_ERR_DELETED then (SPIFFS_clearerr P t f2, 1)
              else if res1 = SPIFFS_ERR_NOT_FOUND \<or> res1 = SPIFFS_ERR_DELETED then (SPIFFS_clearerr P t f2, 1)
              else if res1 < 0 then (f2, - 1)
              else (f2, res1))"

section \<open>The list of files\<close>

record fs_file_st =
  ff_flags :: u16
  ff_pix :: u16
  ff_size :: u32
  ff_crc :: u32
  ff_name :: "u8 list"

record 'f ffs =
  ff_heap :: "addr \<rightharpoonup> fs_file_st"
  fs_file_list :: "addr list"
  ff_fs :: 'f
  ff_crcOut :: u32

abbreviation (input) "MARK_CRC32 \<equiv> (0x400 :: u16)"
abbreviation (input) "MARK_CRC16 \<equiv> (0x200 :: u16)"
abbreviation (input) "MARK_CRC8 \<equiv> (0x100 :: u16)"
abbreviation (input) "MARK_DELETE \<equiv> (0x20 :: u16)"
abbreviation (input) "MARK_DYNFS \<equiv> (0x10 :: u16)"
abbreviation (input) "MARK_STATICFS \<equiv> (0x08 :: u16)"
abbreviation (input) "MARK_BIG \<equiv> (0x04 :: u16)"

text \<open>An allocated block comes with its old contents.\<close>

type_synonym malloc = "(addr \<rightharpoonup> fs_file_st) \<Rightarrow> (addr \<times> fs_file_st) option"

definition GET_FS :: "fs_file_st \<Rightarrow> int" where
  "GET_FS e = (if ff_flags e AND MARK_DYNFS \<noteq> 0 then 1 else if ff_flags e AND MARK_STATICFS \<noteq> 0 then 0 else - 1)"

definition set_entry :: "addr \<Rightarrow> fs_file_st \<Rightarrow> 'f ffs \<Rightarrow> 'f ffs" where
  "set_entry a e s = s\<lparr>ff_heap := (ff_heap s)(a \<mapsto> e)\<rparr>"

text \<open>\<^verbatim>\<open>strstr\<close>: whether a string occurs in another one.\<close>

fun occurs :: "u8 list \<Rightarrow> u8 list \<Rightarrow> bool" where
  "occurs n [] \<longleftrightarrow> n = []"
| "occurs n (c # h) \<longleftrightarrow> take (length n) (c # h) = n \<or> occurs n h"

fun find_named :: "(addr \<rightharpoonup> fs_file_st) \<Rightarrow> u8 list \<Rightarrow> addr list \<Rightarrow> addr option option" where
  "find_named H name [] = Some None"
| "find_named H name (a # as) =
     (case H a of
        None \<Rightarrow> None
      | Some e \<Rightarrow> if occurs name (ff_name e) then Some (Some a) else find_named H name as)"

definition fs_exists :: "u8 list \<Rightarrow> 'f ffs \<Rightarrow> addr option option" where
  "fs_exists name s = find_named (ff_heap s) name (fs_file_list s)"

section \<open>Operations\<close>

definition fs_read_file :: "'f spiffs \<Rightarrow> addr option \<Rightarrow> nat \<Rightarrow> u32 \<Rightarrow> 'f ffs \<Rightarrow> ('f ffs \<times> int \<times> u8 list) option" where
  "fs_read_file P p len pos s =
     (case p of
        None \<Rightarrow> Some (s, - 1, [])
      | Some a \<Rightarrow>
          Option.bind (ff_heap s a) (\<lambda>e.
          if GET_FS e < 0 then Some (s, - 1, [])
          else case SPIFFS_open P (GET_FS e) (ff_name e) FS_RDWR (ff_fs s) of
            (f1, fd) \<Rightarrow>
              if fd < 0 then Some (s\<lparr>ff_fs := f1\<rparr>, - 1, [])
              else if ff_size e = 0 then Some (s\<lparr>ff_fs := myspiffs_close P (GET_FS e) fd f1\<rparr>, - 1, [])
              else case SPIFFS_lseek P (GET_FS e) fd pos f1 of
                (f2, res) \<Rightarrow>
                  if res < 0 then Some (s\<lparr>ff_fs := myspiffs_close P (GET_FS e) fd f2\<rparr>, res, [])
                  else case myspiffs_read P (GET_FS e) fd len f2 of
                    (f3, res, bs) \<Rightarrow> Some (s\<lparr>ff_fs := myspiffs_close P (GET_FS e) fd f3\<rparr>, res, bs)))"

text \<open>The end of \<^verbatim>\<open>fs_new_file\<close>, from \<^verbatim>\<open>myfs_fstat\<close> on; the answer has the pointer for the caller.\<close>

definition new_file_entry :: "'f spiffs \<Rightarrow> malloc \<Rightarrow> int \<Rightarrow> int \<Rightarrow> u8 list \<Rightarrow> addr option \<Rightarrow> 'f ffs \<Rightarrow> ('f ffs \<times> int \<times> addr option) option" where
  "new_file_entry P os_malloc fsNo fd filename p s =
     (case SPIFFS_fstat P fsNo fd (ff_fs s) of
        (f1, res, sz, pix) \<Rightarrow>
          let s1 = s\<lparr>ff_fs := f1\<rparr> in
          if res \<ge> 0 then
            Option.bind (case p of
                Some a \<Rightarrow> Some (a, s1)
              | None \<Rightarrow> Option.bind (os_malloc (ff_heap s1)) (\<lambda>(a, old).
                  Some (a, set_entry a (old\<lparr>ff_flags := push_bit (nat (fsNo + 3)) 1, ff_name := filename\<rparr>)
                    (s1\<lparr>fs_file_list := a # fs_file_list s1\<rparr>)))) (\<lambda>(a, s2).
            Option.bind (ff_heap s2 a) (\<lambda>e.
            Some ((set_entry a (e\<lparr>ff_pix := pix, ff_size := 0\<rparr>) s2)\<lparr>ff_fs := myspiffs_close P fsNo fd (ff_fs s2)\<rparr>, 1, Some a)))
          else Some (s1, - 1, None))"

definition fs_new_file :: "'f spiffs \<Rightarrow> malloc \<Rightarrow> int \<Rightarrow> u8 list \<Rightarrow> bool \<Rightarrow> 'f ffs \<Rightarrow> ('f ffs \<times> int \<times> addr option) option" where
  "fs_new_file P os_malloc fs filename overwrite s =
     Option.bind (fs_exists filename s) (\<lambda>p.
     Option.bind (case p of
         None \<Rightarrow>
           (case SPIFFS_open P fs filename (FS_RDWR OR FS_CREAT) (ff_fs s) of (f1, fd) \<Rightarrow> Some (Some (fs, fd, s\<lparr>ff_fs := f1\<rparr>)))
       | Some a \<Rightarrow>
           Option.bind (ff_heap s a) (\<lambda>e.
           if GET_FS e = fs \<and> \<not> overwrite then Some None
           else case SPIFFS_open P (GET_FS e) filename (FS_RDWR OR FS_CREAT OR FS_TRUNC) (ff_fs s) of
             (f1, fd) \<Rightarrow> Some (Some (GET_FS e, fd, (set_entry a (e\<lparr>ff_size := 0, ff_crc := 0\<rparr>) s)\<lparr>ff_fs := f1\<rparr>)))) (\<lambda>r.
     case r of
       None \<Rightarrow> Some (s, 0, None)
     | Some (fsNo, fd, s1) \<Rightarrow>
         let f2 = (if fd < 0 \<and> SPIFFS_errno P fsNo (ff_fs s1) = SPIFFS_ERR_DELETED
                   then SPIFFS_check P fsNo (SPIFFS_clearerr P fsNo (ff_fs s1)) else ff_fs s1)
         in new_file_entry P os_malloc fsNo fd filename p (s1\<lparr>ff_fs := f2\<rparr>)))"

definition fs_append_to_file :: "'f spiffs \<Rightarrow> addr option \<Rightarrow> u8 list \<Rightarrow> 'f ffs \<Rightarrow> ('f ffs \<times> int) option" where
  "fs_append_to_file P p dat s =
     (if dat = [] then Some (s, - 1)
      else case p of
        None \<Rightarrow> Some (s, - 1)
      | Some a \<Rightarrow>
          Option.bind (ff_heap s a) (\<lambda>e.
          let e1 = (if ff_size e + of_nat (length dat) > 65535 then e\<lparr>ff_flags := ff_flags e OR MARK_BIG\<rparr> else e);
              s1 = set_entry a e1 s
          in if GET_FS e1 < 0 then Some (s1, - 1)
             else case SPIFFS_open P (GET_FS e1) (ff_name e1) (FS_RDWR OR FS_APPEND) (ff_fs s1) of
               (f1, fd) \<Rightarrow>
                 if fd < 0 then Some (s1\<lparr>ff_fs := f1\<rparr>, - 1)
                 else case myspiffs_write P (GET_FS e1) fd dat f1 of
                   (f2, res) \<Rightarrow>
                     let s2 = s1\<lparr>ff_fs := myspiffs_close P (GET_FS e1) fd f2\<rparr> in
                     if res > 0 then Some (set_entry a (e1\<lparr>ff_size := ff_size e1 + of_int res\<rparr>) s2, res)
                     else Some (s2, - 1)))"

definition fs_rename_file :: "'f spiffs \<Rightarrow> u8 list \<Rightarrow> u8 list \<Rightarrow> 'f ffs \<Rightarrow> ('f ffs \<times> int) option" where
  "fs_rename_file P old new s =
     Option.bind (fs_exists old s) (\<lambda>p.
     case p of
       None \<Rightarrow> Some (s, - 1)
     | Some a \<Rightarrow>
         Option.bind (ff_heap s a) (\<lambda>e.
         if GET_FS e < 0 then Some (s, - 1)
         else case SPIFFS_rename P (GET_FS e) old new (ff_fs s) of
           (f1, ret) \<Rightarrow>
             if ret < 0 then Some (s\<lparr>ff_fs := f1\<rparr>, - 1)
             else Some (set_entry a (e\<lparr>ff_name := new\<rparr>) (s\<lparr>ff_fs := f1\<rparr>), 1)))"

definition drop_entry :: "addr \<Rightarrow> 'f ffs \<Rightarrow> 'f ffs" where
  "drop_entry a s = s\<lparr>fs_file_list := remove1 a (fs_file_list s), ff_heap := (ff_heap s)(a := None)\<rparr>"

definition fs_remove_by_name :: "'f spiffs \<Rightarrow> u8 list \<Rightarrow> 'f ffs \<Rightarrow> ('f ffs \<times> int) option" where
  "fs_remove_by_name P filename s =
     Option.bind (fs_exists filename s) (\<lambda>p.
     case p of
       None \<Rightarrow> Some (s, - 1)
     | Some a \<Rightarrow>
         Option.bind (ff_heap s a) (\<lambda>e.
         if GET_FS e < 0 then Some (s, 1)
         else case SPIFFS_open P (GET_FS e) (ff_name e) FS_RDWR (ff_fs s) of
           (f1, fd) \<Rightarrow>
             if fd < 0 then Some (s\<lparr>ff_fs := f1\<rparr>, - 1)
             else case myspiffs_fremove P (GET_FS e) fd f1 of
               (f2, res) \<Rightarrow>
                 let s1 = s\<lparr>ff_fs := f2\<rparr> in
                 if res \<ge> 0 \<or> res = SPIFFS_ERR_NOT_FOUND \<or> res = SPIFFS_ERR_DELETED then Some (drop_entry a s1, 1)
                 else Some (s1, res)))"

fun update_list_loop :: "addr list \<Rightarrow> 'f ffs \<Rightarrow> 'f ffs option" where
  "update_list_loop [] s = Some s"
| "update_list_loop (a # as) s =
     (case ff_heap s a of
        None \<Rightarrow> None
      | Some e \<Rightarrow> if ff_flags e AND MARK_DELETE \<noteq> 0 then Some (drop_entry a s) else update_list_loop as s)"

definition fs_update_list :: "'f ffs \<Rightarrow> 'f ffs option" where
  "fs_update_list s = update_list_loop (fs_file_list s) s"

definition fs_update_pix :: "'f spiffs \<Rightarrow> addr option \<Rightarrow> 'f ffs \<Rightarrow> ('f ffs \<times> int) option" where
  "fs_update_pix P p s =
     (case p of
        None \<Rightarrow> Some (s, - 1)
      | Some a \<Rightarrow>
          Option.bind (ff_heap s a) (\<lambda>e.
          if GET_FS e < 0 then Some (s, - 1)
          else case SPIFFS_open P (GET_FS e) (ff_name e) FS_RDWR (ff_fs s) of
            (f1, fd) \<Rightarrow>
              if fd < 0 then Some (s\<lparr>ff_fs := f1\<rparr>, - 1)
              else case SPIFFS_fstat P (GET_FS e) fd f1 of
                (f2, res, sz, pix) \<Rightarrow>
                  let s1 = (if res \<ge> 0 then set_entry a (e\<lparr>ff_size := sz, ff_pix := pix\<rparr>) s else s)
                  in Some (s1\<lparr>ff_fs := myspiffs_close P (GET_FS e) fd f2\<rparr>, res)))"

definition fs_get_avail :: "'f spiffs \<Rightarrow> int \<Rightarrow> 'f \<Rightarrow> u32" where
  "fs_get_avail P fs f = (case SPIFFS_info P fs f of (res, all_bytes, used) \<Rightarrow> if res < 0 then - 1 else all_bytes - used)"

section \<open>Checksums\<close>

definition buf_mem :: "u8 list \<Rightarrow> mem" where
  "buf_mem bs = mem_write (\<lambda>_. 0) 0 bs"

definition crc_step :: "u16 \<Rightarrow> u32 \<Rightarrow> u8 list \<Rightarrow> int \<Rightarrow> u32" where
  "crc_step flags crcOut crcBuf res =
     (if flags AND MARK_CRC32 \<noteq> 0 then Crc32_ComputeBuf crcOut (buf_mem crcBuf) 0 (of_int res)
      else if flags AND MARK_CRC16 \<noteq> 0 then ucast (Crc16_ComputeBuf (ucast crcOut) (buf_mem crcBuf) 0 (of_int res))
      else if flags AND MARK_CRC8 \<noteq> 0 then ucast (Crc8_ComputeBuf (ucast crcOut) (buf_mem crcBuf) 0 (of_int res))
      else crcOut)"

partial_function (option) crc_loop :: "'f spiffs \<Rightarrow> int \<Rightarrow> int \<Rightarrow> u16 \<Rightarrow> u32 \<Rightarrow> u32 \<Rightarrow> 'f \<Rightarrow> ('f \<times> u32) option" where
  "crc_loop sp fsNo fd flags bytesRem crcOut f =
     (if bytesRem \<noteq> 0 then
        case myspiffs_read sp fsNo fd (unat (if bytesRem < 32 then bytesRem else 32)) f of
          (f1, res, bs) \<Rightarrow>
            if res > 0 then crc_loop sp fsNo fd flags (bytesRem - of_int res) (crc_step flags crcOut bs res) f1
            else if res = 0 then Some (f1, crcOut)
            else crc_loop sp fsNo fd flags bytesRem crcOut f1
      else Some (f, crcOut))"

text \<open>The errors are returned as \<^verbatim>\<open>-1\<close> from a function of type \<^verbatim>\<open>bool\<close>: they are true.\<close>

definition fs_update_crc :: "'f spiffs \<Rightarrow> addr option \<Rightarrow> 'f ffs \<Rightarrow> ('f ffs \<times> bool) option" where
  "fs_update_crc P p s =
     (case p of
        None \<Rightarrow> Some (s, True)
      | Some a \<Rightarrow>
          Option.bind (ff_heap s a) (\<lambda>e.
          let fsNo = GET_FS e in
          if fsNo < 0 then Some (s, True)
          else case SPIFFS_open P fsNo (ff_name e) FS_RDWR (ff_fs s) of
            (f1, fd) \<Rightarrow>
              if fd < 0 then Some (s\<lparr>ff_fs := f1\<rparr>, True)
              else if ff_size e > 0 then
                case SPIFFS_lseek P fsNo fd 0 f1 of
                  (f2, res) \<Rightarrow>
                    if res < 0 then Some (s\<lparr>ff_fs := myspiffs_close P fsNo fd f2, ff_crcOut := 0\<rparr>, True)
                    else Option.bind (crc_loop P fsNo fd (ff_flags e) (ff_size e) 0 f2) (\<lambda>(f3, crcOut).
                      Some ((set_entry a (e\<lparr>ff_crc := crcOut\<rparr>) s)
                        \<lparr>ff_fs := myspiffs_close P fsNo fd (fst (SPIFFS_lseek P fsNo fd 0 f3)), ff_crcOut := crcOut\<rparr>, True))
              else Some (s\<lparr>ff_fs := myspiffs_close P fsNo fd (fst (SPIFFS_lseek P fsNo fd 0 f1))\<rparr>, True)))"

section \<open>Initialisation\<close>

definition initial_flags :: "int \<Rightarrow> u32 \<Rightarrow> u16" where
  "initial_flags fs sz = (if fs = 0 then MARK_STATICFS else (if sz > 65000 then MARK_BIG else 0) OR MARK_DYNFS)"

fun add_entries :: "malloc \<Rightarrow> int \<Rightarrow> (u8 list \<times> u32 \<times> u16) list \<Rightarrow> 'f ffs \<Rightarrow> 'f ffs option" where
  "add_entries os_malloc fs [] s = Some s"
| "add_entries os_malloc fs ((name, sz, pix) # ds) s =
     Option.bind (os_malloc (ff_heap s)) (\<lambda>(a, old).
     add_entries os_malloc fs ds
       (set_entry a \<lparr>ff_flags = initial_flags fs sz, ff_pix = pix, ff_size = sz, ff_crc = 0, ff_name = name\<rparr>
         (s\<lparr>fs_file_list := a # fs_file_list s\<rparr>)))"

definition crc_mark :: "u32 \<Rightarrow> u16" where
  "crc_mark sz = (if sz \<le> 255 then MARK_CRC8 else if sz \<le> 65535 then MARK_CRC16 else MARK_CRC32)"

fun init_crcs :: "'f spiffs \<Rightarrow> addr list \<Rightarrow> 'f ffs \<Rightarrow> 'f ffs option" where
  "init_crcs P [] s = Some s"
| "init_crcs P (a # as) s =
     Option.bind (ff_heap s a) (\<lambda>e.
     Option.bind (fs_update_crc P (Some a) (set_entry a (e\<lparr>ff_flags := ff_flags e OR crc_mark (ff_size e)\<rparr>) s)) (\<lambda>(s1, r).
     init_crcs P as s1))"

definition fs_init_info :: "'f spiffs \<Rightarrow> malloc \<Rightarrow> 'f ffs \<Rightarrow> 'f ffs option" where
  "fs_init_info P os_malloc s =
     Option.bind (add_entries os_malloc 0 (SPIFFS_dir P 0 (ff_fs s)) s) (\<lambda>s1.
     Option.bind (add_entries os_malloc 1 (SPIFFS_dir P 1 (ff_fs s1)) s1) (\<lambda>s2.
     init_crcs P (fs_file_list s2) s2))"

section \<open>Well-formed lists\<close>

text \<open>The list has no entry twice, its entries and no others are allocated, and each belongs to one of the file systems.\<close>

definition ffs_wf :: "'f ffs \<Rightarrow> bool" where
  "ffs_wf s \<longleftrightarrow> distinct (fs_file_list s) \<and> dom (ff_heap s) = set (fs_file_list s) \<and> (\<forall>e \<in> ran (ff_heap s). GET_FS e \<in> {0, 1})"

definition fresh_malloc :: "malloc \<Rightarrow> bool" where
  "fresh_malloc os_malloc \<longleftrightarrow> (\<forall>H. finite (dom H) \<longrightarrow> (\<exists>a old. os_malloc H = Some (a, old) \<and> a \<notin> dom H))"

lemma ffs_wf_fields [simp]: "ffs_wf (s\<lparr>ff_fs := f\<rparr>) = ffs_wf s" "ffs_wf (s\<lparr>ff_crcOut := c\<rparr>) = ffs_wf s"
  by (simp_all add: ffs_wf_def)

lemma ffs_wf_set_fs [simp]: "ffs_wf (set_entry a e (s\<lparr>ff_fs := f\<rparr>)) = ffs_wf (set_entry a e s)"
  by (simp add: ffs_wf_def set_entry_def)

lemma set_entry_twice [simp]: "set_entry a e (set_entry a e' s) = set_entry a e s"
  by (simp add: set_entry_def)

lemma ffs_wf_entry:
  assumes "ffs_wf s" "a \<in> set (fs_file_list s)"
  obtains e where "ff_heap s a = Some e" "GET_FS e \<in> {0, 1}"
proof -
  obtain e where e: "ff_heap s a = Some e" using assms by (auto simp: ffs_wf_def)
  moreover have "GET_FS e \<in> {0, 1}" using assms(1) ranI [of "ff_heap s", OF e] by (auto simp: ffs_wf_def)
  ultimately show thesis using that by blast
qed

lemma set_entry_wf:
  assumes "ffs_wf s" "a \<in> set (fs_file_list s)" "GET_FS e \<in> {0, 1}"
  shows "ffs_wf (set_entry a e s)"
  using assms by (auto simp: ffs_wf_def set_entry_def ran_def)

lemma new_entry_wf:
  assumes "ffs_wf s" "a \<notin> dom (ff_heap s)" "GET_FS e \<in> {0, 1}"
  shows "ffs_wf (set_entry a e (s\<lparr>fs_file_list := a # fs_file_list s\<rparr>))"
  using assms by (auto simp: ffs_wf_def set_entry_def ran_def)

lemma drop_entry_wf:
  assumes "ffs_wf s"
  shows "ffs_wf (drop_entry a s)"
  using assms by (auto simp: ffs_wf_def drop_entry_def ran_def)

lemma set_entry_fields [simp]: "fs_file_list (set_entry a e s) = fs_file_list s" "ff_heap (set_entry a e s) = (ff_heap s)(a \<mapsto> e)"
  "ff_fs (set_entry a e s) = ff_fs s"
  by (simp_all add: set_entry_def)

lemma GET_FS_cong [simp]:
  "GET_FS (e\<lparr>ff_size := v\<rparr>) = GET_FS e" "GET_FS (e\<lparr>ff_crc := v\<rparr>) = GET_FS e" "GET_FS (e\<lparr>ff_name := n\<rparr>) = GET_FS e"
  "GET_FS (e\<lparr>ff_pix := p\<rparr>) = GET_FS e"
  by (simp_all add: GET_FS_def)

text \<open>Flags outside the two bits do not change the file system of an entry.\<close>

lemma GET_FS_flags:
  assumes "mark AND MARK_DYNFS = 0" "mark AND MARK_STATICFS = 0"
  shows "GET_FS (e\<lparr>ff_flags := ff_flags e OR mark\<rparr>) = GET_FS e"
  using assms by (simp add: GET_FS_def bit.conj_disj_distrib2)

lemma find_named_wf:
  assumes "set as \<subseteq> dom H"
  shows "\<exists>p. find_named H name as = Some p \<and> (\<forall>a. p = Some a \<longrightarrow> a \<in> set as)"
  using assms by (induction as) (auto split: option.splits)

definition valid_ptr :: "addr option \<Rightarrow> 'f ffs \<Rightarrow> bool" where
  "valid_ptr p s \<longleftrightarrow> (case p of None \<Rightarrow> True | Some a \<Rightarrow> a \<in> set (fs_file_list s))"

lemma fs_exists_wf:
  assumes "ffs_wf s"
  shows "\<exists>p. fs_exists name s = Some p \<and> valid_ptr p s"
proof -
  have "set (fs_file_list s) \<subseteq> dom (ff_heap s)" using assms by (simp add: ffs_wf_def)
  from find_named_wf [OF this, of name] show ?thesis by (auto simp: fs_exists_def valid_ptr_def split: option.splits)
qed

lemma dom_finite: "ffs_wf s \<Longrightarrow> finite (dom (ff_heap s))"
  by (simp add: ffs_wf_def)

text \<open>What an operation that can neither fault nor spoil the list satisfies.\<close>

definition safely :: "('f ffs \<times> 'a) option \<Rightarrow> bool" where
  "safely r \<longleftrightarrow> (case r of None \<Rightarrow> False | Some (s, x) \<Rightarrow> ffs_wf s)"

lemma safely_Some [simp]: "safely (Some r) \<longleftrightarrow> ffs_wf (fst r)"
  by (cases r) (simp add: safely_def)

lemma fs_read_file_safe:
  assumes "ffs_wf s" "valid_ptr p s"
  shows "safely (fs_read_file P p len pos s)"
proof (cases p)
  case (Some a)
  then obtain e where "ff_heap s a = Some e" using assms by (auto simp: valid_ptr_def elim: ffs_wf_entry)
  then show ?thesis using Some assms(1) by (auto simp: fs_read_file_def split: prod.splits)
qed (simp add: fs_read_file_def assms(1))

lemma new_file_entry_safe:
  assumes "ffs_wf s" "valid_ptr p s" "fsNo \<in> {0, 1}" "fresh_malloc os_malloc"
  shows "safely (new_file_entry P os_malloc fsNo fd filename p s)"
proof -
  obtain f1 res sz pix where st: "SPIFFS_fstat P fsNo fd (ff_fs s) = (f1, res, sz, pix)" by (metis prod_cases4)
  show ?thesis
  proof (cases "res \<ge> 0")
    case r: True
    show ?thesis
    proof (cases p)
      case None
      obtain a old where m: "os_malloc (ff_heap s) = Some (a, old)" "a \<notin> dom (ff_heap s)"
        using assms(4) dom_finite [OF assms(1)] unfolding fresh_malloc_def by blast
      define e where "e = old\<lparr>ff_flags := push_bit (nat (fsNo + 3)) 1, ff_name := filename\<rparr>"
      have e: "GET_FS e \<in> {0, 1}" using assms(3) by (auto simp: GET_FS_def e_def)
      have "ffs_wf (set_entry a (e\<lparr>ff_pix := pix, ff_size := 0\<rparr>) (s\<lparr>fs_file_list := a # fs_file_list s\<rparr>))"
        by (rule new_entry_wf [OF assms(1) m(2)]) (use e in simp)
      then show ?thesis using st r None m(1) by (simp add: new_file_entry_def set_entry_def e_def)
    next
      case (Some a)
      then have a: "a \<in> set (fs_file_list s)" using assms(2) by (simp add: valid_ptr_def)
      obtain e where e: "ff_heap s a = Some e" "GET_FS e \<in> {0, 1}" using ffs_wf_entry [OF assms(1) a] .
      have "ffs_wf (set_entry a (e\<lparr>ff_pix := pix, ff_size := 0\<rparr>) s)" by (rule set_entry_wf [OF assms(1) a]) (use e(2) in simp)
      then show ?thesis using st r Some e(1) by (simp add: new_file_entry_def set_entry_def)
    qed
  next
    case False
    then show ?thesis using st assms(1) by (simp add: new_file_entry_def Let_def)
  qed
qed

lemma fs_new_file_safe:
  assumes "ffs_wf s" "fs \<in> {0, 1}" "fresh_malloc os_malloc"
  shows "safely (fs_new_file P os_malloc fs filename overwrite s)"
proof -
  obtain p where p: "fs_exists filename s = Some p" "valid_ptr p s" using fs_exists_wf [OF assms(1)] by blast
  show ?thesis
  proof (cases p)
    case None
    then show ?thesis using p(1) assms
      by (auto simp: fs_new_file_def Let_def valid_ptr_def intro!: new_file_entry_safe split: prod.splits)
  next
    case (Some a)
    have a: "a \<in> set (fs_file_list s)" using p(2) Some by (simp add: valid_ptr_def)
    obtain e where e: "ff_heap s a = Some e" "GET_FS e \<in> {0, 1}" using ffs_wf_entry [OF assms(1) a] .
    have "ffs_wf (set_entry a (e\<lparr>ff_size := 0, ff_crc := 0\<rparr>) s)" by (rule set_entry_wf [OF assms(1) a]) (use e(2) in simp)
    then show ?thesis using p(1) Some e a assms
      by (auto simp: fs_new_file_def Let_def valid_ptr_def intro!: new_file_entry_safe split: prod.splits)
  qed
qed

lemma fs_append_to_file_safe:
  assumes "ffs_wf s" "valid_ptr p s"
  shows "safely (fs_append_to_file P p dat s)"
proof (cases p)
  case (Some a)
  then have a: "a \<in> set (fs_file_list s)" using assms(2) by (simp add: valid_ptr_def)
  obtain e where e: "ff_heap s a = Some e" "GET_FS e \<in> {0, 1}" using ffs_wf_entry [OF assms(1) a] .
  define e1 where "e1 = (if ff_size e + of_nat (length dat) > 65535 then e\<lparr>ff_flags := ff_flags e OR MARK_BIG\<rparr> else e)"
  have e1: "GET_FS e1 \<in> {0, 1}" using e(2) GET_FS_flags [of MARK_BIG e] by (simp add: e1_def)
  have w: "ffs_wf (set_entry a (e1\<lparr>ff_size := v\<rparr>) s)" "ffs_wf (set_entry a e1 s)" for v
    using set_entry_wf [OF assms(1) a] e1 by simp_all
  define t where "t = set_entry a e1 s"
  have eq: "fs_append_to_file P p dat s =
      (if dat = [] then Some (s, - 1)
       else if GET_FS e1 < 0 then Some (t, - 1)
       else case SPIFFS_open P (GET_FS e1) (ff_name e1) (FS_RDWR OR FS_APPEND) (ff_fs t) of
         (f1, fd) \<Rightarrow>
           if fd < 0 then Some (t\<lparr>ff_fs := f1\<rparr>, - 1)
           else case myspiffs_write P (GET_FS e1) fd dat f1 of
             (f2, res) \<Rightarrow>
               if res > 0 then Some (set_entry a (e1\<lparr>ff_size := ff_size e1 + of_int res\<rparr>) (t\<lparr>ff_fs := myspiffs_close P (GET_FS e1) fd f2\<rparr>), res)
               else Some (t\<lparr>ff_fs := myspiffs_close P (GET_FS e1) fd f2\<rparr>, - 1))"
    by (simp only: fs_append_to_file_def Some e(1) option.case bind.simps Let_def e1_def t_def)
  have "ffs_wf t" "ffs_wf (set_entry a (e1\<lparr>ff_size := v\<rparr>) (t\<lparr>ff_fs := f\<rparr>))" for v f
    using w by (simp_all add: t_def)
  then show ?thesis unfolding eq using assms(1) by (auto split: prod.splits)
qed (simp add: fs_append_to_file_def assms(1))

lemma fs_rename_file_safe:
  assumes "ffs_wf s"
  shows "safely (fs_rename_file P old new s)"
proof -
  obtain p where p: "fs_exists old s = Some p" "valid_ptr p s" using fs_exists_wf [OF assms] by blast
  show ?thesis
  proof (cases p)
    case (Some a)
    then have a: "a \<in> set (fs_file_list s)" using p(2) by (simp add: valid_ptr_def)
    obtain e where e: "ff_heap s a = Some e" "GET_FS e \<in> {0, 1}" using ffs_wf_entry [OF assms a] .
    have "ffs_wf (set_entry a (e\<lparr>ff_name := new\<rparr>) s)" by (rule set_entry_wf [OF assms a]) (use e(2) in simp)
    then show ?thesis using p(1) Some e(1) assms by (auto simp: fs_rename_file_def split: prod.splits)
  qed (simp add: fs_rename_file_def p(1) assms)
qed

lemma fs_remove_by_name_safe:
  assumes "ffs_wf s"
  shows "safely (fs_remove_by_name P filename s)"
proof -
  obtain p where p: "fs_exists filename s = Some p" "valid_ptr p s" using fs_exists_wf [OF assms] by blast
  show ?thesis
  proof (cases p)
    case (Some a)
    then have "a \<in> set (fs_file_list s)" using p(2) by (simp add: valid_ptr_def)
    then obtain e where "ff_heap s a = Some e" using ffs_wf_entry [OF assms] by blast
    then show ?thesis using p(1) Some assms drop_entry_wf [of "s\<lparr>ff_fs := f\<rparr>" a for f]
      by (auto simp: fs_remove_by_name_def Let_def split: prod.splits)
  qed (simp add: fs_remove_by_name_def p(1) assms)
qed

lemma fs_update_list_safe:
  assumes "ffs_wf s"
  shows "\<exists>s'. fs_update_list s = Some s' \<and> ffs_wf s'"
proof -
  have "\<exists>s'. update_list_loop as s = Some s' \<and> ffs_wf s'" if "set as \<subseteq> dom (ff_heap s)" for as
    using that assms drop_entry_wf [OF assms] by (induction as) (auto split: option.splits)
  then show ?thesis using assms by (simp add: fs_update_list_def ffs_wf_def)
qed

lemma fs_update_pix_safe:
  assumes "ffs_wf s" "valid_ptr p s"
  shows "safely (fs_update_pix P p s)"
proof (cases p)
  case (Some a)
  then have a: "a \<in> set (fs_file_list s)" using assms(2) by (simp add: valid_ptr_def)
  obtain e where e: "ff_heap s a = Some e" "GET_FS e \<in> {0, 1}" using ffs_wf_entry [OF assms(1) a] .
  have "ffs_wf (set_entry a (e\<lparr>ff_size := v, ff_pix := w\<rparr>) s)" for v w using set_entry_wf [OF assms(1) a] e(2) by simp
  then show ?thesis using Some e(1) assms(1) by (auto simp: fs_update_pix_def Let_def set_entry_def split: prod.splits)
qed (simp add: fs_update_pix_def assms(1))

section \<open>Reading a whole file\<close>

text \<open>
  The documented behaviour of SPIFFS for an open file: with \<open>pos\<close> the position, a read inside the contents delivers the
  next bytes, as many as are asked for and as there are, and seeking to 0 succeeds.
\<close>

definition file_on :: "'f spiffs \<Rightarrow> int \<Rightarrow> int \<Rightarrow> u8 list \<Rightarrow> ('f \<Rightarrow> nat) \<Rightarrow> bool" where
  "file_on P t fd c pos \<longleftrightarrow>
     (\<forall>f n. 0 < n \<and> pos f < length c \<longrightarrow>
        (case SPIFFS_read P t fd n f of (f1, res, bs) \<Rightarrow>
           bs = take n (drop (pos f) c) \<and> res = int (length bs) \<and> pos f1 = pos f + length bs)) \<and>
     (\<forall>f. snd (SPIFFS_lseek P t fd 0 f) \<ge> 0 \<and> pos (fst (SPIFFS_lseek P t fd 0 f)) = 0)"

definition crc_fold :: "u16 \<Rightarrow> u32 \<Rightarrow> u8 list \<Rightarrow> u32" where
  "crc_fold flags crc bs =
     (if flags AND MARK_CRC32 \<noteq> 0 then foldl (crc_update 0xEDB88320) (crc XOR 0xFFFFFFFF) bs XOR 0xFFFFFFFF
      else if flags AND MARK_CRC16 \<noteq> 0 then ucast (foldl (crc_update 0xA001) (ucast crc) bs :: u16)
      else if flags AND MARK_CRC8 \<noteq> 0 then ucast (foldl (crc_update 0x8C) (ucast crc) bs :: u8)
      else crc)"

lemma ucast_back [simp]: "(ucast (ucast (c :: u16) :: u32) :: u16) = c" "(ucast (ucast (d :: u8) :: u32) :: u8) = d"
  by (rule bit_word_eqI, simp add: bit_simps)+

lemma crc_fold_append: "crc_fold flags (crc_fold flags crc xs) ys = crc_fold flags crc (xs @ ys)"
  by (simp add: crc_fold_def xor.assoc)

lemma crc_fold_Nil [simp]: "crc_fold flags 0 [] = 0"
  by (simp add: crc_fold_def)

lemma crc_step_fold:
  assumes "length bs < 2 ^ 16"
  shows "crc_step flags crc bs (int (length bs)) = crc_fold flags crc bs"
proof -
  have "unat (of_nat (length bs) :: u32) = length bs" "unat (of_nat (length bs) :: u16) = length bs"
    using assms by (intro unat_of_nat_small; simp)+
  then show ?thesis by (simp add: crc_step_def crc_fold_def crc_folds buf_mem_def)
qed

lemma crc_loop_whole:
  assumes "file_on P t fd c pos" "pos f \<le> length c" "length c < 2 ^ 32"
  shows "\<exists>f1. crc_loop P t fd flags (of_nat (length c - pos f)) (crc_fold flags 0 (take (pos f) c)) f = Some (f1, crc_fold flags 0 c)"
  using assms(2)
proof (induction "length c - pos f" arbitrary: f rule: less_induct)
  case less
  define crc where "crc = crc_fold flags 0 (take (pos f) c)"
  define r where "r = length c - pos f"
  have r32: "r < 2 ^ 32" using assms(3) by (simp add: r_def)
  then have ur: "unat (of_nat r :: u32) = r" by (intro unat_of_nat_small) simp
  show ?case
  proof (cases "r = 0")
    case True
    then have "pos f = length c" using less.prems by (simp add: r_def)
    then show ?thesis by (subst crc_loop.simps) simp
  next
    case False
    define n where "n = (if r < 32 then r else 32)"
    have n: "0 < n" "n \<le> r" "n \<le> 32" using False by (auto simp: n_def)
    have nz: "(of_nat r :: u32) \<noteq> 0" using ur False by (metis unat_0)
    have toread: "unat (if (of_nat r :: u32) < 32 then of_nat r else (32 :: u32)) = n" using ur by (simp add: n_def word_less_nat_alt)
    obtain f1 res bs where rd: "SPIFFS_read P t fd n f = (f1, res, bs)" by (metis prod_cases3)
    have p: "0 < n \<and> pos f < length c" using n(1) False by (simp add: r_def)
    then have b: "bs = take n (drop (pos f) c)" "res = int (length bs)" "pos f1 = pos f + length bs"
      using assms(1) rd unfolding file_on_def by (metis (mono_tags, lifting) case_prod_conv)+
    have lb: "length bs = n" using b(1) n(2) by (simp add: r_def)
    have rem: "(of_nat r :: u32) - of_int (int n) = of_nat (length c - pos f1)"
    proof -
      have "length c - pos f1 = r - n" using b(3) lb by (simp add: r_def)
      then show ?thesis using n(2) by (simp add: of_nat_diff)
    qed
    have step: "crc_loop P t fd flags (of_nat r) crc f =
        crc_loop P t fd flags (of_nat (length c - pos f1)) (crc_fold flags crc bs) f1"
      using nz toread rd b(2) lb n crc_step_fold [of bs flags crc] rem
      by (subst crc_loop.simps) (simp add: myspiffs_read_def)
    have "crc_fold flags crc bs = crc_fold flags 0 (take (pos f1) c)"
      using b(1,3) lb by (simp add: crc_def crc_fold_append take_add)
    moreover have "length c - pos f1 < length c - pos f" "pos f1 \<le> length c"
      using b(3) lb n(2) p [THEN conjunct1] p [THEN conjunct2] unfolding r_def by linarith+
    then obtain f2 where "crc_loop P t fd flags (of_nat (length c - pos f1)) (crc_fold flags 0 (take (pos f1) c)) f1 = Some (f2, crc_fold flags 0 c)"
      using less.hyps [of f1] by blast
    ultimately show ?thesis using step by (auto simp: crc_def r_def)
  qed
qed

section \<open>Properties\<close>

text \<open>The operations on the list; a pointer is one that \<^verbatim>\<open>fs_exists\<close> or \<^verbatim>\<open>fs_new_file\<close> has given.\<close>

datatype fs_op = Fs_read "addr option" nat u32 | Fs_new int "u8 list" bool | Fs_append "addr option" "u8 list"
  | Fs_rename "u8 list" "u8 list" | Fs_remove "u8 list" | Fs_update_list | Fs_update_pix "addr option"

fun fs_step :: "'f spiffs \<Rightarrow> malloc \<Rightarrow> fs_op \<Rightarrow> 'f ffs \<Rightarrow> 'f ffs option" where
  "fs_step P os_malloc (Fs_read p len pos) s = map_option fst (fs_read_file P p len pos s)"
| "fs_step P os_malloc (Fs_new fs name overwrite) s = map_option fst (fs_new_file P os_malloc fs name overwrite s)"
| "fs_step P os_malloc (Fs_append p dat) s = map_option fst (fs_append_to_file P p dat s)"
| "fs_step P os_malloc (Fs_rename old new) s = map_option fst (fs_rename_file P old new s)"
| "fs_step P os_malloc (Fs_remove name) s = map_option fst (fs_remove_by_name P name s)"
| "fs_step P os_malloc Fs_update_list s = fs_update_list s"
| "fs_step P os_malloc (Fs_update_pix p) s = map_option fst (fs_update_pix P p s)"

fun fs_valid :: "fs_op \<Rightarrow> 'f ffs \<Rightarrow> bool" where
  "fs_valid (Fs_read p len pos) s = valid_ptr p s"
| "fs_valid (Fs_new fs name overwrite) s = (fs \<in> {0, 1})"
| "fs_valid (Fs_append p dat) s = valid_ptr p s"
| "fs_valid (Fs_update_pix p) s = valid_ptr p s"
| "fs_valid op s = True"

lemma safely_iff: "safely r \<longleftrightarrow> (\<exists>s. map_option fst r = Some s \<and> ffs_wf s)"
  by (cases r) (auto simp: safely_def)

lemma fs_step_wf:
  assumes "fresh_malloc os_malloc" "ffs_wf s" "fs_valid op s"
  shows "\<exists>s'. fs_step P os_malloc op s = Some s' \<and> ffs_wf s'"
  using assms(3) fs_read_file_safe [OF assms(2)] fs_new_file_safe [OF assms(2) _ assms(1)] fs_append_to_file_safe [OF assms(2)]
    fs_rename_file_safe [OF assms(2)] fs_remove_by_name_safe [OF assms(2)] fs_update_list_safe [OF assms(2)]
    fs_update_pix_safe [OF assms(2)]
  by (cases op) (simp_all only: fs_step.simps fs_valid.simps safely_iff [symmetric])

lemma add_entries_wf:
  assumes "fresh_malloc os_malloc" "ffs_wf s" "fs \<in> {0, 1}"
  shows "\<exists>s'. add_entries os_malloc fs ds s = Some s' \<and> ffs_wf s'"
  using assms(2)
proof (induction ds arbitrary: s)
  case (Cons d ds)
  obtain name sz pix where d: "d = (name, sz, pix)" by (cases d)
  obtain a old where m: "os_malloc (ff_heap s) = Some (a, old)" "a \<notin> dom (ff_heap s)"
    using assms(1) dom_finite [OF Cons.prems] unfolding fresh_malloc_def by blast
  define e where "e = \<lparr>ff_flags = initial_flags fs sz, ff_pix = pix, ff_size = sz, ff_crc = 0, ff_name = name\<rparr>"
  have "GET_FS e \<in> {0, 1}" using assms(3) by (auto simp: GET_FS_def e_def initial_flags_def)
  then have "ffs_wf (set_entry a e (s\<lparr>fs_file_list := a # fs_file_list s\<rparr>))" by (rule new_entry_wf [OF Cons.prems m(2)])
  then show ?case using Cons.IH m(1) by (simp add: d e_def)
qed simp


definition still_spiffs :: "unit spiffs" where
  "still_spiffs = \<lparr>SPIFFS_open = (\<lambda>t name flags f. (f, 3)), SPIFFS_close = (\<lambda>t fd f. (f, 0)), SPIFFS_read = (\<lambda>t fd n f. (f, 0, [])),
     SPIFFS_write = (\<lambda>t fd bs f. (f, int (length bs))), SPIFFS_lseek = (\<lambda>t fd p f. (f, 0)), SPIFFS_fstat = (\<lambda>t fd f. (f, 0, 0, 7)),
     SPIFFS_fremove = (\<lambda>t fd f. (f, 0)), SPIFFS_rename = (\<lambda>t old new f. (f, 0)), SPIFFS_errno = (\<lambda>t f. 0),
     SPIFFS_clearerr = (\<lambda>t f. f), SPIFFS_check = (\<lambda>t f. f), SPIFFS_info = (\<lambda>t f. (0, 0, 0)), SPIFFS_dir = (\<lambda>t f. [])\<rparr>"

definition next_malloc :: malloc where
  "next_malloc H = Some (Suc (Max (insert 0 (dom H))), \<lparr>ff_flags = 0, ff_pix = 0, ff_size = 0, ff_crc = 0, ff_name = []\<rparr>)"

lemma next_malloc_fresh: "fresh_malloc next_malloc"
proof -
  have "Suc (Max (insert 0 (dom H))) \<notin> dom H" if "finite (dom H)" for H :: "addr \<rightharpoonup> fs_file_st"
  proof
    assume "Suc (Max (insert 0 (dom H))) \<in> dom H"
    then have "Suc (Max (insert 0 (dom H))) \<le> Max (insert 0 (dom H))" using that by (intro Max_ge) auto
    then show False by simp
  qed
  then show ?thesis by (auto simp: fresh_malloc_def next_malloc_def)
qed

definition one_file :: "unit ffs" where
  "one_file = \<lparr>ff_heap = [1 \<mapsto> \<lparr>ff_flags = MARK_DYNFS, ff_pix = 5, ff_size = 3, ff_crc = 0, ff_name = [100, 97, 116, 97]\<rparr>],
     fs_file_list = [1], ff_fs = (), ff_crcOut = 0\<rparr>"


text \<open>Files are found by a part of their name: removing the file \<open>a\<close>, which does not exist, removes the file \<open>data\<close>.\<close>

lemma fs_remove_hits_another_file:
  "\<exists>s'. fs_remove_by_name still_spiffs [97] one_file = Some (s', 1) \<and> fs_file_list s' = []"
  by (simp add: fs_remove_by_name_def fs_exists_def one_file_def still_spiffs_def myspiffs_fremove_def drop_entry_def GET_FS_def Let_def)

text \<open>Creating a file whose name is part of another one's changes the entry of that file and makes none for the new one.\<close>

lemma fs_new_file_takes_entry:
  "\<exists>s'. fs_new_file still_spiffs next_malloc 1 [97] True one_file = Some (s', 1, Some 1) \<and> fs_file_list s' = [1] \<and>
    map_option ff_name (ff_heap s' 1) = Some [100, 97, 116, 97] \<and> map_option ff_pix (ff_heap s' 1) = Some 7 \<and>
    map_option ff_size (ff_heap s' 1) = Some 0"
  by (simp add: fs_new_file_def new_file_entry_def fs_exists_def one_file_def still_spiffs_def GET_FS_def Let_def set_entry_def myspiffs_close_def)

text \<open>
  C33. Checksums of files: if SPIFFS opens the file of an entry, delivers its contents and the entry has its size,
  \<^verbatim>\<open>fs_update_crc\<close> returns and stores in the entry the checksum of the whole contents, computed from pieces of 32 bytes, with
  the function that \<^verbatim>\<open>fs_init_info\<close> has chosen by the size: the 8-bit one up to 255 bytes, the 16-bit one up to 65535 and
  the 32-bit one beyond. No other entry changes.
\<close>

theorem fs_update_crc_whole_file:
  assumes "ff_heap s a = Some e" "GET_FS e \<in> {0, 1}" "SPIFFS_open P (GET_FS e) (ff_name e) FS_RDWR (ff_fs s) = (f1, fd)" "fd \<ge> 0"
    "file_on P (GET_FS e) fd c pos" "c \<noteq> []" "length c < 2 ^ 32" "ff_size e = of_nat (length c)"
    "ff_flags e AND (MARK_CRC32 OR MARK_CRC16 OR MARK_CRC8) = crc_mark (ff_size e)"
  shows "\<exists>s' v. fs_update_crc P (Some a) s = Some (s', True) \<and> ff_heap s' = (ff_heap s)(a \<mapsto> e\<lparr>ff_crc := v\<rparr>) \<and>
    fs_file_list s' = fs_file_list s \<and>
    v = (if length c \<le> 255 then ucast (Crc8_ComputeBuf 0 (buf_mem c) 0 (of_nat (length c)))
         else if length c \<le> 65535 then ucast (Crc16_ComputeBuf 0 (buf_mem c) 0 (of_nat (length c)))
         else Crc32_ComputeBuf 0 (buf_mem c) 0 (of_nat (length c)))"
proof -
  obtain f2 res where sk: "SPIFFS_lseek P (GET_FS e) fd 0 f1 = (f2, res)" by fastforce
  have f2: "res \<ge> 0" "pos f2 = 0" using assms(5) sk unfolding file_on_def by (metis fst_conv snd_conv)+
  have ul: "unat (of_nat (length c) :: u32) = length c" by (rule unat_of_nat_small) (use assms(7) in simp)
  have nz: "(of_nat (length c) :: u32) > 0" using ul assms(6) by (simp add: word_less_nat_alt)
  obtain f3 where lp: "crc_loop P (GET_FS e) fd (ff_flags e) (of_nat (length c)) 0 f2 = Some (f3, crc_fold (ff_flags e) 0 c)"
    using crc_loop_whole [OF assms(5), of f2 "ff_flags e"] f2(2) assms(7) by auto
  define v where "v = crc_fold (ff_flags e) 0 c"
  have fl: "ff_flags e AND MARK_CRC32 = crc_mark (ff_size e) AND MARK_CRC32" "ff_flags e AND MARK_CRC16 = crc_mark (ff_size e) AND MARK_CRC16"
    "ff_flags e AND MARK_CRC8 = crc_mark (ff_size e) AND MARK_CRC8"
    unfolding assms(9) [symmetric] by (simp_all add: and.assoc)
  have mk: "crc_mark (ff_size e) = (if length c \<le> 255 then MARK_CRC8 else if length c \<le> 65535 then MARK_CRC16 else MARK_CRC32)"
    using ul by (simp add: crc_mark_def assms(8) word_le_nat_alt)
  have "unat (of_nat (length c) :: u16) = length c" if "length c \<le> 65535" by (rule unat_of_nat_small) (use that in simp)
  then have "v = (if length c \<le> 255 then ucast (Crc8_ComputeBuf 0 (buf_mem c) 0 (of_nat (length c)))
         else if length c \<le> 65535 then ucast (Crc16_ComputeBuf 0 (buf_mem c) 0 (of_nat (length c)))
         else Crc32_ComputeBuf 0 (buf_mem c) 0 (of_nat (length c)))"
    using ul by (simp add: v_def crc_fold_def fl mk crc_folds buf_mem_def)
  moreover define s' where "s' = (set_entry a (e\<lparr>ff_crc := v\<rparr>) s)
      \<lparr>ff_fs := myspiffs_close P (GET_FS e) fd (fst (SPIFFS_lseek P (GET_FS e) fd 0 f3)), ff_crcOut := v\<rparr>"
  have "fs_update_crc P (Some a) s = Some (s', True)"
    using assms(1-4) sk f2(1) nz lp by (auto simp: fs_update_crc_def Let_def assms(8) v_def s'_def)
  moreover have "ff_heap s' = (ff_heap s)(a \<mapsto> e\<lparr>ff_crc := v\<rparr>)" "fs_file_list s' = fs_file_list s" by (simp_all add: s'_def)
  ultimately show ?thesis by blast
qed

text \<open>A file system that holds one file, with the position in it as its state.\<close>

definition one_file_spiffs :: "u8 list \<Rightarrow> nat spiffs" where
  "one_file_spiffs c = \<lparr>SPIFFS_open = (\<lambda>t name flags f. (0, 3)), SPIFFS_close = (\<lambda>t fd f. (f, 0)),
     SPIFFS_read = (\<lambda>t fd n f. (f + length (take n (drop f c)), int (length (take n (drop f c))), take n (drop f c))),
     SPIFFS_write = (\<lambda>t fd bs f. (f, int (length bs))), SPIFFS_lseek = (\<lambda>t fd p f. (unat p, 0)), SPIFFS_fstat = (\<lambda>t fd f. (f, 0, 0, 7)),
     SPIFFS_fremove = (\<lambda>t fd f. (f, 0)), SPIFFS_rename = (\<lambda>t old new f. (f, 0)), SPIFFS_errno = (\<lambda>t f. 0),
     SPIFFS_clearerr = (\<lambda>t f. f), SPIFFS_check = (\<lambda>t f. f), SPIFFS_info = (\<lambda>t f. (0, 0, 0)), SPIFFS_dir = (\<lambda>t f. [])\<rparr>"

theorem fs_update_crc_whole_file_witness:
  "\<exists>s' v. fs_update_crc (one_file_spiffs (replicate 40 1)) (Some 1)
      \<lparr>ff_heap = [1 \<mapsto> \<lparr>ff_flags = MARK_CRC8 OR MARK_DYNFS, ff_pix = 5, ff_size = 40, ff_crc = 0, ff_name = [100]\<rparr>],
       fs_file_list = [1], ff_fs = 0, ff_crcOut = 0\<rparr> = Some (s', True) \<and>
    map_option ff_crc (ff_heap s' 1) = Some v \<and> v = ucast (Crc8_ComputeBuf 0 (buf_mem (replicate 40 1)) 0 40)"
proof -
  define e where "e = \<lparr>ff_flags = MARK_CRC8 OR MARK_DYNFS, ff_pix = 5, ff_size = 40, ff_crc = 0, ff_name = [100 :: u8]\<rparr>"
  define s where "s = \<lparr>ff_heap = [1 \<mapsto> e], fs_file_list = [1], ff_fs = (0 :: nat), ff_crcOut = 0\<rparr>"
  have "file_on (one_file_spiffs (replicate 40 1)) 1 3 (replicate 40 1) (\<lambda>f. f)" by (simp add: file_on_def one_file_spiffs_def)
  moreover have "GET_FS e = 1" by (simp add: GET_FS_def e_def)
  moreover have "SPIFFS_open (one_file_spiffs (replicate 40 1)) 1 (ff_name e) FS_RDWR (ff_fs s) = (0, 3)" by (simp add: one_file_spiffs_def)
  ultimately have "\<exists>s' v. fs_update_crc (one_file_spiffs (replicate 40 1)) (Some 1) s = Some (s', True) \<and>
      ff_heap s' = (ff_heap s)(1 \<mapsto> e\<lparr>ff_crc := v\<rparr>) \<and> v = ucast (Crc8_ComputeBuf 0 (buf_mem (replicate 40 1)) 0 40)"
    using fs_update_crc_whole_file [of s 1 e "one_file_spiffs (replicate 40 1)" 0 3 "replicate 40 1" "\<lambda>f. f"]
    by (simp add: s_def crc_mark_def) (auto simp: e_def)
  then show ?thesis unfolding s_def e_def by auto
qed

text \<open>A read error while the checksum is computed: the loop tries again forever.\<close>

lemma crc_loop_hangs:
  assumes "\<And>n f. fst (snd (SPIFFS_read P t fd n f)) < 0" "rem \<noteq> 0"
  shows "crc_loop P t fd flags rem crc f = None"
proof -
  have "rem = 0 \<or> \<not> (\<forall>n f. fst (snd (SPIFFS_read P t fd n f)) < 0)"
    if "crc_loop P t fd flags rem crc f = Some y" for P :: "'a spiffs" and t fd flags rem crc f y
    using that
  proof (rule crc_loop.raw_induct [rotated])
    fix crc_loop :: "'a spiffs \<Rightarrow> int \<Rightarrow> int \<Rightarrow> u16 \<Rightarrow> u32 \<Rightarrow> u32 \<Rightarrow> 'a \<Rightarrow> ('a \<times> u32) option" and P t fd flags rem crc f y
    assume IH: "\<And>P t fd flags rem crc f y. crc_loop P t fd flags rem crc f = Some y \<Longrightarrow>
          rem = 0 \<or> \<not> (\<forall>n f. fst (snd (SPIFFS_read P t fd n f)) < 0)"
      and eq: "(if rem \<noteq> 0 then
          case myspiffs_read P t fd (unat (if rem < 32 then rem else 32)) f of
            (f1, res, bs) \<Rightarrow>
              if res > 0 then crc_loop P t fd flags (rem - of_int res) (crc_step flags crc bs res) f1
              else if res = 0 then Some (f1, crc)
              else crc_loop P t fd flags rem crc f1
        else Some (f, crc)) = Some y"
    obtain f1 res bs where rd: "SPIFFS_read P t fd (unat (if rem < 32 then rem else 32)) f = (f1, res, bs)" by (metis prod_cases3)
    show "rem = 0 \<or> \<not> (\<forall>n f. fst (snd (SPIFFS_read P t fd n f)) < 0)"
    proof (rule ccontr)
      assume n: "\<not> (rem = 0 \<or> \<not> (\<forall>n f. fst (snd (SPIFFS_read P t fd n f)) < 0))"
      then have "res < 0" using rd by (metis fst_conv snd_conv)
      then have "crc_loop P t fd flags rem crc f1 = Some y" using eq rd n by (simp add: myspiffs_read_def)
      then show False using IH n by blast
    qed
  qed
  then show ?thesis using assms by (cases "crc_loop P t fd flags rem crc f") blast+
qed

end
