(* ===== verification/User_Main.thy ===== *)
theory User_Main
  imports Flash_Access
begin

text \<open>
  What the start of the setup application does to the flash, \<^verbatim>\<open>app_setup/user/user_main.c\<close>: both file systems are
  mounted and, if that fails, formatted, and the SDK is told in which sector it may keep the radio calibration. SPIFFS is a
  parameter; what the rest of the start does (clock, serial port, wifi, time server) are calls of the SDK.
\<close>

record 'f fs_ops =
  fs_mount :: "fs_type \<Rightarrow> 'f \<Rightarrow> 'f"
  fs_unmount :: "fs_type \<Rightarrow> 'f \<Rightarrow> 'f"
  fs_mounted :: "fs_type \<Rightarrow> 'f \<Rightarrow> bool"

definition mount_fs :: "'f hal \<Rightarrow> 'f fs_ops \<Rightarrow> fs_type \<Rightarrow> bool \<Rightarrow> 'f \<Rightarrow> 'f option" where
  "mount_fs H F t force f =
     (let f1 = fs_mount F t f in
      if \<not> fs_mounted F t f1 \<and> force then map_option fst (myspiffs_format H (fs_unmount F) (fs_mount F) t f1)
      else Some f1)"

definition setup_init_mounts :: "'f hal \<Rightarrow> 'f fs_ops \<Rightarrow> 'f \<Rightarrow> 'f option" where
  "setup_init_mounts H F f = Option.bind (mount_fs H F statfs True f) (mount_fs H F dynfs True)"

datatype flash_size_map =
    FLASH_SIZE_4M_MAP_256_256
  | FLASH_SIZE_2M
  | FLASH_SIZE_8M_MAP_512_512
  | FLASH_SIZE_16M_MAP_512_512
  | FLASH_SIZE_32M_MAP_512_512
  | FLASH_SIZE_16M_MAP_1024_1024
  | FLASH_SIZE_32M_MAP_1024_1024

definition user_rf_cal_sector_set :: "flash_size_map \<Rightarrow> u32" where
  "user_rf_cal_sector_set size_map =
     (case size_map of
        FLASH_SIZE_4M_MAP_256_256 \<Rightarrow> 128 - 5
      | FLASH_SIZE_8M_MAP_512_512 \<Rightarrow> 256 - 5
      | FLASH_SIZE_16M_MAP_512_512 \<Rightarrow> 512 - 5
      | FLASH_SIZE_16M_MAP_1024_1024 \<Rightarrow> 512 - 5
      | FLASH_SIZE_32M_MAP_512_512 \<Rightarrow> 1024 - 5
      | FLASH_SIZE_32M_MAP_1024_1024 \<Rightarrow> 1024 - 5
      | _ \<Rightarrow> 0)"

section \<open>What the start leaves alone\<close>

definition fs_area :: "fs_type \<Rightarrow> nat \<Rightarrow> bool" where
  "fs_area t i \<longleftrightarrow> unat (fst (fs_location t)) \<le> i \<and> i < unat (fst (fs_location t)) + unat (snd (fs_location t))"

text \<open>What is documented of SPIFFS: it reads and writes only inside the area it has been given.\<close>

definition spiffs_confined :: "('f \<Rightarrow> mem) \<Rightarrow> 'f fs_ops \<Rightarrow> bool" where
  "spiffs_confined chip F \<longleftrightarrow>
     (\<forall>t f i. \<not> fs_area t i \<longrightarrow> chip (fs_mount F t f) i = chip f i \<and> chip (fs_unmount F t f) i = chip f i)"

lemma mount_fs_confined:
  assumes "nor_flash (hal_spi H) chip 0x400000" "\<And>k f. hal_erase_ok H k f" "spiffs_confined chip F"
  shows "\<exists>f'. mount_fs H F t force f = Some f' \<and> (\<forall>i. \<not> fs_area t i \<longrightarrow> chip f' i = chip f i)"
proof (cases "\<not> fs_mounted F t (fs_mount F t f) \<and> force")
  case True
  obtain loc n where l: "fs_location t = (loc, n)" by fastforce
  from myspiffs_format_erases [OF assms(1,2) this, of "fs_unmount F" "fs_mount F" "fs_mount F t f"]
  obtain f' where f': "myspiffs_format H (fs_unmount F) (fs_mount F) t (fs_mount F t f) = Some (fs_mount F t f', 1)"
    "\<forall>i. chip f' i = (if unat loc \<le> i \<and> i < unat loc + unat n then 0xFF else chip (fs_unmount F t (fs_mount F t f)) i)" by blast
  then have "chip (fs_mount F t f') i = chip f i" if "\<not> fs_area t i" for i
    using assms(3) that by (auto simp: spiffs_confined_def fs_area_def l)
  then show ?thesis using True f'(1) by (simp add: mount_fs_def)
next
  case False
  then show ?thesis using assms(3) by (auto simp: mount_fs_def spiffs_confined_def)
qed


definition sim_fs :: "mem fs_ops" where
  "sim_fs = \<lparr>fs_mount = (\<lambda>t f. f(unat (fst (fs_location t)) := 0x5A)), fs_unmount = (\<lambda>t f. f),
     fs_mounted = (\<lambda>t f. t = dynfs)\<rparr>"


text \<open>On a chip of 2 MByte the calibration sector lies in the area of the first image of the main application.\<close>

lemma rf_cal_16M_in_image:
  "size_map \<in> {FLASH_SIZE_16M_MAP_512_512, FLASH_SIZE_16M_MAP_1024_1024} \<Longrightarrow>
    0x102000 \<le> user_rf_cal_sector_set size_map * 0x1000 \<and> user_rf_cal_sector_set size_map * 0x1000 < 0x202000"
  by (auto simp: user_rf_cal_sector_set_def)

end
