(* ===== verification/Netutil.thy ===== *)
theory Netutil
  imports Esp_Prelude
begin

text \<open>
  The network utilities of \<^verbatim>\<open>app_common/util/netutil.c\<close>: a sequence of five pings with its statistics, and the
  lookup of a host name. \<^verbatim>\<open>ipaddr_addr\<close>, \<^verbatim>\<open>ping_start\<close> and \<^verbatim>\<open>espconn_gethostbyname\<close> belong to the SDK: their results
  are arguments. The option block of \<^verbatim>\<open>ping_start\<close> is allocated with \<^verbatim>\<open>os_zalloc\<close>, whose result is not checked:
  without memory the model faults.
\<close>

section \<open>Ping\<close>

datatype ping_state_t = PING_SEQ_INVALID | PING_SEQ_READY | PING_SEQ_STARTED | PING_SEQ_DONE

record PING_RESP_T =
  state :: ping_state_t
  success :: u8
  error :: u8
  expected :: u8
  avg_time :: u32

text \<open>The callback of one reply: \<open>ping_err\<close> and \<open>resp_time\<close> are the fields of the reply it reads.\<close>

definition netutil_ping_cb :: "int \<Rightarrow> u32 \<Rightarrow> PING_RESP_T option \<Rightarrow> PING_RESP_T option" where
  "netutil_ping_cb ping_err resp_time app =
     (case app of
        None \<Rightarrow> None
      | Some p \<Rightarrow>
          let p1 = (if ping_err = - 1 then p\<lparr>error := error p + 1\<rparr>
                    else p\<lparr>success := success p + 1, avg_time := avg_time p + resp_time\<rparr>)
          in Some (if unat (success p1) + unat (error p1) = unat (expected p1)
                   then p1\<lparr>state := PING_SEQ_DONE, avg_time := avg_time p1 div ucast (expected p1)\<rparr>
                   else p1))"

text \<open>
  \<open>tempIp\<close> is the address \<^verbatim>\<open>ipaddr_addr\<close> answers (\<open>None\<close> for \<^verbatim>\<open>IPADDR_NONE\<close>), \<open>started\<close> the result of
  \<^verbatim>\<open>ping_start\<close>. The answer is the response block and the address given to \<^verbatim>\<open>ping_start\<close>.
\<close>

definition netutil_ping_ip_string :: "bool \<Rightarrow> bool \<Rightarrow> u32 option \<Rightarrow> PING_RESP_T \<Rightarrow> (PING_RESP_T \<times> u32 option) option" where
  "netutil_ping_ip_string zalloc started tempIp p =
     (if state p = PING_SEQ_STARTED \<or> state p = PING_SEQ_DONE then Some (p, None)
      else case tempIp of
        None \<Rightarrow> Some (p, None)
      | Some ip \<Rightarrow>
          let p1 = p\<lparr>success := 0, error := 0, expected := 0\<rparr> in
          if \<not> zalloc then None
          else Some (if started then p1\<lparr>state := PING_SEQ_STARTED, expected := 5\<rparr> else p1\<lparr>state := PING_SEQ_READY\<rparr>, Some ip))"

section \<open>Host names\<close>

datatype dns_result = ESPCONN_OK | ESPCONN_INPROGRESS | ESPCONN_ARG

text \<open>
  What a lookup leads to: the resolver calls the callback it was given later, the utility's own callback
  (which only prints) is called at once, or nothing happens.
\<close>

datatype dns_effect = Pending_user_cb | Printed_result | No_effect

definition netutil_nslookup :: "dns_result \<Rightarrow> dns_effect" where
  "netutil_nslookup r =
     (if r = ESPCONN_OK then Printed_result else if r \<noteq> ESPCONN_INPROGRESS then No_effect else Pending_user_cb)"

section \<open>Properties\<close>

text \<open>A reply: \<open>None\<close> for a failed ping, otherwise its time.\<close>

fun ping_replies :: "u32 option list \<Rightarrow> PING_RESP_T \<Rightarrow> PING_RESP_T option" where
  "ping_replies [] p = Some p"
| "ping_replies (None # rs) p = Option.bind (netutil_ping_cb (- 1) 0 (Some p)) (ping_replies rs)"
| "ping_replies (Some t # rs) p = Option.bind (netutil_ping_cb 0 t (Some p)) (ping_replies rs)"

lemma length_five: "length (rs :: 'a list) = 5 \<Longrightarrow> \<exists>a b c d e. rs = [a, b, c, d, e]"
  by (auto simp: eval_nat_numeral length_Suc_conv)

text \<open>
  A started sequence is done after exactly five replies, with the numbers of answered and failed pings; the
  average is the sum of the times divided by five, the failed pings included, on top of the value
  \<open>avg_time\<close> had before. From then on no sequence can be started with the same block.
\<close>

theorem ping_sequence_done:
  assumes "state p = PING_SEQ_INVALID \<or> state p = PING_SEQ_READY" "length rs = 5"
    "netutil_ping_ip_string True True (Some ip) p = Some (p1, i)"
  shows "i = Some ip \<and> (\<exists>p2. ping_replies rs p1 = Some p2 \<and> state p2 = PING_SEQ_DONE \<and>
    unat (success p2) = length (filter (\<lambda>r. r \<noteq> None) rs) \<and> unat (error p2) = length (filter (\<lambda>r. r = None) rs) \<and>
    avg_time p2 = (avg_time p + sum_list (map (case_option 0 id) rs)) div 5 \<and>
    netutil_ping_ip_string z st ip' p2 = Some (p2, None))"
proof -
  obtain a b c d e where rs: "rs = [a, b, c, d, e]" using length_five [OF assms(2)] by blast
  have p1: "p1 = p\<lparr>success := 0, error := 0, expected := 5, state := PING_SEQ_STARTED\<rparr>" "i = Some ip"
    using assms(1,3) by (auto simp: netutil_ping_ip_string_def)
  show ?thesis unfolding rs
    by (cases a; cases b; cases c; cases d; cases e)
      (simp_all add: p1 netutil_ping_cb_def netutil_ping_ip_string_def add.assoc)
qed

end
