(* ===== verification/Setup_Event.thy ===== *)
theory Setup_Event
  imports Netutil
begin

text \<open>
  Supervision of the connection in the setup application: the wifi event handler, the supervision timer and
  its callbacks of \<^verbatim>\<open>app_setup/setup/setup_event.c\<close>, the monitor object of \<^verbatim>\<open>app_setup/setup/setup_api.c\<close> and the
  callbacks of \<^verbatim>\<open>app_setup/mqtt_setup/app.c\<close> that report the state of the MQTT connection. Clock, station
  status, time stamp and the results of the resolver belong to the SDK and are arguments; calls of the SDK
  and of the MQTT client are recorded in order. The table \<^verbatim>\<open>wifi_state_change_cb\<close> is never filled, so the
  loop over it calls nothing. \<^verbatim>\<open>SETUP_SMART_ENABLE\<close> is not defined.
\<close>

section \<open>State\<close>

datatype wifi_state = wifiIsDisconnected | wifiIsConnected | wifiGotIP

datatype timeout_fn = Setup_ts | Setup_reconnect | Setup_state | Setup_restart

datatype sdk_call = Wifi_connect | Restart | Mqtt_app_init "u8 list" | Mqtt_Connect | Mqtt_down | Dns_started | Dns_printed

definition SETUP_CONN_DISCONNECTED :: u8 where "SETUP_CONN_DISCONNECTED = 1"
definition SETUP_CONN_MQTT :: u8 where "SETUP_CONN_MQTT = 3"
definition SETUP_CONN_MAX :: u8 where "SETUP_CONN_MAX = 5"
definition DISCONNECTED_REBOOT_TIMOUT :: u32 where "DISCONNECTED_REBOOT_TIMOUT = 300000"
definition RECONNECT_TIMOUT :: u32 where "RECONNECT_TIMOUT = 4732"
definition SNTP_TIMEOUT :: u32 where "SNTP_TIMEOUT = 3523"

record setup_mon =
  timer :: "u32 option"
  timeout_cb :: "timeout_fn option"
  conn_state :: u8
  device_ct :: u8
  mon_state :: u16
  mqtt_host_ip :: "u8 list option"
  gotSntpTs :: bool
  wifiState :: wifi_state
  wifiReason :: u8
  wifiStatus_mq :: u8
  lastwifiStatus_mq :: u8
  disconnected_time :: u32
  calls :: "sdk_call list"

definition sdk :: "sdk_call \<Rightarrow> setup_mon \<Rightarrow> setup_mon" where
  "sdk c s = s\<lparr>calls := calls s @ [c]\<rparr>"

section \<open>Monitor object\<close>

definition setup_api_update_conn_state :: "u8 \<Rightarrow> setup_mon \<Rightarrow> setup_mon" where
  "setup_api_update_conn_state st s = (if st < SETUP_CONN_MAX then s\<lparr>conn_state := st\<rparr> else s)"

definition setSetupState :: "u16 \<Rightarrow> bool \<Rightarrow> setup_mon \<Rightarrow> setup_mon" where
  "setSetupState flag st s =
     (if st then
        if ucast (mon_state s) AND push_bit (unat flag) (1 :: u32) = push_bit (unat flag) 1 then s
        else s\<lparr>mon_state := ucast (ucast (mon_state s) OR push_bit (unat flag) (1 :: u32))\<rparr>
      else s\<lparr>mon_state := ucast (ucast (mon_state s) AND NOT (push_bit (unat flag) (1 :: u32)))\<rparr>)"

definition setup_api_update_device_ct :: "bool \<Rightarrow> setup_mon \<Rightarrow> setup_mon" where
  "setup_api_update_device_ct addRemove s = s\<lparr>device_ct := device_ct s + (if addRemove then 1 else - 1)\<rparr>"

definition setup_restart_soon :: "setup_mon \<Rightarrow> setup_mon" where
  "setup_restart_soon s = s\<lparr>timeout_cb := Some Setup_restart, timer := Some 1234\<rparr>"

section \<open>Supervision timer\<close>

definition arm_state_timer :: "u32 \<Rightarrow> setup_mon \<Rightarrow> setup_mon" where
  "arm_state_timer dt s = s\<lparr>timeout_cb := Some Setup_state, timer := Some 15021\<rparr>"

definition arm_sntp_timer :: "setup_mon \<Rightarrow> setup_mon" where
  "arm_sntp_timer s = s\<lparr>timeout_cb := Some Setup_ts, timer := Some SNTP_TIMEOUT\<rparr>"

definition arm_reconnect_timer :: "u32 \<Rightarrow> setup_mon \<Rightarrow> setup_mon" where
  "arm_reconnect_timer delay s = s\<lparr>timeout_cb := Some Setup_reconnect, timer := Some delay\<rparr>"

definition setup_state_timeout_cb :: "bool \<Rightarrow> setup_mon \<Rightarrow> setup_mon" where
  "setup_state_timeout_cb station_got_ip s =
     (let s1 = s\<lparr>timer := None\<rparr> in if \<not> station_got_ip then arm_reconnect_timer 5000 s1 else s1)"

definition setup_ts_timeout_cb :: "u32 \<Rightarrow> setup_mon \<Rightarrow> setup_mon" where
  "setup_ts_timeout_cb ts s =
     (let s1 = s\<lparr>timer := None\<rparr> in
      if ts \<noteq> 0 then arm_state_timer 10012 (s1\<lparr>gotSntpTs := True\<rparr>) else s1\<lparr>timer := Some 1053\<rparr>)"

definition setup_reconnect_cb :: "setup_mon \<Rightarrow> setup_mon" where
  "setup_reconnect_cb s =
     (let s1 = s\<lparr>timer := None\<rparr> in
      if conn_state s1 \<noteq> SETUP_CONN_MQTT then (sdk Wifi_connect s1)\<lparr>timer := Some RECONNECT_TIMOUT\<rparr>
      else arm_sntp_timer s1)"

text \<open>The timer's function in \<^verbatim>\<open>setup_api.c\<close>: it calls through the pointer \<^verbatim>\<open>timeout_cb\<close>, a fault when it is NULL.\<close>

definition setup_timer_cb :: "bool \<Rightarrow> u32 \<Rightarrow> setup_mon \<Rightarrow> setup_mon option" where
  "setup_timer_cb station_got_ip ts s =
     (let s1 = s\<lparr>timer := None\<rparr> in
      case timeout_cb s1 of
        None \<Rightarrow> None
      | Some Setup_ts \<Rightarrow> Some (setup_ts_timeout_cb ts s1)
      | Some Setup_reconnect \<Rightarrow> Some (setup_reconnect_cb s1)
      | Some Setup_state \<Rightarrow> Some (setup_state_timeout_cb station_got_ip s1)
      | Some Setup_restart \<Rightarrow> Some (sdk Restart s1))"

section \<open>Wifi events\<close>

definition wifiReasons :: "string list" where
  "wifiReasons =
    ['''', ''unspecified'', ''auth_expire'', ''auth_leave'', ''assoc_expire'',
     ''assoc_toomany'', ''not_authed'', ''not_assoced'', ''assoc_leave'',
     ''assoc_not_authed'', ''disassoc_pwrcap_bad'', ''disassoc_supchan_bad'', '''',
     ''ie_invalid'', ''mic_failure'', ''4way_handshake_timeout'',
     ''group_key_update_timeout'', ''ie_in_4way_differs'', ''group_cipher_invalid'',
     ''pairwise_cipher_invalid'', ''akmp_invalid'', ''unsupp_rsn_ie_version'',
     ''invalid_rsn_ie_cap'', ''802_1x_auth_failed'', ''cipher_suite_rejected'',
     ''beacon_timeout'', ''no_ap_found'']"

definition wifiGetReason :: "u8 \<Rightarrow> string option" where
  "wifiGetReason r =
     (let i = (if r \<le> 24 then unat r else if 200 \<le> r \<and> r \<le> 201 then unat r - 200 + 24 else 1) in
      if i < length wifiReasons then Some (wifiReasons ! i) else None)"

definition statusWifiUpdate :: "u32 \<Rightarrow> wifi_state \<Rightarrow> setup_mon \<Rightarrow> setup_mon" where
  "statusWifiUpdate now st s =
     (let s1 = s\<lparr>wifiState := st\<rparr> in
      if st \<noteq> wifiGotIP then
        if disconnected_time s1 = 0 then s1\<lparr>disconnected_time := now div 1000\<rparr>
        else if now div 1000 - disconnected_time s1 > DISCONNECTED_REBOOT_TIMOUT then sdk Restart s1
        else s1
      else s1\<lparr>disconnected_time := 0\<rparr>)"

definition mqtt_setconn :: "u8 \<Rightarrow> setup_mon \<Rightarrow> setup_mon" where
  "mqtt_setconn st s = sdk (if st = 1 then Mqtt_Connect else Mqtt_down) s"

text \<open>The application's resolver callback; \<open>ip\<close> is the address as \<^verbatim>\<open>ipaddr_ntoa_r\<close> prints it.\<close>

definition nslookup_cb :: "u8 list option option \<Rightarrow> setup_mon \<Rightarrow> setup_mon" where
  "nslookup_cb ip s =
     (case ip of
        None \<Rightarrow> s
      | Some None \<Rightarrow> s
      | Some (Some ipstr) \<Rightarrow> mqtt_setconn 1 (sdk (Mqtt_app_init ipstr) (s\<lparr>mqtt_host_ip := Some ipstr\<rparr>)))"

datatype wifi_event =
    EVENT_STAMODE_CONNECTED
  | EVENT_STAMODE_DISCONNECTED u8
  | EVENT_STAMODE_AUTHMODE_CHANGE
  | EVENT_STAMODE_GOT_IP
  | EVENT_SOFTAPMODE_STACONNECTED
  | EVENT_SOFTAPMODE_STADISCONNECTED
  | EVENT_OTHER

definition wifiHandleEventCb :: "u32 \<Rightarrow> dns_result \<Rightarrow> wifi_event \<Rightarrow> setup_mon \<Rightarrow> setup_mon" where
  "wifiHandleEventCb now dns evt s =
     (let s1 = s\<lparr>lastwifiStatus_mq := wifiStatus_mq s\<rparr> in
      case evt of
        EVENT_STAMODE_CONNECTED \<Rightarrow>
          statusWifiUpdate now wifiIsConnected (s1\<lparr>wifiState := wifiIsConnected, wifiReason := 0\<rparr>)
      | EVENT_STAMODE_DISCONNECTED reason \<Rightarrow>
          let s2 = (if wifiState s1 \<noteq> wifiIsDisconnected then
              arm_reconnect_timer 5000 (mqtt_setconn 0
                (s1\<lparr>wifiState := wifiIsDisconnected, conn_state := SETUP_CONN_DISCONNECTED, wifiReason := reason,
                    wifiStatus_mq := 0\<rparr>))
            else s1)
          in statusWifiUpdate now (wifiState s2) s2
      | EVENT_STAMODE_GOT_IP \<Rightarrow>
          let s2 = (statusWifiUpdate now wifiGotIP (s1\<lparr>wifiState := wifiGotIP, wifiReason := 0\<rparr>))\<lparr>wifiStatus_mq := 2\<rparr>;
              s3 = (case netutil_nslookup dns of
                      Pending_user_cb \<Rightarrow> sdk Dns_started s2 | Printed_result \<Rightarrow> sdk Dns_printed s2 | No_effect \<Rightarrow> s2)
          in arm_reconnect_timer 1234 s3
      | _ \<Rightarrow> s1)"

text \<open>The callback of the MQTT client when it is connected; \<open>subscribed\<close> is the result of \<^verbatim>\<open>MQTT_Subscribe\<close>.\<close>

definition mqttConnectedTestCb :: "bool \<Rightarrow> setup_mon \<Rightarrow> setup_mon" where
  "mqttConnectedTestCb subscribed s = (if subscribed then setup_api_update_conn_state SETUP_CONN_MQTT s else s)"

text \<open>\<^verbatim>\<open>setup_app_init\<close>, \<^verbatim>\<open>setup_api_init\<close> and \<^verbatim>\<open>setup_event_init\<close>.\<close>

definition setup_init :: setup_mon where
  "setup_init = \<lparr>timer = None, timeout_cb = Some Setup_ts, conn_state = SETUP_CONN_DISCONNECTED, device_ct = 1,
     mon_state = 0, mqtt_host_ip = None, gotSntpTs = False, wifiState = wifiIsDisconnected, wifiReason = 0,
     wifiStatus_mq = 0, lastwifiStatus_mq = 0, disconnected_time = 0, calls = []\<rparr>"

section \<open>Reachable states\<close>

inductive setup_step :: "setup_mon \<Rightarrow> setup_mon \<Rightarrow> bool" where
  wifi: "setup_step s (wifiHandleEventCb now dns evt s)"
| fire: "timer s \<noteq> None \<Longrightarrow> setup_timer_cb got_ip ts s = Some s' \<Longrightarrow> setup_step s s'"
| resolved: "setup_step s (nslookup_cb ip s)"
| mqtt_up: "setup_step s (mqttConnectedTestCb subscribed s)"
| flags: "setup_step s (setSetupState flag st s)"
| devices: "setup_step s (setup_api_update_device_ct add s)"

inductive_cases setup_stepE [elim]: "setup_step s s'"

inductive setup_reach :: "setup_mon \<Rightarrow> bool" where
  init: "setup_reach setup_init"
| step: "setup_reach s \<Longrightarrow> setup_step s s' \<Longrightarrow> setup_reach s'"

lemmas setup_timer_defs = setup_timer_cb_def setup_ts_timeout_cb_def setup_reconnect_cb_def setup_state_timeout_cb_def
  arm_state_timer_def arm_sntp_timer_def arm_reconnect_timer_def sdk_def

lemmas setup_mon_defs = setup_api_update_conn_state_def setSetupState_def setup_api_update_device_ct_def
  mqttConnectedTestCb_def nslookup_cb_def mqtt_setconn_def

text \<open>
  The supervision invariant. \<open>supervised\<close>: a timer that is not running is either not needed yet (the station
  has no address so far) or was stopped by the state callback, after a time stamp had been obtained.
\<close>

definition supervised :: "setup_mon \<Rightarrow> bool" where
  "supervised s \<longleftrightarrow> timer s \<noteq> None \<or> (timeout_cb s = Some Setup_state \<and> gotSntpTs s) \<or>
     (timeout_cb s = Some Setup_ts \<and> \<not> gotSntpTs s \<and> wifiState s \<noteq> wifiGotIP)"

definition setup_inv :: "setup_mon \<Rightarrow> bool" where
  "setup_inv s \<longleftrightarrow> timeout_cb s \<noteq> None \<and> timeout_cb s \<noteq> Some Setup_restart \<and> conn_state s < SETUP_CONN_MAX \<and>
     (timeout_cb s = Some Setup_state \<longrightarrow> gotSntpTs s) \<and>
     (disconnected_time s \<noteq> 0 \<longrightarrow> wifiState s \<noteq> wifiGotIP) \<and> supervised s"

lemma statusWifiUpdate_frame [simp]:
  "timer (statusWifiUpdate now st s) = timer s" "timeout_cb (statusWifiUpdate now st s) = timeout_cb s"
  "conn_state (statusWifiUpdate now st s) = conn_state s" "gotSntpTs (statusWifiUpdate now st s) = gotSntpTs s"
  "wifiState (statusWifiUpdate now st s) = st" "st = wifiGotIP \<Longrightarrow> disconnected_time (statusWifiUpdate now st s) = 0"
  by (simp_all add: statusWifiUpdate_def sdk_def Let_def)

lemma status_inv:
  assumes "setup_inv s" "st \<noteq> wifiGotIP"
  shows "setup_inv (statusWifiUpdate now st s)"
  using assms unfolding setup_inv_def supervised_def by simp blast

lemma reconnect_inv:
  assumes "conn_state s < SETUP_CONN_MAX" "disconnected_time s \<noteq> 0 \<longrightarrow> wifiState s \<noteq> wifiGotIP"
  shows "setup_inv (arm_reconnect_timer delay s)"
  using assms by (simp add: setup_inv_def supervised_def arm_reconnect_timer_def)

lemma down_inv:
  assumes "conn_state s < SETUP_CONN_MAX" "wifiState s = wifiIsDisconnected"
  shows "setup_inv (arm_reconnect_timer delay (mqtt_setconn 0 s))"
  by (rule reconnect_inv) (use assms in \<open>simp_all add: mqtt_setconn_def sdk_def\<close>)

lemma wifi_inv:
  assumes "setup_inv s"
  shows "setup_inv (wifiHandleEventCb now dns evt s)"
proof -
  have s1: "setup_inv (s\<lparr>lastwifiStatus_mq := wifiStatus_mq s\<rparr>)" using assms by (simp add: setup_inv_def supervised_def)
  have c: "conn_state s < SETUP_CONN_MAX" using assms by (simp add: setup_inv_def)
  show ?thesis
  proof (cases evt)
    case EVENT_STAMODE_CONNECTED
    have "setup_inv (s\<lparr>lastwifiStatus_mq := wifiStatus_mq s, wifiState := wifiIsConnected, wifiReason := 0\<rparr>)"
      using assms by (simp add: setup_inv_def supervised_def) blast
    then show ?thesis using EVENT_STAMODE_CONNECTED by (simp add: wifiHandleEventCb_def status_inv)
  next
    case (EVENT_STAMODE_DISCONNECTED reason)
    let ?s = "s\<lparr>lastwifiStatus_mq := wifiStatus_mq s, wifiState := wifiIsDisconnected, conn_state := SETUP_CONN_DISCONNECTED,
      wifiReason := reason, wifiStatus_mq := 0\<rparr>"
    have "setup_inv (arm_reconnect_timer 5000 (mqtt_setconn 0 ?s))"
      by (rule down_inv) (simp_all add: SETUP_CONN_DISCONNECTED_def SETUP_CONN_MAX_def)
    moreover have "wifiState (arm_reconnect_timer 5000 (mqtt_setconn 0 ?s)) = wifiIsDisconnected"
      by (simp add: arm_reconnect_timer_def mqtt_setconn_def sdk_def)
    ultimately show ?thesis using EVENT_STAMODE_DISCONNECTED s1 by (simp add: wifiHandleEventCb_def Let_def status_inv)
  next
    case EVENT_STAMODE_GOT_IP
    show ?thesis unfolding EVENT_STAMODE_GOT_IP wifiHandleEventCb_def Let_def wifi_event.case
      by (rule reconnect_inv) (use c in \<open>simp_all add: sdk_def split: dns_effect.split\<close>)
  qed (use s1 in \<open>simp_all add: wifiHandleEventCb_def\<close>)
qed

lemma timer_inv: "setup_inv s \<Longrightarrow> setup_timer_cb got_ip ts s = Some s' \<Longrightarrow> setup_inv s'"
  by (auto simp: setup_inv_def supervised_def setup_timer_defs Let_def split: option.splits timeout_fn.splits if_splits)

lemma setup_step_inv: "setup_step s s' \<Longrightarrow> setup_inv s \<Longrightarrow> setup_inv s'"
proof (induction rule: setup_step.induct)
  case (resolved s ip)
  then show ?case by (auto simp: setup_inv_def supervised_def setup_mon_defs sdk_def split: option.splits)
qed (auto simp: wifi_inv timer_inv, auto simp: setup_inv_def supervised_def setup_mon_defs Let_def SETUP_CONN_MAX_def SETUP_CONN_MQTT_def)



section \<open>Losing the station\<close>

text \<open>What happens while the station is away: expiries of the timer and repeated events of the disconnection.\<close>

datatype lost_event = Expiry bool u32 | Still_lost u32 dns_result u8

fun lost_run :: "lost_event list \<Rightarrow> setup_mon \<Rightarrow> setup_mon option" where
  "lost_run [] s = Some s"
| "lost_run (Expiry got_ip ts # es) s = Option.bind (setup_timer_cb got_ip ts s) (lost_run es)"
| "lost_run (Still_lost now dns reason # es) s = lost_run es (wifiHandleEventCb now dns (EVENT_STAMODE_DISCONNECTED reason) s)"

fun is_expiry :: "lost_event \<Rightarrow> bool" where
  "is_expiry (Expiry g t) = True"
| "is_expiry (Still_lost n d r) = False"

definition retrying :: "setup_mon \<Rightarrow> bool" where
  "retrying s \<longleftrightarrow> timer s \<noteq> None \<and> timeout_cb s = Some Setup_reconnect \<and> conn_state s = SETUP_CONN_DISCONNECTED \<and>
     wifiState s = wifiIsDisconnected"

definition connects :: "setup_mon \<Rightarrow> nat" where
  "connects s = length (filter (\<lambda>c. c = Wifi_connect) (calls s))"

lemma disc_not_mqtt [simp]: "SETUP_CONN_DISCONNECTED \<noteq> SETUP_CONN_MQTT"
  by (simp add: SETUP_CONN_DISCONNECTED_def SETUP_CONN_MQTT_def)

lemma connects_status [simp]: "connects (statusWifiUpdate now st s) = connects s"
  by (simp add: statusWifiUpdate_def connects_def sdk_def Let_def)

lemma retrying_expiry:
  assumes "retrying s"
  shows "\<exists>s'. setup_timer_cb g ts s = Some s' \<and> retrying s' \<and> connects s' = Suc (connects s)"
  using assms by (simp add: retrying_def setup_timer_cb_def setup_reconnect_cb_def sdk_def connects_def)

lemma retrying_lost:
  assumes "retrying s"
  shows "retrying (wifiHandleEventCb now dns (EVENT_STAMODE_DISCONNECTED r) s)"
    "connects (wifiHandleEventCb now dns (EVENT_STAMODE_DISCONNECTED r) s) = connects s"
  using assms by (simp_all add: retrying_def wifiHandleEventCb_def Let_def connects_def [of "_ \<lparr>lastwifiStatus_mq := _\<rparr>"] connects_def [of s])

lemma lost_run_retries:
  assumes "retrying s"
  shows "\<exists>s'. lost_run es s = Some s' \<and> retrying s' \<and> connects s' = connects s + length (filter is_expiry es)"
  using assms
proof (induction es arbitrary: s)
  case (Cons e es)
  show ?case
  proof (cases e)
    case (Expiry g ts)
    obtain s1 where s1: "setup_timer_cb g ts s = Some s1" "retrying s1" "connects s1 = Suc (connects s)"
      using retrying_expiry [OF Cons.prems] by blast
    then show ?thesis using Cons.IH [OF s1(2)] Expiry by auto
  next
    case (Still_lost now dns r)
    then show ?thesis using Cons.IH [OF retrying_lost(1) [OF Cons.prems]] by (simp add: retrying_lost(2) [OF Cons.prems])
  qed
qed simp

text \<open>
  C37. When the station loses its access point, whatever the supervision was doing, the connection state is
  reset, the MQTT side is told, and the reconnect timer runs. From then on, for as long as the station is
  away, every expiry of the timer makes one more attempt to connect and arms the timer again, no matter how
  many further disconnection events arrive in between: the application never stops trying.
\<close>

theorem wifi_lost_keeps_trying:
  assumes "wifiState s \<noteq> wifiIsDisconnected"
  shows "\<exists>s'. lost_run es (wifiHandleEventCb now dns (EVENT_STAMODE_DISCONNECTED r) s) = Some s' \<and> timer s' \<noteq> None \<and>
    timeout_cb s' = Some Setup_reconnect \<and> conn_state s' = SETUP_CONN_DISCONNECTED \<and>
    connects s' = connects s + length (filter is_expiry es)"
proof -
  let ?s = "wifiHandleEventCb now dns (EVENT_STAMODE_DISCONNECTED r) s"
  have "retrying ?s" using assms
    by (simp add: retrying_def wifiHandleEventCb_def Let_def arm_reconnect_timer_def mqtt_setconn_def sdk_def)
  moreover have "connects ?s = connects s" using assms
    by (simp add: wifiHandleEventCb_def Let_def arm_reconnect_timer_def mqtt_setconn_def sdk_def connects_def [of "_ \<lparr>timer := _\<rparr>"] connects_def [of s])
  ultimately show ?thesis using lost_run_retries [of ?s es] by (auto simp: retrying_def)
qed

definition online :: setup_mon where
  "online = wifiHandleEventCb 5000000 ESPCONN_INPROGRESS EVENT_STAMODE_GOT_IP setup_init"

theorem wifi_lost_keeps_trying_witness:
  "\<exists>s'. lost_run [Expiry False 0, Still_lost 7000000 ESPCONN_OK 201, Expiry False 0]
      (wifiHandleEventCb 6000000 ESPCONN_OK (EVENT_STAMODE_DISCONNECTED 200) online) = Some s' \<and> connects s' = 2"
proof -
  have "wifiState online \<noteq> wifiIsDisconnected"
    by (simp add: online_def wifiHandleEventCb_def Let_def netutil_nslookup_def arm_reconnect_timer_def sdk_def)
  from wifi_lost_keeps_trying [OF this, of "[Expiry False 0, Still_lost 7000000 ESPCONN_OK 201, Expiry False 0]" 6000000 ESPCONN_OK 200]
  obtain s' where "lost_run [Expiry False 0, Still_lost 7000000 ESPCONN_OK 201, Expiry False 0]
      (wifiHandleEventCb 6000000 ESPCONN_OK (EVENT_STAMODE_DISCONNECTED 200) online) = Some s'" "connects s' = connects online + 2"
    by auto
  moreover have "connects online = 0"
    by (simp add: online_def wifiHandleEventCb_def Let_def netutil_nslookup_def arm_reconnect_timer_def sdk_def connects_def
      statusWifiUpdate_def setup_init_def)
  ultimately show ?thesis by simp
qed

section \<open>The disconnection watchdog\<close>

lemma div_1000_less: "unat ((t :: u32) div 1000) < 4294968"
proof -
  have "unat t < 4294967296" using unsigned_less [of t] by simp
  then show ?thesis by (simp add: unat_div div_less_iff_less_mult)
qed

lemma ms_diff:
  fixes a b :: u32
  assumes "unat a < 4294968" "unat b < 4294968"
  shows "unat (a - b) = (if unat b \<le> unat a then unat a - unat b else 4294967296 - (unat b - unat a))"
proof -
  have "unat (a - b) = (if unat b \<le> unat a then unat a - unat b else unat a + 2 ^ 32 - unat b)" by (simp add: unat_sub_if')
  moreover have "unat a + 2 ^ 32 - unat b = 4294967296 - (unat b - unat a)" if "\<not> unat b \<le> unat a" using that by simp
  ultimately show ?thesis by presburger
qed

text \<open>
  C38. The watchdog that restarts a device without network, evaluated at each disconnection event (\<open>now\<close> and
  \<open>since\<close> are readings of the 32-bit microsecond clock, \<open>since\<close> that of the event that started the count): as long as
  the clock has not wrapped around in between, a restart is asked for exactly when the station has been away
  for more than five minutes. When the clock has wrapped (every 71.6 minutes), the first event after it
  restarts the device however short the disconnection is, except when both readings fall in the same
  millisecond.
\<close>

theorem disconnect_watchdog:
  assumes "wifiState s = wifiIsDisconnected" "disconnected_time s = since div 1000" "since div 1000 \<noteq> 0"
  shows "calls (wifiHandleEventCb now dns (EVENT_STAMODE_DISCONNECTED r) s) = calls s @
    (if unat since div 1000 \<le> unat now div 1000 then
       if 300000 < unat now div 1000 - unat since div 1000 then [Restart] else []
     else [Restart])"
proof -
  have u: "unat (now div 1000) = unat now div 1000" "unat (since div 1000) = unat since div 1000" by (simp_all add: unat_div)
  note b = div_1000_less [of now] div_1000_less [of since]
  have "DISCONNECTED_REBOOT_TIMOUT < now div 1000 - since div 1000 \<longleftrightarrow> 300000 < unat (now div 1000 - since div 1000)"
    by (simp add: DISCONNECTED_REBOOT_TIMOUT_def word_less_nat_alt)
  also have "\<dots> \<longleftrightarrow> (unat since div 1000 \<le> unat now div 1000 \<longrightarrow> 300000 < unat now div 1000 - unat since div 1000)"
    using ms_diff [OF b] b unfolding u by auto
  finally show ?thesis using assms by (auto simp: wifiHandleEventCb_def Let_def statusWifiUpdate_def sdk_def)
qed

theorem disconnect_watchdog_witness:
  "calls (wifiHandleEventCb 2000 ESPCONN_OK (EVENT_STAMODE_DISCONNECTED 200)
      (setup_init\<lparr>disconnected_time := 4294967000 div 1000\<rparr>)) = [Restart] \<and>
    calls (wifiHandleEventCb 4000000 ESPCONN_OK (EVENT_STAMODE_DISCONNECTED 200)
      (setup_init\<lparr>disconnected_time := 2000000 div 1000\<rparr>)) = []"
proof
  show "calls (wifiHandleEventCb 2000 ESPCONN_OK (EVENT_STAMODE_DISCONNECTED 200)
      (setup_init\<lparr>disconnected_time := 4294967000 div 1000\<rparr>)) = [Restart]"
    by (subst disconnect_watchdog [where since = 4294967000]) (simp_all add: setup_init_def)
  show "calls (wifiHandleEventCb 4000000 ESPCONN_OK (EVENT_STAMODE_DISCONNECTED 200)
      (setup_init\<lparr>disconnected_time := 2000000 div 1000\<rparr>)) = []"
    by (subst disconnect_watchdog [where since = 2000000]) (simp_all add: setup_init_def)
qed

section \<open>Names of the reasons, and a resolved host name\<close>

lemma wifi_reason_total: "wifiGetReason r \<noteq> None"
proof (cases "r \<le> 24")
  case True
  then have "unat r < 27" by (simp add: word_le_nat_alt)
  then show ?thesis using True by (simp add: wifiGetReason_def wifiReasons_def)
next
  case False
  have "unat r - 200 + 24 < 27" if "r \<le> 201" using that unfolding word_le_nat_alt by simp
  then show ?thesis using False by (simp add: wifiGetReason_def wifiReasons_def)
qed

text \<open>The two reasons of Espressif, 200 and 201, are printed with the name of the entry before theirs.\<close>

lemma wifi_reason_off_by_one: "wifiGetReason 200 = Some ''cipher_suite_rejected'' \<and> wifiGetReason 201 = Some ''beacon_timeout''"
  by (simp add: wifiGetReason_def wifiReasons_def)

text \<open>
  When the resolver knows the broker's address already (\<^verbatim>\<open>ESPCONN_OK\<close>), the utility calls its own printing
  callback in place of the application's, and the MQTT client is neither set up nor connected.
\<close>

theorem cached_lookup_starts_nothing:
  "calls (wifiHandleEventCb now ESPCONN_OK EVENT_STAMODE_GOT_IP s) = calls s @ [Dns_printed]"
  "mqtt_host_ip (wifiHandleEventCb now ESPCONN_OK EVENT_STAMODE_GOT_IP s) = mqtt_host_ip s"
  by (simp_all add: wifiHandleEventCb_def Let_def netutil_nslookup_def arm_reconnect_timer_def sdk_def statusWifiUpdate_def)

end
