(* ===== verification/Setup_App.thy ===== *)
theory Setup_App
  imports Setup_Event Mqtt_Client_Props Printing
begin

text \<open>
  The setup application's initialisation and its use of the MQTT client: \<^verbatim>\<open>app_setup/setup/app.c\<close>, the rest of
  \<^verbatim>\<open>app_setup/setup/setup_api.c\<close> and \<^verbatim>\<open>app_setup/mqtt_setup/app.c\<close>. The client is the one of \<open>Mqtt_Client\<close>; functions of
  this file that it calls back have numbers. Whether \<^verbatim>\<open>SETUP_INC_TEST_TOPICS\<close> is defined is an argument (the build
  does not define it), \<^verbatim>\<open>os_random\<close> is a sequence of numbers. Allocation of the small strings succeeds.
\<close>

section \<open>Initialisation\<close>

text \<open>\<open>MQTT_CLIENT_ID\<close> is the array of 16 bytes, \<open>uuid\<close> the string behind the pointer; the monitor is the one of \<open>Setup_Event\<close>.\<close>

record setup_app =
  MQTT_CLIENT_ID :: "u8 list"
  uuid :: "u8 list"
  test_pub :: "u8 list option"
  test_sub :: "u8 list option"
  mqtt_buff_avail_cb :: bool
  app_mon :: setup_mon

definition SETUP_TEST_PUB :: "u8 list" where "SETUP_TEST_PUB = ascii ''/temperature''"
definition SETUP_TEST_SUB :: "u8 list" where "SETUP_TEST_SUB = ascii ''/temp/response''"
definition SETUP_MQTT_USER :: "u8 list" where "SETUP_MQTT_USER = ascii ''your_mqtt_user''"
definition SETUP_MQTT_PASS :: "u8 list" where "SETUP_MQTT_PASS = ascii ''your_mqtt_pass''"

text \<open>The monitor after \<^verbatim>\<open>memset\<close>, with the static variables of \<^verbatim>\<open>setup_event.c\<close> at their initial values.\<close>

definition cleared_mon :: setup_mon where
  "cleared_mon = \<lparr>timer = None, timeout_cb = None, conn_state = 0, device_ct = 0, mon_state = 0, mqtt_host_ip = None,
     gotSntpTs = False, wifiState = wifiIsDisconnected, wifiReason = 0, wifiStatus_mq = 0, lastwifiStatus_mq = 0,
     disconnected_time = 0, calls = []\<rparr>"

definition setup_api_init :: "setup_mon \<Rightarrow> setup_mon" where
  "setup_api_init s = s\<lparr>timer := None\<rparr>"

definition setup_event_init :: "setup_mon \<Rightarrow> setup_mon" where
  "setup_event_init s = s\<lparr>timeout_cb := Some Setup_ts\<rparr>"

definition print_mac :: "u8 list \<Rightarrow> u8 list" where
  "print_mac orig_mac = concat (map (\<lambda>i. hex_fixed 2 (unat (orig_mac ! i))) [0..<6])"

definition setup_app_init :: "bool \<Rightarrow> u8 list \<Rightarrow> setup_app" where
  "setup_app_init inc_test_topics orig_mac =
     (let mon1 = cleared_mon\<lparr>conn_state := SETUP_CONN_DISCONNECTED, mon_state := 0, device_ct := 1\<rparr>;
          buffer = print_mac orig_mac @ [0]
      in \<lparr>MQTT_CLIENT_ID = ascii ''esp'' @ take 12 buffer @ [0], uuid = takeWhile (\<lambda>c. c \<noteq> 0) buffer,
          test_pub = (if inc_test_topics then Some SETUP_TEST_PUB else None),
          test_sub = (if inc_test_topics then Some SETUP_TEST_SUB else None),
          mqtt_buff_avail_cb = False, app_mon = setup_event_init (setup_api_init mon1)\<rparr>)"

section \<open>The MQTT client of the application\<close>

abbreviation (input) "mqttNothingDataCb \<equiv> (1 :: callback)"
abbreviation (input) "mqttNothingConnectCb \<equiv> (2 :: callback)"
abbreviation (input) "mqttConnectedTestCb_fn \<equiv> (3 :: callback)"
abbreviation (input) "mqttDisconnectedCb \<equiv> (4 :: callback)"
abbreviation (input) "mqttPublishedCb_fn \<equiv> (5 :: callback)"
abbreviation (input) "mqttDataTestCb \<equiv> (6 :: callback)"
abbreviation (input) "mqttTimeoutCb_fn \<equiv> (7 :: callback)"

definition mqtt_attach_test_cbs :: "world \<Rightarrow> world" where
  "mqtt_attach_test_cbs w = MQTT_OnData (Some mqttDataTestCb) (MQTT_OnConnected (Some mqttConnectedTestCb_fn) w)"

definition mqtt_app_detach_cbs :: "world \<Rightarrow> world" where
  "mqtt_app_detach_cbs w = MQTT_OnConnected (Some mqttNothingConnectCb) (MQTT_OnData (Some mqttNothingDataCb) w)"

text \<open>\<^verbatim>\<open>MQTT_InitClient\<close> copies the client identifier up to its terminator.\<close>

definition mqtt_app_init :: "bool \<Rightarrow> env \<Rightarrow> u8 list \<Rightarrow> setup_app \<Rightarrow> world \<Rightarrow> setup_app \<times> world" where
  "mqtt_app_init inc_test_topics e host_ip a w =
     (let w1 = MQTT_InitConnection host_ip 1883 0 w;
          w2 = MQTT_InitClient e (takeWhile (\<lambda>c. c \<noteq> 0) (MQTT_CLIENT_ID a)) (Some SETUP_MQTT_USER) (Some SETUP_MQTT_PASS) 20 1 w1;
          w3 = MQTT_InitLWT (ascii ''/lwt'') (ascii ''offline-1235'') 0 0 w2;
          w4 = (if inc_test_topics then mqtt_attach_test_cbs w3 else w3)
      in (a\<lparr>mqtt_buff_avail_cb := True\<rparr>,
          MQTT_OnTimeout (Some mqttTimeoutCb_fn) (MQTT_OnPublished (Some mqttPublishedCb_fn)
            (MQTT_OnDisconnected (Some mqttDisconnectedCb) w4))))"

definition mqtt_api_pub_temp :: "env \<Rightarrow> setup_app \<Rightarrow> u8 list \<Rightarrow> world \<Rightarrow> (world \<times> bool) option" where
  "mqtt_api_pub_temp e a msg w = MQTT_Publish e (test_pub a) msg 1 0 w"

definition setup_api_test :: "env \<Rightarrow> setup_app \<Rightarrow> u8 list \<Rightarrow> world \<Rightarrow> (world \<times> bool) option" where
  "setup_api_test e a buf w = mqtt_api_pub_temp e a buf w"

text \<open>The two callbacks store the same number, \<^verbatim>\<open>cur_fill_cnt\<close>.\<close>

definition mqttPublishedCb :: "world \<Rightarrow> int" where
  "mqttPublishedCb w = fill_cnt (q_rb (msgQueue (w_client w)))"

definition mqttTimeoutCb :: "world \<Rightarrow> int" where
  "mqttTimeoutCb w = fill_cnt (q_rb (msgQueue (w_client w)))"

definition mqtt_api_buff_len_avail :: "int \<Rightarrow> int" where
  "mqtt_api_buff_len_avail cur_fill_cnt = 1432 - cur_fill_cnt"

text \<open>What the calls recorded by the supervision do to the client.\<close>

fun mqtt_call :: "bool \<Rightarrow> env \<Rightarrow> sdk_call \<Rightarrow> setup_app \<times> world \<Rightarrow> setup_app \<times> world" where
  "mqtt_call inc e (Mqtt_app_init host_ip) (a, w) = mqtt_app_init inc e host_ip a w"
| "mqtt_call inc e Mqtt_Connect (a, w) = (a, MQTT_Connect e w)"
| "mqtt_call inc e c (a, w) = (a, w)"

section \<open>Random strings\<close>

function rand_loop :: "(nat \<Rightarrow> u32) \<Rightarrow> nat \<Rightarrow> int \<Rightarrow> u8 list \<Rightarrow> u8 list" where
  "rand_loop os_random k len bufOut =
     (if len > 0
      then rand_loop os_random (k + 1) (len - 8) (bufOut @ take (nat (len mod 8)) (hex_fixed 8 (unat (os_random k))))
      else bufOut)"
  by auto

termination by (relation "measure (\<lambda>(r, k, len, b). nat len)") auto

declare rand_loop.simps [simp del]

definition gen_rand_num_string :: "(nat \<Rightarrow> u32) \<Rightarrow> int \<Rightarrow> u8 list option" where
  "gen_rand_num_string os_random len = (if len = 0 then None else Some (rand_loop os_random 0 len []))"

definition hex_num :: "u32 \<Rightarrow> u8 list" where
  "hex_num v = (if v = 0 then [48] else dropWhile (\<lambda>c. c = 48) (hex_fixed 8 (unat v)))"

definition gen_rand_frame_id :: "u32 \<Rightarrow> int \<Rightarrow> u8 list option" where
  "gen_rand_frame_id r1 len =
     (if len = 0 then None
      else if int (length (hex_num r1)) \<noteq> len then None
      else Some (take (nat len - 1) (hex_num r1)))"
section \<open>The strings\<close>

lemma rand_loop_length:
  "0 \<le> r \<Longrightarrow> r < 8 \<Longrightarrow> length (rand_loop os_random k (8 * int n + r) out) = length out + (if r = 0 then n else n + 1) * nat r"
proof (induction n arbitrary: k out)
  case 0
  then show ?case by (cases "r = 0"; subst rand_loop.simps; simp; subst rand_loop.simps; simp)
next
  case (Suc n)
  have "(8 * int (Suc n) + r) mod 8 = r" using Suc.prems by (simp only: mod_mult_self4 mod_pos_pos_trivial)
  moreover have "8 * int (Suc n) + r - 8 = 8 * int n + r" by simp
  moreover have "0 < 8 * int (Suc n) + r" using Suc.prems by simp
  ultimately show ?case using Suc by (subst rand_loop.simps) (simp add: algebra_simps)
qed

text \<open>
  The string never leaves its block of \<open>len + 1\<close> bytes, but it has the length that was asked for only below 8:
  every round copies \<^verbatim>\<open>len%8\<close> digits instead of 8, none at all for a multiple of 8.
\<close>

lemma gen_rand_num_string_length:
  assumes "0 < len"
  shows "\<exists>s. gen_rand_num_string os_random len = Some s \<and> length s = nat ((len div 8 + 1) * (len mod 8)) \<and>
    int (length s) \<le> len \<and> (int (length s) = len \<longleftrightarrow> len < 8)"
proof -
  define n r where "n = nat (len div 8)" and "r = len mod 8"
  have nr: "len = 8 * int n + r" "0 \<le> r" "r < 8" using assms by (simp_all add: n_def r_def)
  define s where "s = rand_loop os_random 0 len []"
  have "length s = (if r = 0 then n else n + 1) * nat r" using rand_loop_length [OF nr(2,3)] nr(1) by (simp add: s_def)
  then have l: "int (length s) = (int n + 1) * r" using nr(2) by (simp add: algebra_simps)
  have "int n * r \<le> int n * 7" using nr(3) by (intro mult_left_mono) simp_all
  then have "int (length s) \<le> len" "int (length s) = len \<longleftrightarrow> n = 0" using l nr(1) by (auto simp: algebra_simps)
  moreover have "n = 0 \<longleftrightarrow> len < 8" using nr by linarith
  moreover have "int n = len div 8" using assms by (simp add: n_def)
  then have "length s = nat ((len div 8 + 1) * (len mod 8))" using l by (metis nat_int r_def)
  ultimately show ?thesis using assms by (simp add: gen_rand_num_string_def s_def)
qed

lemma gen_rand_frame_id_length:
  "gen_rand_frame_id r len = Some s \<Longrightarrow> int (length s) = len - 1"
  by (auto simp: gen_rand_frame_id_def of_nat_diff Suc_le_eq split: if_splits)

lemma print_mac_digits:
  "print_mac mac = concat (map (\<lambda>b. hex_fixed 2 (unat b)) (map ((!) mac) [0..<6]))"
  by (simp add: print_mac_def comp_def)

lemma print_mac_block: "0 \<notin> set (print_mac mac)" "length (print_mac mac) = 12"
  by (auto simp: print_mac_def hex_fixed_nonzero upt_rec)

lemma map_nth_six: "length mac = 6 \<Longrightarrow> map ((!) mac) [0..<6] = mac"
  by (metis map_nth)

lemma hex_bytes_inject:
  "concat (map (\<lambda>b. hex_fixed 2 (unat b)) xs) = concat (map (\<lambda>b. hex_fixed 2 (unat b)) ys) \<Longrightarrow>
    length xs = length ys \<Longrightarrow> xs = (ys :: u8 list)"
proof (induction xs arbitrary: ys)
  case (Cons x xs)
  then obtain y ys' where ys: "ys = y # ys'" by (cases ys) auto
  have "hex_fixed 2 (unat x) = hex_fixed 2 (unat y)" "concat (map (\<lambda>b. hex_fixed 2 (unat b)) xs) = concat (map (\<lambda>b. hex_fixed 2 (unat b)) ys')"
    using Cons.prems(1) by (simp_all add: ys)
  moreover have "hex_read (hex_fixed 2 (unat z)) = unat z" for z :: u8
    by (rule hex_read_fixed) (use unat_u8_less [of z] in simp)
  then have "unat x = unat y" using calculation(1) by metis
  ultimately show ?case using Cons by (simp add: ys word_unat_eq_iff)
qed simp

definition client_id :: "u8 list \<Rightarrow> u8 list" where
  "client_id mac = ascii ''esp'' @ print_mac mac"

lemma client_id_inject: "length mac = 6 \<Longrightarrow> length mac' = 6 \<Longrightarrow> client_id mac = client_id mac' \<Longrightarrow> mac = mac'"
  using hex_bytes_inject [of mac mac'] by (simp add: client_id_def print_mac_digits map_nth_six)

lemma setup_app_init_fields:
  shows "takeWhile (\<lambda>c. c \<noteq> 0) (MQTT_CLIENT_ID (setup_app_init inc mac)) = client_id mac"
    "length (MQTT_CLIENT_ID (setup_app_init inc mac)) = 16"
    "uuid (setup_app_init inc mac) = print_mac mac" "app_mon (setup_app_init inc mac) = setup_init"
    "test_pub (setup_app_init inc mac) = (if inc then Some SETUP_TEST_PUB else None)"
proof -
  have nz: "0 \<notin> set (client_id mac)" using print_mac_block(1) [of mac] by (simp add: client_id_def ascii_def)
  have "MQTT_CLIENT_ID (setup_app_init inc mac) = client_id mac @ [0]"
    by (simp add: setup_app_init_def Let_def client_id_def print_mac_block(2))
  moreover have "takeWhile (\<lambda>c. c \<noteq> 0) (xs @ [0 :: u8]) = xs" if "0 \<notin> set xs" for xs :: "u8 list"
    using that by (subst takeWhile_append2) auto
  ultimately show "takeWhile (\<lambda>c. c \<noteq> 0) (MQTT_CLIENT_ID (setup_app_init inc mac)) = client_id mac"
    "length (MQTT_CLIENT_ID (setup_app_init inc mac)) = 16" "uuid (setup_app_init inc mac) = print_mac mac"
    using nz print_mac_block [of mac] by (simp_all add: setup_app_init_def Let_def client_id_def ascii_def)
  show "app_mon (setup_app_init inc mac) = setup_init" "test_pub (setup_app_init inc mac) = (if inc then Some SETUP_TEST_PUB else None)"
    by (simp_all add: setup_app_init_def Let_def setup_event_init_def setup_api_init_def cleared_mon_def setup_init_def)
qed
section \<open>Presenting the device to the broker\<close>

lemma connect_cb_sends:
  assumes inv: "client_inv e w" and "security (w_client w) = 0" "info = connect_info (w_client w)"
    "str_given (ci_client_id info)" "3 + length (connect_body (protocol_name e) info) \<le> MQTT_BUF_SIZE"
  shows "w_trace (mqtt_tcpclient_connect_cb e w) = w_trace w @ [Regist_disconcb, Regist_recvcb, Regist_sentcb,
    Espconn_send (packet MQTT_MSG_TYPE_CONNECT 0 0 (connect_body (protocol_name e) info)), Os_post]"
proof -
  let ?w1 = "emit [Regist_disconcb, Regist_recvcb, Regist_sentcb] w"
  let ?t = "mqtt_st (w_client ?w1)"
  let ?w2 = "upd_state (\<lambda>s. s\<lparr>mqtt_conn := mqtt_msg_init (out_buffer ?t) (word_of_int (out_buffer_length ?t))\<rparr>) ?w1"
  have "core ?w2 = core w"
    using inv by (simp add: core_def Let_def world_defs mqtt_msg_init_def client_inv_def mqtt_connection.equality)
  then have i2: "client_inv e ?w2" using core_inv(1) inv by blast
  have s2: "connect_info (w_client ?w2) = info" "security (w_client ?w2) = 0" "w_trace ?w2 = w_trace ?w1"
    using assms(2,3) by (simp_all add: world_defs)
  obtain c' m' where p: "mqtt_msg_connect (protocol_name e) (conn_of ?w2) (w_mem ?w2) info = (c', m')" by fastforce
  have "encoded (conn_of ?w2) (w_mem ?w2) c' m' (Some (packet 1 0 0 (connect_body (protocol_name e) info)))"
    using mqtt_msg_connect_outcome [OF _ _ p] client_invD(2) [OF i2] assms(4,5) by simp
  from set_outbound_ok [OF i2 this]
  have m: "msg_of (set_outbound (c', m') ?w2) = packet 1 0 0 (connect_body (protocol_name e) info)" by simp
  have keep: "msg_of (upd_client (\<lambda>c. c\<lparr>sendTimeout := t\<rparr>) (set_pending d l v)) = msg_of v"
    "security (w_client (upd_client (\<lambda>c. c\<lparr>sendTimeout := t\<rparr>) (set_pending d l v))) = security (w_client v)"
    "w_trace (upd_client (\<lambda>c. c\<lparr>sendTimeout := t\<rparr>) (set_pending d l v)) = w_trace v" for t d l v
    by (simp_all add: msg_of_def world_defs)
  have so: "security (w_client (set_outbound r v)) = security (w_client v)" "w_trace (set_outbound r v) = w_trace v" for r v
    by (simp_all add: world_defs)
  have tr: "w_trace (emit [Os_post] (set_connState x (upd_state g (plain (Espconn_send b) v)))) =
      w_trace v @ (if security (w_client v) \<noteq> 0 then [Os_post] else [Espconn_send b, Os_post])" for x g b v
    by (simp add: world_defs)
  show ?thesis
    unfolding mqtt_tcpclient_connect_cb_def Let_def s2(1) p tr keep so m s2(2,3) by (simp add: emit_def)
qed

definition device_info :: "u8 list \<Rightarrow> mqtt_connect_info" where
  "device_info mac = \<lparr>ci_client_id = Some (client_id mac), ci_username = Some SETUP_MQTT_USER,
     ci_password = Some SETUP_MQTT_PASS, ci_will_topic = Some (ascii ''/lwt''), ci_will_message = Some (ascii ''offline-1235''),
     ci_keepalive = 20, ci_will_qos = 0, ci_will_retain = 0, ci_clean_session = 1\<rparr>"

lemma device_info_fits:
  "str_given (ci_client_id (device_info mac))" "3 + length (connect_body ver (device_info mac)) \<le> MQTT_BUF_SIZE"
proof -
  show "str_given (ci_client_id (device_info mac))"
    by (simp add: device_info_def str_given_def client_id_def ascii_def)
  have "length (client_id mac) = 15" by (simp add: client_id_def ascii_def print_mac_block(2))
  then show "3 + length (connect_body ver (device_info mac)) \<le> MQTT_BUF_SIZE"
    by (cases ver) (simp_all add: connect_body_def connect_pre_def device_info_def connect_keepalive_def will_field_def
        str_field_def str_given_def ascii_def SETUP_MQTT_USER_def SETUP_MQTT_PASS_def)
qed

lemma mqtt_app_init_inv:
  assumes "os_zalloc e (w_mem w) (int MQTT_BUF_SIZE) = (ib, m1)" "os_zalloc e m1 (int MQTT_BUF_SIZE) = (ob, m2)"
    "os_zalloc e m2 QUEUE_BUFFER_SIZE = (rb, m3)" "rb \<noteq> 0" "apart [ib, ob, rb, stack_buf e]"
    "(a', w') = mqtt_app_init inc e h (setup_app_init inc mac) w"
  shows "client_inv e w'" "blocks e w' = [ib, ob, rb, stack_buf e]" "connect_info (w_client w') = device_info mac"
    "security (w_client w') = 0" "host (w_client w') = Some h" "queued w' = []"
proof -
  define w1 where "w1 = MQTT_InitConnection h 1883 0 w"
  define w2 where "w2 = MQTT_InitClient e (client_id mac) (Some SETUP_MQTT_USER) (Some SETUP_MQTT_PASS) 20 1 w1"
  have m: "w_mem w1 = w_mem w" "pCon (w_client w1) = None" "security (w_client w1) = 0" "host (w_client w1) = Some h"
    by (simp_all add: w1_def MQTT_InitConnection_def zero_client_def)
  have i2: "client_inv e w2 \<and> queued w2 = [] \<and> blocks e w2 = [ib, ob, rb, stack_buf e]"
    by (rule MQTT_InitClient_inv [of e w1, unfolded m(1), OF assms(1-5) m(2) w2_def])
  have w': "w' = MQTT_OnTimeout (Some mqttTimeoutCb_fn) (MQTT_OnPublished (Some mqttPublishedCb_fn)
      (MQTT_OnDisconnected (Some mqttDisconnectedCb) (let w3 = MQTT_InitLWT (ascii ''/lwt'') (ascii ''offline-1235'') 0 0 w2
        in if inc then mqtt_attach_test_cbs w3 else w3)))"
    using assms(6) unfolding mqtt_app_init_def Let_def setup_app_init_fields(1) w1_def w2_def by simp
  have "core w' = core w2" by (simp add: w' Let_def mqtt_attach_test_cbs_def)
  then show "client_inv e w'" "blocks e w' = [ib, ob, rb, stack_buf e]" "queued w' = []" using core_inv i2 by metis+
  have s2: "security (w_client w2) = 0" "host (w_client w2) = Some h"
    "connect_info (w_client w2) = (device_info mac)\<lparr>ci_will_topic := None, ci_will_message := None\<rparr>"
    using m(3,4) by (simp_all add: w2_def MQTT_InitClient_def Let_def world_defs device_info_def split: prod.splits)
  show "connect_info (w_client w') = device_info mac" "security (w_client w') = 0" "host (w_client w') = Some h"
    using s2 by (simp_all add: w' Let_def mqtt_attach_test_cbs_def MQTT_OnTimeout_def MQTT_OnPublished_def
        MQTT_OnDisconnected_def MQTT_OnData_def MQTT_OnConnected_def MQTT_InitLWT_def upd_client_def device_info_def)
qed

lemma MQTT_Connect_fields:
  "connect_info (w_client (MQTT_Connect e w)) = connect_info (w_client w)"
  "security (w_client (MQTT_Connect e w)) = security (w_client w)"
  by (simp_all add: MQTT_Connect_def Let_def world_defs mqtt_tcpclient_delete_def split: prod.splits)
text \<open>
  C39. From the resolver's answer to the broker: when the name of the broker has been resolved, the supervision sets up the
  MQTT client and connects it; the client then satisfies its invariant, and when the TCP connection is up the first
  and only thing it sends is the CONNECT packet with the configured credentials, the last will and the client
  identifier \<^verbatim>\<open>esp\<close> followed by the MAC address in hexadecimal. The identifier has 15 bytes, so that with its terminator it fills
  the array \<^verbatim>\<open>MQTT_CLIENT_ID\<close> exactly, and two devices have the same identifier only if they have the same address.
\<close>

theorem device_presents_its_mac:
  assumes "os_zalloc e (w_mem w) (int MQTT_BUF_SIZE) = (ib, m1)" "os_zalloc e m1 (int MQTT_BUF_SIZE) = (ob, m2)"
    "os_zalloc e m2 QUEUE_BUFFER_SIZE = (rb, m3)" "rb \<noteq> 0" "apart [ib, ob, rb, stack_buf e]"
    "alloc_ok e [ib, ob, rb, stack_buf e]" "length mac = 6" "app = setup_app_init inc mac"
    "calls (nslookup_cb (Some (Some ipstr)) s) = calls s @ cs" "fold (mqtt_call inc e) cs (app, w) = (app', w')"
  shows "client_inv e w' \<and> takeWhile (\<lambda>c. c \<noteq> 0) (MQTT_CLIENT_ID app) = client_id mac \<and> length (MQTT_CLIENT_ID app) = 16 \<and>
    w_trace (mqtt_tcpclient_connect_cb e w') = w_trace w' @ [Regist_disconcb, Regist_recvcb, Regist_sentcb,
      Espconn_send (packet MQTT_MSG_TYPE_CONNECT 0 0 (connect_body (protocol_name e) (device_info mac))), Os_post] \<and>
    (\<forall>mac'. length mac' = 6 \<longrightarrow> client_id mac' = client_id mac \<longrightarrow> mac' = mac)"
proof -
  have cs: "cs = [Mqtt_app_init ipstr, Mqtt_Connect]" using assms(9) by (simp add: nslookup_cb_def mqtt_setconn_def sdk_def)
  obtain a1 w1 where i: "(a1, w1) = mqtt_app_init inc e ipstr app w" by (metis surj_pair)
  note w1 = mqtt_app_init_inv [OF assms(1-5) i [unfolded assms(8)]]
  have w': "w' = MQTT_Connect e w1" using assms(10) unfolding cs by (simp add: i [symmetric])
  have "inv_step e w1 w'" unfolding w' by (rule MQTT_Connect_ok [OF w1(1)]) (simp add: w1(2) assms(6))
  then have inv: "client_inv e w'" by (simp add: inv_step_def)
  have "connect_info (w_client w') = device_info mac" "security (w_client w') = 0"
    using w1(3,4) by (simp_all add: w' MQTT_Connect_fields)
  note connect_cb_sends [OF inv this(2) this(1) [symmetric] device_info_fits]
  then show ?thesis using inv setup_app_init_fields(1,2) client_id_inject [OF _ assms(7)] assms(8) by simp
qed

theorem device_presents_its_mac_witness:
  "\<exists>app' w'. fold (mqtt_call False sample_env) [Mqtt_app_init [0x31], Mqtt_Connect]
      (setup_app_init False [0x5C, 0xCF, 0x7F, 0, 1, 0xAB], blank_world) = (app', w') \<and> client_inv sample_env w' \<and>
    Espconn_send (packet MQTT_MSG_TYPE_CONNECT 0 0 (connect_body PROTOCOL_NAMEv31 (device_info [0x5C, 0xCF, 0x7F, 0, 1, 0xAB])))
      \<in> set (w_trace (mqtt_tcpclient_connect_cb sample_env w'))"
proof -
  define mac :: "u8 list" where "mac = [0x5C, 0xCF, 0x7F, 0, 1, 0xAB]"
  obtain app' w' where f: "fold (mqtt_call False sample_env) [Mqtt_app_init [0x31], Mqtt_Connect]
      (setup_app_init False mac, blank_world) = (app', w')" by (metis surj_pair)
  have "length mac = 6" by (simp add: mac_def)
  moreover have "calls (nslookup_cb (Some (Some [0x31])) setup_init) = calls setup_init @ [Mqtt_app_init [0x31], Mqtt_Connect]"
    by (simp add: nslookup_cb_def mqtt_setconn_def sdk_def)
  moreover have "protocol_name sample_env = PROTOCOL_NAMEv31" by (simp add: sample_env_def)
  ultimately show ?thesis
    using device_presents_its_mac [OF sample_alloc(1-3) _ sample_alloc(4,5) _ refl _ f, of "[0x31]" setup_init] f
    unfolding mac_def [symmetric] by auto
qed

text \<open>
  Without the test topics, as the build has it, the topic is NULL: no temperature is ever published and the
  function for a new connection is never registered.
\<close>

lemma pub_temp_refused:
  "\<exists>w'. setup_api_test e (setup_app_init False mac) buf w = Some (w', False) \<and> w_trace w' = w_trace w \<and>
    w_mem w' = w_mem w \<and> msgQueue (w_client w') = msgQueue (w_client w)"
  by (simp add: setup_api_test_def mqtt_api_pub_temp_def setup_app_init_fields(5) MQTT_Publish_def mqtt_msg_publish_def
      str_given_def fail_message_def set_outbound_id_def Let_def world_defs)

lemma connected_cb_not_registered:
  assumes "mqtt_app_init False e h app w = (app', w')"
  shows "connectedCb (w_client w') = None" "dataCb (w_client w') = None"
proof -
  have "connectedCb (w_client w') = None \<and> dataCb (w_client w') = None"
    using assms by (auto simp: mqtt_app_init_def Let_def MQTT_InitConnection_def zero_client_def MQTT_InitClient_def
        MQTT_InitLWT_def MQTT_OnTimeout_def MQTT_OnPublished_def MQTT_OnDisconnected_def world_defs split: prod.splits)
  then show "connectedCb (w_client w') = None" "dataCb (w_client w') = None" by simp_all
qed

text \<open>The room reported to the application; it is negative when the queue holds more than the number guessed for it.\<close>

lemma buff_len_avail_bounds:
  assumes "client_inv e w"
  shows "- 360 \<le> mqtt_api_buff_len_avail (mqttPublishedCb w)" "mqtt_api_buff_len_avail (mqttPublishedCb w) \<le> 1432"
  using assms by (simp_all add: mqtt_api_buff_len_avail_def mqttPublishedCb_def client_inv_def Let_def queue_inv_def ring_inv_def)
text \<open>
  Every answer of the resolver sets the client up anew without deleting the previous one: its buffers, its queue and
  its connection are neither freed nor closed.
\<close>

lemma mqtt_app_init_frees_nothing:
  assumes "mqtt_app_init inc e h app w = (app', w')"
  shows "w_trace w' = w_trace w @ [Os_task, Os_post]" "pCon (w_client w') = None"
proof -
  have "w_trace w' = w_trace w @ [Os_task, Os_post] \<and> pCon (w_client w') = None"
    using assms by (auto simp: mqtt_app_init_def Let_def MQTT_InitConnection_def zero_client_def MQTT_InitClient_def
        MQTT_InitLWT_def MQTT_OnTimeout_def MQTT_OnPublished_def MQTT_OnDisconnected_def mqtt_attach_test_cbs_def
        MQTT_OnData_def MQTT_OnConnected_def world_defs split: prod.splits)
  then show "w_trace w' = w_trace w @ [Os_task, Os_post]" "pCon (w_client w') = None" by simp_all
qed

end
