(* ===== verification/Setup_Cli.thy ===== *)
theory Setup_Cli
  imports Esp_Prelude
begin

text \<open>
  The serial console of the setup application: \<^verbatim>\<open>uart_recvTask\<close> of \<^verbatim>\<open>app_setup/driver/uart.c\<close> collects a line
  and \<^verbatim>\<open>setup_cli_parse\<close> of \<^verbatim>\<open>app_setup/setup/setup_cli.c\<close> normalises it in place. A heap block is the list
  of its bytes, an access outside of it is \<open>None\<close> (a fault).
\<close>

section \<open>Receiving a line\<close>

text \<open>The static variables of \<open>uart_recvTask\<close>: the line buffer of 128 bytes and the count of bytes in it.\<close>

record uart_line =
  line_buf :: "u8 list"
  line_length :: u8

record io_msg =
  msg_type :: u8
  msg_len :: u16
  msg_data :: "u8 list option"

text \<open>The loop that empties the receive FIFO, whose bytes are the last argument.\<close>

fun uart_recv_loop :: "u8 list \<Rightarrow> u8 \<Rightarrow> u8 list \<Rightarrow> u8 list \<times> u8 \<times> u8 list" where
  "uart_recv_loop b n [] = (b, n, [])"
| "uart_recv_loop b n (c # fifo) =
     (if n < 128 then uart_recv_loop (b[unat n := c]) (n + 1) fifo else (b, n, c # fifo))"

text \<open>
  With no byte received the byte in front of the array is read, the argument \<open>before\<close>. \<open>zalloc\<close> tells
  whether the two calls of \<^verbatim>\<open>os_zalloc\<close> succeed; their results are not checked. The answer is the new
  state, the bytes left in the FIFO and the message posted to the event task.
\<close>

definition uart_recvTask :: "u8 \<Rightarrow> bool \<Rightarrow> uart_line \<Rightarrow> u8 list \<Rightarrow> (uart_line \<times> u8 list \<times> io_msg option) option" where
  "uart_recvTask before zalloc u fifo =
     (let (b, n, rest) = uart_recv_loop (line_buf u) (line_length u) fifo in
      if (if n = 0 then before else b ! unat (n - 1)) = 10 then
        if zalloc then
          Some (\<lparr>line_buf = b, line_length = 0\<rparr>, rest,
            Some \<lparr>msg_type = 0, msg_len = ucast n, msg_data = Some (take (unat n) b @ [0])\<rparr>)
        else None
      else Some (\<lparr>line_buf = b, line_length = n\<rparr>, rest, None))"

section \<open>Normalising a command\<close>

definition isupper :: "u8 \<Rightarrow> bool" where
  "isupper c \<longleftrightarrow> 65 \<le> c \<and> c \<le> 90"

definition tolower :: "u8 \<Rightarrow> u8" where
  "tolower c = (if isupper c then c + 32 else c)"

text \<open>The string that starts at the head of a block, and \<^verbatim>\<open>strlen\<close>, which faults when there is no NUL.\<close>

definition cstring :: "u8 list \<Rightarrow> u8 list" where
  "cstring b = takeWhile (\<lambda>c. c \<noteq> 0) b"

definition strlen :: "u8 list \<Rightarrow> nat option" where
  "strlen b = (if 0 \<in> set b then Some (length (cstring b)) else None)"

text \<open>\<open>setup_cli_shift\<close>: \<open>dst\<close> is the pointer after \<^verbatim>\<open>str -= ndx\<close>.\<close>

function shift_loop :: "u8 list \<Rightarrow> nat \<Rightarrow> nat \<Rightarrow> u8 list option" where
  "shift_loop b dst ndx =
     (if dst + ndx < length b then
        if b ! (dst + ndx) \<noteq> 0 then shift_loop (b[dst := b ! (dst + ndx)]) (Suc dst) ndx
        else Some (b[dst := 0])
      else None)"
  by auto

termination by (relation "measure (\<lambda>(b, dst, ndx). length b - dst)") auto

declare shift_loop.simps [simp del]

definition setup_cli_shift :: "u8 list \<Rightarrow> nat \<Rightarrow> nat \<Rightarrow> u8 list option" where
  "setup_cli_shift b str ndx = (if ndx \<le> str then shift_loop b (str - ndx) ndx else None)"

text \<open>\<^verbatim>\<open>memcpy(rxBuf, head, n)\<close> and \<^verbatim>\<open>memset(rxBuf, 0, n)\<close>; \<open>rxBuf\<close> has 128 bytes.\<close>

definition rx_copy :: "u8 list \<Rightarrow> u8 list \<Rightarrow> nat \<Rightarrow> u8 list option" where
  "rx_copy rx b n = (if n \<le> length rx \<and> n \<le> length b then Some (take n b @ drop n rx) else None)"

definition rx_clear :: "u8 list \<Rightarrow> nat \<Rightarrow> u8 list option" where
  "rx_clear rx n = (if n \<le> length rx then Some (replicate n 0 @ drop n rx) else None)"

text \<open>
  The loop of \<open>setup_cli_parse\<close> and the two statements after it; \<open>str\<close> is the offset of the pointer
  from the head of the block.
\<close>

partial_function (option) cli_loop ::
  "u8 list \<Rightarrow> nat \<Rightarrow> nat \<Rightarrow> bool \<Rightarrow> u8 list \<Rightarrow> (u8 list \<times> u8 list) option" where
  "cli_loop b str numWS fst_word rx =
     (if length b \<le> str then None
      else if b ! str = 0 then
        let b1 = (if numWS \<noteq> 0 then b[str - numWS := 0] else b) in
        Option.bind (if fst_word then rx_copy rx b1 str else Some rx) (\<lambda>rx1. Some (b1, rx1))
      else if b ! str = 32 then
        Option.bind (if fst_word then rx_copy rx b str else Some rx)
          (\<lambda>rx1. cli_loop b (Suc str) (Suc numWS) False rx1)
      else
        Option.bind (if numWS > 1 then setup_cli_shift b str (numWS - 1) else Some b)
          (\<lambda>b1. let str1 = (if numWS > 1 then str - (numWS - 1) else str);
                    b2 = (if isupper (b1 ! str1) then b1[str1 := tolower (b1 ! str1)] else b1)
                in cli_loop b2 (Suc str1) 0 fst_word rx))"

text \<open>
  A command of more than two characters is answered with no \<^verbatim>\<open>return\<close> statement: the value \<open>ret\<close> the
  caller sees is an argument.
\<close>

definition setup_cli_parse :: "int \<Rightarrow> u8 list \<Rightarrow> u8 list \<Rightarrow> (u8 list \<times> u8 list \<times> int) option" where
  "setup_cli_parse ret rx b =
     (case strlen b of
        None \<Rightarrow> None
      | Some len \<Rightarrow>
          if len \<le> 2 then map_option (\<lambda>rx1. (b, rx1, - 1)) (rx_clear rx len)
          else
            Option.bind (rx_clear rx 128)
              (\<lambda>rx1. let b1 = (if b ! (len - 1) = 10 then b[len - 1 := 0] else b) in
                map_option (\<lambda>(b2, rx2). (b2, rx2, ret)) (cli_loop b1 0 0 True rx1)))"

section \<open>What a command becomes\<close>

text \<open>
  The words of a command line, and the line the console works with: the words in lower case with one
  space between them, after one space when the line starts with one.
\<close>

function words :: "u8 list \<Rightarrow> u8 list list" where
  "words s = (case dropWhile (\<lambda>c. c = 32) s of
     [] \<Rightarrow> [] | c # t \<Rightarrow> (c # takeWhile (\<lambda>c. c \<noteq> 32) t) # words (dropWhile (\<lambda>c. c \<noteq> 32) t))"
  by auto

termination
proof (relation "measure length", goal_cases)
  case 1
  then show ?case by simp
next
  case (2 s c t)
  have "length (dropWhile (\<lambda>c. c \<noteq> 32) t) \<le> length t" by (rule length_dropWhile_le)
  also have "\<dots> < length (c # t)" by simp
  also have "\<dots> \<le> length s" using length_dropWhile_le [of "\<lambda>c. c = 32" s] 2 by simp
  finally show ?case by simp
qed

declare words.simps [simp del]

fun spaced :: "u8 list list \<Rightarrow> u8 list" where
  "spaced [] = []"
| "spaced [w] = w"
| "spaced (w # ws) = w @ 32 # spaced ws"

definition command_line :: "u8 list \<Rightarrow> u8 list" where
  "command_line s =
     map tolower ((if s \<noteq> [] \<and> hd s = 32 \<and> words s \<noteq> [] then [32] else []) @ spaced (words s))"

text \<open>The same, computed from left to right: \<open>ws\<close> tells whether spaces are pending.\<close>

fun squeeze :: "bool \<Rightarrow> u8 list \<Rightarrow> u8 list" where
  "squeeze ws [] = []"
| "squeeze ws (c # s) =
     (if c = 32 then squeeze True s else (if ws then [32] else []) @ tolower c # squeeze False s)"

lemma tolower_space [simp]: "tolower 32 = 32"
  by (simp add: tolower_def isupper_def)

lemma words_space [simp]: "words (32 # s) = words s"
  by (simp add: words.simps [of "32 # s"] words.simps [of s])

lemma words_Nil [simp]: "words [] = []"
  by (simp add: words.simps)

lemma words_word: "c \<noteq> 32 \<Longrightarrow> words (c # s) = (c # takeWhile (\<lambda>c. c \<noteq> 32) s) # words (dropWhile (\<lambda>c. c \<noteq> 32) s)"
  by (subst words.simps) simp

lemma spaced_Cons: "spaced (w # ws) = w @ (if ws = [] then [] else 32 # spaced ws)"
  by (cases ws) simp_all

lemma squeeze_word:
  "squeeze False s = map tolower (takeWhile (\<lambda>c. c \<noteq> 32) s) @ squeeze False (dropWhile (\<lambda>c. c \<noteq> 32) s)"
  by (induction s) auto

lemma squeeze_words:
  "squeeze ws s = (if words s = [] then [] else map tolower ((if ws \<or> hd s = 32 then [32] else []) @ spaced (words s)))"
proof (induction s arbitrary: ws rule: measure_induct_rule [of length])
  case (less s)
  show ?case
  proof (cases s)
    case (Cons c t)
    show ?thesis
    proof (cases "c = 32")
      case True
      then show ?thesis using less [of t True] Cons by simp
    next
      case False
      define r where "r = dropWhile (\<lambda>c. c \<noteq> 32) t"
      have r: "length r < length s" using length_dropWhile_le [of "\<lambda>c. c \<noteq> 32" t] by (simp add: r_def Cons)
      have "words r \<noteq> [] \<Longrightarrow> hd r = 32" using hd_dropWhile [of "\<lambda>c. c \<noteq> 32" t] by (fastforce simp: r_def)
      then show ?thesis
        using less [OF r, of False] False squeeze_word [of t]
        by (auto simp: Cons words_word spaced_Cons r_def [symmetric])
    qed
  qed simp
qed

lemma squeeze_command: "squeeze False s = command_line s"
  unfolding command_line_def by (subst squeeze_words) (cases s; simp)

section \<open>Correctness of the in-place loop\<close>

lemma shift_block:
  assumes "0 \<notin> set xs"
  shows "\<exists>rest'. shift_loop (pre @ gap @ xs @ 0 # rest) (length pre) (length gap) = Some (pre @ xs @ 0 # rest') \<and>
    length rest' = length rest + length gap \<and> set rest' \<subseteq> {0} \<union> set gap \<union> set xs \<union> set rest"
  using assms
proof (induction xs arbitrary: pre gap)
  case Nil
  show ?case
  proof (cases gap)
    case Nil
    then show ?thesis by (subst shift_loop.simps) auto
  next
    case (Cons g gs)
    then show ?thesis by (subst shift_loop.simps) (auto simp: nth_append)
  qed
next
  case (Cons x xs)
  have x: "x \<noteq> 0" and xs: "0 \<notin> set xs" using Cons.prems by auto
  define gap' where "gap' = tl (gap @ [x])"
  have l: "length gap' = length gap" by (simp add: gap'_def)
  have sub: "set gap' \<subseteq> set gap \<union> {x}" unfolding gap'_def by (cases gap) auto
  have at: "(pre @ gap @ (x # xs) @ 0 # rest) ! (length pre + length gap) = x" by (simp add: nth_append)
  have upd: "(pre @ gap @ (x # xs) @ 0 # rest)[length pre := x] = (pre @ [x]) @ gap' @ xs @ 0 # rest"
    by (cases gap) (auto simp: gap'_def list_update_append)
  obtain rest' where t: "shift_loop ((pre @ [x]) @ gap' @ xs @ 0 # rest) (length (pre @ [x])) (length gap') = Some ((pre @ [x]) @ xs @ 0 # rest')"
    "length rest' = length rest + length gap'" "set rest' \<subseteq> {0} \<union> set gap' \<union> set xs \<union> set rest"
    using Cons.IH [OF xs, of "pre @ [x]" gap'] by blast
  have "shift_loop (pre @ gap @ (x # xs) @ 0 # rest) (length pre) (length gap) =
    shift_loop ((pre @ [x]) @ gap' @ xs @ 0 # rest) (length (pre @ [x])) (length gap')"
    using at upd x l by (subst shift_loop.simps) simp
  then show ?case using t sub l by auto
qed

lemma lower_at:
  "(if isupper ((pre @ c # xs) ! length pre) then (pre @ c # xs)[length pre := tolower ((pre @ c # xs) ! length pre)] else pre @ c # xs) =
    pre @ tolower c # xs"
  by (simp add: tolower_def)

lemma cli_loop_space:
  assumes "str < length b" "b ! str = 32" "fst_word \<Longrightarrow> str \<le> length rx"
  shows "cli_loop b str k fst_word rx = cli_loop b (Suc str) (Suc k) False (if fst_word then take str b @ drop str rx else rx)"
  using assms by (subst cli_loop.simps) (simp add: rx_copy_def)

lemma cli_loop_char:
  assumes "c \<noteq> 0" "c \<noteq> 32" "0 \<notin> set s"
  shows "\<exists>rest'. cli_loop (done @ replicate k 32 @ c # s @ 0 # rest) (length done + k) k fst_word rx =
      cli_loop ((done @ (if k \<noteq> 0 then [32] else []) @ [tolower c]) @ s @ 0 # rest') (length (done @ (if k \<noteq> 0 then [32] else []) @ [tolower c])) 0 fst_word rx \<and>
    length rest' = length rest + (k - 1) \<and> set rest' \<subseteq> {0, 32, c} \<union> set s \<union> set rest"
proof -
  let ?b = "done @ replicate k 32 @ c # s @ 0 # rest"
  let ?pre = "done @ (if k \<noteq> 0 then [32] else [])"
  have at: "?b ! (length done + k) = c" by (simp add: nth_append)
  obtain rest' where r: "(if k > 1 then setup_cli_shift ?b (length done + k) (k - 1) else Some ?b) = Some (?pre @ c # s @ 0 # rest')"
    and l: "length rest' = length rest + (k - 1)" and sub: "set rest' \<subseteq> {0, 32, c} \<union> set s \<union> set rest"
  proof (cases "k > 1")
    case True
    then have b: "?b = (done @ [32]) @ replicate (k - 1) 32 @ (c # s) @ 0 # rest" by (cases k) auto
    obtain rest' where "shift_loop ?b (length (done @ [32])) (length (replicate (k - 1) (32 :: u8))) = Some ((done @ [32]) @ (c # s) @ 0 # rest')"
      "length rest' = length rest + (k - 1)" "set rest' \<subseteq> {0} \<union> set (replicate (k - 1) 32) \<union> set (c # s) \<union> set rest"
      unfolding b using shift_block [of "c # s" "done @ [32]" "replicate (k - 1) 32" rest] assms by auto
    moreover have "length done + k - (k - 1) = length (done @ [32])" "k - 1 \<le> length done + k" using True by simp_all
    ultimately show ?thesis using True that [of rest'] unfolding setup_cli_shift_def by auto
  next
    case False
    then have "k = 0 \<or> k = 1" by linarith
    moreover have "set rest \<subseteq> {0, 32, c} \<union> set s \<union> set rest" by blast
    ultimately show ?thesis using that [of rest] by auto
  qed
  have p: "(if k > 1 then length done + k - (k - 1) else length done + k) = length ?pre" by auto
  have "cli_loop ?b (length done + k) k fst_word rx =
      Option.bind (if k > 1 then setup_cli_shift ?b (length done + k) (k - 1) else Some ?b)
        (\<lambda>b1. let str1 = length ?pre; b2 = (if isupper (b1 ! str1) then b1[str1 := tolower (b1 ! str1)] else b1)
              in cli_loop b2 (Suc str1) 0 fst_word rx)"
    unfolding p [symmetric] using at assms by (subst cli_loop.simps) simp
  also have "\<dots> = cli_loop (?pre @ tolower c # s @ 0 # rest') (Suc (length ?pre)) 0 fst_word rx"
    unfolding r by (simp only: Option.bind.simps Let_def lower_at)
  finally show ?thesis using l sub by (intro exI [of _ rest']) simp
qed

text \<open>The word copied to \<open>rxBuf\<close> when \<open>fst_word\<close> still holds: everything up to the first space.\<close>

definition first_word :: "u8 list \<Rightarrow> u8 list \<Rightarrow> u8 list" where
  "first_word done s = done @ map tolower (takeWhile (\<lambda>c. c \<noteq> 32) s)"

lemma cli_loop_run:
  assumes "0 \<notin> set s" "fst_word \<Longrightarrow> k = 0" "fst_word \<Longrightarrow> length (first_word done s) \<le> length rx"
  shows "\<exists>rest'. cli_loop (done @ replicate k 32 @ s @ 0 # rest) (length done + k) k fst_word rx =
      Some (done @ squeeze (k \<noteq> 0) s @ 0 # rest',
        if fst_word then first_word done s @ drop (length (first_word done s)) rx else rx) \<and>
    length (done @ squeeze (k \<noteq> 0) s @ 0 # rest') = length (done @ replicate k 32 @ s @ 0 # rest) \<and>
    set rest' \<subseteq> {0, 32} \<union> set s \<union> set rest"
  using assms
proof (induction s arbitrary: "done" k fst_word rx rest)
  case Nil
  show ?case
  proof (cases "k = 0")
    case True
    then show ?thesis using Nil by (subst cli_loop.simps) (auto simp: nth_append rx_copy_def first_word_def)
  next
    case False
    then have "\<not> fst_word" using Nil by auto
    moreover have "(done @ replicate k 32 @ 0 # rest)[length done := 0] = done @ 0 # replicate (k - 1) 32 @ 0 # rest"
      using False by (cases k) auto
    ultimately show ?thesis using False
      by (subst cli_loop.simps) (auto simp: nth_append intro!: exI [of _ "replicate (k - 1) 32 @ 0 # rest"])
  qed
next
  case (Cons c s)
  show ?case
  proof (cases "c = 32")
    case True
    let ?rx = "if fst_word then done @ drop (length done) rx else rx"
    have b: "done @ replicate (Suc k) 32 @ s @ 0 # rest = done @ replicate k 32 @ (c # s) @ 0 # rest"
      using True by (simp add: replicate_app_Cons_same)
    have "cli_loop (done @ replicate k 32 @ (c # s) @ 0 # rest) (length done + k) k fst_word rx =
        cli_loop (done @ replicate (Suc k) 32 @ s @ 0 # rest) (length done + Suc k) (Suc k) False ?rx"
      unfolding b using Cons.prems True by (subst cli_loop_space) (auto simp: nth_append first_word_def)
    then show ?thesis
      using Cons.IH [of False "Suc k" "done" ?rx rest] Cons.prems True by (auto simp: first_word_def)
  next
    case False
    let ?done = "done @ (if k \<noteq> 0 then [32] else []) @ [tolower c]"
    obtain rest1 where r1: "cli_loop (done @ replicate k 32 @ (c # s) @ 0 # rest) (length done + k) k fst_word rx =
        cli_loop (?done @ s @ 0 # rest1) (length ?done) 0 fst_word rx"
      "length rest1 = length rest + (k - 1)" "set rest1 \<subseteq> {0, 32, c} \<union> set s \<union> set rest"
      using cli_loop_char [of c s "done" k rest fst_word rx] Cons.prems(1) False by auto
    have fw: "fst_word \<Longrightarrow> first_word ?done s = first_word done (c # s)"
      using Cons.prems(2) False by (simp add: first_word_def)
    obtain rest' where r2: "cli_loop (?done @ s @ 0 # rest1) (length ?done) 0 fst_word rx =
        Some (?done @ squeeze False s @ 0 # rest', if fst_word then first_word ?done s @ drop (length (first_word ?done s)) rx else rx)"
      "length (?done @ squeeze False s @ 0 # rest') = length (?done @ s @ 0 # rest1)" "set rest' \<subseteq> {0, 32} \<union> set s \<union> set rest1"
      using Cons.IH [of fst_word 0 ?done rx rest1] Cons.prems fw by auto
    show ?thesis
    proof (intro exI [of _ rest'] conjI)
      show "set rest' \<subseteq> {0, 32} \<union> set (c # s) \<union> set rest" using r1(3) r2(3) by auto
    qed (use r1(1,2) r2(1,2) fw False in \<open>auto split: if_splits\<close>)
  qed
qed

section \<open>Properties\<close>

definition chomp :: "u8 list \<Rightarrow> u8 list" where
  "chomp s = (if s \<noteq> [] \<and> last s = 10 then butlast s else s)"

lemma cstring_block [simp]: "0 \<notin> set s \<Longrightarrow> cstring (s @ 0 # rest) = s"
  unfolding cstring_def by (subst takeWhile_append2) auto

lemma chomp_block:
  assumes "s \<noteq> []"
  obtains rest' where "(if (s @ 0 # rest) ! (length s - 1) = 10 then (s @ 0 # rest)[length s - 1 := 0] else s @ 0 # rest) = chomp s @ 0 # rest'"
    "length (chomp s @ 0 # rest') = length (s @ 0 # rest)" "set rest' \<subseteq> {0} \<union> set rest" "set (chomp s) \<subseteq> set s"
proof (cases s rule: rev_cases)
  case (snoc t c)
  show ?thesis
  proof (cases "c = 10")
    case True
    then show ?thesis using snoc that [of "0 # rest"] by (auto simp: chomp_def nth_append list_update_append)
  next
    case False
    then show ?thesis using snoc that [of rest] by (auto simp: chomp_def nth_append)
  qed
qed (use assms in simp)

lemma parse_run:
  assumes "0 \<notin> set s" "2 < length s" "length rx = 128" "length (first_word [] (chomp s)) \<le> 128"
  shows "\<exists>rest'. setup_cli_parse ret rx (s @ 0 # rest) =
      Some (command_line (chomp s) @ 0 # rest',
        first_word [] (chomp s) @ replicate (128 - length (first_word [] (chomp s))) 0, ret) \<and>
    length (command_line (chomp s) @ 0 # rest') = length (s @ 0 # rest) \<and> set rest' \<subseteq> {0, 32} \<union> set s \<union> set rest"
proof -
  have "s \<noteq> []" using assms(2) by auto
  then obtain r1 where r1: "(if (s @ 0 # rest) ! (length s - 1) = 10 then (s @ 0 # rest)[length s - 1 := 0] else s @ 0 # rest) = chomp s @ 0 # r1"
    "length (chomp s @ 0 # r1) = length (s @ 0 # rest)" "set r1 \<subseteq> {0} \<union> set rest" "set (chomp s) \<subseteq> set s"
    by (rule chomp_block)
  have z: "0 \<notin> set (chomp s)" using assms(1) r1(4) by blast
  obtain rest' where r2: "cli_loop (chomp s @ 0 # r1) 0 0 True (replicate 128 0) = Some (command_line (chomp s) @ 0 # rest',
      first_word [] (chomp s) @ replicate (128 - length (first_word [] (chomp s))) 0)"
    "length (command_line (chomp s) @ 0 # rest') = length (chomp s @ 0 # r1)" "set rest' \<subseteq> {0, 32} \<union> set (chomp s) \<union> set r1"
    using cli_loop_run [OF z, of True 0 "[]" "replicate 128 0" r1] assms(4) by (auto simp: squeeze_command)
  have "setup_cli_parse ret rx (s @ 0 # rest) =
      map_option (\<lambda>(b2, rx2). (b2, rx2, ret)) (cli_loop (chomp s @ 0 # r1) 0 0 True (replicate 128 0))"
    using assms r1(1) by (simp add: setup_cli_parse_def strlen_def rx_clear_def)
  then show ?thesis using r1 r2 by (intro exI [of _ rest']) auto
qed

text \<open>
  \<open>setup_cli_parse\<close> on a heap block that starts with a C string returns without leaving the block. A
  string of at most two characters is refused with \<open>-1\<close> and left as it is. Any longer one whose first word fits
  in \<open>rxBuf\<close> is replaced, in place, by its words in lower case separated by single spaces (one leading
  space is kept, the newline at the end is dropped), and \<open>rxBuf\<close> holds the text before the first space,
  in lower case and padded with NUL.
\<close>

theorem setup_cli_parse_normalises:
  assumes "0 \<notin> set s" "length rx = 128" "length (first_word [] (chomp s)) \<le> 128"
  shows "if length s \<le> 2 then
      setup_cli_parse ret rx (s @ 0 # rest) = Some (s @ 0 # rest, replicate (length s) 0 @ drop (length s) rx, - 1)
    else (\<exists>b. setup_cli_parse ret rx (s @ 0 # rest) =
        Some (b, first_word [] (chomp s) @ replicate (128 - length (first_word [] (chomp s))) 0, ret) \<and>
      length b = length (s @ 0 # rest) \<and> cstring b = command_line (chomp s))"
proof (cases "length s \<le> 2")
  case True
  then show ?thesis using assms by (simp add: setup_cli_parse_def strlen_def rx_clear_def)
next
  case False
  have low: "tolower c \<noteq> 0" if "c \<noteq> 0" for c :: u8
  proof -
    have "unat (c + 32) = unat c + 32" if "isupper c"
      using that by (simp add: isupper_def word_le_nat_alt unat_word_ariths)
    then show ?thesis using that unat_eq_zero [of "c + 32"] by (auto simp: tolower_def)
  qed
  have sq: "0 \<notin> set (squeeze w t)" if "0 \<notin> set t" for w t
    using that by (induction t arbitrary: w) (auto simp: low dest: sym)
  have "set (chomp s) \<subseteq> set s" by (auto simp: chomp_def dest: in_set_butlastD)
  then have "0 \<notin> set (command_line (chomp s))" using sq [of "chomp s" False] assms(1) by (auto simp: squeeze_command)
  then show ?thesis using parse_run [OF assms(1) _ assms(2,3), of ret rest] False by fastforce
qed

theorem setup_cli_parse_normalises_witness:
  "\<exists>b. setup_cli_parse 0 (replicate 128 0) ([82, 98, 32, 32, 49, 10] @ [0]) =
     Some (b, [114, 98] @ replicate 126 0, 0) \<and> cstring b = [114, 98, 32, 49]"
  using setup_cli_parse_normalises [of "[82, 98, 32, 32, 49, 10]" "replicate 128 0" 0 "[]"]
  by (simp add: first_word_def chomp_def command_line_def words.simps tolower_def isupper_def) blast

section \<open>Lines from the receive FIFO\<close>

text \<open>
  The interrupts of a console session, each with the bytes that have arrived since the last one; \<open>fifo\<close> are
  the bytes left there before. The answer has the messages posted.
\<close>

fun uart_run :: "u8 \<Rightarrow> uart_line \<Rightarrow> u8 list \<Rightarrow> u8 list list \<Rightarrow> (uart_line \<times> u8 list \<times> io_msg list) option" where
  "uart_run before u fifo [] = Some (u, fifo, [])"
| "uart_run before u fifo (c # cs) =
     (case uart_recvTask before True u (fifo @ c) of
        None \<Rightarrow> None
      | Some (u1, rest, m) \<Rightarrow>
          map_option (\<lambda>(u2, r, ms). (u2, r, (case m of None \<Rightarrow> ms | Some x \<Rightarrow> x # ms))) (uart_run before u1 rest cs))"

definition line_of :: "uart_line \<Rightarrow> u8 list" where
  "line_of u = take (unat (line_length u)) (line_buf u)"

lemma uart_recv_fits:
  assumes "unat n + length fifo \<le> 128" "length b = 128"
  shows "uart_recv_loop b n fifo =
    (take (unat n) b @ fifo @ drop (unat n + length fifo) b, of_nat (unat n + length fifo), [])"
  using assms
proof (induction fifo arbitrary: b n)
  case (Cons c fifo)
  have n: "n < 128" "unat n < 128" using Cons.prems by (simp_all add: word_less_nat_alt)
  then have n1: "unat (n + 1) = Suc (unat n)" using unat_succ_less [of n 128] by simp
  have "take (Suc (unat n)) (b[unat n := c]) = take (unat n) b @ [c]"
    using n Cons.prems by (simp add: take_Suc_conv_app_nth take_update_cancel)
  moreover have "uart_recv_loop b n (c # fifo) = uart_recv_loop (b[unat n := c]) (n + 1) fifo" using n(1) by simp
  ultimately show ?case using Cons.IH [of "n + 1" "b[unat n := c]"] Cons.prems n1 by simp
qed simp

lemma uart_recvTask_fits:
  assumes "c \<noteq> []" "unat (line_length u) + length c \<le> 128" "length (line_buf u) = 128"
  shows "\<exists>u'. length (line_buf u') = 128 \<and> uart_recvTask before True u c =
     Some (u', [], if last c = 10
       then Some \<lparr>msg_type = 0, msg_len = of_nat (length (line_of u @ c)), msg_data = Some (line_of u @ c @ [0])\<rparr> else None) \<and>
     line_of u' = (if last c = 10 then [] else line_of u @ c) \<and> unat (line_length u') = length (line_of u')"
proof -
  define n where "n = unat (line_length u) + length c"
  let ?b = "line_of u @ c @ drop n (line_buf u)"
  have n: "0 < n" "n \<le> 128" using assms by (auto simp: n_def)
  have lo: "length (line_of u) = unat (line_length u)" using assms by (simp add: line_of_def)
  have u: "unat (of_nat n :: u8) = n" using n by (simp add: unat_of_nat_small)
  then have z: "(of_nat n :: u8) \<noteq> 0" using n by auto
  have "unat ((of_nat n :: u8) - 1) = n - 1"
    using n u z unat_minus_one [OF z] by simp
  moreover have "?b ! (n - 1) = last c"
  proof -
    have "0 < length c" using assms(1) by simp
    then have "n - 1 = length (line_of u) + (length c - 1)" unfolding n_def lo by linarith
    then show ?thesis using assms(1) by (simp only: nth_append_length_plus) (simp add: nth_append last_conv_nth)
  qed
  moreover have "take n ?b = line_of u @ c" using lo by (simp add: n_def)
  moreover have "(ucast (of_nat n :: u8) :: u16) = of_nat n" using ucast_of_unat [OF u] by simp
  moreover have "uart_recv_loop (line_buf u) (line_length u) c = (?b, of_nat n, [])"
    using uart_recv_fits [OF assms(2,3)] by (simp add: line_of_def n_def)
  ultimately show ?thesis using u z lo n assms by (auto simp: uart_recvTask_def line_of_def n_def)
qed

definition console_msg :: "u8 list \<Rightarrow> io_msg" where
  "console_msg s = \<lparr>msg_type = 0, msg_len = of_nat (length s), msg_data = Some (s @ [0])\<rparr>"

lemma uart_run_line:
  assumes "[] \<notin> set cs" "concat cs = s @ [10]" "10 \<notin> set s" "length (line_buf u) = 128"
    "unat (line_length u) = length (line_of u)" "length (line_of u) + length (concat cs) \<le> 128"
  shows "\<exists>u'. uart_run before u [] cs = Some (u', [], [console_msg (line_of u @ s @ [10])]) \<and>
    length (line_buf u') = 128 \<and> line_length u' = 0"
  using assms
proof (induction cs arbitrary: u s)
  case (Cons c cs)
  have c: "c \<noteq> []" using Cons.prems(1) by auto
  have fits: "unat (line_length u) + length c \<le> 128" using Cons.prems(5,6) by simp
  obtain u1 where u1: "length (line_buf u1) = 128" "uart_recvTask before True u c =
     Some (u1, [], if last c = 10
       then Some \<lparr>msg_type = 0, msg_len = of_nat (length (line_of u @ c)), msg_data = Some (line_of u @ c @ [0])\<rparr> else None)"
     "line_of u1 = (if last c = 10 then [] else line_of u @ c)" "unat (line_length u1) = length (line_of u1)"
    using uart_recvTask_fits [OF c fits Cons.prems(4), of before] by blast
  show ?case
  proof (cases "cs = []")
    case True
    then have e: "c = s @ [10]" using Cons.prems by simp
    have "line_length u1 = 0" using u1(3,4) e unat_eq_zero by auto
    then show ?thesis using True u1 e by (simp add: console_msg_def)
  next
    case False
    then have "concat cs \<noteq> []" using Cons.prems(1) by (cases cs) auto
    then obtain d where d: "concat cs = d @ [10]" "s = c @ d"
      using Cons.prems(2) by (cases "concat cs" rule: rev_cases) auto
    then have "last c \<noteq> 10" using c Cons.prems(3) last_in_set by fastforce
    then show ?thesis using Cons.IH [of d u1] Cons.prems d u1 by simp
  qed
qed simp

lemma uart_recv_full: "uart_recv_loop b 128 fifo = (b, 128, fifo)"
  by (cases fifo) simp_all

text \<open>
  A line of 128 bytes that does not end in a newline jams the console: from then on no interrupt takes a byte
  from the FIFO and no message is posted any more.
\<close>

theorem uart_long_line_jams:
  assumes "line_length u = 128" "line_buf u ! 127 \<noteq> 10"
  shows "uart_run before u fifo cs = Some (u, fifo @ concat cs, [])"
proof (induction cs arbitrary: fifo)
  case (Cons c cs)
  have "uart_recvTask before True u (fifo @ c) = Some (u, fifo @ c, None)"
    using assms by (simp add: uart_recvTask_def uart_recv_full)
  then show ?case using Cons by simp
qed simp

end
