(* ===== verification/Setup_Console.thy ===== *)
theory Setup_Console
  imports Setup_Cli Rboot_Api Printing
begin

text \<open>
  Executing the commands of the serial console: the event task \<^verbatim>\<open>Event_Mon_Task\<close> of
  \<^verbatim>\<open>app_setup/setup/setup_event.c\<close> and the commands of \<^verbatim>\<open>app_setup/setup/setup_cli.c\<close>, which switch the image
  to boot through the boot API. The configuration is that of \<^verbatim>\<open>user_config.h\<close>, in which \<^verbatim>\<open>EN_TEMP_SENSOR\<close> is
  not defined; the one-wire message of the other configuration is modelled with the one-wire driver.
\<close>

section \<open>Executing a command\<close>

fun strstr :: "u8 list \<Rightarrow> u8 list \<Rightarrow> bool" where
  "strstr [] needle = (needle = [])"
| "strstr (c # s) needle = (take (length needle) (c # s) = needle \<or> strstr s needle)"

datatype setup_out = Show_chip_id | Show_rboot | Show_heap | Invalid_cmd | Blink | Flush | Free_data | Free_msg | Send_EOT

record 'f setup_state =
  boot :: "'f boot_state"
  rxBuf :: "u8 list"
  outs :: "setup_out list"

definition out :: "setup_out \<Rightarrow> 'f setup_state \<Rightarrow> 'f setup_state" where
  "out e s = s\<lparr>outs := outs s @ [e]\<rparr>"

definition setup_cli_get_cmd :: "u8 list \<Rightarrow> setup_out" where
  "setup_cli_get_cmd cmd =
     (if strstr cmd (ascii ''show id'') then Show_chip_id
      else if strstr cmd (ascii ''show rboot'') then Show_rboot
      else if strstr cmd (ascii ''show heap'') then Show_heap
      else Invalid_cmd)"

text \<open>The loop over the characters of \<open>cmd\<close> from index 11 on, at the indices given.\<close>

fun rboot_cmd_loop :: "'f spi \<Rightarrow> api_env \<Rightarrow> u8 list \<Rightarrow> nat list \<Rightarrow> 'f boot_state \<Rightarrow> 'f boot_state option" where
  "rboot_cmd_loop S e cmd [] s = Some s"
| "rboot_cmd_loop S e cmd (i # is) s =
     (if length cmd \<le> i then None
      else if 48 \<le> cmd ! i \<and> cmd ! i \<le> 51
      then rboot_cmd_loop S e cmd is (rboot_switch S e (cmd ! i - 48) True s)
      else rboot_cmd_loop S e cmd is s)"

definition setup_cli_rboot_cmd :: "'f spi \<Rightarrow> api_env \<Rightarrow> u8 list \<Rightarrow> u16 \<Rightarrow> 'f boot_state \<Rightarrow> 'f boot_state option" where
  "setup_cli_rboot_cmd S e cmd len s =
     (if strstr (cstring cmd) (ascii ''rboot switch'') then rboot_cmd_loop S e cmd [11..<unat len] s
      else Some s)"

definition MSG_IFACE_MQTT :: u8 where "MSG_IFACE_MQTT = 1"
definition MSG_IFACE_UART :: u8 where "MSG_IFACE_UART = 2"
definition MSG_IFACE_HTTP :: u8 where "MSG_IFACE_HTTP = 3"
definition MSG_IFACE_INTERNAL :: u8 where "MSG_IFACE_INTERNAL = 4"
definition MSG_IFACE_ONE_WIRE :: u8 where "MSG_IFACE_ONE_WIRE = 5"

text \<open>The branch for a message of the console: the block after the commands, or a fault.\<close>

definition uart_command :: "'f spi \<Rightarrow> api_env \<Rightarrow> int \<Rightarrow> u8 list \<Rightarrow> u16 \<Rightarrow> 'f setup_state \<Rightarrow> 'f setup_state option" where
  "uart_command S e ret dat len s =
     Option.bind (setup_cli_parse ret (rxBuf s) dat)
       (\<lambda>(b, rx, r). let s1 = s\<lparr>rxBuf := rx\<rparr>; cmd = cstring b in
          if r < 0 then Some s1
          else if strstr cmd (ascii ''blink'') then Some (out Blink s1)
          else if strstr cmd (ascii ''rboot'') then
            map_option (\<lambda>bs. s1\<lparr>boot := bs\<rparr>) (setup_cli_rboot_cmd S e b len (boot s1))
          else if strstr cmd (ascii ''show'') then Some (out (setup_cli_get_cmd cmd) s1)
          else if strstr cmd (ascii ''flush'') then
            map_option (\<lambda>rx1. out Flush (s1\<lparr>rxBuf := rx1\<rparr>)) (rx_clear (rxBuf s1) 128)
          else Some (out Invalid_cmd s1))"

definition msg_cleanup :: "u8 \<Rightarrow> io_msg \<Rightarrow> 'f setup_state \<Rightarrow> 'f setup_state" where
  "msg_cleanup iface msg s =
     (let s1 = (if msg_data msg \<noteq> None then out Free_data s else s); s2 = out Free_msg s1 in
      if iface = MSG_IFACE_UART then out Send_EOT s2 else s2)"

text \<open>
  The event task. For \<open>MSG_IFACE_ONE_WIRE\<close> the jump over the initialisation of \<^verbatim>\<open>msg\<close> makes the cleanup
  free an uninitialised pointer, a fault in this configuration.
\<close>

definition Event_Mon_Task :: "'f spi \<Rightarrow> api_env \<Rightarrow> int \<Rightarrow> u32 \<Rightarrow> io_msg option \<Rightarrow> 'f setup_state \<Rightarrow> 'f setup_state option" where
  "Event_Mon_Task S e ret sig par s =
     (let iface = (if sig \<noteq> 0 then ucast sig else 0) :: u8 in
      if iface = MSG_IFACE_ONE_WIRE then None
      else case par of
        None \<Rightarrow> Some s
      | Some msg \<Rightarrow>
          map_option (msg_cleanup iface msg)
            (if iface = MSG_IFACE_UART then
               case msg_data msg of None \<Rightarrow> Some s | Some dat \<Rightarrow> uart_command S e ret dat (msg_len msg) s
             else Some s))"

section \<open>Switching the image from the console\<close>

lemma squeeze_keeps: "c \<in> set s \<Longrightarrow> c \<noteq> 32 \<Longrightarrow> tolower c \<in> set (squeeze w s)"
  by (induction s arbitrary: w) auto

lemma length_squeeze: "length (squeeze w s) \<le> length s + of_bool w"
proof (induction s arbitrary: w)
  case (Cons c s)
  show ?case using Cons [of True] Cons [of False] by auto
qed simp

lemma command_line_keeps: "c \<in> set s \<Longrightarrow> c \<noteq> 32 \<Longrightarrow> tolower c \<in> set (command_line s)"
  using squeeze_keeps [of c s False] by (simp add: squeeze_command)

lemma tolower_digit: "c \<le> 51 \<Longrightarrow> tolower c = c"
  by (auto simp: tolower_def isupper_def word_le_nat_alt)

text \<open>Once the image is selected, the remaining copies of its digit change nothing.\<close>

definition digits_are :: "u8 \<Rightarrow> u8 list \<Rightarrow> bool" where
  "digits_are d cmd \<longleftrightarrow> (\<forall>c \<in> set cmd. 48 \<le> c \<and> c \<le> 51 \<longrightarrow> c = 48 + d)"

lemma cmd_loop_stays:
  assumes "digits_are d cmd" "\<forall>i \<in> set is. i < length cmd" "\<not> restartPending s" "rboot_get_current_rom S e (flash s) = d"
  shows "rboot_cmd_loop S e cmd is s = Some s"
  using assms by (induction "is") (auto simp: digits_are_def rboot_switch_def)

lemma cmd_loop_switches:
  assumes "digits_are d cmd" "\<forall>i \<in> set is. i < length cmd" "i \<in> set is" "48 \<le> cmd ! i" "cmd ! i \<le> 51"
    "s' = rboot_switch S e d True s" "\<not> restartPending s'" "rboot_get_current_rom S e (flash s') = d"
  shows "rboot_cmd_loop S e cmd is s = Some s'"
  using assms(2,3)
proof (induction "is")
  case (Cons j js)
  show ?case
  proof (cases "48 \<le> cmd ! j \<and> cmd ! j \<le> 51")
    case True
    then have "cmd ! j = 48 + d" using assms(1) Cons.prems(1) by (simp add: digits_are_def)
    then show ?thesis using True Cons.prems(1) assms(6-8) cmd_loop_stays [OF assms(1), of js s' S e] by simp
  next
    case False
    then have "i \<in> set js" using Cons.prems(2) assms(4,5) by auto
    then show ?thesis using False Cons by auto
  qed
qed simp

lemma switch_selects:
  assumes "rboot_set_current_rom S e d (flash s) = (f', True)" "rboot_get_current_rom S e (flash s) \<noteq> d" "d < 4" "\<not> restartPending s"
  shows "rboot_switch S e d True s = system_restart (s\<lparr>flash := f'\<rparr>)"
  using assms by (simp add: rboot_switch_def not_le)

definition switch_cmd :: "u8 \<Rightarrow> u8 list" where
  "switch_cmd d = ascii ''rboot switch '' @ [48 + d]"

lemma u8_below_4: "(d :: u8) < 4 \<Longrightarrow> d \<in> {0, 1, 2, 3}"
  by (simp add: word_unat_eq_iff word_less_nat_alt) linarith

lemma switch_cmd_facts:
  assumes "d < 4"
  shows "\<not> strstr (switch_cmd d) (ascii ''blink'')" "strstr (switch_cmd d) (ascii ''rboot'')"
    "strstr (switch_cmd d) (ascii ''rboot switch'')" "length (switch_cmd d) = 14" "switch_cmd d ! 13 = 48 + d"
    "0 \<notin> set (switch_cmd d)" "digits_are d (switch_cmd d)" "48 \<le> 48 + d \<and> 48 + d \<le> 51"
  using u8_below_4 [OF assms]
  by (auto simp: switch_cmd_def ascii_def digits_are_def of_char_def)

text \<open>The effect of the command on the block the parser leaves.\<close>

lemma rboot_cmd_switches:
  assumes "d < 4" "cmd = switch_cmd d @ 0 # rest" "digits_are d rest" "13 < unat len" "unat len \<le> length cmd"
    "s' = rboot_switch S e d True s" "\<not> restartPending s'" "rboot_get_current_rom S e (flash s') = d"
  shows "setup_cli_rboot_cmd S e cmd len s = Some s'"
proof -
  note sw = switch_cmd_facts [OF assms(1)]
  have "digits_are d cmd" using sw(7) assms(2,3) by (auto simp: digits_are_def)
  moreover have "cmd ! 13 = 48 + d" using sw(4,5) assms(2) by (simp add: nth_append)
  ultimately have "rboot_cmd_loop S e cmd [11..<unat len] s = Some s'"
    using cmd_loop_switches [of d cmd "[11..<unat len]" 13 s' S e s] sw(8) assms(4-8) by simp
  then show ?thesis using sw(3,6) assms(2) by (simp add: setup_cli_rboot_cmd_def)
qed

lemma console_switch:
  assumes "0 \<notin> set s" "10 \<notin> set s" "length s \<le> 127" "command_line s = switch_cmd d" "d < 4" "0 \<le> ret"
    "length (rxBuf st) = 128" "s' = rboot_switch S e d True (boot st)" "\<not> restartPending s'"
    "rboot_get_current_rom S e (flash s') = d"
  shows "\<exists>st'. Event_Mon_Task S e ret 2 (Some (console_msg (s @ [10]))) st = Some st' \<and> boot st' = s' \<and>
    outs st' = outs st @ [Free_data, Free_msg, Send_EOT]"
proof -
  note sw = switch_cmd_facts [OF assms(5)]
  have ch: "chomp (s @ [10]) = s" by (simp add: chomp_def)
  have fw: "length (first_word [] s) \<le> 128"
    using length_takeWhile_le [of "\<lambda>c. c \<noteq> 32" s] assms(3) by (simp add: first_word_def)
  have len: "14 \<le> length s" using length_squeeze [of False s] sw(4) assms(4) by (simp add: squeeze_command)
  obtain rest where p: "setup_cli_parse ret (rxBuf st) ((s @ [10]) @ 0 # []) =
      Some (switch_cmd d @ 0 # rest, first_word [] s @ replicate (128 - length (first_word [] s)) 0, ret)"
    "length (switch_cmd d @ 0 # rest) = length ((s @ [10]) @ 0 # [])" "set rest \<subseteq> {0, 32} \<union> set (s @ [10]) \<union> set []"
    using parse_run [of "s @ [10]" "rxBuf st" ret "[]"] assms(1,4,7) len fw by (auto simp: ch)
  have dr: "digits_are d rest" unfolding digits_are_def
  proof (intro ballI impI)
    fix c
    assume c: "c \<in> set rest" "48 \<le> c \<and> c \<le> 51"
    then have "c \<noteq> 0" "c \<noteq> 32" "c \<noteq> 10" by (auto simp: word_le_nat_alt)
    then have "tolower c \<in> set (switch_cmd d)" using c(1) p(3) command_line_keeps [of c s] assms(4) by auto
    then show "c = 48 + d" using sw(7) c(2) tolower_digit [of c] by (simp add: digits_are_def)
  qed
  have l: "unat (of_nat (length (s @ [10])) :: u16) = length s + 1"
    using assms(3) by (subst unat_of_nat_small) simp_all
  have "setup_cli_rboot_cmd S e (switch_cmd d @ 0 # rest) (of_nat (length (s @ [10]))) (boot st) = Some s'"
    by (rule rboot_cmd_switches [OF assms(5) refl dr]) (use l len p(2) assms(8-10) in simp_all)
  then have "uart_command S e ret ((s @ [10]) @ 0 # []) (of_nat (length (s @ [10]))) st =
      Some (st\<lparr>rxBuf := first_word [] s @ replicate (128 - length (first_word [] s)) 0, boot := s'\<rparr>)"
    unfolding uart_command_def p(1) using sw(1,2,6) assms(6) by simp
  then show ?thesis by (simp add: Event_Mon_Task_def console_msg_def msg_cleanup_def out_def
    MSG_IFACE_ONE_WIRE_def MSG_IFACE_UART_def)
qed

text \<open>
  C34. From the serial line to the boot loader: let the bytes of a line arrive in any number of interrupts, the
  line being, up to upper case and superfluous spaces, \<^verbatim>\<open>rboot switch d\<close> with \<open>d\<close> one of the configured
  images other than the current one. Then \<open>uart_recvTask\<close> posts exactly one message with the line, and
  \<open>Event_Mon_Task\<close> on it, if the unspecified result of \<open>setup_cli_parse\<close> is not negative, faults nowhere, makes
  \<open>d\<close> the current image, asks for exactly one restart, frees the message and its data and ends the output. At
  the restart \<open>find_image\<close> boots image \<open>d\<close>, if it is good.
\<close>

theorem console_switch_boots:
  assumes "nor_flash S chip fsize" "0x2000 \<le> fsize" "malloc_ok e" "length (junk_conf e) = 28" "length (junk_buf e) = 4096"
    and "length junk = 4096" "f = flash (boot st)" "\<not> config_bad (mem_read (chip f) 0x1000 0x1000)"
    and "d < 4" "d < chip f 0x1005" "rboot_get_current_rom S e f \<noteq> d" "\<not> restartPending (boot st)"
    and "length (line_buf u) = 128" "line_length u = 0" "length (rxBuf st) = 128" "0 \<le> ret"
    and "concat cs = s @ [10]" "[] \<notin> set cs" "0 \<notin> set s" "10 \<notin> set s" "length s \<le> 127" "command_line s = switch_cmd d"
  shows "\<exists>u' st'. uart_run before u [] cs = Some (u', [], [console_msg (s @ [10])]) \<and> line_length u' = 0 \<and>
    Event_Mon_Task S e ret 2 (Some (console_msg (s @ [10]))) st = Some st' \<and>
    rboot_get_current_rom S e (flash (boot st')) = d \<and> restarts (boot st') = restarts (boot st) + 1 \<and>
    outs st' = outs st @ [Free_data, Free_msg, Send_EOT] \<and>
    (let f' = flash (boot st'); a = rom_addr (mem_read (chip f) 0x1000 0x1000) (uint d) in
     check_image S f' a = 0 \<or> find_image S f' junk = Some (f', check_image S f' a))"
proof -
  obtain u' where u': "uart_run before u [] cs = Some (u', [], [console_msg (s @ [10])])" "line_length u' = 0"
    using uart_run_line [OF assms(18,17,20,13), of before] assms(14,17,21) by (auto simp: line_of_def)
  have d: "unat d < 4" using assms(9) by (simp add: word_less_nat_alt)
  obtain f' where f': "rboot_set_current_rom S e d f = (f', True)" "rboot_get_current_rom S e f' = d"
      "check_image S f' (rom_addr (mem_read (chip f) 0x1000 0x1000) (uint d)) = 0 \<or>
       find_image S f' junk = Some (f', check_image S f' (rom_addr (mem_read (chip f) 0x1000 0x1000) (uint d)))"
    using selected_rom_boots [OF assms(1-6,8,10) d refl] by blast
  define s' where "s' = system_restart (boot st\<lparr>flash := f'\<rparr>)"
  have "s' = rboot_switch S e d True (boot st)"
    using switch_selects [of S e d "boot st" f'] f'(1) assms(7,9,11,12) by (simp add: s'_def)
  moreover have "\<not> restartPending s'" "rboot_get_current_rom S e (flash s') = d"
    using f'(2) assms(12) by (simp_all add: s'_def system_restart_def)
  ultimately obtain st' where "Event_Mon_Task S e ret 2 (Some (console_msg (s @ [10]))) st = Some st'" "boot st' = s'"
      "outs st' = outs st @ [Free_data, Free_msg, Send_EOT]"
    using console_switch [OF assms(19-22,9,16,15), of s' S e] by blast
  then show ?thesis using u' f' by (auto simp: s'_def system_restart_def)
qed

definition sample_console :: "mem setup_state" where
  "sample_console = \<lparr>boot = \<lparr>flash = configured_flash, restartPending = False, restarts = 0\<rparr>,
     rxBuf = replicate 128 0, outs = []\<rparr>"

definition sample_line :: "u8 list" where
  "sample_line = ascii ''RBoot   switch 1''"

theorem console_switch_boots_witness:
  "\<exists>u' st'. uart_run 0 \<lparr>line_buf = replicate 128 0, line_length = 0\<rparr> [] [take 5 sample_line, drop 5 sample_line @ [10]] =
      Some (u', [], [console_msg (sample_line @ [10])]) \<and>
    Event_Mon_Task sim_spi calm_env 0 2 (Some (console_msg (sample_line @ [10]))) sample_console = Some st' \<and>
    rboot_get_current_rom sim_spi calm_env (flash (boot st')) = 1 \<and> restarts (boot st') = 1"
proof -
  define c where "c = fresh_config 0x80000 (replicate 4096 0)"
  have c: "\<not> config_bad c" "c ! ROM_COUNT = 4" "c ! CURRENT_ROM = 0" "length c = 4096"
    by (simp_all add: c_def fresh_config_fields)
  have sec: "mem_read configured_flash 0x1000 0x1000 = c"
    using mem_read_write_same [of sample_flash "0x1000" c] c(4) by (simp add: configured_flash_def c_def)
  have n: "configured_flash 0x1005 = 4" "configured_flash 0x1003 = 0"
    using c(2-4) by (simp_all add: configured_flash_def c_def [symmetric] mem_write_def)
  have fl: "nor_flash sim_spi (\<lambda>f. f) 0x100000" by (rule sim_spi_flash) simp
  have env: "malloc_ok calm_env" "length (junk_conf calm_env) = 28" "length (junk_buf calm_env) = 4096"
    by (simp_all add: calm_env_def)
  have cur: "rboot_get_current_rom sim_spi calm_env configured_flash \<noteq> 1"
    using get_config_read [OF fl _ env(2), of configured_flash] n(2) by (simp add: rboot_get_current_rom_def)
  have st: "flash (boot sample_console) = configured_flash" "\<not> restartPending (boot sample_console)"
      "length (rxBuf sample_console) = 128" "restarts (boot sample_console) = 0"
    by (simp_all add: sample_console_def)
  have line: "concat [take 5 sample_line, drop 5 sample_line @ [10]] = sample_line @ [10]"
      "[] \<notin> set [take 5 sample_line, drop 5 sample_line @ [10]]" "0 \<notin> set sample_line" "10 \<notin> set sample_line"
      "length sample_line \<le> 127" "command_line sample_line = switch_cmd 1"
    by (simp_all add: sample_line_def ascii_def of_char_def command_line_def words.simps tolower_def isupper_def switch_cmd_def)
  show ?thesis
    using console_switch_boots [OF fl _ env, of "replicate 4096 0" configured_flash sample_console 1
        "\<lparr>line_buf = replicate 128 0, line_length = 0\<rparr>" 0 _ sample_line 0] sec c n cur st line
    by fastforce
qed

end
