(* ===== verification/Main_App.thy ===== *)
theory Main_App
  imports Setup_App Setup_Console
begin

text \<open>
  The main application, \<^verbatim>\<open>app_main\<close>. Its sources are those of the setup application with other names, and where they are the
  same text the definitions of \<open>Setup_Event\<close>, \<open>Setup_Cli\<close> and \<open>Setup_App\<close> stand for them. It differs in three handlers,
  modelled here: the wifi event handler stores another status, the loss of the MQTT connection is reported to the
  monitor, and a line of the console is not a command but is published through the MQTT client.
\<close>

section \<open>Supervision\<close>

definition main_wifiHandleEventCb :: "u32 \<Rightarrow> dns_result \<Rightarrow> wifi_event \<Rightarrow> setup_mon \<Rightarrow> setup_mon" where
  "main_wifiHandleEventCb now dns evt s =
     (let s1 = s\<lparr>lastwifiStatus_mq := wifiStatus_mq s\<rparr> in
      case evt of
        EVENT_STAMODE_CONNECTED \<Rightarrow>
          statusWifiUpdate now wifiIsConnected (s1\<lparr>wifiState := wifiIsConnected, wifiReason := 0\<rparr>)
      | EVENT_STAMODE_DISCONNECTED reason \<Rightarrow>
          let s2 = (if wifiState s1 \<noteq> wifiIsDisconnected then
              arm_reconnect_timer 5000 (mqtt_setconn 0
                (s1\<lparr>wifiState := wifiIsDisconnected, conn_state := SETUP_CONN_DISCONNECTED, wifiReason := reason,
                    wifiStatus_mq := 0\<rparr>))
            else s1)
          in statusWifiUpdate now (wifiState s2) s2
      | EVENT_STAMODE_GOT_IP \<Rightarrow>
          let s2 = (statusWifiUpdate now wifiGotIP (s1\<lparr>wifiState := wifiGotIP, wifiReason := 0\<rparr>))\<lparr>wifiStatus_mq := 1\<rparr>;
              s3 = (case netutil_nslookup dns of
                      Pending_user_cb \<Rightarrow> sdk Dns_started s2 | Printed_result \<Rightarrow> sdk Dns_printed s2 | No_effect \<Rightarrow> s2)
          in arm_reconnect_timer 1234 s3
      | _ \<Rightarrow> s1)"

definition main_mqttDisconnectedCb :: "setup_mon \<Rightarrow> setup_mon" where
  "main_mqttDisconnectedCb s = setup_api_update_conn_state SETUP_CONN_DISCONNECTED s"

inductive main_step :: "setup_mon \<Rightarrow> setup_mon \<Rightarrow> bool" where
  main_wifi: "main_step s (main_wifiHandleEventCb now dns evt s)"
| main_fire: "timer s \<noteq> None \<Longrightarrow> setup_timer_cb got_ip ts s = Some s' \<Longrightarrow> main_step s s'"
| main_resolved: "main_step s (nslookup_cb answer s)"
| main_mqtt_up: "main_step s (mqttConnectedTestCb subscribed s)"
| main_mqtt_down: "main_step s (main_mqttDisconnectedCb s)"
| main_flags: "main_step s (setSetupState flag st s)"
| main_devices: "main_step s (setup_api_update_device_ct add s)"

section \<open>The console\<close>

record main_state =
  m_rxBuf :: "u8 list"
  m_client :: world
  m_outs :: "setup_out list"

definition mqtt_api_pub_test :: "env \<Rightarrow> u8 list option \<Rightarrow> u8 list \<Rightarrow> world \<Rightarrow> (world \<times> bool) option" where
  "mqtt_api_pub_test e topic msg w = MQTT_Publish e topic msg 1 0 w"

text \<open>\<^verbatim>\<open>buf\<close> points to a block; reading more bytes than the block has is a fault.\<close>

definition main_api_test :: "env \<Rightarrow> u8 list option \<Rightarrow> u8 list \<Rightarrow> u16 \<Rightarrow> world \<Rightarrow> (world \<times> bool) option" where
  "main_api_test e topic buf len w =
     (if unat len \<le> length buf then mqtt_api_pub_test e topic (take (unat len) buf) w else None)"

definition main_uart_command :: "env \<Rightarrow> u8 list option \<Rightarrow> int \<Rightarrow> u8 list \<Rightarrow> u16 \<Rightarrow> main_state \<Rightarrow> main_state option" where
  "main_uart_command e topic ret dat len s =
     Option.bind (setup_cli_parse ret (m_rxBuf s) dat)
       (\<lambda>(b, rx, r). let s1 = s\<lparr>m_rxBuf := rx\<rparr> in
          if r < 0 then Some s1
          else if len \<ge> 2 then map_option (\<lambda>(w, ok). s1\<lparr>m_client := w\<rparr>) (main_api_test e topic b len (m_client s1))
          else Some s1)"

definition main_out :: "setup_out \<Rightarrow> main_state \<Rightarrow> main_state" where
  "main_out x s = s\<lparr>m_outs := m_outs s @ [x]\<rparr>"

definition main_msg_cleanup :: "u8 \<Rightarrow> io_msg \<Rightarrow> main_state \<Rightarrow> main_state" where
  "main_msg_cleanup iface msg s =
     (let s1 = (if msg_data msg \<noteq> None then main_out Free_data s else s); s2 = main_out Free_msg s1 in
      if iface = MSG_IFACE_UART then main_out Send_EOT s2 else s2)"

definition main_Event_Mon_Task :: "env \<Rightarrow> u8 list option \<Rightarrow> int \<Rightarrow> u32 \<Rightarrow> io_msg option \<Rightarrow> main_state \<Rightarrow> main_state option" where
  "main_Event_Mon_Task e topic ret sig par s =
     (let iface = (if sig \<noteq> 0 then ucast sig else 0) :: u8 in
      if iface = MSG_IFACE_ONE_WIRE then None
      else case par of
        None \<Rightarrow> Some s
      | Some msg \<Rightarrow>
          map_option (main_msg_cleanup iface msg)
            (if iface = MSG_IFACE_UART then
               case msg_data msg of None \<Rightarrow> Some s | Some dat \<Rightarrow> main_uart_command e topic ret dat (msg_len msg) s
             else Some s))"

section \<open>The supervision of the main application\<close>

lemma main_wifi_eq:
  "main_wifiHandleEventCb now dns evt s =
     (let s' = wifiHandleEventCb now dns evt s in if evt = EVENT_STAMODE_GOT_IP then s'\<lparr>wifiStatus_mq := 1\<rparr> else s')"
  by (cases evt) (simp_all add: main_wifiHandleEventCb_def wifiHandleEventCb_def Let_def arm_reconnect_timer_def sdk_def
      split: dns_effect.split)

lemma setup_inv_status [simp]: "setup_inv (s\<lparr>wifiStatus_mq := v\<rparr>) = setup_inv s"
  by (simp add: setup_inv_def supervised_def)

lemma main_step_inv: "main_step s s' \<Longrightarrow> setup_inv s \<Longrightarrow> setup_inv s'"
proof (induction rule: main_step.induct)
  case (main_mqtt_down s)
  then show ?case
    by (simp add: main_mqttDisconnectedCb_def setup_api_update_conn_state_def setup_inv_def supervised_def
        SETUP_CONN_DISCONNECTED_def SETUP_CONN_MAX_def)
qed (simp add: main_wifi_eq Let_def wifi_inv, (blast intro: setup_step_inv setup_step.intros)+)

lemma main_supervised:
  assumes "main_step\<^sup>*\<^sup>* setup_init s"
  shows "setup_inv s"
  using assms
proof (induction rule: rtranclp_induct)
  case base
  show ?case by (simp add: setup_inv_def setup_init_def supervised_def SETUP_CONN_DISCONNECTED_def SETUP_CONN_MAX_def)
qed (simp add: main_step_inv)

text \<open>
  When the MQTT connection is lost, the next expiry of the reconnect timer asks for a new association of the station.
  The setup application does not report the loss: its timer takes the connection for alive.
\<close>

lemma mqtt_loss_reconnects:
  assumes "timeout_cb s = Some Setup_reconnect"
  shows "\<exists>s'. setup_timer_cb got_ip ts (main_mqttDisconnectedCb s) = Some s' \<and>
      calls s' = calls s @ [Wifi_connect] \<and> timer s' = Some RECONNECT_TIMOUT"
    "conn_state s = SETUP_CONN_MQTT \<Longrightarrow> \<exists>s'. setup_timer_cb got_ip ts s = Some s' \<and> calls s' = calls s"
  using assms by (simp_all add: setup_timer_defs main_mqttDisconnectedCb_def setup_api_update_conn_state_def Let_def
      SETUP_CONN_DISCONNECTED_def SETUP_CONN_MAX_def SETUP_CONN_MQTT_def)
section \<open>From the console to the MQTT queue\<close>

lemma cstring_take: "cstring (take n b) = take n (cstring b)"
proof (induction b arbitrary: n)
  case (Cons c b)
  then show ?case by (cases n) (simp_all add: cstring_def)
qed (simp add: cstring_def)


definition main_sample :: main_state where
  "main_sample = \<lparr>m_rxBuf = replicate 128 0, m_client = sample_world, m_outs = []\<rparr>"


end
