(* ===== verification/Ws2812.thy ===== *)
theory Ws2812
  imports Esp_Prelude
begin

text \<open>
  The LED strip driver of the setup application, \<^verbatim>\<open>app_setup/driver/ws2812.c\<close>, with the driver task of
  \<^verbatim>\<open>app_setup/driver/driver_event.c\<close> that runs it. Transfers on the SPI bus, delays, interrupt locks and timer
  calls are recorded in order. The entries of the table \<^verbatim>\<open>patterns\<close> are multiples of 1/256, so that the products
  with an 8-bit number are exact in single precision; the model keeps 256 times the entry.
\<close>

section \<open>Model\<close>

datatype ws_out =
    Spi_setup
  | Spi u8 u32
  | Intr_lock
  | Intr_unlock
  | Delay_us nat
  | Hw_timer_arm u32
  | Timer_arm u32
  | Timer_disarm

record ws2812_driver_t =
  r :: u8
  g :: u8
  b :: u8
  brightness :: u8
  cur_pixel :: u16
  cur_anim :: u16
  cur_m :: u8
  cur_pattern :: u8
  in_out :: bool
  outp :: "ws_out list"

definition PIXEL_COUNT :: u16 where "PIXEL_COUNT = 32"
definition WS2812_ANIM_INVALID :: u16 where "WS2812_ANIM_INVALID = 0"
definition WS2812_ANIM_FADE_INOUT :: u16 where "WS2812_ANIM_FADE_INOUT = 1"

definition emit :: "ws_out \<Rightarrow> ws2812_driver_t \<Rightarrow> ws2812_driver_t" where
  "emit e w = w\<lparr>outp := outp w @ [e]\<rparr>"

definition patterns :: "(nat \<times> nat \<times> nat) list" where
  "patterns = [(256, 0, 0), (0, 256, 0), (0, 0, 256), (256, 256, 0), (256, 0, 256), (0, 256, 256), (256, 256, 256),
     (160, 82, 45), (46, 139, 87)]"

fun send_bits :: "nat \<Rightarrow> u8 \<Rightarrow> ws2812_driver_t \<Rightarrow> ws2812_driver_t" where
  "send_bits 0 v w = w"
| "send_bits (Suc k) v w =
     send_bits k (push_bit 1 v) (emit (Delay_us 1) (emit (if v AND 0x80 \<noteq> 0 then Spi 26 0x3FFF000 else Spi 23 0x7F0000) w))"

definition ws2812_sendByte :: "u8 \<Rightarrow> ws2812_driver_t \<Rightarrow> ws2812_driver_t" where
  "ws2812_sendByte v w = send_bits 8 v w"

definition ws2812_sendPixels :: "ws2812_driver_t \<Rightarrow> ws2812_driver_t" where
  "ws2812_sendPixels w =
     emit Intr_unlock (ws2812_sendByte (b w) (ws2812_sendByte (r w) (ws2812_sendByte (g w) (emit Intr_lock w))))"

definition ws2812_showit_fade :: "ws2812_driver_t \<Rightarrow> ws2812_driver_t" where
  "ws2812_showit_fade w =
     (if cur_pixel w < PIXEL_COUNT then let w1 = ws2812_sendPixels w in w1\<lparr>cur_pixel := cur_pixel w1 + 1\<rparr>
      else w\<lparr>cur_pixel := 0\<rparr>)"

definition ws2812_doit :: "ws2812_driver_t \<Rightarrow> ws2812_driver_t" where
  "ws2812_doit w =
     (if cur_anim w = WS2812_ANIM_FADE_INOUT then emit (Hw_timer_arm 10) (ws2812_showit_fade w) else w)"

definition mod_brightness :: "u8 \<Rightarrow> u8 \<Rightarrow> u8" where
  "mod_brightness pixel level = of_nat (unat pixel * unat level div 256)"

definition update_brightness :: "ws2812_driver_t \<Rightarrow> ws2812_driver_t" where
  "update_brightness w =
     (if brightness w \<noteq> 0 then
        w\<lparr>r := mod_brightness (r w) (brightness w), g := mod_brightness (g w) (brightness w),
          b := mod_brightness (b w) (brightness w)\<rparr>
      else w)"

text \<open>
  The row of the table; beyond its end lies other memory, whose three numbers are the argument \<open>beyond\<close>.
\<close>

definition pattern_row :: "(nat \<times> nat \<times> nat) \<Rightarrow> u8 \<Rightarrow> nat \<times> nat \<times> nat" where
  "pattern_row beyond k = (if unat k < length patterns then patterns ! unat k else beyond)"

definition ws2812_fade_cb :: "(nat \<times> nat \<times> nat) \<Rightarrow> ws2812_driver_t \<Rightarrow> ws2812_driver_t" where
  "ws2812_fade_cb beyond w =
     (let w1 = (if cur_pattern w \<ge> 9 then w\<lparr>cur_pattern := 0\<rparr> else w);
          w2 = (if in_out w1 \<and> cur_m w1 \<ge> 255 then w1\<lparr>in_out := False\<rparr> else w1);
          w3 = (if \<not> in_out w2 \<and> cur_m w2 = 0 then w2\<lparr>cur_pattern := cur_pattern w2 + 1, in_out := True\<rparr> else w2);
          (pr, pg, pb) = pattern_row beyond (cur_pattern w3);
          m = unat (cur_m w3);
          w4 = w3\<lparr>cur_pixel := 0, r := of_nat (pr * m div 256), g := of_nat (pg * m div 256), b := of_nat (pb * m div 256)\<rparr>;
          w5 = ws2812_doit (update_brightness w4)
      in if in_out w5 then w5\<lparr>cur_m := cur_m w5 + 1\<rparr> else w5\<lparr>cur_m := cur_m w5 - 1\<rparr>)"

definition ws2812_timer_cb :: "(nat \<times> nat \<times> nat) \<Rightarrow> u32 \<Rightarrow> ws2812_driver_t \<Rightarrow> ws2812_driver_t" where
  "ws2812_timer_cb beyond anim_type w = (if anim_type = ucast WS2812_ANIM_FADE_INOUT then ws2812_fade_cb beyond w else w)"

definition ws2812_show :: "ws2812_driver_t \<Rightarrow> ws2812_driver_t" where
  "ws2812_show w = emit (Delay_us 9) w"

definition ws2812_clear :: "ws2812_driver_t \<Rightarrow> ws2812_driver_t" where
  "ws2812_clear w = ws2812_show (ws2812_sendPixels (ws2812_show (w\<lparr>r := 0, g := 0, b := 0\<rparr>)))"

text \<open>The period of 5 seconds gives \<^verbatim>\<open>MS_DIV_PER_CB(5.0, 255) = 19 | 1\<close> milliseconds.\<close>

definition ws2812_anim_init :: "u8 \<Rightarrow> ws2812_driver_t \<Rightarrow> ws2812_driver_t" where
  "ws2812_anim_init anim_type w =
     (let w1 = emit Timer_disarm w in
      if anim_type = ucast WS2812_ANIM_FADE_INOUT then
        emit (Timer_arm (19 OR 1))
          (ws2812_clear (w1\<lparr>cur_anim := WS2812_ANIM_FADE_INOUT, cur_m := 0, cur_pattern := 0, in_out := True\<rparr>))
      else ws2812_clear w1)"

definition ws2812_set_brightness :: "u8 \<Rightarrow> ws2812_driver_t \<Rightarrow> ws2812_driver_t" where
  "ws2812_set_brightness v w = w\<lparr>brightness := v\<rparr>"

definition ws2812_anim_stop :: "ws2812_driver_t \<Rightarrow> ws2812_driver_t" where
  "ws2812_anim_stop w = (emit Timer_disarm (ws2812_clear w))\<lparr>cur_anim := WS2812_ANIM_INVALID\<rparr>"

text \<open>
  The register writes that set up the bus are one event; \<^verbatim>\<open>ws2812_init\<close> works on the driver's zero-initialised
  statics.
\<close>

definition ws2812_spi_init :: "ws2812_driver_t \<Rightarrow> ws2812_driver_t \<times> bool" where
  "ws2812_spi_init w = (emit Spi_setup w, True)"

definition ws2812_init :: ws2812_driver_t where
  "ws2812_init =
     (let w = \<lparr>r = 0, g = 0, b = 0, brightness = 0, cur_pixel = 0, cur_anim = 0, cur_m = 0, cur_pattern = 0, in_out = False,
            outp = []\<rparr>;
          (w1, ok) = ws2812_spi_init w;
          w2 = (if ok then ws2812_clear w1 else w1)
      in emit Timer_disarm (w2\<lparr>brightness := 128\<rparr>))"

definition DRIVER_SRC_WS2812 :: u32 where "DRIVER_SRC_WS2812 = 2"

text \<open>The driver task of the configuration without temperature sensor, and the interrupt that posts to it.\<close>

definition Driver_Event_Task :: "u32 \<Rightarrow> ws2812_driver_t \<Rightarrow> ws2812_driver_t" where
  "Driver_Event_Task sig w = (if sig = DRIVER_SRC_WS2812 then ws2812_doit w else w)"

definition hw_timer_cb :: "u32 \<Rightarrow> u32" where
  "hw_timer_cb arg = DRIVER_SRC_WS2812"

section \<open>What is sent on the bus\<close>

definition bit_wave :: "bool \<Rightarrow> ws_out list" where
  "bit_wave one = [if one then Spi 26 0x3FFF000 else Spi 23 0x7F0000, Delay_us 1]"

definition byte_wave :: "u8 \<Rightarrow> ws_out list" where
  "byte_wave v = concat (map (\<lambda>i. bit_wave (bit v i)) (rev [0..<8]))"

text \<open>A pixel takes the colours in the order green, red, blue.\<close>

definition pixel_wave :: "u8 \<Rightarrow> u8 \<Rightarrow> u8 \<Rightarrow> ws_out list" where
  "pixel_wave red green blue = Intr_lock # byte_wave green @ byte_wave red @ byte_wave blue @ [Intr_unlock]"

lemma high_bit: "(v :: u8) AND 0x80 \<noteq> 0 \<longleftrightarrow> bit v 7"
proof -
  have "v AND 2 ^ 7 \<noteq> 0 \<longleftrightarrow> bit v 7" unfolding and_exp_eq_0_iff_not_bit by simp
  then show ?thesis by simp
qed

lemma bit_shifted: "i < 7 \<Longrightarrow> bit (push_bit 1 (v :: u8)) (7 - i) = bit v (7 - Suc i)"
  by (simp only: bit_push_bit_iff) auto

lemma send_bits_wave:
  "k \<le> 8 \<Longrightarrow> send_bits k v w = w\<lparr>outp := outp w @ concat (map (\<lambda>i. bit_wave (bit v (7 - i))) [0..<k])\<rparr>"
proof (induction k arbitrary: v w)
  case (Suc k)
  have "map (\<lambda>i. bit_wave (bit (push_bit 1 v) (7 - i))) [0..<k] = map (\<lambda>i. bit_wave (bit v (7 - Suc i))) [0..<k]"
    using Suc.prems by (intro map_cong refl arg_cong [of _ _ bit_wave]) (simp add: bit_shifted del: push_bit_of_1 One_nat_def)
  then have "map (\<lambda>i. bit_wave (bit v (7 - i))) [0..<Suc k] = bit_wave (bit v 7) # map (\<lambda>i. bit_wave (bit (push_bit 1 v) (7 - i))) [0..<k]"
    by (simp add: map_upt_Suc del: upt_Suc)
  then show ?case using Suc by (simp add: emit_def bit_wave_def high_bit del: upt_Suc)
qed simp

lemma sendByte_wave: "ws2812_sendByte v w = w\<lparr>outp := outp w @ byte_wave v\<rparr>"
proof -
  have "rev [0..<8] = map (\<lambda>i. 7 - i) [0..<8 :: nat]" by code_simp
  then show ?thesis unfolding ws2812_sendByte_def byte_wave_def by (simp add: send_bits_wave o_def)
qed

lemma sendPixels_wave: "ws2812_sendPixels w = w\<lparr>outp := outp w @ pixel_wave (r w) (g w) (b w)\<rparr>"
  by (simp add: ws2812_sendPixels_def sendByte_wave emit_def pixel_wave_def)

lemma doit_pixel:
  assumes "cur_anim w = WS2812_ANIM_FADE_INOUT" "cur_pixel w < PIXEL_COUNT"
  shows "ws2812_doit w =
    w\<lparr>cur_pixel := cur_pixel w + 1, outp := outp w @ pixel_wave (r w) (g w) (b w) @ [Hw_timer_arm 10]\<rparr>"
  using assms by (simp add: ws2812_doit_def ws2812_showit_fade_def sendPixels_wave emit_def)

definition tick :: "ws2812_driver_t \<Rightarrow> ws2812_driver_t" where
  "tick w = Driver_Event_Task (hw_timer_cb 0) w"

lemma tick_doit [simp]: "Driver_Event_Task (hw_timer_cb a) w = ws2812_doit w"
  by (simp add: Driver_Event_Task_def hw_timer_cb_def)

lemma ticks_pixels:
  assumes "cur_anim w = WS2812_ANIM_FADE_INOUT" "unat (cur_pixel w) + n \<le> 32"
  shows "outp ((tick ^^ n) w) = outp w @ concat (replicate n (pixel_wave (r w) (g w) (b w) @ [Hw_timer_arm 10]))"
  using assms
proof (induction n arbitrary: w)
  case (Suc n)
  have c: "cur_pixel w < PIXEL_COUNT" using Suc.prems by (simp add: PIXEL_COUNT_def word_less_nat_alt)
  then have u: "unat (cur_pixel w + 1) = Suc (unat (cur_pixel w))" by (rule unat_succ_less)
  have t: "tick w = w\<lparr>cur_pixel := cur_pixel w + 1, outp := outp w @ pixel_wave (r w) (g w) (b w) @ [Hw_timer_arm 10]\<rparr>"
    using doit_pixel [OF Suc.prems(1) c] by (simp add: tick_def)
  show ?case using Suc.IH [of "tick w"] Suc.prems u by (simp add: t funpow_Suc_right del: funpow.simps)
qed simp

section \<open>The fade animation\<close>

text \<open>The brightness-corrected value of a colour of the table at level \<open>m\<close>.\<close>

definition shade :: "nat \<Rightarrow> nat \<Rightarrow> u8 \<Rightarrow> u8" where
  "shade c m level =
     (let v = of_nat (c * m div 256) :: u8 in if level \<noteq> 0 then of_nat (unat v * unat level div 256) else v)"

lemma shade_dark [simp]: "shade c 0 level = 0"
  by (simp add: shade_def)

text \<open>The first part of the callback, which turns the direction and moves to the next row of the table.\<close>

definition fade_turn :: "ws2812_driver_t \<Rightarrow> ws2812_driver_t" where
  "fade_turn w =
     (let w1 = (if cur_pattern w \<ge> 9 then w\<lparr>cur_pattern := 0\<rparr> else w);
          w2 = (if in_out w1 \<and> cur_m w1 \<ge> 255 then w1\<lparr>in_out := False\<rparr> else w1)
      in if \<not> in_out w2 \<and> cur_m w2 = 0 then w2\<lparr>cur_pattern := cur_pattern w2 + 1, in_out := True\<rparr> else w2)"

lemma fade_cb_shows:
  assumes "cur_anim w = WS2812_ANIM_FADE_INOUT" "w3 = fade_turn w" "(pr, pg, pb) = pattern_row beyond (cur_pattern w3)"
    "m = unat (cur_m w)"
  shows "ws2812_fade_cb beyond w = w3\<lparr>cur_pixel := 1, r := shade pr m (brightness w), g := shade pg m (brightness w),
      b := shade pb m (brightness w), cur_m := (if in_out w3 then cur_m w + 1 else cur_m w - 1),
      outp := outp w @ pixel_wave (shade pr m (brightness w)) (shade pg m (brightness w)) (shade pb m (brightness w)) @ [Hw_timer_arm 10]\<rparr>"
proof -
  have t: "cur_anim w3 = WS2812_ANIM_FADE_INOUT" "cur_m w3 = cur_m w" "brightness w3 = brightness w" "outp w3 = outp w"
    using assms(1) by (simp_all add: assms(2) fade_turn_def Let_def)
  define w4 where "w4 = w3\<lparr>cur_pixel := 0, r := of_nat (pr * m div 256), g := of_nat (pg * m div 256), b := of_nat (pb * m div 256)\<rparr>"
  have "ws2812_fade_cb beyond w = (let w5 = ws2812_doit (update_brightness w4)
      in if in_out w5 then w5\<lparr>cur_m := cur_m w5 + 1\<rparr> else w5\<lparr>cur_m := cur_m w5 - 1\<rparr>)"
    unfolding ws2812_fade_cb_def fade_turn_def [unfolded Let_def, symmetric] Let_def assms(2) [symmetric]
    using assms(3) [symmetric] t(2) by (simp add: w4_def assms(4))
  moreover have "update_brightness w4 = w4\<lparr>r := shade pr m (brightness w), g := shade pg m (brightness w), b := shade pb m (brightness w)\<rparr>"
    using t by (simp add: update_brightness_def w4_def shade_def mod_brightness_def)
  ultimately show ?thesis using t by (simp add: doit_pixel w4_def PIXEL_COUNT_def)
qed

text \<open>
  The state before callback number \<open>510 q + k\<close>: the level rises for 255 callbacks and falls for 255, while the row
  of the table is \<open>q mod 9\<close>. The row is only changed by the callback that finds level 0, and a number of
  9 stands until the callback after that one.
\<close>

definition fade_at :: "nat \<Rightarrow> nat \<Rightarrow> ws2812_driver_t \<Rightarrow> bool" where
  "fade_at q k w \<longleftrightarrow> cur_anim w = WS2812_ANIM_FADE_INOUT \<and> unat (cur_m w) = (if k \<le> 255 then k else 510 - k) \<and>
     (in_out w \<longleftrightarrow> k = 0 \<and> q = 0 \<or> 1 \<le> k \<and> k \<le> 255) \<and>
     unat (cur_pattern w) = (if k = 0 \<and> q > 0 then (q - 1) mod 9 else if k = 1 \<and> q > 0 then (q - 1) mod 9 + 1 else q mod 9)"

lemma u8_zero_unat: "(x :: u8) = 0 \<longleftrightarrow> unat x = 0"
  by (simp add: unat_eq_zero)

lemma u8_ge_unat: "(numeral n :: u8) \<le> x \<longleftrightarrow> unat (numeral n :: u8) \<le> unat x"
  by (simp add: word_le_nat_alt)

lemma mod9_pred:
  fixes q :: nat
  assumes "q > 0"
  shows "(q - 1) mod 9 + 1 = 9 \<and> q mod 9 = 0 \<or> (q - 1) mod 9 + 1 = q mod 9 \<and> (q - 1) mod 9 + 1 < 9"
proof -
  obtain n where q: "q = Suc n" using assms by (cases q) auto
  have "n mod 9 < 9" by simp
  then show ?thesis unfolding q mod_Suc by (cases "Suc (n mod 9) = 9") auto
qed

lemma fade_turn_row:
  assumes "fade_at q k w" "k < 510"
  shows "in_out (fade_turn w) \<longleftrightarrow> k < 255"
    "unat (cur_pattern (fade_turn w)) = (if k = 0 \<and> q > 0 then (q - 1) mod 9 + 1 else q mod 9)"
proof -
  have p: "unat (cur_pattern w) = (if k = 0 \<and> q > 0 then (q - 1) mod 9 else if k = 1 \<and> q > 0 then (q - 1) mod 9 + 1 else q mod 9)"
    and m: "unat (cur_m w) = (if k \<le> 255 then k else 510 - k)"
    and d: "in_out w \<longleftrightarrow> k = 0 \<and> q = 0 \<or> 1 \<le> k \<and> k \<le> 255"
    using assms(1) by (auto simp: fade_at_def)
  define p1 where "p1 = (if cur_pattern w \<ge> 9 then 0 else cur_pattern w)"
  have p1: "unat p1 = (if k = 0 \<and> q > 0 then (q - 1) mod 9 else q mod 9)"
    using p mod9_pred [of q] by (auto simp: p1_def u8_ge_unat split: if_splits)
  have i1: "in_out w \<and> cur_m w \<ge> 255 \<longleftrightarrow> k = 255" using d m by (auto simp: u8_ge_unat split: if_splits)
  have z: "cur_m w = 0 \<longleftrightarrow> k = 0" using m assms(2) by (auto simp: u8_zero_unat split: if_splits)
  have ft: "in_out (fade_turn w) \<longleftrightarrow> (in_out w \<and> k \<noteq> 255) \<or> (\<not> (in_out w \<and> k \<noteq> 255) \<and> k = 0)"
    "cur_pattern (fade_turn w) = (if \<not> (in_out w \<and> k \<noteq> 255) \<and> k = 0 then p1 + 1 else p1)"
    using i1 z by (auto simp: fade_turn_def Let_def p1_def)
  show "in_out (fade_turn w) \<longleftrightarrow> k < 255" using ft(1) d assms(2) by auto
  have "unat p1 < 9" using p1 by simp
  then have "unat (p1 + 1) = unat p1 + 1" by (simp add: unat_word_ariths)
  then show "unat (cur_pattern (fade_turn w)) = (if k = 0 \<and> q > 0 then (q - 1) mod 9 + 1 else q mod 9)"
    using ft(2) d p1 by auto
qed

lemma fade_row_dark:
  assumes "fade_at q k w" "k < 510" "(pr, pg, pb) = pattern_row beyond (cur_pattern (fade_turn w))" "m = unat (cur_m w)"
    "(cr, cg, cb) = patterns ! (q mod 9)"
  shows "shade pr m l = shade cr m l" "shade pg m l = shade cg m l" "shade pb m l = shade cb m l"
proof -
  have "m = 0 \<or> (pr, pg, pb) = (cr, cg, cb)"
  proof (cases "k = 0")
    case True
    then show ?thesis using assms(1,4) by (simp add: fade_at_def)
  next
    case False
    have "q mod 9 < length patterns" by (simp add: patterns_def)
    then show ?thesis using False fade_turn_row(2) [OF assms(1,2)] assms(3,5) by (simp add: pattern_row_def)
  qed
  then show "shade pr m l = shade cr m l" "shade pg m l = shade cg m l" "shade pb m l = shade cb m l" by auto
qed

lemma fade_cb_next:
  assumes "fade_at q k w" "k < 510"
  shows "fade_at (if k = 509 then Suc q else q) (if k = 509 then 0 else Suc k) (ws2812_fade_cb beyond w)"
proof -
  obtain pr pg pb where row: "(pr, pg, pb) = pattern_row beyond (cur_pattern (fade_turn w))" by (metis prod_cases3)
  have a: "cur_anim w = WS2812_ANIM_FADE_INOUT" using assms(1) by (simp add: fade_at_def)
  note cb = fade_cb_shows [OF a refl row refl]
  note ft = fade_turn_row [OF assms]
  have a3: "cur_anim (fade_turn w) = WS2812_ANIM_FADE_INOUT" using a by (simp add: fade_turn_def Let_def)
  have m: "unat (cur_m w) = (if k \<le> 255 then k else 510 - k)" using assms(1) by (simp add: fade_at_def)
  have up: "unat (cur_m w + 1) = Suc k" if "k < 255" using that m by (simp add: unat_word_ariths)
  have down: "unat (cur_m w - 1) = 509 - k" if "255 \<le> k"
  proof -
    have "cur_m w \<noteq> 0" using that m assms(2) by (auto split: if_splits)
    then show ?thesis using unat_minus_one [of "cur_m w"] m that assms(2) by (auto split: if_splits)
  qed
  have m': "unat (if in_out (fade_turn w) then cur_m w + 1 else cur_m w - 1) = (if k < 255 then Suc k else 509 - k)"
    using ft(1) up down by auto
  show ?thesis
  proof (cases "k = 509")
    case True
    then show ?thesis using a3 ft m' unfolding cb fade_at_def by simp
  next
    case False
    then show ?thesis using a3 ft m' assms(2) unfolding cb fade_at_def by auto
  qed
qed

text \<open>
  Everything that can happen to a running animation: hardware timer interrupts, changes of the brightness and
  callbacks of the animation timer, which are counted.
\<close>

inductive fading :: "nat \<Rightarrow> ws2812_driver_t \<Rightarrow> bool" where
  start: "fading 0 (ws2812_anim_init 1 w)"
| tick: "fading n w \<Longrightarrow> fading n (Driver_Event_Task (hw_timer_cb a) w)"
| bright: "fading n w \<Longrightarrow> fading n (ws2812_set_brightness v w)"
| step: "fading n w \<Longrightarrow> fading (Suc n) (ws2812_timer_cb beyond 1 w)"

lemma timer_cb_fade [simp]: "ws2812_timer_cb beyond 1 w = ws2812_fade_cb beyond w"
  by (simp add: ws2812_timer_cb_def WS2812_ANIM_FADE_INOUT_def)

lemma fading_at: "fading n w \<Longrightarrow> fade_at (n div 510) (n mod 510) w"
proof (induction rule: fading.induct)
  case (start w)
  then show ?case
    by (simp add: ws2812_anim_init_def WS2812_ANIM_FADE_INOUT_def ws2812_clear_def ws2812_show_def sendPixels_wave emit_def fade_at_def)
next
  case (tick n w a)
  then show ?case
    by (simp add: ws2812_doit_def ws2812_showit_fade_def sendPixels_wave emit_def fade_at_def)
next
  case (bright n w v)
  then show ?case by (simp add: ws2812_set_brightness_def fade_at_def)
next
  case (step n w beyond)
  have "n mod 510 < 510" by simp
  from fade_cb_next [OF step.IH this, of beyond] show ?case by (auto simp: mod_Suc div_Suc split: if_splits)
qed

text \<open>The level of callback number \<open>n\<close>.\<close>

definition fade_level :: "nat \<Rightarrow> nat" where
  "fade_level n = (if n mod 510 \<le> 255 then n mod 510 else 510 - n mod 510)"



end
