(* ===== verification/Spec2Isabelle.thy ===== *)
theory Spec2Isabelle
  imports Mqtt_Client_Recv Cbuff_Reg Linked_List Base64 Bitwise_Utils Onewire_Cycle Rboot_Ota Rboot_Bigflash Flash_Api Flash_Fs
    User_Main Main_App Ws2812
begin

text \<open>
  \<^bold>\<open>Verification of the ESP8266 firmware of this repository.\<close>

  The repository holds two applications (\<^verbatim>\<open>app_setup\<close>, \<^verbatim>\<open>app_main\<close>) over a common library (\<^verbatim>\<open>app_common\<close>) and the
  boot loader \<^verbatim>\<open>rboot\<close> that starts one of them. The development covers the parts of it that are the
  program's own logic rather than calls of the vendor's SDK or third-party libraries:

  \<^item> \<^bold>\<open>MQTT\<close> (\<^verbatim>\<open>app_common/mqtt\<close>). The client \<^verbatim>\<open>mqtt.c\<close> is driven by callbacks of the TCP layer, a one
    second timer and a task. It encodes packets with \<^verbatim>\<open>mqtt_msg.c\<close>, keeps outgoing packets in the queue
    \<^verbatim>\<open>mqtt_queue.c\<close>, which frames them with \<^verbatim>\<open>proto.c\<close> into the ring buffer \<^verbatim>\<open>ringbuf.c\<close>, and reads
    addresses with \<^verbatim>\<open>utils.c\<close>.
  \<^item> \<^bold>\<open>Utilities\<close> (\<^verbatim>\<open>app_common/util\<close>): the circular buffers with their registry (\<^verbatim>\<open>cbuff.c\<close>), the doubly
    linked list (\<^verbatim>\<open>linked_list.c\<close>), checksums (\<^verbatim>\<open>crc.c\<close>), Base64 (\<^verbatim>\<open>base64.c\<close>), bit utilities
    (\<^verbatim>\<open>bitwise_utils.c\<close>), and ping sequences and name lookup (\<^verbatim>\<open>netutil.c\<close>).
  \<^item> \<^bold>\<open>Platform\<close> (\<^verbatim>\<open>app_common/platform\<close>, \<^verbatim>\<open>app_common/spiffs/spiffs.c\<close>): byte access to the flash, its size and header, the
    areas of the two file systems, and the list of files over both of them.
  \<^item> \<^bold>\<open>Setup application\<close> (\<^verbatim>\<open>app_setup/setup\<close>, \<^verbatim>\<open>app_setup/driver\<close>): the serial console (\<^verbatim>\<open>uart.c\<close>, \<^verbatim>\<open>setup_cli.c\<close>, the event
    task of \<^verbatim>\<open>setup_event.c\<close>), whose commands select the image to boot; the supervision of the wifi and MQTT
    connection by events and one timer (\<^verbatim>\<open>setup_event.c\<close>, \<^verbatim>\<open>setup_api.c\<close>, \<^verbatim>\<open>mqtt_setup/app.c\<close>); the initialisation with the
    device's identifier (\<^verbatim>\<open>setup/app.c\<close>, \<^verbatim>\<open>user_main.c\<close>); and the LED strip (\<^verbatim>\<open>ws2812.c\<close>, \<^verbatim>\<open>driver_event.c\<close>).
  \<^item> \<^bold>\<open>Main application\<close> (\<^verbatim>\<open>app_main\<close>): the same files with other names, except for three handlers; its console publishes what
    is typed.
  \<^item> \<^bold>\<open>Temperature sensor\<close> (\<^verbatim>\<open>app_setup/driver\<close>): the non-blocking one-wire driver \<^verbatim>\<open>onewire_nb.c\<close>, a state
    machine stepped every 10 us by the hardware timer \<^verbatim>\<open>hw_timer.c\<close> through the event task of
    \<^verbatim>\<open>setup_event.c\<close>; it checks its readings with \<^verbatim>\<open>crc.c\<close>.
  \<^item> \<^bold>\<open>Boot loader\<close> (\<^verbatim>\<open>rboot\<close>, \<^verbatim>\<open>app_common/rboot\<close>): image check and selection, the second stage loader, and
    the API with which an application selects the next image and writes a new one, and the mapping of the flash in the
    application (\<^verbatim>\<open>rboot-bigflash.c\<close>).
  \<^item> \<^bold>\<open>Host tools\<close> (\<^verbatim>\<open>tools/esptool2_src\<close>, \<^verbatim>\<open>tools/rconf_gen\<close>): the builder of images from ELF files and the generator of
    the first boot configuration.

  \<^bold>\<open>Conventions.\<close> Integers are words of their C width (\<open>u8\<close>, \<open>u16\<close>, \<open>u32\<close>), so wrap-around is that of the
  machine. Memory that the code addresses through pointers is a flat byte store \<open>mem\<close>; linked structures
  (list nodes, buffer objects) live in a map from addresses, and an access through a null or freed
  pointer or outside an array is the value \<open>None\<close>. SDK functions with results the code depends on are
  arguments (\<open>os_zalloc\<close>, \<open>os_malloc\<close>, the flash functions), calls without such results are events of a
  trace. Loops are recursive functions with a measure; loops that need not end (the receive loop of the
  client, the search of the boot loader) are \<open>partial_function (option)\<close>, and the theorems say when they
  return. No fuel is used.

  \<^bold>\<open>Theories.\<close>

  \<^item> \<open>Esp_Prelude\<close>: words, block reads and writes, circular reads and their simplification rules. \<open>Printing\<close>: string literals and
    hexadecimal conversions with their inverse.
  \<^item> \<open>Fifo_Spec\<close>: the contract of a bounded queue as a locale, with the lemmas clients use. It is
    interpreted by \<open>Ringbuf\<close> and by \<open>Cbuff\<close>.
  \<^item> \<open>Ringbuf\<close> (\<^verbatim>\<open>ringbuf.c\<close>): record \<open>RINGBUF\<close>, the three operations; they refine the bounded queue and
    write only inside their block.
  \<^item> \<open>Proto\<close> (\<^verbatim>\<open>proto.c\<close>): the parser and both framers; framing and parsing are inverse, \<open>PROTO_Add\<close> stays
    in its buffer.
  \<^item> \<open>Mqtt_Queue\<close> (\<^verbatim>\<open>mqtt_queue.c\<close>): the queue holds a list of messages; put appends, get removes the oldest.
  \<^item> \<open>Mqtt_Utils\<close> (\<^verbatim>\<open>utils.c\<close>): what the address test accepts, and that parsing inverts printing.
  \<^item> \<open>Mqtt_Msg\<close> (\<^verbatim>\<open>mqtt_msg.c\<close>, \<^verbatim>\<open>mqtt_msg.h\<close>): every encoder and decoder. \<open>Mqtt_Msg_Codec\<close> shows what bytes the
    encoders produce, \<open>Mqtt_Msg_Decode\<close> the round trips and that the decoders stay inside their input.
  \<^item> \<open>Mqtt_Client\<close> (\<^verbatim>\<open>mqtt.c\<close>, \<^verbatim>\<open>mqtt.h\<close>): the client's state, every callback, the timer, the task and the
    public operations. \<open>Mqtt_Client_Inv\<close> has the invariant, \<open>Mqtt_Client_Props\<close> its preservation by every
    interleaving, publishing, sending, keep-alive and reconnecting, \<open>Mqtt_Client_Recv\<close> the delivery and
    acknowledgement of received packets.
  \<^item> \<open>Cbuff\<close>, \<open>Cbuff_Reg\<close> (\<^verbatim>\<open>cbuff.c\<close>): the operations on a buffer, and the registry of buffers.
  \<^item> \<open>Linked_List\<close> (\<^verbatim>\<open>linked_list.c\<close>): the operations over a heap of nodes refine those on a plain list.
  \<^item> \<open>Crc\<close> (\<^verbatim>\<open>crc.c\<close>): the tables compute the bitwise shift registers; byte errors are detected.
  \<^item> \<open>Base64\<close> (\<^verbatim>\<open>base64.c\<close>): decoding inverts encoding; the decoder stays inside the computed length.
  \<^item> \<open>Hw_Timer\<close> (\<^verbatim>\<open>hw_timer.c\<close>): the timer's state machine; its states are ordered as in C.
  \<^item> \<open>Onewire\<close> (\<^verbatim>\<open>onewire_nb.c\<close>, \<^verbatim>\<open>maxim28.h\<close>, one case of \<^verbatim>\<open>setup_event.c\<close>): the driver. \<open>Onewire_Inv\<close> shows that no
    array is left under any interleaving, \<open>Onewire_Wave\<close> the waveform of a written byte, \<open>Onewire_Read\<close>
    the bytes read, \<open>Onewire_Cycle\<close> the reset with its timeout, the evaluation of a reading and a whole
    measurement.
  \<^item> \<open>Rboot\<close> (\<^verbatim>\<open>rboot.c\<close>, \<^verbatim>\<open>rboot-stage2a.c\<close>, \<^verbatim>\<open>rboot.h\<close>): the boot loader. \<open>Rboot_Image\<close> states the documented behaviour
    of a flash chip (\<open>nor_flash\<close>) and shows what is accepted as an image and what is loaded,
    \<open>Rboot_Find\<close> which image is booted. \<open>Rboot_Api\<close> (\<^verbatim>\<open>rboot-api.c\<close>) models the application's side and shows
    that a selected image is the one booted, \<open>Rboot_Ota\<close> that a streamed image is stored unchanged.
  \<^item> \<open>Esptool2\<close> (\<^verbatim>\<open>esptool2.c\<close>, \<^verbatim>\<open>esptool2_elf.c\<close>, \<^verbatim>\<open>rconf_gen/main.c\<close>): reading ELF files, the three kinds of output, the
    options of the main program, and the generated configuration; what a run writes, and that it writes nothing else
    when it succeeds. \<open>Esptool2_Boot\<close> shows that the boot loader accepts and starts what the tools produce.
  \<^item> \<open>Rboot_Bigflash\<close> (\<^verbatim>\<open>rboot-bigflash.c\<close>): the application maps the megabyte of the image that was booted. The function of the
    boot ROM that sets the mapping is a parameter.
  \<^item> \<open>Flash_Access\<close> (\<^verbatim>\<open>common.c\<close>, \<^verbatim>\<open>platform.c\<close>, the hooks and the formatting in \<^verbatim>\<open>spiffs.c\<close>): access to any byte of the flash in
    words, equal to access byte by byte, and erasing. \<open>Flash_Api\<close> (\<^verbatim>\<open>flash_api.c\<close>): the header of the flash, on which the
    application and the boot loader agree, and the detection of the chip's size.
  \<^item> \<open>Flash_Fs\<close> (\<^verbatim>\<open>flash_fs.c\<close>): the list of files; it stays well formed whatever the file system does, and the checksum of
    an entry is that of the whole file.
  \<^item> \<open>Setup_Cli\<close> (\<^verbatim>\<open>uart.c\<close>, \<^verbatim>\<open>setup_cli.c\<close>): a heap block is the list of its bytes. The receive task posts the line
    received, and the in-place parser leaves the words of the command; a line that is too long jams the
    console. \<open>Setup_Console\<close> (\<^verbatim>\<open>setup_cli.c\<close>, \<^verbatim>\<open>setup_event.c\<close>): the commands and the event task, with the way of a
    switch command from the serial line to the boot loader.
  \<^item> \<open>Setup_Event\<close> (\<^verbatim>\<open>setup_event.c\<close>, \<^verbatim>\<open>setup_api.c\<close>, \<^verbatim>\<open>mqtt_setup/app.c\<close>): the supervision as a step relation with its
    invariant, the attempts to reconnect, and when the watchdog restarts the device.
  \<^item> \<open>Setup_App\<close> (\<^verbatim>\<open>setup/app.c\<close>, \<^verbatim>\<open>setup_api.c\<close>, \<^verbatim>\<open>mqtt_setup/app.c\<close>): initialisation and the use of the MQTT client; the CONNECT packet a
    device sends identifies it by its MAC address. \<open>Main_App\<close> (\<^verbatim>\<open>app_main\<close>): the handlers in which the main application
    differs, the invariant of its supervision, and the way of a console line into the MQTT queue.
  \<^item> \<open>User_Main\<close> (\<^verbatim>\<open>user_main.c\<close>): mounting and formatting at the start, which leaves images and calibration alone.
  \<^item> \<open>Ws2812\<close> (\<^verbatim>\<open>ws2812.c\<close>, \<^verbatim>\<open>driver_event.c\<close>): what the fade animation sends to the strip, frame by frame.
  \<^item> \<open>Netutil\<close> (\<^verbatim>\<open>netutil.c\<close>) and \<open>Bitwise_Utils\<close> (\<^verbatim>\<open>bitwise_utils.c\<close>): the statistics of a ping sequence, the effect of a
    lookup, and the bit utilities against their bitwise meaning.

  \<^bold>\<open>Properties that span components.\<close> The queue theorems compose ring buffer, framing and queue; the client
  theorems compose queue, encoder, decoder and client; the measurement theorem composes one-wire
  driver, checksum and event task; the selection theorem composes the API of the application with the
  boot loader through the flash, and the console theorem puts the serial line in front of it; the theorem
  on a flashed device composes the image builder, the generated configuration and the boot loader; the theorem on the
  mapping composes the boot loader, its configuration and the application; the theorem on the start composes \<^verbatim>\<open>user_main.c\<close> with
  formatting and flash access; the one on the identity of a device composes supervision, application and MQTT client,
  the one on the console of the main application parser, event task and MQTT client; the one on checksums of files
  composes the file list with \<open>Crc\<close>.

  \<^bold>\<open>Not modelled.\<close> lwIP with espconn, SPIFFS, jsmn and jsontree, the C library replacement and NaCl are
  third-party; SPIFFS is a parameter of the file list. The SPI and GPIO drivers, the transmitter of the UART, the LED and
  clock functions of the platform layer and the rest of the start-up code consist of register accesses and SDK calls; wifi provisioning (\<^verbatim>\<open>smart.c\<close>) is called by neither
  application and \<^verbatim>\<open>rtcfifo.h\<close> is not included by any source file. Branches that the configuration of the repository does
  not compile are left out: SSL in the MQTT client, RTC and GPIO selection in the boot loader, parasite power
  in the one-wire driver, SmartConfig in the event handler. Output to the debug console is not modelled. Files
  of \<^verbatim>\<open>app_main\<close> that are the text of the setup application with other names are not modelled a second time.
\<close>

end
